(* ===== verification/Prelude.thy ===== *)
theory Prelude
  imports Main "HOL-Library.AList" "HOL-Library.List_Lexorder" "HOL-Library.Char_ord"
    "HOL-Library.Product_Lexorder" "HOL-Library.Sublist"
begin

text \<open>
  Shared vocabulary of the development: the Python values the tools compute with, and the
  generic lemmas about them.

  Strings are \<open>char list\<close>, ordered by code point as Python orders them; a \<open>char\<close> stands for
  a code point below 256, which covers every name, version and capability repository metadata
  carries. Dictionaries are association lists in insertion order: \<open>map_of\<close> is \<open>d.get\<close>,
  \<open>AList.update\<close> is \<open>d[k] = v\<close> (in place when the key is there, at the end otherwise). A
  Python set built from a list is that list without duplicates where its elements are later
  listed, and a HOL set where only membership is asked.
\<close>

named_theorems py_simps \<open>unfolding and evaluation rules for the modelled string operations\<close>
named_theorems dict_simps \<open>lookup and key rules for dictionaries\<close>

type_synonym ('k, 'v) dict = "('k \<times> 'v) list"

section \<open>Strings\<close>

text \<open>\<open>str.isspace\<close> on code points below 256.\<close>

definition py_isspace :: "char \<Rightarrow> bool" where
  "py_isspace c = (let n = (of_char c :: nat) in
     (9 \<le> n \<and> n \<le> 13) \<or> (28 \<le> n \<and> n \<le> 32) \<or> n = 133 \<or> n = 160)"

definition rdrop_while :: "('a \<Rightarrow> bool) \<Rightarrow> 'a list \<Rightarrow> 'a list" where
  "rdrop_while p xs = rev (dropWhile p (rev xs))"

definition py_lstrip :: "string \<Rightarrow> string" where
  "py_lstrip s = dropWhile py_isspace s"

definition py_strip :: "string \<Rightarrow> string" where
  "py_strip s = rdrop_while py_isspace (dropWhile py_isspace s)"

definition py_startswith :: "string \<Rightarrow> string \<Rightarrow> bool" where
  "py_startswith s p = (take (length p) s = p)"

definition py_endswith :: "string \<Rightarrow> string \<Rightarrow> bool" where
  "py_endswith s p = (length p \<le> length s \<and> drop (length s - length p) s = p)"

text \<open>\<open>s.find(t)\<close>: the text before the first occurrence and the text after it.\<close>

fun py_cut :: "string \<Rightarrow> string \<Rightarrow> (string \<times> string) option" where
  "py_cut t [] = (if t = [] then Some ([], []) else None)"
| "py_cut t (c # s) =
     (if py_startswith (c # s) t then Some ([], drop (length t) (c # s))
      else map_option (\<lambda>(a, b). (c # a, b)) (py_cut t s))"

definition py_contains :: "string \<Rightarrow> string \<Rightarrow> bool" where
  "py_contains t s = (py_cut t s \<noteq> None)"

text \<open>\<open>s.partition(sep)\<close> for a one-character separator; the flag says whether it was there.\<close>

definition py_partition :: "char \<Rightarrow> string \<Rightarrow> string \<times> bool \<times> string" where
  "py_partition c s =
     (if c \<in> set s then (takeWhile (\<lambda>d. d \<noteq> c) s, True, tl (dropWhile (\<lambda>d. d \<noteq> c) s))
      else (s, False, []))"

text \<open>\<open>s.rsplit(c, n)\<close> for a one-character separator.\<close>

fun py_rsplit :: "char \<Rightarrow> nat \<Rightarrow> string \<Rightarrow> string list" where
  "py_rsplit c 0 s = [s]"
| "py_rsplit c (Suc n) s =
     (if c \<in> set s
      then py_rsplit c n (rev (tl (dropWhile (\<lambda>d. d \<noteq> c) (rev s))))
           @ [rev (takeWhile (\<lambda>d. d \<noteq> c) (rev s))]
      else [s])"

text \<open>\<open>s.split(c)\<close> for a one-character separator.\<close>

fun py_split :: "char \<Rightarrow> string \<Rightarrow> string list" where
  "py_split c [] = [[]]"
| "py_split c (d # s) =
     (if d = c then [] # py_split c s
      else (case py_split c s of [] \<Rightarrow> [[d]] | w # ws \<Rightarrow> (d # w) # ws))"

fun py_join :: "string \<Rightarrow> string list \<Rightarrow> string" where
  "py_join sep [] = []"
| "py_join sep [s] = s"
| "py_join sep (s # t # ss) = s @ sep @ py_join sep (t # ss)"

text \<open>Python's truth of an optional string: present and not empty.\<close>

definition truthy :: "string option \<Rightarrow> bool" where
  "truthy s = (case s of None \<Rightarrow> False | Some t \<Rightarrow> t \<noteq> [])"

text \<open>\<open>s or d\<close> for an optional string.\<close>

definition py_or :: "string option \<Rightarrow> string \<Rightarrow> string" where
  "py_or s d = (case s of None \<Rightarrow> d | Some t \<Rightarrow> if t = [] then d else t)"

text \<open>
  \<open>int(s)\<close> on ASCII text: optional surrounding white space, an optional sign, then decimal
  digits in which single underscores may separate digits. Anything else raises ValueError,
  here \<open>None\<close>.
\<close>

definition ascii_space :: "char \<Rightarrow> bool" where
  "ascii_space c = (let n = (of_char c :: nat) in (9 \<le> n \<and> n \<le> 13) \<or> n = 32)"

definition digit_value :: "char \<Rightarrow> int option" where
  "digit_value c = (let n = (of_char c :: nat) in
     if 48 \<le> n \<and> n \<le> 57 then Some (int (n - 48)) else None)"

fun py_digits :: "int \<Rightarrow> string \<Rightarrow> int option" where
  "py_digits acc [] = Some acc"
| "py_digits acc (c # s) =
     (if c = CHR ''_''
      then (case s of
              [] \<Rightarrow> None
            | d # s' \<Rightarrow> (case digit_value d of
                           None \<Rightarrow> None | Some v \<Rightarrow> py_digits (10 * acc + v) s'))
      else (case digit_value c of
              None \<Rightarrow> None | Some v \<Rightarrow> py_digits (10 * acc + v) s))"

definition py_nat_literal :: "string \<Rightarrow> int option" where
  "py_nat_literal s =
     (case s of [] \<Rightarrow> None
      | c # s' \<Rightarrow> (case digit_value c of None \<Rightarrow> None | Some v \<Rightarrow> py_digits v s'))"

definition py_int :: "string \<Rightarrow> int option" where
  "py_int s =
     (case rdrop_while ascii_space (dropWhile ascii_space s) of
        [] \<Rightarrow> None
      | c # s' \<Rightarrow>
          (if c = CHR ''+'' then py_nat_literal s'
           else if c = CHR ''-'' then map_option uminus (py_nat_literal s')
           else py_nat_literal (c # s')))"

section \<open>Sorted collections\<close>

text \<open>\<open>sorted(set(xs))\<close>.\<close>

definition sorted_set :: "'a::linorder list \<Rightarrow> 'a list" where
  "sorted_set xs = sort (remdups xs)"

lemma set_sorted_set [simp]: "set (sorted_set xs) = set xs"
  by (simp add: sorted_set_def)

lemma distinct_sorted_set [simp]: "distinct (sorted_set xs)"
  by (simp add: sorted_set_def)

lemma sorted_sorted_set [simp]: "sorted (sorted_set xs)"
  by (simp add: sorted_set_def)

text \<open>A sorted duplicate-free list is determined by its elements, whatever order they came in.\<close>

lemma sorted_set_cong: "set xs = set ys \<Longrightarrow> sorted_set xs = sorted_set ys"
  by (rule sorted_distinct_set_unique) simp_all

text \<open>Three-way comparison in a linear order, as the tools return it.\<close>

definition cmp_lin :: "'a::linorder \<Rightarrow> 'a \<Rightarrow> int" where
  "cmp_lin x y = (if x = y then 0 else if y < x then 1 else -1)"

lemma cmp_lin_self [simp]: "cmp_lin x x = 0"
  by (simp add: cmp_lin_def)

lemma cmp_lin_swap: "cmp_lin y x = - cmp_lin x y"
  by (auto simp: cmp_lin_def)

lemma cmp_lin_ge: "0 \<le> cmp_lin x y \<longleftrightarrow> y \<le> x"
  by (auto simp: cmp_lin_def)

lemma cmp_lin_gt: "0 < cmp_lin x y \<longleftrightarrow> y < x"
  by (auto simp: cmp_lin_def)

lemma cmp_lin_zero: "cmp_lin x y = 0 \<longleftrightarrow> x = y"
  by (auto simp: cmp_lin_def)

lemma cmp_lin_range: "cmp_lin x y \<in> {-1, 0, 1}"
  by (auto simp: cmp_lin_def)

lemma cmp_lin_Pair:
  "cmp_lin (a, b) (c, d) = (if a = c then cmp_lin b d else cmp_lin a c)"
  by (auto simp: cmp_lin_def less_prod_simp)

lemma cmp_lin_Cons:
  "cmp_lin (x # xs) (y # ys) = (if x = y then cmp_lin xs ys else cmp_lin x y)"
  by (auto simp: cmp_lin_def)

section \<open>Dictionaries\<close>

definition keys :: "('k, 'v) dict \<Rightarrow> 'k list" where
  "keys d = map fst d"

abbreviation dget :: "('k, 'v) dict \<Rightarrow> 'k \<Rightarrow> 'v option" where
  "dget d k \<equiv> map_of d k"

text \<open>\<open>d.get(k, default)\<close>.\<close>

definition dget_or :: "('k, 'v) dict \<Rightarrow> 'k \<Rightarrow> 'v \<Rightarrow> 'v" where
  "dget_or d k v = (case map_of d k of None \<Rightarrow> v | Some w \<Rightarrow> w)"

text \<open>\<open>d[k] = v\<close> and \<open>d.setdefault(k, v)\<close>.\<close>

abbreviation dset :: "'k \<Rightarrow> 'v \<Rightarrow> ('k, 'v) dict \<Rightarrow> ('k, 'v) dict" where
  "dset \<equiv> AList.update"

definition dsetdefault :: "'k \<Rightarrow> 'v \<Rightarrow> ('k, 'v) dict \<Rightarrow> ('k, 'v) dict" where
  "dsetdefault k v d = (case map_of d k of None \<Rightarrow> d @ [(k, v)] | Some _ \<Rightarrow> d)"

text \<open>\<open>d.setdefault(k, []).append(x)\<close>.\<close>

definition dappend :: "'k \<Rightarrow> 'v \<Rightarrow> ('k, 'v list) dict \<Rightarrow> ('k, 'v list) dict" where
  "dappend k x d = dset k (dget_or d k [] @ [x]) d"

lemma dget_dset [simp]: "dget (dset k v d) k' = (if k' = k then Some v else dget d k')"
  by (simp add: update_conv')

lemma dget_dsetdefault [dict_simps]:
  "dget (dsetdefault k v d) k' =
     (if k' = k \<and> dget d k = None then Some v else dget d k')"
  by (auto simp: dsetdefault_def map_add_def split: option.splits)

lemma dget_or_dappend [dict_simps]:
  "dget_or (dappend k x d) k' [] = (if k' = k then dget_or d k [] @ [x] else dget_or d k' [])"
  by (simp add: dappend_def dget_or_def)

lemma dget_dappend [dict_simps]:
  "dget (dappend k x d) k' = (if k' = k then Some (dget_or d k [] @ [x]) else dget d k')"
  by (simp add: dappend_def)

lemma distinct_keys_dset [simp]: "distinct (map fst d) \<Longrightarrow> distinct (map fst (dset k v d))"
  by (rule distinct_update)

lemma update_fresh: "dget d k = None \<Longrightarrow> dset k v d = d @ [(k, v)]"
  by (induction d) (auto split: if_splits)

lemma dget_in_set: "dget d k = Some v \<Longrightarrow> (k, v) \<in> set d"
  by (rule map_of_SomeD)

lemma dget_or_cases:
  assumes "x \<in> set (dget_or d k [])"
  obtains xs where "dget d k = Some xs" and "x \<in> set xs"
proof (cases "dget d k")
  case None
  with assms show ?thesis by (simp add: dget_or_def)
next
  case (Some xs)
  with assms have "x \<in> set xs" by (simp add: dget_or_def)
  with Some show ?thesis by (rule that)
qed

end
