(* ===== verification/VersionOrder.thy ===== *)
theory VersionOrder
  imports Prelude
begin

text \<open>
  The contract a version comparison offers to the code that picks the newer of two builds: a
  three-way comparison that is a total preorder. The clients are the newest-wins loops of the
  package merge and of the capability resolver, all of the shape

    \<open>if best is None or newer(x, best): best = x\<close>

  which \<open>fold_newest\<close> is. The locale proves once what such a loop returns.
\<close>

definition newest_step :: "('a \<Rightarrow> 'a \<Rightarrow> bool) \<Rightarrow> 'a option \<Rightarrow> 'a \<Rightarrow> 'a option" where
  "newest_step newer best x =
     (case best of None \<Rightarrow> Some x | Some b \<Rightarrow> if newer x b then Some x else Some b)"

definition fold_newest :: "('a \<Rightarrow> 'a \<Rightarrow> bool) \<Rightarrow> 'a list \<Rightarrow> 'a option" where
  "fold_newest newer xs = foldl (newest_step newer) None xs"

lemma fold_newest_Nil [simp]: "fold_newest newer [] = None"
  by (simp add: fold_newest_def)

lemma fold_newest_snoc:
  "fold_newest newer (xs @ [x]) = newest_step newer (fold_newest newer xs) x"
  by (simp add: fold_newest_def)

lemma newest_step_not_None [simp]: "newest_step newer b x \<noteq> None"
  by (simp add: newest_step_def split: option.split)

lemma fold_newest_None [simp]: "fold_newest newer xs = None \<longleftrightarrow> xs = []"
  by (induction xs rule: rev_induct) (simp_all add: fold_newest_snoc)

lemma fold_newest_in_set: "fold_newest newer xs = Some b \<Longrightarrow> b \<in> set xs"
proof (induction xs arbitrary: b rule: rev_induct)
  case (snoc x xs)
  then show ?case
    by (auto simp: fold_newest_snoc newest_step_def split: option.splits if_splits)
qed simp

locale version_order =
  fixes cmp :: "'a \<Rightarrow> 'a \<Rightarrow> int"
  assumes cmp_self: "cmp x x = 0"
    and cmp_swap: "cmp y x = - cmp x y"
    and cmp_trans: "0 \<le> cmp x y \<Longrightarrow> 0 \<le> cmp y z \<Longrightarrow> 0 \<le> cmp x z"
begin

lemma cmp_total: "0 \<le> cmp x y \<or> 0 \<le> cmp y x"
  using cmp_swap [of x y] by linarith

lemma cmp_strict_trans: "0 < cmp x y \<Longrightarrow> 0 \<le> cmp y z \<Longrightarrow> 0 < cmp x z"
  using cmp_trans [of x y z] cmp_trans [of y z x] cmp_swap [of x y] cmp_swap [of x z]
  by linarith

lemma cmp_trans_strict: "0 \<le> cmp x y \<Longrightarrow> 0 < cmp y z \<Longrightarrow> 0 < cmp x z"
  using cmp_trans [of x y z] cmp_trans [of z x y] cmp_swap [of y z] cmp_swap [of x z]
  by linarith

lemma not_newer_both: "0 < cmp x y \<Longrightarrow> \<not> 0 < cmp y x"
  using cmp_swap [of x y] by linarith

text \<open>The loop keeps an element that none of the others is newer than.\<close>

lemma fold_newest_max:
  assumes "fold_newest (\<lambda>x y. 0 < cmp x y) xs = Some b" and "x \<in> set xs"
  shows "0 \<le> cmp b x"
  using assms
proof (induction xs arbitrary: b x rule: rev_induct)
  case Nil
  then show ?case by simp
next
  case (snoc y ys)
  show ?case
  proof (cases "fold_newest (\<lambda>x y. 0 < cmp x y) ys")
    case None
    with snoc.prems show ?thesis by (simp add: fold_newest_snoc newest_step_def cmp_self)
  next
    case (Some a)
    have old: "\<And>z. z \<in> set ys \<Longrightarrow> 0 \<le> cmp a z" by (rule snoc.IH [OF Some])
    show ?thesis
    proof (cases "0 < cmp y a")
      case True
      with snoc.prems Some have "b = y" by (simp add: fold_newest_snoc newest_step_def)
      with snoc.prems old True show ?thesis using cmp_trans [of y a x] cmp_self [of y] by auto
    next
      case False
      with snoc.prems Some have "b = a" by (simp add: fold_newest_snoc newest_step_def)
      with snoc.prems old False show ?thesis using cmp_swap [of a y] by auto
    qed
  qed
qed

text \<open>
  The order of the candidates settles exact ties only: two runs over the same candidates in
  different orders keep builds that compare equal.
\<close>

lemma fold_newest_order:
  assumes "fold_newest (\<lambda>x y. 0 < cmp x y) xs = Some b"
    and "fold_newest (\<lambda>x y. 0 < cmp x y) ys = Some c" and "set xs = set ys"
  shows "cmp b c = 0"
proof -
  have "0 \<le> cmp b c" using fold_newest_max [OF assms(1)] fold_newest_in_set [OF assms(2)] assms(3)
    by blast
  moreover have "0 \<le> cmp c b"
    using fold_newest_max [OF assms(2)] fold_newest_in_set [OF assms(1)] assms(3) by blast
  ultimately show ?thesis using cmp_swap [of b c] by linarith
qed

end

text \<open>Records are compared by a key; the order on the keys gives the order on the records.\<close>

locale keyed_version_order = version_order cmp for cmp :: "'a \<Rightarrow> 'a \<Rightarrow> int" +
  fixes key :: "'b \<Rightarrow> 'a"
begin

lemma keyed_self: "cmp (key x) (key x) = 0"
  by (rule cmp_self)

end

sublocale keyed_version_order \<subseteq> keyed: version_order "\<lambda>x y. cmp (key x) (key y)"
  by unfold_locales (auto simp: cmp_self intro: cmp_swap cmp_trans)

end
