(* ===== verification/RpmVerCmp.thy ===== *)
theory RpmVerCmp
  imports VersionOrder
begin

text \<open>
  The version comparison of \<^verbatim>\<open>tools/rpmvercmp.py\<close>. The scanning loop is kept as the source
  writes it, on the suffixes \<open>one[i:]\<close> and \<open>two[j:]\<close>; the reference it is proved equal to is
  the lexicographic order on a version's token keys, from which the order laws follow.
\<close>

section \<open>The segment engine\<close>

definition is_digit :: "char \<Rightarrow> bool" where
  "is_digit c = (CHR ''0'' \<le> c \<and> c \<le> CHR ''9'')"

definition is_alpha :: "char \<Rightarrow> bool" where
  "is_alpha c = ((CHR ''a'' \<le> c \<and> c \<le> CHR ''z'') \<or> (CHR ''A'' \<le> c \<and> c \<le> CHR ''Z''))"

definition is_alnum :: "char \<Rightarrow> bool" where
  "is_alnum c = (is_digit c \<or> is_alpha c)"

lemma digit_not_alpha: "is_digit c \<Longrightarrow> \<not> is_alpha c"
proof -
  have "CHR ''9'' < CHR ''a''" "CHR ''9'' < CHR ''A''" by simp_all
  then show "is_digit c \<Longrightarrow> \<not> is_alpha c"
    unfolding is_digit_def is_alpha_def by (meson leD le_less_trans)
qed

definition is_separator :: "char \<Rightarrow> bool" where
  "is_separator c = (\<not> is_alnum c \<and> c \<noteq> CHR ''~'' \<and> c \<noteq> CHR ''^'')"

definition starts :: "char \<Rightarrow> string \<Rightarrow> bool" where
  "starts c s = (case s of [] \<Rightarrow> False | d # _ \<Rightarrow> d = c)"

text \<open>What the code returns after its loop, from what is left of both sides.\<close>

definition settle :: "string \<Rightarrow> string \<Rightarrow> int" where
  "settle one two =
     (if one = [] \<and> two = [] then 0 else if one = [] then -1 else 1)"

text \<open>The comparison of two segments of one kind; \<open>None\<close> lets the loop go on.\<close>

definition segment_cmp :: "bool \<Rightarrow> string \<Rightarrow> string \<Rightarrow> int option" where
  "segment_cmp numeric seg_one seg_two =
     (let s1 = (if numeric then dropWhile (\<lambda>c. c = CHR ''0'') seg_one else seg_one);
          s2 = (if numeric then dropWhile (\<lambda>c. c = CHR ''0'') seg_two else seg_two)
      in if numeric \<and> length s1 \<noteq> length s2
         then Some (if length s2 < length s1 then 1 else -1)
         else if s1 \<noteq> s2 then Some (if s2 < s1 then 1 else -1)
         else None)"

lemma dropWhile_shorter: "takeWhile p xs \<noteq> [] \<Longrightarrow> length (dropWhile p xs) < length xs"
  by (cases xs) (auto simp: length_dropWhile_le less_Suc_eq_le split: if_splits)

lemma tl_dropWhile_shorter: "dropWhile p xs \<noteq> [] \<Longrightarrow> length (tl (dropWhile p xs)) < length xs"
  using length_dropWhile_le [of p xs] by (cases "dropWhile p xs") auto

lemma tl_dropWhile_le: "length (tl (dropWhile p xs)) \<le> length xs"
  using length_dropWhile_le [of p xs] by simp

lemma starts_Nil [simp]: "\<not> starts c []"
  by (simp add: starts_def)

lemma starts_Cons [simp]: "starts c (d # s) = (d = c)"
  by (simp add: starts_def)

lemma starts_not_Nil: "starts c s \<Longrightarrow> s \<noteq> []"
  by auto

function rpmvercmp_loop :: "string \<Rightarrow> string \<Rightarrow> int" where
  "rpmvercmp_loop one0 two0 =
     (if one0 = [] \<and> two0 = [] then settle one0 two0
      else
        let one = dropWhile is_separator one0; two = dropWhile is_separator two0 in
        if starts CHR ''~'' one \<or> starts CHR ''~'' two then
          if \<not> starts CHR ''~'' one then 1
          else if \<not> starts CHR ''~'' two then -1
          else rpmvercmp_loop (tl one) (tl two)
        else if starts CHR ''^'' one \<or> starts CHR ''^'' two then
          if one = [] then -1
          else if two = [] then 1
          else if \<not> starts CHR ''^'' one then 1
          else if \<not> starts CHR ''^'' two then -1
          else rpmvercmp_loop (tl one) (tl two)
        else if one = [] \<or> two = [] then settle one two
        else
          let numeric = is_digit (hd one);
              run = (if numeric then is_digit else is_alpha);
              seg_one = takeWhile run one; seg_two = takeWhile run two
          in if seg_two = [] then (if numeric then 1 else -1)
             else case segment_cmp numeric seg_one seg_two of
                    Some r \<Rightarrow> r
                  | None \<Rightarrow> rpmvercmp_loop (dropWhile run one) (dropWhile run two))"
  by pat_completeness auto
termination
proof (relation "measure (\<lambda>(one, two). length one + length two)", goal_cases)
  case 1 show ?case by simp
next
  case (2 one0 two0 one two)
  then have "length (tl one) < length one0"
    using tl_dropWhile_shorter starts_not_Nil by blast
  moreover have "length (tl two) \<le> length two0" using 2 tl_dropWhile_le by blast
  ultimately show ?case by simp
next
  case (3 one0 two0 one two)
  then have "length (tl one) < length one0"
    using tl_dropWhile_shorter by blast
  moreover have "length (tl two) \<le> length two0" using 3 tl_dropWhile_le by blast
  ultimately show ?case by simp
next
  case (4 one0 two0 one two numeric run seg_one seg_two)
  have "length (dropWhile run two) < length two0"
    using 4 dropWhile_shorter [of run two] length_dropWhile_le [of is_separator two0] by simp
  moreover have "length (dropWhile run one) \<le> length one0"
    using 4 length_dropWhile_le [of is_separator one0] length_dropWhile_le [of run one] by simp
  ultimately show ?case by simp
qed

declare rpmvercmp_loop.simps [simp del]

definition rpmvercmp :: "string \<Rightarrow> string \<Rightarrow> int" where
  "rpmvercmp one two = (if one = two then 0 else rpmvercmp_loop one two)"

section \<open>The reference order: token keys\<close>

lemma head_not_separator: "dropWhile is_separator s = c # s' \<Longrightarrow> \<not> is_separator c"
  using hd_dropWhile [of is_separator s] by simp

lemma alpha_head:
  assumes "dropWhile is_separator s = c # s'" and "c \<noteq> CHR ''~''" and "c \<noteq> CHR ''^''"
    and "\<not> is_digit c"
  shows "is_alpha c"
  using head_not_separator [OF assms(1)] assms(2-) by (simp add: is_separator_def is_alnum_def)

text \<open>
  A version read as tokens: tilde, caret, alphabetic runs and digit runs with their leading
  zeros dropped. Separators leave no token.
\<close>

datatype vtoken = TTilde | TCaret | TAlpha string | TNum string

function tokens :: "string \<Rightarrow> vtoken list" where
  "tokens s0 =
     (let s = dropWhile is_separator s0 in
      if s = [] then []
      else if hd s = CHR ''~'' then TTilde # tokens (tl s)
      else if hd s = CHR ''^'' then TCaret # tokens (tl s)
      else if is_digit (hd s)
      then TNum (dropWhile (\<lambda>c. c = CHR ''0'') (takeWhile is_digit s))
             # tokens (dropWhile is_digit s)
      else TAlpha (takeWhile is_alpha s) # tokens (dropWhile is_alpha s))"
  by pat_completeness auto
termination
proof (relation "measure length", goal_cases)
  case 1 show ?case by simp
next
  case (2 s0 s) then show ?case using tl_dropWhile_shorter by simp
next
  case (3 s0 s) then show ?case using tl_dropWhile_shorter by simp
next
  case (4 s0 s)
  then have "takeWhile is_digit s \<noteq> []" by (metis list.sel(1) neq_Nil_conv takeWhile.simps(2))
  then have "length (dropWhile is_digit s) < length s" by (rule dropWhile_shorter)
  then show ?case using 4 length_dropWhile_le [of is_separator s0] by simp
next
  case (5 s0 s)
  then have "takeWhile is_alpha s \<noteq> []"
    using alpha_head [of s0 "hd s" "tl s"]
    by (metis hd_Cons_tl list.distinct(1) takeWhile.simps(2))
  then have "length (dropWhile is_alpha s) < length s" by (rule dropWhile_shorter)
  then show ?case using 5 length_dropWhile_le [of is_separator s0] by simp
qed

declare tokens.simps [simp del]

text \<open>
  A token's rank: tilde before the end of the version, the end before a caret, a caret before
  a letter run, letters before digits; digit runs by length before content.
\<close>

type_synonym token_key = "nat \<times> nat \<times> string"

fun token_key :: "vtoken \<Rightarrow> token_key" where
  "token_key TTilde = (0, 0, [])"
| "token_key TCaret = (2, 0, [])"
| "token_key (TAlpha s) = (3, 0, s)"
| "token_key (TNum s) = (4, length s, s)"

definition end_key :: token_key where
  "end_key = (1, 0, [])"

definition version_key :: "string \<Rightarrow> token_key list" where
  "version_key s = map token_key (tokens s) @ [end_key]"

lemma version_key_Nil:
  "dropWhile is_separator s = [] \<Longrightarrow> version_key s = [end_key]"
  by (simp add: version_key_def tokens.simps [of s])

lemma version_key_tilde:
  "dropWhile is_separator s = CHR ''~'' # t \<Longrightarrow> version_key s = (0, 0, []) # version_key t"
  by (simp add: version_key_def tokens.simps [of s])

lemma version_key_caret:
  "dropWhile is_separator s = CHR ''^'' # t \<Longrightarrow> version_key s = (2, 0, []) # version_key t"
  by (simp add: version_key_def tokens.simps [of s])

lemma version_key_digit:
  assumes "dropWhile is_separator s = c # t" and "is_digit c"
  shows "version_key s =
    (let n = dropWhile (\<lambda>c. c = CHR ''0'') (takeWhile is_digit (c # t))
     in (4, length n, n) # version_key (dropWhile is_digit (c # t)))"
proof -
  have "c \<noteq> CHR ''~''" "c \<noteq> CHR ''^''" using assms(2) by (auto simp: is_digit_def)
  with assms show ?thesis by (simp add: version_key_def tokens.simps [of s] Let_def)
qed

lemma version_key_alpha:
  assumes "dropWhile is_separator s = c # t" and "is_alpha c"
  shows "version_key s = (3, 0, takeWhile is_alpha (c # t)) # version_key (dropWhile is_alpha (c # t))"
proof -
  have "c \<noteq> CHR ''~''" "c \<noteq> CHR ''^''" "\<not> is_digit c"
    using assms(2) digit_not_alpha by (auto simp: is_alpha_def)
  with assms show ?thesis by (simp add: version_key_def tokens.simps [of s] Let_def)
qed

text \<open>The five shapes of what is left after the separators, with the key each one has.\<close>

lemma version_shape:
  obtains "dropWhile is_separator s = []" "version_key s = [end_key]"
  | t where "dropWhile is_separator s = CHR ''~'' # t" "version_key s = (0, 0, []) # version_key t"
  | t where "dropWhile is_separator s = CHR ''^'' # t" "version_key s = (2, 0, []) # version_key t"
  | c t n where "dropWhile is_separator s = c # t" "is_digit c" "c \<noteq> CHR ''~''" "c \<noteq> CHR ''^''"
      "\<not> is_alpha c" "n = dropWhile (\<lambda>c. c = CHR ''0'') (takeWhile is_digit (c # t))"
      "version_key s = (4, length n, n) # version_key (dropWhile is_digit (c # t))"
  | c t where "dropWhile is_separator s = c # t" "is_alpha c" "c \<noteq> CHR ''~''" "c \<noteq> CHR ''^''"
      "\<not> is_digit c"
      "version_key s = (3, 0, takeWhile is_alpha (c # t)) # version_key (dropWhile is_alpha (c # t))"
proof (cases "dropWhile is_separator s")
  case Nil
  then show ?thesis using that(1) version_key_Nil by blast
next
  case (Cons c t)
  consider "c = CHR ''~''" | "c = CHR ''^''" | "is_digit c" | "is_alpha c"
    using alpha_head [OF Cons] by blast
  then show ?thesis
  proof cases
    case 1 then show ?thesis using that(2) Cons version_key_tilde by blast
  next
    case 2 then show ?thesis using that(3) Cons version_key_caret by blast
  next
    case 3
    then have "c \<noteq> CHR ''~''" "c \<noteq> CHR ''^''" "\<not> is_alpha c"
      using digit_not_alpha by (auto simp: is_digit_def)
    with 3 Cons version_key_digit [OF Cons 3] show ?thesis using that(4) by (simp add: Let_def)
  next
    case 4
    then have "c \<noteq> CHR ''~''" "c \<noteq> CHR ''^''" "\<not> is_digit c"
      using digit_not_alpha by (auto simp: is_alpha_def)
    with 4 Cons version_key_alpha [OF Cons 4] show ?thesis using that(5) by blast
  qed
qed

lemma segment_cmp_key_num:
  assumes "n1 = dropWhile (\<lambda>c. c = CHR ''0'') a" and "n2 = dropWhile (\<lambda>c. c = CHR ''0'') b"
  shows "(case segment_cmp True a b of Some r \<Rightarrow> r | None \<Rightarrow> cmp_lin ks ls)
    = cmp_lin ((4::nat, length n1, n1) # ks) ((4, length n2, n2) # ls)"
  using assms by (auto simp: segment_cmp_def cmp_lin_Cons cmp_lin_Pair cmp_lin_def Let_def)

lemma segment_cmp_key_alpha:
  "(case segment_cmp False a b of Some r \<Rightarrow> r | None \<Rightarrow> cmp_lin ks ls)
    = cmp_lin ((3::nat, 0::nat, a) # ks) ((3, 0, b) # ls)"
  by (auto simp: segment_cmp_def cmp_lin_Cons cmp_lin_Pair cmp_lin_def)

lemma rpmvercmp_loop_key: "rpmvercmp_loop a b = cmp_lin (version_key a) (version_key b)"
proof (induction a b rule: rpmvercmp_loop.induct)
  case (1 a b)
  note unfold = rpmvercmp_loop.simps [of a b] cmp_lin_Cons cmp_lin_Pair end_key_def settle_def
    Let_def
  note small = cmp_lin_def [of "_ :: nat"]
  show ?case
  proof (cases a rule: version_shape)
    case a1: 1
    then show ?thesis
      by (cases b rule: version_shape) (auto simp: unfold small simp del: dropWhile_eq_Nil_conv)
  next
    case a2: (2 s)
    then have ne: "a \<noteq> []" by auto
    show ?thesis
    proof (cases b rule: version_shape)
      case (2 t)
      with a2 ne "1.IH"(1) show ?thesis by (simp add: unfold)
    qed (use a2 ne in \<open>simp_all add: unfold small del: dropWhile_eq_Nil_conv\<close>)
  next
    case a3: (3 s)
    then have ne: "a \<noteq> []" by auto
    show ?thesis
    proof (cases b rule: version_shape)
      case (3 t)
      with a3 ne "1.IH"(2) show ?thesis by (simp add: unfold)
    qed (use a3 ne in \<open>simp_all add: unfold small del: dropWhile_eq_Nil_conv\<close>)
  next
    case a4: (4 c s n)
    then have ne: "a \<noteq> []" by auto
    show ?thesis
    proof (cases b rule: version_shape)
      case (4 d t m)
      have run: "takeWhile is_digit (d # t) \<noteq> []" using 4 by simp
      have IH: "rpmvercmp_loop (dropWhile is_digit (c # s)) (dropWhile is_digit (d # t))
        = cmp_lin (version_key (dropWhile is_digit (c # s))) (version_key (dropWhile is_digit (d # t)))"
        if "segment_cmp True (takeWhile is_digit (c # s)) (takeWhile is_digit (d # t)) = None"
        using "1.IH"(3) [OF _ refl refl _ _ _ refl refl refl refl] run that a4 4 ne by simp
      have "rpmvercmp_loop a b =
        (case segment_cmp True (takeWhile is_digit (c # s)) (takeWhile is_digit (d # t)) of
           Some r \<Rightarrow> r
         | None \<Rightarrow> rpmvercmp_loop (dropWhile is_digit (c # s)) (dropWhile is_digit (d # t)))"
        using a4 4 ne run by (simp add: unfold)
      also have "\<dots> = cmp_lin (version_key a) (version_key b)"
        unfolding a4(7) 4(7)
        by (subst segment_cmp_key_num [OF a4(6) 4(6), symmetric])
           (use IH in \<open>auto split: option.split\<close>)
      finally show ?thesis .
    qed (use a4 ne in \<open>simp_all add: unfold small del: dropWhile_eq_Nil_conv\<close>)
  next
    case a5: (5 c s)
    then have ne: "a \<noteq> []" by auto
    show ?thesis
    proof (cases b rule: version_shape)
      case (5 d t)
      have run: "takeWhile is_alpha (d # t) \<noteq> []" using 5 by simp
      have IH: "rpmvercmp_loop (dropWhile is_alpha (c # s)) (dropWhile is_alpha (d # t))
        = cmp_lin (version_key (dropWhile is_alpha (c # s))) (version_key (dropWhile is_alpha (d # t)))"
        if "segment_cmp False (takeWhile is_alpha (c # s)) (takeWhile is_alpha (d # t)) = None"
        using "1.IH"(3) [OF _ refl refl _ _ _ refl refl refl refl] run that a5 5 ne by simp
      have "rpmvercmp_loop a b =
        (case segment_cmp False (takeWhile is_alpha (c # s)) (takeWhile is_alpha (d # t)) of
           Some r \<Rightarrow> r
         | None \<Rightarrow> rpmvercmp_loop (dropWhile is_alpha (c # s)) (dropWhile is_alpha (d # t)))"
        using a5 5 ne run by (simp add: unfold)
      also have "\<dots> = cmp_lin (version_key a) (version_key b)"
        unfolding a5(6) 5(6)
        by (subst segment_cmp_key_alpha [symmetric]) (use IH in \<open>auto split: option.split\<close>)
      finally show ?thesis .
    qed (use a5 ne in \<open>simp_all add: unfold small del: dropWhile_eq_Nil_conv\<close>)
  qed
qed

lemma rpmvercmp_key: "rpmvercmp a b = cmp_lin (version_key a) (version_key b)"
  by (simp add: rpmvercmp_def rpmvercmp_loop_key)

section \<open>What a version's text contributes\<close>

lemma inj_token_key: "token_key s = token_key t \<Longrightarrow> s = t"
  by (cases s; cases t) auto

lemma map_token_key_inj: "map token_key xs = map token_key ys \<Longrightarrow> xs = ys"
proof (induction xs arbitrary: ys)
  case (Cons x xs)
  then show ?case by (cases ys) (auto dest: inj_token_key)
qed simp

text \<open>
  Two version strings compare equal exactly when they read as the same tokens: separators
  and leading zeros carry no weight, and nothing else is ignored.
\<close>

theorem rpmvercmp_equal_iff: "rpmvercmp a b = 0 \<longleftrightarrow> tokens a = tokens b"
  by (auto simp: rpmvercmp_key cmp_lin_zero version_key_def dest: map_token_key_inj)

lemma takeWhile_append_stop: "\<not> p c \<Longrightarrow> takeWhile p (xs @ c # ys) = takeWhile p xs"
  by (induction xs) auto

lemma dropWhile_append_stop: "\<not> p c \<Longrightarrow> dropWhile p (xs @ c # ys) = dropWhile p xs @ c # ys"
  by (induction xs) auto

text \<open>Cutting a version before an operator cuts its tokens.\<close>

lemma tokens_append_op:
  assumes "c = CHR ''~'' \<or> c = CHR ''^''"
  shows "tokens (v @ c # s) = tokens v @ tokens (c # s)"
proof (induction v rule: tokens.induct)
  case (1 v)
  have stop: "\<not> is_separator c" "\<not> is_digit c" "\<not> is_alpha c"
    using assms by (auto simp: is_separator_def is_digit_def is_alpha_def)
  let ?v = "dropWhile is_separator v"
  have drop: "dropWhile is_separator (v @ c # s) = ?v @ c # s"
    using stop(1) by (rule dropWhile_append_stop)
  show ?case
  proof (cases ?v)
    case Nil
    then have "tokens v = []" by (simp add: tokens.simps [of v])
    moreover have "tokens (v @ c # s) = tokens (c # s)"
      using Nil drop stop by (simp add: tokens.simps [of "v @ c # s"] tokens.simps [of "c # s"] Let_def)
    ultimately show ?thesis by simp
  next
    case (Cons d t)
    then show ?thesis
      using 1 [OF refl] drop stop
      by (auto simp: tokens.simps [of v] tokens.simps [of "v @ c # s"] Let_def
          takeWhile_append_stop dropWhile_append_stop split: if_splits)
  qed
qed

lemma version_key_append_op:
  assumes "c = CHR ''~'' \<or> c = CHR ''^''"
  shows "version_key (v @ c # s) = map token_key (tokens v) @ version_key (c # s)"
  using tokens_append_op [OF assms] by (simp add: version_key_def)

lemma version_key_op:
  "version_key (CHR ''~'' # s) = (0, 0, []) # version_key s"
  "version_key (CHR ''^'' # s) = (2, 0, []) # version_key s"
  by (auto intro!: version_key_tilde version_key_caret
      simp: is_separator_def)

lemma cmp_lin_append: "cmp_lin (ks @ xs) (ks @ ys) = cmp_lin xs ys" for xs ys :: "'a::linorder list"
  by (induction ks) (simp_all add: cmp_lin_Cons)

lemma tilde_is_older: "rpmvercmp (v @ CHR ''~'' # s) v = -1"
proof -
  have "rpmvercmp (v @ CHR ''~'' # s) v
    = cmp_lin ((0, 0, []) # version_key s) [end_key]"
    unfolding rpmvercmp_key version_key_append_op [OF disjI1 [OF refl]]
    by (simp add: version_key_def [of v] cmp_lin_append version_key_op)
  then show ?thesis by (simp add: cmp_lin_Cons cmp_lin_Pair end_key_def cmp_lin_def)
qed

lemma caret_is_newer: "rpmvercmp (v @ CHR ''^'' # s) v = 1"
proof -
  have "rpmvercmp (v @ CHR ''^'' # s) v
    = cmp_lin ((2, 0, []) # version_key s) [end_key]"
    unfolding rpmvercmp_key version_key_append_op [OF disjI2 [OF refl]]
    by (simp add: version_key_def [of v] cmp_lin_append version_key_op)
  then show ?thesis by (simp add: cmp_lin_Cons cmp_lin_Pair end_key_def cmp_lin_def)
qed

section \<open>Epoch, version, release\<close>

type_synonym evr = "string option \<times> string option \<times> string option"

definition epoch_int :: "string option \<Rightarrow> int" where
  "epoch_int epoch =
     (if epoch = None \<or> epoch = Some [] \<or> epoch = Some ''(none)'' then 0
      else case py_int (the epoch) of Some n \<Rightarrow> n | None \<Rightarrow> 0)"

fun compare_evr :: "evr \<Rightarrow> evr \<Rightarrow> int" where
  "compare_evr (e1, v1, r1) (e2, v2, r2) =
     (let epoch_one = epoch_int e1; epoch_two = epoch_int e2 in
      if epoch_one \<noteq> epoch_two then (if epoch_two < epoch_one then 1 else -1)
      else
        let result = rpmvercmp (py_or v1 []) (py_or v2 []) in
        if result \<noteq> 0 then result
        else rpmvercmp (py_or r1 []) (py_or r2 []))"

definition evr_key :: "evr \<Rightarrow> int \<times> token_key list \<times> token_key list" where
  "evr_key x = (case x of (e, v, r) \<Rightarrow>
     (epoch_int e, version_key (py_or v []), version_key (py_or r [])))"

lemma compare_evr_key: "compare_evr x y = cmp_lin (evr_key x) (evr_key y)"
  by (cases x; cases y)
     (auto simp: evr_key_def cmp_lin_Pair rpmvercmp_key cmp_lin_zero Let_def cmp_lin_def)

interpretation rpm: version_order rpmvercmp
  by unfold_locales (auto simp: rpmvercmp_key cmp_lin_ge intro: cmp_lin_swap order_trans)

interpretation evr: version_order compare_evr
  by unfold_locales (auto simp: compare_evr_key cmp_lin_ge intro: cmp_lin_swap order_trans)

section \<open>Properties\<close>

text \<open>
  C5: The index-pushing comparison loop computes a lexicographic comparison of two token
  sequences under one fixed linear order of tokens (tilde, then the end of the string, then
  caret, then alphabetic runs, then numeric runs by length and digits).
\<close>

theorem rpmvercmp_reference: "rpmvercmp a b = cmp_lin (version_key a) (version_key b)"
  by (rule rpmvercmp_key)

text \<open>
  The exact-match exit is an optimisation only: without it the loop returns the same result
  on every pair of strings, the ones made of separators included.
\<close>

theorem early_exit_redundant: "rpmvercmp a b = rpmvercmp_loop a b"
  by (simp add: rpmvercmp_key rpmvercmp_loop_key)

text \<open>
  Appending a tilde and anything to a version makes it older than the version itself, and
  appending a caret and anything makes it newer.
\<close>

theorem tilde_and_caret:
  "rpmvercmp (v @ CHR ''~'' # s) v = -1 \<and> rpmvercmp (v @ CHR ''^'' # s) v = 1"
  by (simp add: tilde_is_older caret_is_newer)

text \<open>
  C8: Comparing epoch, version and release triples is a total preorder: reflexive, antisymmetric
  under exchange and transitive, so "the newest of several builds" is well defined and does not
  depend on the order in which they are compared.
\<close>

theorem compare_evr_total_preorder:
  "compare_evr x x = 0 \<and> compare_evr y x = - compare_evr x y
   \<and> (0 \<le> compare_evr x y \<longrightarrow> 0 \<le> compare_evr y z \<longrightarrow> 0 \<le> compare_evr x z)"
  using evr.cmp_self evr.cmp_swap evr.cmp_trans by blast

theorem compare_evr_total_preorder_witness:
  "0 \<le> compare_evr (Some ''1'', Some ''1.0'', None) (None, Some ''2.0~rc1'', Some ''1.fc43'')"
  using compare_evr_total_preorder [of "(None, Some ''2.0'', Some ''1.fc43'')"
      "(Some ''1'', Some ''1.0'', None)" "(None, Some ''2.0~rc1'', Some ''1.fc43'')"]
    compare_evr_total_preorder [of "(Some ''1'', Some ''1.0'', None)"
      "(None, Some ''2.0'', Some ''1.fc43'')" "(None, Some ''2.0~rc1'', Some ''1.fc43'')"]
  by code_simp

end
