(* ===== verification/Capability.thy ===== *)
theory Capability
  imports RpmVerCmp
begin

text \<open>
  Capability strings and version constraints: the first part of \<^verbatim>\<open>tools/depgraph.py\<close>
  (\<^verbatim>\<open>split_constraint\<close>, \<^verbatim>\<open>_evr_parts\<close>, \<^verbatim>\<open>satisfies_constraint\<close>,
  \<^verbatim>\<open>_any_version_satisfies\<close>, \<^verbatim>\<open>strip_capability_version\<close>, \<^verbatim>\<open>is_rich_dep\<close>).
\<close>

datatype cmp_op = GE | LE | EQ | GT | LT

fun op_text :: "cmp_op \<Rightarrow> string" where
  "op_text GE = ''>=''"
| "op_text LE = ''<=''"
| "op_text EQ = ''=''"
| "op_text GT = ''>''"
| "op_text LT = ''<''"

text \<open>The order in which the code looks for the operators.\<close>

definition op_order :: "cmp_op list" where
  "op_order = [GE, LE, EQ, GT, LT]"

definition is_rich_dep :: "string \<Rightarrow> bool" where
  "is_rich_dep capability = py_startswith (py_lstrip capability) ''(''"

fun split_at_op :: "cmp_op list \<Rightarrow> string \<Rightarrow> string \<times> (cmp_op \<times> string) option" where
  "split_at_op [] capability = (py_strip capability, None)"
| "split_at_op (op # ops) capability =
     (case py_cut ('' '' @ op_text op @ '' '') capability of
        Some (name, rest) \<Rightarrow> (py_strip name, Some (op, py_strip rest))
      | None \<Rightarrow> split_at_op ops capability)"

definition split_constraint :: "string \<Rightarrow> string \<times> (cmp_op \<times> string) option" where
  "split_constraint capability =
     (if is_rich_dep capability then (py_strip capability, None)
      else split_at_op op_order capability)"

fun strip_at_op :: "cmp_op list \<Rightarrow> string \<Rightarrow> string" where
  "strip_at_op [] capability = py_strip capability"
| "strip_at_op (op # ops) capability =
     (case py_cut ('' '' @ op_text op @ '' '') capability of
        Some (name, _) \<Rightarrow> py_strip name
      | None \<Rightarrow> strip_at_op ops capability)"

definition strip_capability_version :: "string \<Rightarrow> string" where
  "strip_capability_version capability =
     (if is_rich_dep capability then py_strip capability
      else strip_at_op op_order capability)"

definition evr_parts :: "string \<Rightarrow> evr" where
  "evr_parts text =
     (let (e, sep, rest0) = py_partition CHR '':'' text;
          epoch = (if sep then Some e else None);
          rest = (if sep then rest0 else text);
          (version, dash, release) = py_partition CHR ''-'' rest
      in (epoch, Some version, if dash then Some release else None))"

definition holds_op :: "cmp_op \<Rightarrow> int \<Rightarrow> bool" where
  "holds_op op result =
     (case op of EQ \<Rightarrow> result = 0 | GT \<Rightarrow> 0 < result | GE \<Rightarrow> 0 \<le> result
      | LT \<Rightarrow> result < 0 | LE \<Rightarrow> result \<le> 0)"

text \<open>
  The provider's triple cut to the precision the constraint states, and the constraint's own.
  An epoch nobody states reads as 0 on both sides.
\<close>

definition provided_side :: "evr \<Rightarrow> string \<Rightarrow> evr" where
  "provided_side p wanted =
     (case (p, evr_parts wanted) of ((p_epoch, p_version, p_release), (_, _, w_release)) \<Rightarrow>
        (Some (py_or p_epoch ''0''), p_version, if w_release \<noteq> None then p_release else None))"

definition wanted_side :: "string \<Rightarrow> evr" where
  "wanted_side wanted =
     (case evr_parts wanted of (w_epoch, w_version, w_release) \<Rightarrow>
        (Some (py_or w_epoch ''0''), w_version, w_release))"

definition satisfies_constraint :: "evr option \<Rightarrow> (cmp_op \<times> string) option \<Rightarrow> bool" where
  "satisfies_constraint provided constraint =
     (case (constraint, provided) of
        (Some (op, wanted), Some p) \<Rightarrow>
          holds_op op (compare_evr (provided_side p wanted) (wanted_side wanted))
      | _ \<Rightarrow> True)"

text \<open>\<open>provided\<close> is the list of versions one package declares for the capability, or nothing.\<close>

definition any_version_satisfies ::
  "evr list option \<Rightarrow> (cmp_op \<times> string) option \<Rightarrow> bool" where
  "any_version_satisfies provided constraint =
     (case provided of
        None \<Rightarrow> True
      | Some evrs \<Rightarrow> evrs = [] \<or> (\<exists>evr \<in> set evrs. satisfies_constraint (Some evr) constraint))"

section \<open>Properties\<close>

text \<open>The name the resolver looks up is the name the constraint was split from.\<close>

lemma split_at_op_name: "fst (split_at_op ops cap) = strip_at_op ops cap"
  by (induction ops) (auto split: option.split)

lemma split_constraint_name: "fst (split_constraint cap) = strip_capability_version cap"
  by (simp add: split_constraint_def strip_capability_version_def split_at_op_name)

lemma satisfies_unconstrained [simp]: "satisfies_constraint p None"
  by (simp add: satisfies_constraint_def split: prod.split)

lemma any_version_unconstrained [simp]: "any_version_satisfies vs None"
proof (cases vs)
  case (Some evrs)
  then show ?thesis by (cases evrs) (auto simp: any_version_satisfies_def)
qed (simp add: any_version_satisfies_def)

text \<open>A constraint that states no release does not look at the provider's release.\<close>

lemma constraint_ignores_release:
  assumes "evr_parts wanted = (e, v, None)"
  shows "satisfies_constraint (Some (pe, pv, pr)) (Some (op, wanted))
    = satisfies_constraint (Some (pe, pv, pr')) (Some (op, wanted))"
  using assms by (simp add: satisfies_constraint_def provided_side_def)

text \<open>Cutting both sides to the precision of a constraint keeps their order.\<close>

lemma holds_op_lower_mono:
  assumes "op = GE \<or> op = GT" and "0 \<le> compare_evr q p"
    and "holds_op op (compare_evr p w)"
  shows "holds_op op (compare_evr q w)"
  using assms evr.cmp_trans [of q p w] evr.cmp_trans_strict [of q p w]
  by (auto simp: holds_op_def)

lemma holds_op_upper_mono:
  assumes "op = LE \<or> op = LT" and "0 \<le> compare_evr q p"
    and "holds_op op (compare_evr q w)"
  shows "holds_op op (compare_evr p w)"
  using assms evr.cmp_trans [of w q p] evr.cmp_strict_trans [of w q p] evr.cmp_swap [of w q]
    evr.cmp_swap [of w p]
  by (auto simp: holds_op_def)

lemma py_or_epoch: "epoch_int (Some (py_or e ''0'')) = epoch_int e"
  by (cases e) (auto simp: py_or_def epoch_int_def py_int_def rdrop_while_def ascii_space_def
      py_nat_literal_def digit_value_def)

lemma compare_evr_epoch:
  "epoch_int e2 < epoch_int e1 \<Longrightarrow> compare_evr (e1, v1, r1) (e2, v2, r2) = 1"
  by (simp add: Let_def)

lemma provided_side_mono:
  assumes "0 \<le> compare_evr q p"
  shows "0 \<le> compare_evr (provided_side q w) (provided_side p w)"
proof -
  obtain qe qv qr where q: "q = (qe, qv, qr)" by (cases q)
  obtain pe pv pr where p: "p = (pe, pv, pr)" by (cases p)
  show ?thesis
    using assms rpm.cmp_self [of "py_or None []"] unfolding q p provided_side_def
    by (auto simp: Let_def py_or_epoch split: prod.splits if_splits)
qed

text \<open>
  Version constraints are monotone: a build at least as new as one that satisfies a lower
  bound satisfies it too, and one at most as new as a build that satisfies an upper bound
  satisfies that; this also holds for bounds that state no release, where both builds are cut to
  the constraint's precision before they are compared.
\<close>

theorem constraint_monotone:
  assumes "0 \<le> compare_evr q p"
  shows "(op \<in> {GE, GT} \<and> satisfies_constraint (Some p) (Some (op, w))
      \<longrightarrow> satisfies_constraint (Some q) (Some (op, w)))
    \<and> (op \<in> {LE, LT} \<and> satisfies_constraint (Some q) (Some (op, w))
      \<longrightarrow> satisfies_constraint (Some p) (Some (op, w)))"
  using holds_op_lower_mono [OF _ provided_side_mono [OF assms]]
    holds_op_upper_mono [OF _ provided_side_mono [OF assms]]
  by (auto simp: satisfies_constraint_def)

theorem constraint_monotone_witness:
  "satisfies_constraint (Some (None, Some ''1.10'', Some ''2.fc43'')) (Some (GE, ''1.9''))
   \<and> satisfies_constraint (Some (None, Some ''1.9'', None)) (Some (LT, ''2''))"
  using constraint_monotone [of "(None, Some ''1.10'', Some ''2.fc43'')"
      "(None, Some ''1.9'', Some ''7.fc43'')" GE "''1.9''"]
    constraint_monotone [of "(None, Some ''1.10'', Some ''2.fc43'')"
      "(None, Some ''1.9'', None)" LT "''2''"]
  by code_simp

text \<open>
  A provider with a positive epoch is above every version that a constraint without an epoch
  names, whatever the version strings say: it satisfies exactly the lower bounds.
\<close>

theorem epoch_overrules:
  assumes "evr_parts wanted = (None, v, r)" and "0 < epoch_int pe"
  shows "satisfies_constraint (Some (pe, pv, pr)) (Some (op, wanted)) \<longleftrightarrow> op = GE \<or> op = GT"
proof -
  have "epoch_int (Some (py_or None ''0'')) = 0"
    using py_or_epoch [of None] by (simp add: epoch_int_def [of None])
  then have "compare_evr (provided_side (pe, pv, pr) wanted) (wanted_side wanted) = 1"
    using assms unfolding provided_side_def wanted_side_def
    by (simp add: compare_evr_epoch py_or_epoch del: compare_evr.simps)
  then show ?thesis by (cases op) (auto simp: satisfies_constraint_def holds_op_def)
qed

theorem epoch_overrules_witness:
  "\<not> satisfies_constraint (Some (Some ''1'', Some ''2'', None)) (Some (LT, ''10''))"
  using epoch_overrules [of "''10''" "Some ''10''" None "Some ''1''" "Some ''2''" None LT]
  by code_simp

end
