(* ===== verification/RichDep.thy ===== *)
theory RichDep
  imports Capability
begin

text \<open>
  rpm's boolean dependency grammar as \<^verbatim>\<open>tools/depgraph.py\<close> reads it: the depth-aware
  scanners, \<^verbatim>\<open>parse_boolean\<close>, its inverse \<^verbatim>\<open>unparse_boolean\<close>, and the shape readers
  built on the tree.
\<close>

section \<open>Scanning\<close>

text \<open>The operators, in the order \<^verbatim>\<open>_BOOL_OPS\<close> lists them.\<close>

datatype bool_op = OpWithout | OpUnless | OpWith | OpElse | OpAnd | OpOr | OpIf

fun bool_op_text :: "bool_op \<Rightarrow> string" where
  "bool_op_text OpWithout = ''without''"
| "bool_op_text OpUnless = ''unless''"
| "bool_op_text OpWith = ''with''"
| "bool_op_text OpElse = ''else''"
| "bool_op_text OpAnd = ''and''"
| "bool_op_text OpOr = ''or''"
| "bool_op_text OpIf = ''if''"

definition bool_ops :: "bool_op list" where
  "bool_ops = [OpWithout, OpUnless, OpWith, OpElse, OpAnd, OpOr, OpIf]"

definition op_token :: "bool_op \<Rightarrow> string" where
  "op_token op = '' '' @ bool_op_text op @ '' ''"

text \<open>The first parenthesis closes exactly at the end of the text.\<close>

fun closes_at_end :: "int \<Rightarrow> string \<Rightarrow> bool" where
  "closes_at_end depth [] = False"
| "closes_at_end depth (c # s) =
     (if c = CHR ''('' then closes_at_end (depth + 1) s
      else if c = CHR '')'' then (if depth - 1 = 0 then s = [] else closes_at_end (depth - 1) s)
      else closes_at_end depth s)"

definition is_single_group :: "string \<Rightarrow> bool" where
  "is_single_group text =
     (py_startswith text ''('' \<and> py_endswith text '')'' \<and> closes_at_end 0 text)"

text \<open>\<open>text[1:-1]\<close>\<close>

definition inside :: "string \<Rightarrow> string" where
  "inside text = butlast (tl text)"

definition rich_ops :: "string list" where
  "rich_ops = ['' or '', '' and '', '' with '', '' without '', '' unless '', '' else '', '' if '']"

definition unwrap_group :: "string \<Rightarrow> string" where
  "unwrap_group capability =
     (let text = py_strip capability in
      if \<not> is_single_group text then text
      else let inner = py_strip (inside text) in
        if list_ex (\<lambda>op. py_contains op inner) rich_ops then text else inner)"

text \<open>The first operator whose token starts here.\<close>

definition op_at :: "string \<Rightarrow> bool_op option" where
  "op_at s = find (\<lambda>op. py_startswith s (op_token op)) bool_ops"

text \<open>
  Operators at depth zero with their index. After a match the scan goes on behind the whole
  token: the code moves its index to the token's last space and then adds one, as for any other
  character.
\<close>

fun scan_ops :: "int \<Rightarrow> nat \<Rightarrow> string \<Rightarrow> (nat \<times> bool_op) list" where
  "scan_ops depth index [] = []"
| "scan_ops depth index (c # s) =
     (if c = CHR ''('' then scan_ops (depth + 1) (index + 1) s
      else if c = CHR '')'' then scan_ops (depth - 1) (index + 1) s
      else if depth = 0 \<and> c = CHR '' '' then
        (case op_at (c # s) of
           Some op \<Rightarrow> (index, op) # scan_ops depth (index + length (op_token op))
                                     (drop (length (op_token op) - 1) s)
         | None \<Rightarrow> scan_ops depth (index + 1) s)
      else scan_ops depth (index + 1) s)"

definition top_level_ops :: "string \<Rightarrow> (nat \<times> bool_op) list" where
  "top_level_ops text = scan_ops 0 0 text"

text \<open>\<open>piece\<close> is \<open>text[start:index]\<close>, the operand being read, reversed.\<close>

fun scan_split :: "string \<Rightarrow> int \<Rightarrow> string \<Rightarrow> string \<Rightarrow> string list" where
  "scan_split token depth piece [] = [rev piece]"
| "scan_split token depth piece (c # s) =
     (if c = CHR ''('' then scan_split token (depth + 1) (c # piece) s
      else if c = CHR '')'' then scan_split token (depth - 1) (c # piece) s
      else if depth = 0 \<and> py_startswith (c # s) token
      then rev piece # scan_split token depth [] (drop (length token - 1) s)
      else scan_split token depth (c # piece) s)"

definition split_top :: "string \<Rightarrow> bool_op \<Rightarrow> string list" where
  "split_top text op = map py_strip (scan_split (op_token op) 0 [] text)"

section \<open>The tree\<close>

datatype chain_op = CAnd | COr | CWith

datatype cond_op = CIf | CUnless

datatype node =
    Cap string
  | Chain chain_op "node list"
  | Without node node
  | Cond cond_op node node "node option"

fun chain_text :: "chain_op \<Rightarrow> string" where
  "chain_text CAnd = ''and''"
| "chain_text COr = ''or''"
| "chain_text CWith = ''with''"

fun cond_text :: "cond_op \<Rightarrow> string" where
  "cond_text CIf = ''if''"
| "cond_text CUnless = ''unless''"

text \<open>The node one level's operator makes of its operands.\<close>

definition cond_of :: "bool_op \<Rightarrow> cond_op option" where
  "cond_of op = (case op of OpIf \<Rightarrow> Some CIf | OpUnless \<Rightarrow> Some CUnless | _ \<Rightarrow> None)"

definition chain_node :: "bool_op \<Rightarrow> node list \<Rightarrow> node option" where
  "chain_node op children =
     (case op of
        OpWithout \<Rightarrow> (case children of [l, r] \<Rightarrow> Some (Without l r) | _ \<Rightarrow> None)
      | OpWith \<Rightarrow> Some (Chain CWith children)
      | OpAnd \<Rightarrow> Some (Chain CAnd children)
      | OpOr \<Rightarrow> Some (Chain COr children)
      | _ \<Rightarrow> None)"

lemma length_op_token_pos [simp]: "0 < length (op_token op)"
  by (simp add: op_token_def)

text \<open>The four ways one character is scanned.\<close>

lemma scan_step:
  fixes depth :: int
  obtains (lpar) "c = CHR ''(''"
  | (rpar) "c \<noteq> CHR ''(''" "c = CHR '')''"
  | (plain) "c \<noteq> CHR ''(''" "c \<noteq> CHR '')''" "\<not> (depth = 0 \<and> c = CHR '' '' \<and> op_at (c # s) \<noteq> None)"
  | (token) op where "c \<noteq> CHR ''(''" "c \<noteq> CHR '')''" "depth = 0" "c = CHR '' ''"
      "op_at (c # s) = Some op"
  by blast

lemma scan_ops_plain:
  "c \<noteq> CHR ''('' \<Longrightarrow> c \<noteq> CHR '')'' \<Longrightarrow> \<not> (depth = 0 \<and> c = CHR '' '' \<and> op_at (c # s) \<noteq> None)
   \<Longrightarrow> scan_ops depth index (c # s) = scan_ops depth (index + 1) s"
  by auto

lemma scan_ops_bounds:
  "(j, op) \<in> set (scan_ops depth index s) \<Longrightarrow> index \<le> j \<and> j < index + length s"
proof (induction "length s" arbitrary: depth index s rule: less_induct)
  case less
  note prems = less.prems
  note IH = less.hyps
  show ?case
  proof (cases s)
    case Nil
    with prems show ?thesis by simp
  next
    case (Cons c s')
    have next_char: "index \<le> j \<and> j < index + length s"
      if "(j, op) \<in> set (scan_ops d (index + 1) s')" for d
      using IH [OF _ that] Cons by auto
    show ?thesis
    proof (cases rule: scan_step [where c = c and depth = depth and s = s'])
      case lpar with prems Cons next_char show ?thesis by simp
    next
      case rpar with prems Cons next_char show ?thesis by simp
    next
      case plain with prems Cons next_char scan_ops_plain [OF plain] show ?thesis by simp
    next
      case (token o')
      let ?k = "length (op_token o')"
      from prems Cons token have "(j, op) = (index, o') \<or>
        (j, op) \<in> set (scan_ops depth (index + ?k) (drop (?k - 1) s'))" by auto
      then show ?thesis
      proof
        assume mem: "(j, op) \<in> set (scan_ops depth (index + ?k) (drop (?k - 1) s'))"
        have "length (drop (?k - 1) s') < length s" using Cons by simp
        from IH [OF this mem] have "index + ?k \<le> j" "j < index + ?k + length (drop (?k - 1) s')"
          by auto
        then show ?thesis using Cons length_op_token_pos [of o'] by auto
      qed (use Cons in auto)
    qed
  qed
qed

text \<open>Where an operator was found first, splitting on it makes every operand shorter.\<close>

lemma scan_split_length:
  "p \<in> set (scan_split token depth piece s) \<Longrightarrow> length p \<le> length piece + length s"
proof (induction token depth piece s rule: scan_split.induct)
  case (2 token depth piece c s)
  then show ?case by (fastforce split: if_splits)
qed simp

lemma scan_split_shorter:
  assumes "scan_ops depth index s = (j, op) # rest"
    and "p \<in> set (scan_split (op_token op) depth piece s)"
  shows "length p < length piece + length s"
  using assms
proof (induction s arbitrary: depth index piece)
  case (Cons c s)
  note scan = Cons.prems(1) and elem = Cons.prems(2)
  have next_char: "length p < length piece + length (c # s)"
    if "scan_ops d (index + 1) s = (j, op) # rest"
      and "p \<in> set (scan_split (op_token op) d (c # piece) s)" for d
    using Cons.IH [OF that] by simp
  have token_here: "length p < length piece + length (c # s)"
    if "p = rev piece \<or> p \<in> set (scan_split (op_token op) depth [] (drop n s))" for n
    using that scan_split_length [of p "op_token op" depth "[]" "drop n s"] by auto
  show ?case
  proof (rule scan_step [where c = c and depth = depth and s = s])
    assume c: "c = CHR ''(''"
    show ?thesis by (rule next_char [of "depth + 1"]) (use scan elem c in simp_all)
  next
    assume c: "c \<noteq> CHR ''(''" "c = CHR '')''"
    show ?thesis by (rule next_char [of "depth - 1"]) (use scan elem c in simp_all)
  next
    assume c: "c \<noteq> CHR ''(''" "c \<noteq> CHR '')''"
      "\<not> (depth = 0 \<and> c = CHR '' '' \<and> op_at (c # s) \<noteq> None)"
    show ?thesis
    proof (cases "depth = 0 \<and> py_startswith (c # s) (op_token op)")
      case True
      with elem c show ?thesis by (intro token_here) auto
    next
      case False
      show ?thesis
        by (rule next_char [of depth]) (use scan elem c False scan_ops_plain [OF c] in auto)
    qed
  next
    fix o' assume c: "c \<noteq> CHR ''(''" "c \<noteq> CHR '')''" "depth = 0" "c = CHR '' ''"
      "op_at (c # s) = Some o'"
    with scan have "o' = op" by simp
    with c have "py_startswith (c # s) (op_token op)" by (auto simp: op_at_def find_Some_iff)
    with elem c show ?thesis by (intro token_here) auto
  qed
qed simp

lemma length_dropWhile_rev: "length (rdrop_while p xs) \<le> length xs"
  unfolding rdrop_while_def using length_dropWhile_le [of p "rev xs"] by simp

lemma length_py_strip: "length (py_strip s) \<le> length s"
  unfolding py_strip_def
  using length_dropWhile_rev [of py_isspace "dropWhile py_isspace s"]
    length_dropWhile_le [of py_isspace s] by linarith

lemma split_top_shorter:
  assumes "top_level_ops text = (j, op) # rest" and "p \<in> set (split_top text op)"
  shows "length p < length text"
proof -
  from assms(2) obtain q where q: "q \<in> set (scan_split (op_token op) 0 [] text)" "p = py_strip q"
    by (auto simp: split_top_def)
  have "length q < length text"
    using scan_split_shorter [OF assms(1) [unfolded top_level_ops_def] q(1)] by simp
  with q(2) length_py_strip [of q] show ?thesis by simp
qed

lemma top_level_ops_bounds: "(j, op) \<in> set (top_level_ops text) \<Longrightarrow> j < length text"
  unfolding top_level_ops_def using scan_ops_bounds [of j op 0 0 "text"] by simp

section \<open>Parsing\<close>

lemma length_inside: "text \<noteq> [] \<Longrightarrow> length (inside text) < length text"
  by (cases "text") (auto simp: inside_def)

lemma is_single_group_not_Nil: "is_single_group text \<Longrightarrow> text \<noteq> []"
  by (auto simp: is_single_group_def)

lemma operands_shorter:
  assumes "text \<noteq> []"
  shows "length (drop (i + length (op_token op)) text) < length text"
    and "length (take k (drop (i + length (op_token op)) text)) < length text"
  using assms by (auto simp: op_token_def min_def)

lemma operand_before_shorter:
  "top_level_ops text = (i, op) # ops \<Longrightarrow> length (take i text) < length text"
  using top_level_ops_bounds [of i op "text"] by simp

text \<open>
  \<open>text[a:b]\<close> is \<open>take (b - a) (drop a text)\<close>. A level's operands are all parsed before one that
  could not be read makes the level unreadable.
\<close>

function parse_body :: "string \<Rightarrow> node option" where
  "parse_body text0 =
     (let text = py_strip text0 in
      if text = [] then None
      else if is_single_group text then
        (let inner = py_strip (inside text) in
         if top_level_ops inner \<noteq> [] then parse_body inner else Some (Cap inner))
      else
        case top_level_ops text of
          [] \<Rightarrow> Some (Cap text)
        | (i, op) # ops \<Rightarrow>
            (case cond_of op of
               Some head \<Rightarrow>
                 (case ops of
                    [] \<Rightarrow>
                      (case (parse_body (take i text),
                             parse_body (drop (i + length (op_token op)) text)) of
                         (Some t, Some c) \<Rightarrow> Some (Cond head t c None)
                       | _ \<Rightarrow> None)
                  | [(j, op2)] \<Rightarrow>
                      if op2 \<noteq> OpElse then None
                      else
                        (case (parse_body (take i text),
                               parse_body (take (j - (i + length (op_token op)))
                                             (drop (i + length (op_token op)) text)),
                               parse_body (drop (j + length (op_token op2)) text)) of
                           (Some t, Some c, Some e) \<Rightarrow> Some (Cond head t c (Some e))
                         | _ \<Rightarrow> None)
                  | _ \<Rightarrow> None)
             | None \<Rightarrow>
                 if list_ex (\<lambda>(_, o2). o2 \<noteq> op) ops then None
                 else if op = OpElse then None
                 else
                   (case those (map parse_body (split_top text op)) of
                      None \<Rightarrow> None
                    | Some children \<Rightarrow> chain_node op children)))"
  by pat_completeness auto
termination
proof (relation "measure length", goal_cases)
  case 1 show ?case by simp
next
  case (2 text0 t inner)
  then have "length inner < length t"
    using length_inside [of t] length_py_strip [of "inside t"] by simp
  with 2 show ?case using length_py_strip [of text0] by simp
next
  case (3 text0 t p ops i op)
  then have "length x < length t" if "x \<in> set (split_top t op)" for x
    using split_top_shorter that by blast
  with 3 show ?case using length_py_strip [of text0] by force
next
  case (4 text0 t p ops i op)
  then show ?case
    using operand_before_shorter [of t i op ops] length_py_strip [of text0] by simp
next
  case (5 text0 t p ops i op)
  then show ?case
    using operands_shorter(1) [of t i op] length_py_strip [of text0] by simp
next
  case (6 text0 t p ops i op)
  then show ?case
    using operand_before_shorter [of t i op ops] length_py_strip [of text0] by simp
next
  case (7 text0 t p ops i op head q rest j op2)
  then show ?case
    using operands_shorter(2) [of t "j - (i + length (op_token op))" i op]
      length_py_strip [of text0] by simp
next
  case (8 text0 t p ops i op head q rest j op2)
  then show ?case
    using operands_shorter(1) [of t j op2] length_py_strip [of text0] by simp
qed

declare parse_body.simps [simp del]

definition parse_boolean :: "string \<Rightarrow> node option" where
  "parse_boolean capability =
     (let text = py_strip capability in
      if \<not> is_rich_dep text \<or> \<not> is_single_group text then None
      else parse_body (py_strip (inside text)))"

fun unparse_boolean :: "node \<Rightarrow> string" where
  "unparse_boolean (Cap c) = c"
| "unparse_boolean (Chain op cs) =
     ''('' @ py_join ('' '' @ chain_text op @ '' '') (map unparse_boolean cs) @ '')''"
| "unparse_boolean (Without l r) =
     ''('' @ unparse_boolean l @ '' without '' @ unparse_boolean r @ '')''"
| "unparse_boolean (Cond op t c e) =
     ''('' @ unparse_boolean t @ '' '' @ cond_text op @ '' '' @ unparse_boolean c
       @ (case e of None \<Rightarrow> [] | Some n \<Rightarrow> '' else '' @ unparse_boolean n) @ '')''"

section \<open>Shapes\<close>

fun leaf_caps :: "node \<Rightarrow> string list option" where
  "leaf_caps (Cap c) = Some [c]"
| "leaf_caps (Chain CWith cs) = map_option concat (those (map leaf_caps cs))"
| "leaf_caps _ = None"

fun leaf_names :: "node \<Rightarrow> string list option" where
  "leaf_names (Cap c) = Some [strip_capability_version c]"
| "leaf_names (Chain _ cs) = map_option concat (those (map leaf_names cs))"
| "leaf_names _ = None"

fun cap_text :: "node \<Rightarrow> string option" where
  "cap_text (Cap c) = Some c"
| "cap_text _ = None"

definition parse_or_dep :: "string \<Rightarrow> string list option" where
  "parse_or_dep capability =
     (case parse_boolean capability of
        Some (Chain COr cs) \<Rightarrow> map_option (map strip_capability_version) (those (map cap_text cs))
      | _ \<Rightarrow> None)"

definition parse_conditional_dep :: "string \<Rightarrow> (string \<times> string) option" where
  "parse_conditional_dep capability =
     (case parse_boolean capability of
        Some (Cond CIf (Cap t) (Cap c) None) \<Rightarrow>
          Some (strip_capability_version t, strip_capability_version c)
      | _ \<Rightarrow> None)"

definition one_name :: "string list \<Rightarrow> string option" where
  "one_name names =
     (case names of [] \<Rightarrow> None
      | n # ns \<Rightarrow> if list_all (\<lambda>m. m = n) ns then Some n else None)"

definition parse_range_dep :: "string \<Rightarrow> string option" where
  "parse_range_dep capability =
     (case parse_boolean capability of
        Some (Chain CWith cs) \<Rightarrow>
          (case leaf_names (Chain CWith cs) of None \<Rightarrow> None | Some names \<Rightarrow> one_name names)
      | _ \<Rightarrow> None)"

end
