(* ===== verification/RichDepRoundtrip.thy ===== *)
theory RichDepRoundtrip
  imports RichDep
begin

text \<open>
  \<^verbatim>\<open>unparse_boolean\<close> promises text that \<^verbatim>\<open>parse_boolean\<close> reads back, which is what makes an
  expression usable as an override key. The promise holds for trees whose leaves are texts a
  leaf can be read from (\<open>cap_ok\<close>) and whose chains have two operands at least.
\<close>

section \<open>Operand texts\<close>

text \<open>Parentheses balance and no operator stands at depth zero, not even one ended by the space
  that follows the text.\<close>

fun cap_scan :: "int \<Rightarrow> string \<Rightarrow> bool" where
  "cap_scan d [] = (d = 0)"
| "cap_scan d (c # s) =
     (if c = CHR ''('' then cap_scan (d + 1) s
      else if c = CHR '')'' then 0 < d \<and> cap_scan (d - 1) s
      else (\<not> (d = 0 \<and> c = CHR '' '' \<and> op_at (c # s @ '' '') \<noteq> None)) \<and> cap_scan d s)"

definition cap_ok :: "string \<Rightarrow> bool" where
  "cap_ok c = (c \<noteq> [] \<and> py_strip c = c \<and> hd c \<noteq> CHR ''('' \<and> cap_scan 0 c)"

fun wf_node :: "node \<Rightarrow> bool" where
  "wf_node (Cap c) = cap_ok c"
| "wf_node (Chain op cs) = (2 \<le> length cs \<and> list_all wf_node cs)"
| "wf_node (Without l r) = (wf_node l \<and> wf_node r)"
| "wf_node (Cond op t c e) =
     (wf_node t \<and> wf_node c \<and> (case e of None \<Rightarrow> True | Some n \<Rightarrow> wf_node n))"

definition follows :: "string \<Rightarrow> bool" where
  "follows rest = (rest = [] \<or> hd rest = CHR '' '')"

lemma bool_op_text_no_space: "CHR '' '' \<notin> set (bool_op_text op)"
  by (cases op) auto

text \<open>A token that starts inside a text ends at the latest with the space behind the text.\<close>

lemma startswith_cut:
  assumes "py_startswith ((CHR '' '' # s) @ CHR '' '' # rest) (op_token op)"
  shows "py_startswith ((CHR '' '' # s) @ '' '') (op_token op)"
proof -
  let ?w = "bool_op_text op"
  let ?x = "CHR '' '' # s"
  have pre: "take (length ?w + 2) (?x @ CHR '' '' # rest) = '' '' @ ?w @ '' ''"
    using assms by (simp add: py_startswith_def op_token_def)
  have "length ?w \<le> length s"
  proof (rule ccontr)
    assume long: "\<not> length ?w \<le> length s"
    have "(take (length ?w + 2) (?x @ CHR '' '' # rest)) ! (length s + 1) = CHR '' ''"
      using long by (simp add: nth_append)
    moreover have "('' '' @ ?w @ '' '') ! (length s + 1) = ?w ! length s"
      using long by (simp add: nth_append)
    ultimately have "?w ! length s = CHR '' ''" using pre by simp
    moreover have "?w ! length s \<in> set ?w" using long by simp
    ultimately show False using bool_op_text_no_space by metis
  qed
  then have cut: "take (length ?w + 2) (?x @ CHR '' '' # rest) = take (length ?w + 2) (?x @ '' '')"
    by (simp add: take_Cons')
  have len: "length (op_token op) = length ?w + 2" by (simp add: op_token_def)
  show ?thesis
    unfolding py_startswith_def len using pre cut by (simp only: op_token_def)
qed

lemma startswith_append: "py_startswith s t \<Longrightarrow> py_startswith (s @ r) t"
  unfolding py_startswith_def by (metis append_take_drop_id length_append linorder_le_cases
      take_all take_append append_Nil2 diff_is_0_eq' take0)

lemma op_at_None: "op_at s = None \<longleftrightarrow> (\<forall>op. \<not> py_startswith s (op_token op))"
proof -
  have "op \<in> set bool_ops" for op by (cases op) (simp_all add: bool_ops_def)
  then show ?thesis by (auto simp: op_at_def find_None_iff)
qed

lemma op_at_quiet:
  assumes "op_at (CHR '' '' # s @ '' '') = None" and "follows rest"
    and "py_startswith (CHR '' '' # s @ rest) (op_token op)"
  shows False
proof -
  have none: "\<not> py_startswith (CHR '' '' # s @ '' '') (op_token op)"
    using assms(1) by (simp add: op_at_None)
  show False
  proof (cases rest)
    case Nil
    with assms(3) startswith_append [of "CHR '' '' # s" "op_token op" "'' ''"] none
    show False by simp
  next
    case (Cons c r)
    with assms(2) have "c = CHR '' ''" by (simp add: follows_def)
    with assms(3) Cons startswith_cut [of s r op] none show False by simp
  qed
qed

lemma op_at_follow_None:
  assumes "op_at (CHR '' '' # s @ '' '') = None" and "follows rest"
  shows "op_at (CHR '' '' # s @ rest) = None"
  using op_at_quiet [OF assms] by (auto simp: op_at_None)

lemma op_token_head: "op_token op = CHR '' '' # bool_op_text op @ '' ''"
  by (simp add: op_token_def)

lemma startswith_token_space: "py_startswith (c # s) (op_token op) \<Longrightarrow> c = CHR '' ''"
  by (simp add: py_startswith_def op_token_head)

lemma scan_ops_quiet:
  assumes "cap_scan d u" and "follows rest"
  shows "scan_ops d i (u @ rest) = scan_ops 0 (i + length u) rest"
  using assms(1)
proof (induction u arbitrary: d i)
  case (Cons c u)
  then show ?case
    using op_at_follow_None [OF _ assms(2), of u] by (auto split: if_splits)
qed simp

lemma scan_split_quiet:
  assumes "cap_scan d u" and "follows rest"
  shows "scan_split (op_token op) d piece (u @ rest)
    = scan_split (op_token op) 0 (rev u @ piece) rest"
  using assms(1)
proof (induction u arbitrary: d piece)
  case (Cons c u)
  consider "c = CHR ''(''" | "c \<noteq> CHR ''(''" "c = CHR '')''"
    | "c \<noteq> CHR ''(''" "c \<noteq> CHR '')''" by blast
  then show ?case
  proof cases
    case 3
    with Cons.prems have quiet: "\<not> (d = 0 \<and> c = CHR '' '' \<and> op_at (c # u @ '' '') \<noteq> None)"
      and rest: "cap_scan d u" by auto
    have "\<not> (d = 0 \<and> py_startswith (c # u @ rest) (op_token op))"
      using quiet op_at_quiet [OF _ assms(2), of u op] startswith_token_space by blast
    with 3 Cons.IH [OF rest] show ?thesis by auto
  qed (use Cons in simp_all)
qed simp

lemma closes_quiet:
  assumes "cap_scan d u" and "0 \<le> d" and "1 \<le> k"
  shows "closes_at_end (d + k) (u @ rest) = closes_at_end k rest"
  using assms
proof (induction u arbitrary: d)
  case (Cons c u)
  then show ?case
    using Cons.IH [of "d + 1"] Cons.IH [of "d - 1"] Cons.IH [of d]
    by (auto simp: algebra_simps split: if_splits)
qed simp

lemma cap_scan_inner:
  assumes "cap_scan d u" and "0 \<le> d" and "1 \<le> k"
  shows "cap_scan (d + k) (u @ v) = cap_scan k v"
  using assms
proof (induction u arbitrary: d)
  case (Cons c u)
  then show ?case
    using Cons.IH [of "d + 1"] Cons.IH [of "d - 1"] Cons.IH [of d]
    by (auto simp: algebra_simps split: if_splits)
qed simp

section \<open>Operands of well-formed trees\<close>

lemma py_strip_id:
  assumes "s \<noteq> []" and "\<not> py_isspace (hd s)" and "\<not> py_isspace (last s)"
  shows "py_strip s = s"
proof -
  have "dropWhile py_isspace s = s" using assms(1,2) by (cases s) auto
  moreover have "dropWhile py_isspace (rev s) = rev s"
    using assms(1,3) by (cases s rule: rev_cases) auto
  ultimately show ?thesis by (simp add: py_strip_def rdrop_while_def)
qed

lemma py_strip_ends:
  assumes "py_strip s = s" and "s \<noteq> []"
  shows "\<not> py_isspace (hd s)" and "\<not> py_isspace (last s)"
proof -
  let ?t = "dropWhile py_isspace s"
  have t: "s = rdrop_while py_isspace ?t" using assms(1) by (simp add: py_strip_def)
  then have "length s \<le> length ?t" using length_dropWhile_rev [of py_isspace ?t] by simp
  moreover have "length s = length (takeWhile py_isspace s) + length ?t"
    by (metis length_append takeWhile_dropWhile_id)
  ultimately have "takeWhile py_isspace s = []" by simp
  then have "?t = s" by (metis append_Nil takeWhile_dropWhile_id)
  then show "\<not> py_isspace (hd s)" using assms(2) hd_dropWhile [of py_isspace s] by simp
  have "rev s = dropWhile py_isspace (rev s)"
    using t \<open>?t = s\<close> by (metis rdrop_while_def rev_rev_ident)
  then show "\<not> py_isspace (last s)"
    using assms(2) hd_dropWhile [of py_isspace "rev s"] by (simp add: hd_rev)
qed

lemma parens_not_space [simp]: "\<not> py_isspace CHR ''(''" "\<not> py_isspace CHR '')''"
  by (simp_all add: py_isspace_def)

text \<open>An operand's text, as a chain or a condition embeds it.\<close>

definition operand :: "string \<Rightarrow> bool" where
  "operand u = (u \<noteq> [] \<and> cap_scan 0 u \<and> py_strip u = u)"

lemma operand_ends:
  assumes "operand u"
  shows "u \<noteq> []" "\<not> py_isspace (hd u)" "\<not> py_isspace (last u)" "cap_scan 0 u"
  using assms py_strip_ends [of u] by (auto simp: operand_def)

lemma operand_group:
  assumes "\<And>k v. 1 \<le> k \<Longrightarrow> cap_scan k (b @ v) = cap_scan k v"
  shows "operand (''('' @ b @ '')'')"
  using assms [of 1 "'')''"] py_strip_id [of "''('' @ b @ '')''"] by (simp add: operand_def)

lemma cap_scan_operand:
  assumes "operand u" and "1 \<le> k"
  shows "cap_scan k (u @ v) = cap_scan k v"
  using cap_scan_inner [of 0 u k v] operand_ends(4) [OF assms(1)] assms(2) by simp

lemma cap_scan_text:
  assumes "1 \<le> k" and "CHR ''('' \<notin> set w" and "CHR '')'' \<notin> set w"
  shows "cap_scan k (w @ v) = cap_scan k v"
  using assms by (induction w) auto

lemma op_at_token: "op_at (op_token op @ s) = Some op"
  by (cases op) (simp_all add: op_at_def bool_ops_def op_token_def py_startswith_def)

lemma scan_ops_token:
  "scan_ops 0 i (op_token op @ s) = (i, op) # scan_ops 0 (i + length (op_token op)) s"
proof -
  have "op_token op @ s = CHR '' '' # (bool_op_text op @ '' '' @ s)" by (simp add: op_token_def)
  moreover have "drop (length (op_token op) - 1) (bool_op_text op @ '' '' @ s) = s"
    by (simp add: op_token_def)
  ultimately show ?thesis using op_at_token [of op s] by simp
qed

lemma scan_split_token:
  "scan_split (op_token op) 0 piece (op_token op @ s) = rev piece # scan_split (op_token op) 0 [] s"
proof -
  have "op_token op @ s = CHR '' '' # (bool_op_text op @ '' '' @ s)" by (simp add: op_token_def)
  moreover have "drop (length (op_token op) - 1) (bool_op_text op @ '' '' @ s) = s"
    by (simp add: op_token_def)
  moreover have "py_startswith (op_token op @ s) (op_token op)" by (simp add: py_startswith_def)
  ultimately show ?thesis by simp
qed

lemma follows_token [simp]: "follows (op_token op @ s)" "follows []"
  by (simp_all add: follows_def op_token_def)

section \<open>One level: operands joined by operators\<close>

lemma join_Cons: "us \<noteq> [] \<Longrightarrow> py_join t (u # us) = u @ t @ py_join t us"
  by (cases us) auto

lemma scan_ops_join:
  assumes "us \<noteq> []" and "\<forall>u \<in> set us. operand u"
  shows "\<exists>is. length is = length us - 1
    \<and> scan_ops 0 i (py_join (op_token op) us) = map (\<lambda>j. (j, op)) is"
  using assms
proof (induction us arbitrary: i)
  case (Cons u us)
  show ?case
  proof (cases "us = []")
    case True
    with Cons.prems scan_ops_quiet [of 0 u "[]" i] show ?thesis by (simp add: operand_def)
  next
    case False
    let ?i = "i + length u"
    obtain js where "length js = length us - 1"
      "scan_ops 0 (?i + length (op_token op)) (py_join (op_token op) us) = map (\<lambda>j. (j, op)) js"
      using Cons.IH [OF False] Cons.prems by fastforce
    moreover have "scan_ops 0 i (py_join (op_token op) (u # us))
      = (?i, op) # scan_ops 0 (?i + length (op_token op)) (py_join (op_token op) us)"
      using Cons.prems False scan_ops_quiet [of 0 u "op_token op @ py_join (op_token op) us" i]
      by (simp add: join_Cons scan_ops_token operand_def)
    ultimately show ?thesis using False by (intro exI [of _ "?i # js"]) (cases us; simp)
  qed
qed simp

lemma scan_split_join:
  assumes "us \<noteq> []" and "\<forall>u \<in> set us. operand u"
  shows "scan_split (op_token op) 0 [] (py_join (op_token op) us) = us"
  using assms
proof (induction us)
  case (Cons u us)
  show ?case
  proof (cases "us = []")
    case True
    with Cons.prems scan_split_quiet [of 0 u "[]" op "[]"] show ?thesis by (simp add: operand_def)
  next
    case False
    with Cons scan_split_quiet [of 0 u "op_token op @ py_join (op_token op) us" op "[]"]
    show ?thesis by (simp add: join_Cons scan_split_token operand_def)
  qed
qed simp

lemma split_top_join:
  assumes "us \<noteq> []" and "\<forall>u \<in> set us. operand u"
  shows "split_top (py_join (op_token op) us) op = us"
  using scan_split_join [OF assms] assms(2)
  by (simp add: split_top_def operand_def map_idI)

text \<open>A level's text starts and ends like its first and last operand and is no single group.\<close>

lemma level_strip:
  assumes "operand u" and "operand v"
  shows "py_strip (u @ w @ v) = u @ w @ v"
  using operand_ends [OF assms(1)] operand_ends [OF assms(2)] by (intro py_strip_id) auto

lemma not_closed_before_end:
  assumes "cap_scan d u" and "0 \<le> d" and "v \<noteq> []" and "closes_at_end d (u @ v)"
    and "u \<noteq> []" and "d = 0 \<longrightarrow> hd u = CHR ''(''"
  shows False
proof -
  have *: "cap_scan d u \<Longrightarrow> 1 \<le> d \<Longrightarrow> v \<noteq> [] \<Longrightarrow> \<not> closes_at_end d (u @ v)" for d u
  proof (induction u arbitrary: d)
    case (Cons c u)
    show ?case
    proof (cases "c = CHR '')'' \<and> d = 1")
      case True
      with Cons.prems show ?thesis by simp
    next
      case False
      with Cons.prems Cons.IH [of "d + 1"] Cons.IH [of "d - 1"] Cons.IH [of d]
      show ?thesis by (auto split: if_splits)
    qed
  qed simp
  show False
  proof (cases "d = 0")
    case True
    with assms obtain u' where "u = CHR ''('' # u'" by (cases u) auto
    with assms True * [of 1 u'] show False by simp
  next
    case False
    with assms * [of d u] show False by simp
  qed
qed

lemma level_not_group:
  assumes "operand u" and "w \<noteq> []"
  shows "\<not> is_single_group (u @ w)"
proof
  assume "is_single_group (u @ w)"
  then have open_paren: "hd u = CHR ''(''" and closes: "closes_at_end 0 (u @ w)"
    using operand_ends(1) [OF assms(1)]
    by (cases u; auto simp: is_single_group_def py_startswith_def)+
  from not_closed_before_end [OF operand_ends(4) [OF assms(1)] _ assms(2) closes
      operand_ends(1) [OF assms(1)]] open_paren
  show False by simp
qed

section \<open>Groups\<close>

text \<open>Text that leaves the depth as it found it, read from inside a group.\<close>

definition balanced :: "string \<Rightarrow> bool" where
  "balanced b = (\<forall>k v. 1 \<le> k \<longrightarrow>
     cap_scan k (b @ v) = cap_scan k v \<and> closes_at_end k (b @ v) = closes_at_end k v)"

lemma balanced_operand: "operand u \<Longrightarrow> balanced u"
  using cap_scan_inner [of 0 u] closes_quiet [of 0 u] by (simp add: balanced_def operand_def)

lemma balanced_text: "CHR ''('' \<notin> set w \<Longrightarrow> CHR '')'' \<notin> set w \<Longrightarrow> balanced w"
  unfolding balanced_def by (induction w) auto

lemma balanced_append: "balanced a \<Longrightarrow> balanced b \<Longrightarrow> balanced (a @ b)"
  by (simp add: balanced_def)

lemma balanced_token [simp]: "balanced (op_token op)"
  by (rule balanced_text) (cases op; simp add: op_token_def)+

lemma balanced_join:
  "\<forall>u \<in> set us. operand u \<Longrightarrow> balanced (py_join (op_token op) us)"
proof (induction us)
  case (Cons u us)
  then show ?case
    by (cases us) (auto intro!: balanced_append intro: balanced_operand)
qed (simp add: balanced_text)

lemma group_operand: "balanced b \<Longrightarrow> operand (''('' @ b @ '')'')"
  by (rule operand_group) (simp add: balanced_def)

lemma group_single: "balanced b \<Longrightarrow> is_single_group (''('' @ b @ '')'')"
  by (simp add: is_single_group_def py_startswith_def py_endswith_def balanced_def)

lemma inside_group [simp]: "inside (CHR ''('' # b @ '')'') = b"
  by (simp add: inside_def butlast_append)

lemma parse_body_group:
  assumes "balanced b" and "py_strip b = b" and "top_level_ops b \<noteq> []"
  shows "parse_body (''('' @ b @ '')'') = parse_body b"
  using assms group_single [OF assms(1)] group_operand [OF assms(1)]
  by (subst parse_body.simps) (simp add: operand_def Let_def)

lemma parse_boolean_group:
  assumes "balanced b" and "py_strip b = b"
  shows "parse_boolean (''('' @ b @ '')'') = parse_body b"
  using assms group_single [OF assms(1)] group_operand [OF assms(1)]
  by (simp add: parse_boolean_def operand_def Let_def is_rich_dep_def py_lstrip_def
      py_startswith_def)

section \<open>The round trip\<close>

fun chain_bool :: "chain_op \<Rightarrow> bool_op" where
  "chain_bool CAnd = OpAnd"
| "chain_bool COr = OpOr"
| "chain_bool CWith = OpWith"

fun cond_bool :: "cond_op \<Rightarrow> bool_op" where
  "cond_bool CIf = OpIf"
| "cond_bool CUnless = OpUnless"

lemma chain_token: "'' '' @ chain_text op @ '' '' = op_token (chain_bool op)"
  by (cases op) (simp_all add: op_token_def)

lemma cond_token: "'' '' @ cond_text op @ '' '' = op_token (cond_bool op)"
  by (cases op) (simp_all add: op_token_def)

fun node_body :: "node \<Rightarrow> string" where
  "node_body (Cap c) = c"
| "node_body (Chain op cs) = py_join (op_token (chain_bool op)) (map unparse_boolean cs)"
| "node_body (Without l r) =
     py_join (op_token OpWithout) [unparse_boolean l, unparse_boolean r]"
| "node_body (Cond op t c e) =
     unparse_boolean t @ op_token (cond_bool op) @ unparse_boolean c
       @ (case e of None \<Rightarrow> [] | Some n \<Rightarrow> op_token OpElse @ unparse_boolean n)"

lemma unparse_group:
  "(\<forall>c. n \<noteq> Cap c) \<Longrightarrow> unparse_boolean n = ''('' @ node_body n @ '')''"
proof (cases n)
  case (Chain op cs)
  then show ?thesis using chain_token [of op] by simp
next
  case (Cond op t c e)
  then show ?thesis
    using cond_token [of op]
    by (simp add: op_token_def split: option.split)
qed (simp_all add: op_token_def)

lemma unparse_operand:
  "(\<forall>c. n \<noteq> Cap c) \<Longrightarrow> balanced (node_body n) \<Longrightarrow>
   operand (unparse_boolean n) \<and> balanced (node_body n)"
  using group_operand [of "node_body n"] unparse_group [of n] by simp

lemma wf_operands:
  "wf_node n \<Longrightarrow> operand (unparse_boolean n) \<and> (balanced (node_body n))"
proof (induction n)
  case (Cap c)
  then have "operand c" by (simp add: cap_ok_def operand_def)
  then show ?case using balanced_operand by simp
next
  case (Chain op cs)
  then have "\<forall>u \<in> set (map unparse_boolean cs). operand u" by (auto simp: list_all_iff)
  then have "balanced (node_body (Chain op cs))" by (simp add: balanced_join del: set_map)
  then show ?case by (intro unparse_operand) simp
next
  case (Without l r)
  then have "balanced (node_body (Without l r))"
    by (simp add: balanced_append balanced_operand)
  then show ?case by (intro unparse_operand) simp
next
  case (Cond op t c e)
  then have "balanced (node_body (Cond op t c e))"
    by (cases e) (simp_all add: balanced_append balanced_operand)
  then show ?case by (intro unparse_operand) simp
qed

lemma parse_body_level:
  assumes "py_strip b = b" and "b \<noteq> []" and "\<not> is_single_group b"
    and "top_level_ops b = map (\<lambda>j. (j, op)) (i # is)" and "cond_of op = None" and "op \<noteq> OpElse"
  shows "parse_body b =
    (case those (map parse_body (split_top b op)) of
       None \<Rightarrow> None | Some children \<Rightarrow> chain_node op children)"
  using assms by (subst parse_body.simps) (simp add: Let_def list_ex_iff)

lemma those_map_Some: "(\<And>x. x \<in> set xs \<Longrightarrow> f (g x) = Some x) \<Longrightarrow> those (map f (map g xs)) = Some xs"
  by (induction xs) auto

text \<open>A chain of two operands at least is read back from its joined text.\<close>

lemma parse_body_join:
  assumes "2 \<le> length cs" and "\<And>c. c \<in> set cs \<Longrightarrow> operand (unparse_boolean c)"
    and "\<And>c. c \<in> set cs \<Longrightarrow> parse_body (unparse_boolean c) = Some c"
    and "cond_of op = None" and "op \<noteq> OpElse"
  defines "b \<equiv> py_join (op_token op) (map unparse_boolean cs)"
  shows "parse_body b = chain_node op cs" and "py_strip b = b" and "top_level_ops b \<noteq> []"
proof -
  let ?us = "map unparse_boolean cs"
  have us: "?us \<noteq> []" "\<forall>u \<in> set ?us. operand u" using assms(1,2) by auto
  obtain u us' where u: "?us = u # us'" and us': "us' \<noteq> []"
    using assms(1) by (cases cs) (auto simp: Suc_le_eq)
  then have b: "b = u @ op_token op @ py_join (op_token op) us'" by (simp add: b_def join_Cons)
  obtain v ws where v: "us' = ws @ [v]" using us' by (metis append_butlast_last_id)
  have "\<exists>w. py_join (op_token op) (ws @ [v]) = w @ v"
    by (induction ws) (auto simp: join_Cons)
  then obtain w where w: "b = u @ (op_token op @ w) @ v" using b v by auto
  have "operand u" "operand v" using us(2) u v by auto
  then show strip: "py_strip b = b" unfolding w by (rule level_strip)
  have single: "\<not> is_single_group b"
    unfolding b using \<open>operand u\<close> by (rule level_not_group) (simp add: op_token_def)
  obtain "is" where len: "length is = length ?us - 1"
    and ops: "top_level_ops b = map (\<lambda>j. (j, op)) is"
    using scan_ops_join [OF us, of 0 op] unfolding b_def top_level_ops_def by blast
  obtain i is' where "is": "is = i # is'" using len assms(1) by (cases "is") auto
  then show "top_level_ops b \<noteq> []" using ops by simp
  have "b \<noteq> []" using b operand_ends(1) [OF \<open>operand u\<close>] by simp
  then have "parse_body b = (case those (map parse_body (split_top b op)) of
      None \<Rightarrow> None | Some children \<Rightarrow> chain_node op children)"
    using parse_body_level [OF strip _ single _ assms(4,5), of i is'] ops "is" by simp
  also have "split_top b op = ?us" unfolding b_def by (rule split_top_join [OF us])
  also have "those (map parse_body ?us) = Some cs" by (rule those_map_Some) (rule assms(3))
  finally show "parse_body b = chain_node op cs" by simp
qed

text \<open>A condition, with and without its alternative.\<close>

lemma cond_of_bool [simp]: "cond_of (cond_bool op) = Some op"
  by (cases op) (simp_all add: cond_of_def)

lemma parse_body_cond:
  fixes op :: cond_op
  assumes "operand t" and "operand c"
  defines "b \<equiv> t @ op_token (cond_bool op) @ c"
  shows "parse_body b = (case (parse_body t, parse_body c) of
      (Some x, Some y) \<Rightarrow> Some (Cond op x y None) | _ \<Rightarrow> None)"
    and "py_strip b = b" and "top_level_ops b \<noteq> []"
proof -
  let ?o = "cond_bool op"
  show strip: "py_strip b = b" unfolding b_def by (rule level_strip [OF assms(1,2)])
  have single: "\<not> is_single_group b"
    unfolding b_def using assms(1) by (rule level_not_group) (simp add: op_token_def)
  have "b \<noteq> []" using operand_ends(1) [OF assms(1)] by (simp add: b_def)
  have ops: "top_level_ops b = [(length t, ?o)]"
    using scan_ops_quiet [OF operand_ends(4) [OF assms(1)], of "op_token ?o @ c" 0]
      scan_ops_quiet [OF operand_ends(4) [OF assms(2)], of "[]"]
    by (simp add: top_level_ops_def b_def scan_ops_token)
  then show "top_level_ops b \<noteq> []" by simp
  have "take (length t) b = t" "drop (length t + length (op_token ?o)) b = c"
    by (simp_all add: b_def)
  with strip single ops \<open>b \<noteq> []\<close> show "parse_body b = (case (parse_body t, parse_body c) of
      (Some x, Some y) \<Rightarrow> Some (Cond op x y None) | _ \<Rightarrow> None)"
    by (subst parse_body.simps) (simp add: Let_def)
qed

lemma parse_body_cond_else:
  fixes op :: cond_op
  assumes "operand t" and "operand c" and "operand e"
  defines "b \<equiv> t @ op_token (cond_bool op) @ c @ op_token OpElse @ e"
  shows "parse_body b = (case (parse_body t, parse_body c, parse_body e) of
      (Some x, Some y, Some z) \<Rightarrow> Some (Cond op x y (Some z)) | _ \<Rightarrow> None)"
    and "py_strip b = b" and "top_level_ops b \<noteq> []"
proof -
  let ?o = "cond_bool op"
  let ?j = "length t + length (op_token ?o) + length c"
  have b: "b = t @ (op_token ?o @ c @ op_token OpElse) @ e" by (simp add: b_def)
  show strip: "py_strip b = b" unfolding b by (rule level_strip [OF assms(1,3)])
  have single: "\<not> is_single_group b"
    unfolding b_def using assms(1) by (rule level_not_group) (simp add: op_token_def)
  have "b \<noteq> []" using operand_ends(1) [OF assms(1)] by (simp add: b_def)
  have ops: "top_level_ops b = [(length t, ?o), (?j, OpElse)]"
    using scan_ops_quiet [OF operand_ends(4) [OF assms(1)],
        of "op_token ?o @ c @ op_token OpElse @ e" 0]
      scan_ops_quiet [OF operand_ends(4) [OF assms(2)], of "op_token OpElse @ e"]
      scan_ops_quiet [OF operand_ends(4) [OF assms(3)], of "[]"]
    by (simp add: top_level_ops_def b_def scan_ops_token)
  then show "top_level_ops b \<noteq> []" by simp
  have "take (length t) b = t"
    "take (?j - (length t + length (op_token ?o))) (drop (length t + length (op_token ?o)) b) = c"
    "drop (?j + length (op_token OpElse)) b = e"
    by (simp_all add: b_def)
  with strip single ops \<open>b \<noteq> []\<close>
  show "parse_body b = (case (parse_body t, parse_body c, parse_body e) of
      (Some x, Some y, Some z) \<Rightarrow> Some (Cond op x y (Some z)) | _ \<Rightarrow> None)"
    by (subst parse_body.simps) (simp add: Let_def)
qed

lemma cap_scan_no_ops: "cap_scan d u \<Longrightarrow> 0 \<le> d \<Longrightarrow> scan_ops d i u = []"
  using scan_ops_quiet [of d u "[]" i] by simp

lemma parse_body_cap: "cap_ok c \<Longrightarrow> parse_body c = Some (Cap c)"
proof -
  assume ok: "cap_ok c"
  then have "\<not> is_single_group c"
    by (cases c) (auto simp: cap_ok_def is_single_group_def py_startswith_def)
  moreover have "top_level_ops c = []"
    using ok by (simp add: cap_ok_def top_level_ops_def cap_scan_no_ops)
  ultimately show ?thesis
    using ok by (subst parse_body.simps) (simp add: cap_ok_def Let_def)
qed

lemma parse_body_node:
  assumes "wf_node n"
  shows "parse_body (unparse_boolean n) = Some n
    \<and> ((\<forall>c. n \<noteq> Cap c) \<longrightarrow> parse_body (node_body n) = Some n \<and> py_strip (node_body n) = node_body n)"
  using assms
proof (induction n)
  case (Cap c)
  then show ?case by (simp add: parse_body_cap)
next
  case (Chain op cs)
  have wf: "2 \<le> length cs" "\<And>c. c \<in> set cs \<Longrightarrow> wf_node c"
    using Chain.prems by (auto simp: list_all_iff)
  have level: "cond_of (chain_bool op) = None" "chain_bool op \<noteq> OpElse"
    by (cases op; simp add: cond_of_def)+
  note join = parse_body_join [OF wf(1) _ _ level, folded node_body.simps(2)]
  have "parse_body (node_body (Chain op cs)) = chain_node (chain_bool op) cs"
    "py_strip (node_body (Chain op cs)) = node_body (Chain op cs)"
    "top_level_ops (node_body (Chain op cs)) \<noteq> []"
    using wf wf_operands Chain.IH by (intro join; blast)+
  moreover have "chain_node (chain_bool op) cs = Some (Chain op cs)"
    by (cases op) (simp_all add: chain_node_def)
  ultimately show ?case
    using parse_body_group [of "node_body (Chain op cs)"] wf_operands [OF Chain.prems]
      unparse_group [of "Chain op cs"] by (simp del: unparse_boolean.simps node_body.simps)
next
  case (Without l r)
  have wf: "wf_node l" "wf_node r" using Without.prems by auto
  have ops: "\<And>c. c \<in> set [l, r] \<Longrightarrow> operand (unparse_boolean c)"
    and IH: "\<And>c. c \<in> set [l, r] \<Longrightarrow> parse_body (unparse_boolean c) = Some c"
    using wf wf_operands Without.IH by auto
  have level: "cond_of OpWithout = None" "OpWithout \<noteq> OpElse" by (simp_all add: cond_of_def)
  have two: "2 \<le> length [l, r]" by simp
  have body: "node_body (Without l r) = py_join (op_token OpWithout) (map unparse_boolean [l, r])"
    by simp
  have "parse_body (node_body (Without l r)) = chain_node OpWithout [l, r]"
    "py_strip (node_body (Without l r)) = node_body (Without l r)"
    "top_level_ops (node_body (Without l r)) \<noteq> []"
    unfolding body by (rule parse_body_join [OF two ops IH level]; assumption)+
  moreover have "chain_node OpWithout [l, r] = Some (Without l r)"
    by (simp add: chain_node_def)
  ultimately show ?case
    using parse_body_group [of "node_body (Without l r)"] wf_operands [OF Without.prems]
      unparse_group [of "Without l r"] by (simp del: unparse_boolean.simps node_body.simps)
next
  case (Cond op t c e)
  have wf: "wf_node t" "wf_node c" using Cond.prems by auto
  let ?n = "Cond op t c e"
  have "parse_body (node_body ?n) = Some ?n \<and> py_strip (node_body ?n) = node_body ?n
    \<and> top_level_ops (node_body ?n) \<noteq> []"
  proof (cases e)
    case None
    with wf Cond.IH(1,2) wf_operands parse_body_cond [of "unparse_boolean t" "unparse_boolean c" op]
    show ?thesis by simp
  next
    case (Some x)
    then have "wf_node x" using Cond.prems by simp
    with Some wf Cond.IH wf_operands
      parse_body_cond_else [of "unparse_boolean t" "unparse_boolean c" "unparse_boolean x" op]
    show ?thesis by simp
  qed
  then show ?case
    using parse_body_group [of "node_body ?n"] wf_operands [OF Cond.prems]
      unparse_group [of ?n] by (simp del: unparse_boolean.simps node_body.simps)
qed

lemma parse_unparse:
  assumes "wf_node n" and "\<forall>c. n \<noteq> Cap c"
  shows "parse_boolean (unparse_boolean n) = Some n"
  using parse_body_node [OF assms(1)] wf_operands [OF assms(1)] unparse_group [OF assms(2)]
    parse_boolean_group [of "node_body n"] assms(2) by simp

section \<open>Properties\<close>

text \<open>
  C6: Printing an expression and reading it back gives the same tree, for every tree whose
  chains have two operands at least and whose capabilities are stripped, hold no unbalanced
  parenthesis and no operator word of their own; so the expression text can stand for the
  expression as the key of an override.
\<close>

theorem rich_dep_roundtrip:
  assumes "wf_node n" and "\<forall>c. n \<noteq> Cap c"
  shows "parse_boolean (unparse_boolean n) = Some n"
  by (rule parse_unparse [OF assms])

theorem rich_dep_roundtrip_witness:
  "parse_boolean ''((a >= 1 or python3dist(b)) if (c without d) else (e with e < 2))''
   = Some (Cond CIf (Chain COr [Cap ''a >= 1'', Cap ''python3dist(b)''])
            (Without (Cap ''c'') (Cap ''d'')) (Some (Chain CWith [Cap ''e'', Cap ''e < 2''])))"
proof -
  let ?n = "Cond CIf (Chain COr [Cap ''a >= 1'', Cap ''python3dist(b)''])
            (Without (Cap ''c'') (Cap ''d'')) (Some (Chain CWith [Cap ''e'', Cap ''e < 2'']))"
  have "wf_node ?n" by code_simp
  then have "parse_boolean (unparse_boolean ?n) = Some ?n" by (rule rich_dep_roundtrip) simp
  then show ?thesis by simp
qed

text \<open>
  An operator read at the top level swallows the space the next one needs: the scan goes on one
  character past the space that ends the token, so an operator word right behind another is
  read as part of a capability.
\<close>

theorem adjacent_operator_swallowed:
  "parse_boolean ''(a or and b)'' = Some (Chain COr [Cap ''a'', Cap ''and b''])"
  by code_simp

end
