(* ===== verification/Resolve.thy ===== *)
theory Resolve
  imports RichDepRoundtrip
begin

text \<open>
  From a capability to the one package that provides it: \<^verbatim>\<open>resolve_capability\<close> and
  \<^verbatim>\<open>validate_overrides\<close> of \<^verbatim>\<open>tools/depgraph.py\<close>. An exception is a value of
  \<open>resolve_error\<close>; a problem's formatted message is a value of \<open>detail\<close> that carries the
  message's arguments.
\<close>

type_synonym provides_map = "(string, string list) dict"
type_synonym evr_map = "(string, (string, evr list) dict) dict"
type_synonym override_map = "(string, string) dict"

text \<open>\<open>AmbiguousProvider(capability, candidates)\<close> and \<open>UnresolvedCapability(text, required_by)\<close>.\<close>

datatype resolve_error =
    Ambiguous string "string list"
  | Unresolved string string

datatype detail =
    NoProvider string string
  | NothingProvides string string
  | NotProvided string string "string list"
  | NoBuildInRange string "string list" "string list"
  | ManyPackages string "string list"
  | ManyProviders string "string list"
  | OpenChoice string "string list" "string list"
  | RichText string
  | NoSourcePackage string
  | NoBinaryPackage string
  | VersionNotCarried string string string string "string list"

type_synonym problem = "string \<times> detail \<times> string"

text \<open>\<open>"-".join(x for x in (evr[1], evr[2]) if x)\<close>\<close>

definition offered_text :: "evr \<Rightarrow> string" where
  "offered_text e = (case e of (_, v, r) \<Rightarrow>
     py_join ''-'' (map the (filter truthy [v, r])))"

text \<open>
  The versions the matching packages declare, in the order the selection loop visits them:
  packages by name, each package's versions as declared, those that satisfy the constraint.
\<close>

definition matching_versions ::
  "(string, evr list) dict \<Rightarrow> (cmp_op \<times> string) option \<Rightarrow> string list \<Rightarrow> (string \<times> evr) list" where
  "matching_versions versions constraint matching =
     concat (map (\<lambda>pkg. map (Pair pkg)
        (filter (\<lambda>e. satisfies_constraint (Some e) constraint) (dget_or versions pkg [])))
      (sorted_set matching))"

definition newer_version :: "string \<times> evr \<Rightarrow> string \<times> evr \<Rightarrow> bool" where
  "newer_version x y = (0 < compare_evr (snd x) (snd y))"

definition resolve_capability ::
  "string \<Rightarrow> provides_map \<Rightarrow> string \<Rightarrow> override_map \<Rightarrow> evr_map \<Rightarrow> resolve_error + string" where
  "resolve_capability capability provides required_by overrides provide_evr =
     (case dget overrides capability of
        Some p \<Rightarrow> Inr p
      | None \<Rightarrow>
     (let (name, constraint) = split_constraint capability in
      case dget overrides name of
        Some p \<Rightarrow> Inr p
      | None \<Rightarrow>
     (let candidates = dget_or provides name [] in
      if candidates = [] then Inl (Unresolved capability required_by)
      else
        let versions = dget_or provide_evr name [];
            matching = remdups (filter (\<lambda>pkg. any_version_satisfies (dget versions pkg) constraint)
                                  candidates)
        in
        if matching = [] then
          (let offered = sorted_set (concat (map (\<lambda>pkg. map offered_text (dget_or versions pkg []))
                                              candidates))
           in Inl (Unresolved
               (capability @ '' (provided by '' @ py_join '', '' (sort candidates) @ '', at ''
                 @ (if py_join '', '' offered = [] then ''no version'' else py_join '', '' offered)
                 @ '')'')
               required_by))
        else if length matching = 1 then Inr (hd matching)
        else if name \<in> set matching then Inr name
        else
          case (if constraint = None then None
                else fold_newest newer_version (matching_versions versions constraint matching)) of
            Some (best, _) \<Rightarrow> Inr best
          | None \<Rightarrow> Inl (Ambiguous capability matching))))"

definition override_problem ::
  "override_map \<Rightarrow> provides_map \<Rightarrow> string \<Rightarrow> string \<Rightarrow> problem list" where
  "override_problem overrides provides scope capability =
     (if is_rich_dep capability \<or> parse_or_dep capability \<notin> {None, Some []} then []
      else
        let package = (case dget overrides capability of Some p \<Rightarrow> p | None \<Rightarrow> []);
            providers = dget_or provides capability [];
            who = (if scope = [] then ''override'' else scope)
        in if providers = [] then [(''bad-override'', NothingProvides capability package, who)]
           else if package \<notin> set providers
           then [(''bad-override'', NotProvided capability package (sort providers), who)]
           else [])"

definition validate_overrides ::
  "override_map \<Rightarrow> provides_map \<Rightarrow> string \<Rightarrow> problem list" where
  "validate_overrides overrides provides scope =
     concat (map (override_problem overrides provides scope) (sort (keys overrides)))"

section \<open>What a resolution returns\<close>

text \<open>The packages a resolution can name: what an override names and what provides something.\<close>

definition named_packages :: "provides_map \<Rightarrow> override_map \<Rightarrow> string set" where
  "named_packages provides overrides =
     set (map snd overrides) \<union> (\<Union>ps \<in> set (map snd provides). set ps)"

lemma finite_named_packages [simp]: "finite (named_packages provides overrides)"
  by (simp add: named_packages_def)

lemma override_named: "dget overrides c = Some p \<Longrightarrow> p \<in> named_packages provides overrides"
  by (auto simp: named_packages_def dest!: map_of_SomeD intro: rev_image_eqI)

lemma provider_named:
  assumes "p \<in> set (dget_or provides c [])"
  shows "p \<in> named_packages provides overrides"
  using assms
proof (rule dget_or_cases)
  fix ps assume "dget provides c = Some ps" "p \<in> set ps"
  then show ?thesis by (force simp: named_packages_def dest!: map_of_SomeD)
qed

text \<open>A resolution that was not overridden names a provider that satisfies the constraint.\<close>

definition supplies ::
  "provides_map \<Rightarrow> evr_map \<Rightarrow> string \<Rightarrow> string \<Rightarrow> bool" where
  "supplies provides provide_evr capability p =
     (let (name, constraint) = split_constraint capability in
      p \<in> set (dget_or provides name [])
      \<and> any_version_satisfies (dget (dget_or provide_evr name []) p) constraint)"

lemma matching_versions_mem:
  "(p, e) \<in> set (matching_versions versions constraint matching) \<longleftrightarrow>
   p \<in> set matching \<and> e \<in> set (dget_or versions p []) \<and> satisfies_constraint (Some e) constraint"
  by (auto simp: matching_versions_def)

lemma resolve_supplies:
  assumes "resolve_capability capability provides who overrides provide_evr = Inr p"
    and "dget overrides capability = None"
    and "dget overrides (strip_capability_version capability) = None"
  shows "supplies provides provide_evr capability p"
proof -
  obtain name constraint where sp: "split_constraint capability = (name, constraint)"
    by (cases "split_constraint capability")
  then have nm: "dget overrides name = None"
    using assms(3) split_constraint_name [of capability] by simp
  let ?cands = "dget_or provides name []"
  let ?vs = "dget_or provide_evr name []"
  let ?m = "remdups (filter (\<lambda>pkg. any_version_satisfies (dget ?vs pkg) constraint) ?cands)"
  have "p \<in> set ?m"
  proof -
    have ne: "?cands \<noteq> []" "?m \<noteq> []"
      using assms(1,2) sp nm by (auto simp: resolve_capability_def Let_def split: if_splits)
    consider "length ?m = 1" "p = hd ?m" | "name \<in> set ?m" "p = name"
      | b where "fold_newest newer_version (matching_versions ?vs constraint ?m) = Some (p, b)"
      using assms(1,2) sp nm ne
      by (auto simp: resolve_capability_def Let_def split: if_splits option.splits prod.splits)
    then show ?thesis
    proof cases
      case 1 with ne(2) show ?thesis by (metis hd_in_set)
    next
      case 2 then show ?thesis by simp
    next
      case (3 b)
      then show ?thesis using fold_newest_in_set [OF 3] matching_versions_mem by blast
    qed
  qed
  then show ?thesis using sp by (simp add: supplies_def)
qed

lemma resolve_named:
  assumes "resolve_capability capability provides who overrides provide_evr = Inr p"
  shows "p \<in> named_packages provides overrides"
proof (cases "dget overrides capability = None
    \<and> dget overrides (strip_capability_version capability) = None")
  case True
  then have "supplies provides provide_evr capability p" using resolve_supplies [OF assms] by blast
  then show ?thesis by (auto simp: supplies_def intro: provider_named split: prod.splits)
next
  case False
  then show ?thesis
    using assms split_constraint_name [of capability] override_named
    by (auto simp: resolve_capability_def split: option.splits prod.splits)
qed

text \<open>An ambiguity names two providers at least, all of which satisfy the constraint.\<close>

lemma resolve_ambiguous:
  assumes "resolve_capability capability provides who overrides provide_evr = Inl (Ambiguous c ps)"
  shows "c = capability" and "distinct ps" and "2 \<le> length ps"
    and "\<And>p. p \<in> set ps \<longleftrightarrow> supplies provides provide_evr capability p"
proof -
  obtain name constraint where sp: "split_constraint capability = (name, constraint)"
    by (cases "split_constraint capability")
  let ?cands = "dget_or provides name []"
  let ?vs = "dget_or provide_evr name []"
  let ?m = "remdups (filter (\<lambda>pkg. any_version_satisfies (dget ?vs pkg) constraint) ?cands)"
  have *: "c = capability \<and> ps = ?m \<and> ?m \<noteq> [] \<and> length ?m \<noteq> 1"
    using assms sp
    by (auto simp: resolve_capability_def Let_def split: if_splits option.splits prod.splits)
  then show "c = capability" "distinct ps" by auto
  have "length ps \<noteq> 0" "length ps \<noteq> 1" using * by simp_all
  then show "2 \<le> length ps" by linarith
  show "\<And>p. p \<in> set ps \<longleftrightarrow> supplies provides provide_evr capability p"
    using * sp by (simp add: supplies_def)
qed

text \<open>
  Among several providers of a constrained capability none of which bears its name, the chosen
  one declares a version no other satisfying version is newer than.
\<close>

interpretation versions: keyed_version_order compare_evr "snd :: string \<times> evr \<Rightarrow> evr"
  by unfold_locales

lemma newest_matching:
  assumes "fold_newest newer_version (matching_versions vs constraint ps) = Some (p, e)"
    and "q \<in> set ps" and "f \<in> set (dget_or vs q [])" and "satisfies_constraint (Some f) constraint"
  shows "0 \<le> compare_evr e f"
proof -
  have "fold_newest (\<lambda>x y. 0 < compare_evr (snd x) (snd y)) (matching_versions vs constraint ps)
      = Some (p, e)"
    using assms(1) by (simp add: newer_version_def [abs_def])
  then have "0 \<le> compare_evr (snd (p, e)) (snd (q, f))"
    by (rule versions.keyed.fold_newest_max) (simp add: matching_versions_mem assms(2-))
  then show ?thesis by simp
qed

lemma resolve_unresolved:
  assumes "resolve_capability capability provides who overrides provide_evr = Inl (Unresolved text asker)"
  shows "\<not> supplies provides provide_evr capability p" and "asker = who"
proof -
  obtain name constraint where sp: "split_constraint capability = (name, constraint)"
    by (cases "split_constraint capability")
  let ?cands = "dget_or provides name []"
  let ?vs = "dget_or provide_evr name []"
  let ?m = "remdups (filter (\<lambda>pkg. any_version_satisfies (dget ?vs pkg) constraint) ?cands)"
  have "?cands = [] \<or> ?m = []" "asker = who"
    using assms sp
    by (auto simp: resolve_capability_def Let_def split: if_splits option.splits prod.splits)
  moreover have "supplies provides provide_evr capability p \<longleftrightarrow> p \<in> set ?m"
    by (simp add: supplies_def sp)
  ultimately show "\<not> supplies provides provide_evr capability p" "asker = who"
    by (auto simp: filter_empty_conv)
qed

lemma resolve_newest:
  assumes r: "resolve_capability capability provides who overrides provide_evr = Inr p"
    and no: "dget overrides capability = None" "dget overrides name = None"
    and sp: "split_constraint capability = (name, Some c)"
    and q: "supplies provides provide_evr capability q" "q \<noteq> p"
    and name: "\<not> supplies provides provide_evr capability name"
  shows "\<exists>e \<in> set (dget_or (dget_or provide_evr name []) p []).
     satisfies_constraint (Some e) (Some c)
     \<and> (\<forall>q' f. supplies provides provide_evr capability q' \<longrightarrow>
          f \<in> set (dget_or (dget_or provide_evr name []) q' []) \<longrightarrow>
          satisfies_constraint (Some f) (Some c) \<longrightarrow> 0 \<le> compare_evr e f)"
proof -
  let ?vs = "dget_or provide_evr name []"
  let ?m = "remdups (filter (\<lambda>pkg. any_version_satisfies (dget ?vs pkg) (Some c))
      (dget_or provides name []))"
  have mem: "supplies provides provide_evr capability x \<longleftrightarrow> x \<in> set ?m" for x
    by (simp add: supplies_def sp)
  have p: "p \<in> set ?m"
    using resolve_supplies [OF r no(1)] no(2) split_constraint_name [of capability] sp mem by simp
  have two: "length ?m \<noteq> 1"
  proof
    assume "length ?m = 1"
    then obtain x where "?m = [x]" by (auto simp: length_Suc_conv)
    then have one: "set ?m = {x}" by simp
    have "p = x" using p unfolding one by simp
    moreover have "q = x" using q(1) unfolding mem one by simp
    ultimately show False using q(2) by simp
  qed
  have ne: "dget_or provides name [] \<noteq> []" "?m \<noteq> []" using p by (auto simp: filter_empty_conv)
  have "name \<notin> set ?m" using name mem by blast
  then have "resolve_capability capability provides who overrides provide_evr =
      (case fold_newest newer_version (matching_versions ?vs (Some c) ?m) of
         Some (best, _) \<Rightarrow> Inr best | None \<Rightarrow> Inl (Ambiguous capability ?m))"
    unfolding resolve_capability_def Let_def
    by (simp only: no sp option.case prod.case ne two if_False option.distinct)
  then obtain e where e: "fold_newest newer_version (matching_versions ?vs (Some c) ?m) = Some (p, e)"
    using r by (auto split: option.splits)
  then have "(p, e) \<in> set (matching_versions ?vs (Some c) ?m)" by (rule fold_newest_in_set)
  then show ?thesis
    using newest_matching [OF e] mem unfolding matching_versions_mem by blast
qed

section \<open>Properties\<close>



text \<open>
  When several packages provide a capability within its constraint and none of them bears
  its name, the package chosen declares a satisfying version that no satisfying version of any
  other candidate is newer than.
\<close>

theorem resolve_chooses_newest:
  assumes "resolve_capability capability provides who overrides provide_evr = Inr p"
    and "dget overrides capability = None" "dget overrides name = None"
    and "split_constraint capability = (name, Some c)"
    and "supplies provides provide_evr capability q" "q \<noteq> p"
    and "\<not> supplies provides provide_evr capability name"
  shows "\<exists>e \<in> set (dget_or (dget_or provide_evr name []) p []).
     satisfies_constraint (Some e) (Some c)
     \<and> (\<forall>q' f. supplies provides provide_evr capability q' \<longrightarrow>
          f \<in> set (dget_or (dget_or provide_evr name []) q' []) \<longrightarrow>
          satisfies_constraint (Some f) (Some c) \<longrightarrow> 0 \<le> compare_evr e f)"
  by (rule resolve_newest [OF assms])

theorem resolve_chooses_newest_witness:
  "let vs = [(''crate(base64)'', [(''rust-base64'', [(None, Some ''0.22.1'', None)]),
        (''rust-base64_0.21'', [(None, Some ''0.21.7'', None)])])] in
   \<exists>e \<in> set (dget_or (dget_or vs ''crate(base64)'' []) ''rust-base64'' []).
     satisfies_constraint (Some e) (Some (GE, ''0.21''))
     \<and> 0 \<le> compare_evr e (None, Some ''0.21.7'', None)"
proof -
  let ?ps = "[(''crate(base64)'', [''rust-base64'', ''rust-base64_0.21''])]"
  let ?vs = "[(''crate(base64)'', [(''rust-base64'', [(None, Some ''0.22.1'', None)]),
        (''rust-base64_0.21'', [(None, Some ''0.21.7'', None)])])]
        :: evr_map"
  have "resolve_capability ''crate(base64) >= 0.21'' ?ps ''x'' [] ?vs = Inr ''rust-base64''"
    "split_constraint ''crate(base64) >= 0.21'' = (''crate(base64)'', Some (GE, ''0.21''))"
    "supplies ?ps ?vs ''crate(base64) >= 0.21'' ''rust-base64_0.21''"
    "\<not> supplies ?ps ?vs ''crate(base64) >= 0.21'' ''crate(base64)''"
    "(None, Some ''0.21.7'', None) \<in>
       set (dget_or (dget_or ?vs ''crate(base64)'' []) ''rust-base64_0.21'' [])"
    "satisfies_constraint (Some (None, Some ''0.21.7'', None)) (Some (GE, ''0.21''))"
    by code_simp+
  then show ?thesis
    using resolve_chooses_newest [of "''crate(base64) >= 0.21''" ?ps "''x''" "[]" ?vs
        "''rust-base64''" "''crate(base64)''" "(GE, ''0.21'')" "''rust-base64_0.21''"]
    unfolding Let_def by fastforce
qed

lemma is_rich_dep_strip: "is_rich_dep (py_strip c) = is_rich_dep c"
proof (cases "dropWhile py_isspace c")
  case Nil
  then show ?thesis
    by (simp add: is_rich_dep_def py_strip_def py_lstrip_def rdrop_while_def
        del: dropWhile_eq_Nil_conv)
next
  case (Cons x t)
  then have x: "\<not> py_isspace x" by (metis dropWhile_eq_Cons_conv)
  then have "py_strip c = x # rdrop_while py_isspace t"
    using Cons by (simp add: py_strip_def rdrop_while_def dropWhile_append3)
  then show ?thesis using Cons x by (simp add: is_rich_dep_def py_lstrip_def py_startswith_def)
qed

lemma plain_not_or: "\<not> is_rich_dep c \<Longrightarrow> parse_or_dep c = None"
  by (simp add: parse_or_dep_def parse_boolean_def is_rich_dep_strip)

text \<open>
  The check of the overrides is exact on plain capabilities: it reports nothing if and only
  if every override names a package that provides the capability it settles.
\<close>

theorem validate_overrides_exact:
  assumes "\<forall>c \<in> fst ` set overrides. \<not> is_rich_dep c"
  shows "validate_overrides overrides provides scope = [] \<longleftrightarrow>
    (\<forall>c p. dget overrides c = Some p \<longrightarrow> p \<in> set (dget_or provides c []))"
proof -
  have "override_problem overrides provides scope c = [] \<longleftrightarrow> p \<in> set (dget_or provides c [])"
    if c: "dget overrides c = Some p" for c p
  proof -
    have "c \<in> fst ` set overrides" using c by (force dest: map_of_SomeD)
    with assms have plain: "\<not> is_rich_dep c" by blast
    then show ?thesis using c plain_not_or [OF plain]
      by (auto simp: override_problem_def Let_def)
  qed
  moreover have "c \<in> set (keys overrides) \<longleftrightarrow> (\<exists>p. dget overrides c = Some p)" for c
    unfolding keys_def set_map by (metis map_of_eq_None_iff not_Some_eq)
  ultimately show ?thesis
    unfolding validate_overrides_def by (simp add: concat_eq_Nil_conv) blast
qed

theorem validate_overrides_exact_witness:
  "validate_overrides [(''/usr/bin/mount'', ''util-linux'')]
     [(''/usr/bin/mount'', [''util-linux'', ''util-linux-core''])] ''image'' = []
   \<and> validate_overrides [(''/usr/bin/mount'', ''mount'')]
     [(''/usr/bin/mount'', [''util-linux'', ''util-linux-core''])] ''image'' \<noteq> []"
proof -
  have "\<not> is_rich_dep ''/usr/bin/mount''" by code_simp
  then show ?thesis
    using validate_overrides_exact [of "[(''/usr/bin/mount'', ''util-linux'')]"]
      validate_overrides_exact [of "[(''/usr/bin/mount'', ''mount'')]"]
    by (simp add: dget_or_def)
qed

end
