(* ===== verification/Require.thy ===== *)
theory Require
  imports Resolve
begin

text \<open>
  The inner functions of \<^verbatim>\<open>runtime_closure\<close> (\<^verbatim>\<open>tools/depgraph.py\<close>): resolving one
  requirement, testing an expression against the closure so far, and turning an expression into
  packages. Each takes the closure's state and returns it changed, as the Python closures change
  the lists they share.
\<close>

record closure_env =
  env_requires :: "(string, string list) dict"
  env_provides :: provides_map
  env_overrides :: override_map
  env_provide_evr :: evr_map

text \<open>
  \<open>seen\<close>, \<open>problems\<close>, \<open>frontier\<close>, \<open>pending\<close> and \<open>choices\<close> of the source. The frontier is kept
  with its top first: the Python list reversed, since the code pushes and pops at its end.
\<close>

record closure_state =
  seen :: "string set"
  problems :: "problem list"
  frontier :: "string list"
  pending :: "(node \<times> string) list"
  choices :: "(string \<times> string list \<times> string) list"

definition add_problem :: "problem \<Rightarrow> closure_state \<Rightarrow> closure_state" where
  "add_problem p st = st\<lparr>problems := problems st @ [p]\<rparr>"

definition add_choice :: "string \<Rightarrow> string list \<Rightarrow> string \<Rightarrow> closure_state \<Rightarrow> closure_state" where
  "add_choice e alts who st = st\<lparr>choices := choices st @ [(e, alts, who)]\<rparr>"

definition add_pending :: "node \<Rightarrow> string \<Rightarrow> closure_state \<Rightarrow> closure_state" where
  "add_pending n who st = st\<lparr>pending := pending st @ [(n, who)]\<rparr>"

abbreviation env_resolve :: "closure_env \<Rightarrow> string \<Rightarrow> string \<Rightarrow> resolve_error + string" where
  "env_resolve env cap who \<equiv>
     resolve_capability cap (env_provides env) who (env_overrides env) (env_provide_evr env)"

abbreviation env_providers :: "closure_env \<Rightarrow> string \<Rightarrow> string list" where
  "env_providers env name \<equiv> dget_or (env_provides env) name []"

text \<open>The versions the candidates declare, in the order the range loop visits them.\<close>

definition candidate_versions ::
  "(string, evr list) dict \<Rightarrow> string list \<Rightarrow> (string \<times> evr) list" where
  "candidate_versions versions candidates =
     concat (map (\<lambda>pkg. map (Pair pkg) (dget_or versions pkg [])) (sorted_set candidates))"

definition in_range :: "(string, evr list) dict \<Rightarrow> string list \<Rightarrow> string \<Rightarrow> bool" where
  "in_range versions caps pkg =
     (\<forall>cap \<in> set caps. any_version_satisfies (dget versions pkg) (snd (split_constraint cap)))"

text \<open>One provider satisfying every bound of a version range; \<open>caps\<close> is not empty.\<close>

definition resolve_range ::
  "closure_env \<Rightarrow> string list \<Rightarrow> string \<Rightarrow> closure_state \<Rightarrow> string option \<times> closure_state" where
  "resolve_range env caps who st =
     (let name = strip_capability_version (hd caps) in
      case dget (env_overrides env) name of
        Some p \<Rightarrow> (Some p, st)
      | None \<Rightarrow>
     (let group = remdups (env_providers env name) in
      if group = [] then
        (None, add_problem (''unresolved'', NoProvider (py_join '' with '' caps) who, who) st)
      else
        let versions = dget_or (env_provide_evr env) name [];
            candidates = filter (in_range versions caps) group
        in
        if candidates = [] then
          (None, add_problem (''unresolved'',
             NoBuildInRange name caps (sort (env_providers env name)), who) st)
        else if length candidates = 1 then (Some (hd candidates), st)
        else
          case fold_newest newer_version (candidate_versions versions candidates) of
            Some (best, _) \<Rightarrow> (Some best, st)
          | None \<Rightarrow>
              (None, add_choice (py_join '' with '' caps) (sorted_set candidates) who st)))"

definition resolve ::
  "closure_env \<Rightarrow> string \<Rightarrow> string \<Rightarrow> closure_state \<Rightarrow> string option \<times> closure_state" where
  "resolve env cap who st =
     (case env_resolve env cap who of
        Inr p \<Rightarrow> (Some p, st)
      | Inl (Ambiguous _ candidates) \<Rightarrow> (None, add_choice cap (sorted_set candidates) who st)
      | Inl (Unresolved text by) \<Rightarrow>
          (None, add_problem (''unresolved'', NoProvider text by, who) st))"

definition capability_present :: "closure_env \<Rightarrow> string set \<Rightarrow> string \<Rightarrow> bool" where
  "capability_present env S cap =
     (case dget (env_overrides env) cap of
        Some p \<Rightarrow> p \<in> S
      | None \<Rightarrow> list_ex (\<lambda>p. p \<in> S) (env_providers env cap))"

fun satisfied :: "closure_env \<Rightarrow> string set \<Rightarrow> node \<Rightarrow> bool" where
  "satisfied env S (Cap c) = capability_present env S (strip_capability_version c)"
| "satisfied env S (Chain COr cs) = list_ex (satisfied env S) cs"
| "satisfied env S (Chain CAnd cs) = list_all (satisfied env S) cs"
| "satisfied env S (Chain CWith cs) = list_all (satisfied env S) cs"
| "satisfied env S (Without l r) = (satisfied env S l \<and> \<not> satisfied env S r)"
| "satisfied env S (Cond CIf t c e) =
     (if satisfied env S c then satisfied env S t
      else (case e of Some n \<Rightarrow> satisfied env S n | None \<Rightarrow> True))"
| "satisfied env S (Cond CUnless t c e) =
     (if satisfied env S c then (case e of Some n \<Rightarrow> satisfied env S n | None \<Rightarrow> True)
      else satisfied env S t)"

text \<open>The packages that satisfy every leaf of a \<open>with\<close>, or a \<open>without\<close>.\<close>

definition intersect_names :: "closure_env \<Rightarrow> string list \<Rightarrow> string list" where
  "intersect_names env names =
     filter (\<lambda>p. \<forall>n \<in> set (tl names). p \<in> set (env_providers env n))
       (remdups (env_providers env (hd names)))"

fun intersect :: "closure_env \<Rightarrow> node \<Rightarrow> string list option" where
  "intersect env (Chain CWith cs) =
     (case leaf_names (Chain CWith cs) of
        None \<Rightarrow> None
      | Some names \<Rightarrow> if names = [] then None else Some (intersect_names env names))"
| "intersect env (Without l r) =
     (case (leaf_names l, leaf_names r) of
        (Some (a # _), Some (b # _)) \<Rightarrow>
          Some (filter (\<lambda>p. p \<notin> set (env_providers env b)) (remdups (env_providers env a)))
      | _ \<Rightarrow> None)"
| "intersect env _ = None"

text \<open>
  The providers of an \<open>or\<close>'s alternatives, \<open>None\<close> once one of them is ambiguous. Version
  constraints play no part: the code passes no \<open>provide_evr\<close> here.
\<close>

fun live_providers :: "closure_env \<Rightarrow> string \<Rightarrow> string list \<Rightarrow> string list option" where
  "live_providers env who [] = Some []"
| "live_providers env who (name # names) =
     (case resolve_capability name (env_provides env) who (env_overrides env) [] of
        Inr p \<Rightarrow> map_option (List.insert p) (live_providers env who names)
      | Inl (Unresolved _ _) \<Rightarrow> live_providers env who names
      | Inl (Ambiguous _ _) \<Rightarrow> None)"

definition only_one :: "'a list option \<Rightarrow> 'a option" where
  "only_one ps = (case ps of Some [p] \<Rightarrow> Some p | _ \<Rightarrow> None)"

lemma only_one_Some: "only_one ps = Some p \<longleftrightarrow> ps = Some [p]"
  by (auto simp: only_one_def split: option.splits list.splits)

definition require_or ::
  "closure_env \<Rightarrow> string \<Rightarrow> node list \<Rightarrow> closure_state \<Rightarrow> string list option \<times> closure_state" where
  "require_or env who cs st =
     (if list_ex (satisfied env (seen st)) cs then (Some [], st)
      else
        let text = unparse_boolean (Chain COr cs) in
        case leaf_names (Chain COr cs) of
          None \<Rightarrow> (Some [], add_problem (''rich'', RichText text, who) st)
        | Some alternatives \<Rightarrow>
            (case dget (env_overrides env) text of
               Some p \<Rightarrow> (Some [p], st)
             | None \<Rightarrow>
                 (case only_one (live_providers env who alternatives) of
                    Some p \<Rightarrow> (Some [p], st)
                  | None \<Rightarrow> (Some [], add_choice text alternatives who st))))"

definition require_group ::
  "closure_env \<Rightarrow> string \<Rightarrow> node \<Rightarrow> closure_state \<Rightarrow> string list option \<times> closure_state" where
  "require_group env who n st =
     (let text = unparse_boolean n in
      case intersect env n of
        None \<Rightarrow> (Some [], add_problem (''rich'', RichText text, who) st)
      | Some candidates \<Rightarrow>
          if length candidates = 1 then (Some [hd candidates], st)
          else (case dget (env_overrides env) text of
                  Some p \<Rightarrow> (Some [p], st)
                | None \<Rightarrow>
                    (Some [], add_problem
                       (''unresolved'', ManyPackages text (sort candidates), who) st)))"

definition require_with ::
  "closure_env \<Rightarrow> string \<Rightarrow> node list \<Rightarrow> closure_state \<Rightarrow> string list option \<times> closure_state" where
  "require_with env who cs st =
     (let collapsed = (case leaf_names (Chain CWith cs) of
                         None \<Rightarrow> None | Some names \<Rightarrow> one_name names)
      in case (collapsed, leaf_caps (Chain CWith cs)) of
           (Some _, Some (b # bounds)) \<Rightarrow>
             (case resolve_range env (b # bounds) who st of
                (None, st') \<Rightarrow> (Some [], st')
              | (Some p, st') \<Rightarrow> (Some [p], st'))
         | _ \<Rightarrow> require_group env who (Chain CWith cs) st)"

text \<open>
  What an expression demands now, or \<open>None\<close> to try again later. \<open>final\<close> is the fixed point
  telling \<open>unless\<close> that its escape never arrived.
\<close>

fun require ::
  "closure_env \<Rightarrow> bool \<Rightarrow> string \<Rightarrow> node \<Rightarrow> closure_state \<Rightarrow> string list option \<times> closure_state"
and require_all ::
  "closure_env \<Rightarrow> bool \<Rightarrow> string \<Rightarrow> node list \<Rightarrow> closure_state \<Rightarrow> string list \<times> closure_state" where
  "require env final who (Cap c) st =
     (case resolve env (strip_capability_version c) who st of
        (None, st') \<Rightarrow> (Some [], st')
      | (Some p, st') \<Rightarrow> (Some [p], st'))"
| "require env final who (Chain CAnd cs) st =
     (case require_all env final who cs st of (out, st') \<Rightarrow> (Some out, st'))"
| "require env final who (Chain COr cs) st = require_or env who cs st"
| "require env final who (Chain CWith cs) st = require_with env who cs st"
| "require env final who (Without l r) st = require_group env who (Without l r) st"
| "require env final who (Cond CIf t c e) st =
     (if satisfied env (seen st) c then require env final who t st
      else (case e of Some n \<Rightarrow> require env final who n st | None \<Rightarrow> (None, st)))"
| "require env final who (Cond CUnless t c e) st =
     (if satisfied env (seen st) c
      then (case e of Some n \<Rightarrow> require env final who n st | None \<Rightarrow> (Some [], st))
      else if final then require env final who t st else (None, st))"
| "require_all env final who [] st = ([], st)"
| "require_all env final who (c # cs) st =
     (case require env final who c st of
        (None, st1) \<Rightarrow> require_all env final who cs (add_pending c who st1)
      | (Some got, st1) \<Rightarrow>
          (case require_all env final who cs st1 of (out, st2) \<Rightarrow> (got @ out, st2)))"

definition reduce_rich ::
  "closure_env \<Rightarrow> string \<Rightarrow> string \<Rightarrow> closure_state \<Rightarrow> string list \<times> closure_state" where
  "reduce_rich env base pkg st =
     (case parse_boolean base of
        None \<Rightarrow> ([], add_problem (''rich'', RichText base, pkg) st)
      | Some n \<Rightarrow>
          (case require env False pkg n st of
             (None, st') \<Rightarrow> ([], add_pending n pkg st')
           | (Some got, st') \<Rightarrow> (got, st')))"

section \<open>What the inner functions may change\<close>

text \<open>
  They only append to the three logs. What they append to \<open>pending\<close> is smaller than the
  expression they read, which is why re-reading a growing list of pending expressions ends.
\<close>

definition pending_size :: "(node \<times> string) list \<Rightarrow> nat" where
  "pending_size ns = sum_list (map (\<lambda>(n, _). Suc (size n)) ns)"

lemma pending_size_simps [simp]:
  "pending_size [] = 0"
  "pending_size (x # xs) = Suc (size (fst x)) + pending_size xs"
  "pending_size (xs @ ys) = pending_size xs + pending_size ys"
  by (auto simp: pending_size_def split: prod.splits)

definition logs :: "closure_state \<Rightarrow> closure_state \<Rightarrow> bool" where
  "logs st st' = (seen st' = seen st \<and> frontier st' = frontier st
     \<and> (\<exists>ps. problems st' = problems st @ ps) \<and> (\<exists>cs. choices st' = choices st @ cs)
     \<and> (\<exists>ns. pending st' = pending st @ ns))"

definition adds_pending :: "nat \<Rightarrow> closure_state \<Rightarrow> closure_state \<Rightarrow> bool" where
  "adds_pending k st st' = (\<exists>ns. pending st' = pending st @ ns \<and> pending_size ns \<le> k)"

lemma logs_refl [simp]: "logs st st"
  by (simp add: logs_def)

lemma logs_trans: "logs a b \<Longrightarrow> logs b c \<Longrightarrow> logs a c"
  by (auto simp: logs_def)

lemma logs_add [simp]:
  "logs st (add_problem p st)" "logs st (add_choice e alts who st)" "logs st (add_pending n who st)"
  by (simp_all add: logs_def add_problem_def add_choice_def add_pending_def)

lemma adds_pending_refl [simp]: "adds_pending k st st"
  by (auto simp: adds_pending_def intro: exI [of _ "[]"])

lemma adds_pending_same: "pending st' = pending st \<Longrightarrow> adds_pending k st st'"
  by (auto simp: adds_pending_def intro: exI [of _ "[]"])

lemma adds_pending_add [simp]:
  "adds_pending k st (add_problem p st)" "adds_pending k st (add_choice e alts who st)"
  by (simp_all add: adds_pending_same add_problem_def add_choice_def)

lemma adds_pending_trans:
  "adds_pending j a b \<Longrightarrow> adds_pending k b c \<Longrightarrow> j + k \<le> l \<Longrightarrow> adds_pending l a c"
  unfolding adds_pending_def by (metis add_mono append_assoc le_trans pending_size_simps(3))

lemma adds_pending_node: "adds_pending (Suc (size n)) st (add_pending n who st)"
  by (simp add: adds_pending_def add_pending_def)

abbreviation named :: "closure_env \<Rightarrow> string set" where
  "named env \<equiv> named_packages (env_provides env) (env_overrides env)"

text \<open>The contract of a function that turns an expression into packages.\<close>

definition delivers ::
  "closure_env \<Rightarrow> nat \<Rightarrow> closure_state \<Rightarrow> string list \<times> closure_state \<Rightarrow> bool" where
  "delivers env k st r = (set (fst r) \<subseteq> named env \<and> logs st (snd r) \<and> adds_pending k st (snd r))"

lemma delivers_none [simp]:
  "delivers env k st ([], st)"
  "delivers env k st ([], add_problem x st)"
  "delivers env k st ([], add_choice e alts who st)"
  by (simp_all add: delivers_def)

lemma delivers_one [simp]: "delivers env k st ([p], st) \<longleftrightarrow> p \<in> named env"
  by (simp add: delivers_def)

lemma delivers_mono: "delivers env k st r \<Longrightarrow> k \<le> l \<Longrightarrow> delivers env l st r"
  by (auto simp: delivers_def adds_pending_def intro: le_trans)

lemma resolve_delivers:
  assumes "resolve env cap who st = (r, st')"
  shows "delivers env k st (case r of None \<Rightarrow> [] | Some p \<Rightarrow> [p], st')"
  using assms resolve_named
  by (force simp: resolve_def delivers_def split: sum.splits resolve_error.splits)

lemma candidate_versions_mem:
  "(p, e) \<in> set (candidate_versions versions ps) \<longleftrightarrow> p \<in> set ps \<and> e \<in> set (dget_or versions p [])"
  by (auto simp: candidate_versions_def)

text \<open>A range is resolved to an override's package or to one that is within every bound.\<close>

lemma resolve_range_cases:
  assumes "resolve_range env caps who st = (r, st')"
  obtains (some) p where "r = Some p" "st' = st"
      "dget (env_overrides env) (strip_capability_version (hd caps)) = Some p \<or>
       (p \<in> set (env_providers env (strip_capability_version (hd caps)))
        \<and> in_range (dget_or (env_provide_evr env) (strip_capability_version (hd caps)) []) caps p)"
  | (none) "r = None" "(\<exists>x. st' = add_problem x st) \<or> (\<exists>x. st' = add_choice (py_join '' with '' caps) x who st)"
proof -
  let ?name = "strip_capability_version (hd caps)"
  let ?vs = "dget_or (env_provide_evr env) ?name []"
  let ?c = "filter (in_range ?vs caps) (remdups (env_providers env ?name))"
  consider p where "dget (env_overrides env) ?name = Some p" "r = Some p" "st' = st"
    | "?c \<noteq> []" "r = Some (hd ?c)" "st' = st"
    | p e where "fold_newest newer_version (candidate_versions ?vs ?c) = Some (p, e)"
        "r = Some p" "st' = st"
    | "r = None" "(\<exists>x. st' = add_problem x st) \<or> (\<exists>x. st' = add_choice (py_join '' with '' caps) x who st)"
    using assms by (auto simp: resolve_range_def Let_def split: option.splits if_splits)
  then show ?thesis
  proof cases
    case (1 p) then show ?thesis using some by blast
  next
    case 2
    then have "hd ?c \<in> set ?c" by (intro hd_in_set)
    with 2 show ?thesis using some by auto
  next
    case (3 p e)
    then have "p \<in> set ?c" using fold_newest_in_set [OF 3(1)] candidate_versions_mem by blast
    with 3 show ?thesis using some by auto
  next
    case 4 then show ?thesis using none by blast
  qed
qed

lemma resolve_range_delivers:
  assumes "resolve_range env caps who st = (r, st')"
  shows "delivers env k st (case r of None \<Rightarrow> [] | Some p \<Rightarrow> [p], st')"
  using assms
  by (cases rule: resolve_range_cases)
     (auto simp: delivers_def intro: override_named provider_named)

lemma live_providers_named:
  "live_providers env who names = Some ps \<Longrightarrow> set ps \<subseteq> named env"
  by (induction names arbitrary: ps)
     (auto simp: List.insert_def dest: resolve_named
       split: sum.splits resolve_error.splits if_splits)

lemma intersect_named: "intersect env n = Some ps \<Longrightarrow> set ps \<subseteq> named env"
  by (induction env n rule: intersect.induct)
     (auto simp: intersect_names_def intro: provider_named
       split: option.splits if_splits list.splits)

lemma require_or_delivers:
  assumes "require_or env who cs st = (r, st')"
  shows "\<exists>out. r = Some out \<and> delivers env k st (out, st')"
proof -
  let ?text = "unparse_boolean (Chain COr cs)"
  note def = require_or_def [of env who cs st, unfolded Let_def]
  show ?thesis
  proof (cases "list_ex (satisfied env (seen st)) cs")
    case True
    with assms show ?thesis by (auto simp: def)
  next
    case unsat: False
    show ?thesis
    proof (cases "leaf_names (Chain COr cs)")
      case None
      with assms unsat show ?thesis by (auto simp: def simp del: leaf_names.simps)
    next
      case (Some alts)
      have "p \<in> named env" if "only_one (live_providers env who alts) = Some p" for p
        using live_providers_named [of env who alts] that by (auto simp: only_one_Some)
      with assms unsat Some show ?thesis
        by (auto simp: def simp del: leaf_names.simps unparse_boolean.simps
            intro: override_named split: option.splits)
    qed
  qed
qed

lemma require_group_delivers:
  assumes "require_group env who n st = (r, st')"
  shows "\<exists>out. r = Some out \<and> delivers env k st (out, st')"
proof -
  have "hd ps \<in> named env" if "intersect env n = Some ps" "length ps = 1" for ps
    using intersect_named [OF that(1)] that(2) by (cases ps) auto
  with assms show ?thesis
    by (auto simp: require_group_def Let_def intro: override_named split: if_splits option.splits)
qed

lemma require_with_cases:
  assumes "require_with env who cs st = (r, st')"
  obtains (group) "require_group env who (Chain CWith cs) st = (r, st')"
  | (range) caps q where "leaf_caps (Chain CWith cs) = Some caps" "caps \<noteq> []"
      "resolve_range env caps who st = (q, st')"
      "r = Some (case q of None \<Rightarrow> [] | Some p \<Rightarrow> [p])"
proof (cases "leaf_names (Chain CWith cs)")
  case None
  with assms show ?thesis using group by (simp add: require_with_def del: leaf_names.simps leaf_caps.simps)
next
  case (Some names)
  note names = Some
  show ?thesis
  proof (cases "one_name names")
    case None
    with assms names show ?thesis using group by (simp add: require_with_def del: leaf_names.simps leaf_caps.simps)
  next
    case (Some n)
    note one = Some
    show ?thesis
    proof (cases "leaf_caps (Chain CWith cs)")
      case None
      with assms names one show ?thesis using group by (simp add: require_with_def del: leaf_names.simps leaf_caps.simps)
    next
      case (Some caps)
      show ?thesis
      proof (cases caps)
        case Nil
        with assms names one Some show ?thesis using group by (simp add: require_with_def del: leaf_names.simps leaf_caps.simps)
      next
        case (Cons b bs)
        obtain q st1 where q: "resolve_range env caps who st = (q, st1)" by fastforce
        with assms names one Some Cons
        have "r = Some (case q of None \<Rightarrow> [] | Some p \<Rightarrow> [p])" "st' = st1"
          by (auto simp: require_with_def simp del: leaf_names.simps leaf_caps.simps split: option.splits)
        with q Some Cons show ?thesis using range by blast
      qed
    qed
  qed
qed

lemma require_with_delivers:
  assumes "require_with env who cs st = (r, st')"
  shows "\<exists>out. r = Some out \<and> delivers env k st (out, st')"
  using assms
proof (cases rule: require_with_cases)
  case group then show ?thesis by (rule require_group_delivers)
next
  case (range caps q) then show ?thesis using resolve_range_delivers by blast
qed

text \<open>An expression that is put off leaves the state as it was.\<close>

lemma require_delivers:
  "require env final who n st = (r, st') \<Longrightarrow>
     (case r of None \<Rightarrow> st' = st | Some out \<Rightarrow> delivers env (size n) st (out, st'))"
  "require_all env final who cs st = (out, st') \<Longrightarrow>
     delivers env (size_list size cs) st (out, st')"
proof (induction env final who n st and env final who cs st arbitrary: r st' and out st'
    rule: require_require_all.induct)
  case (1 env final who c st)
  then show ?case using resolve_delivers by (fastforce split: prod.splits option.splits)
next
  case (2 env final who cs st)
  obtain out st1 where all: "require_all env final who cs st = (out, st1)" by fastforce
  with "2.prems" have "r = Some out" "st' = st1" by auto
  moreover have "delivers env (size (Chain CAnd cs)) st (out, st1)"
    using "2.IH" [OF all] by (rule delivers_mono) simp
  ultimately show ?case by simp
next
  case (3 env final who cs st)
  then show ?case using require_or_delivers by fastforce
next
  case (4 env final who cs st)
  then show ?case using require_with_delivers by fastforce
next
  case (5 env final who l r' st)
  then show ?case using require_group_delivers by fastforce
next
  case (6 env final who t c e st)
  have weak: "delivers env (size n) st x \<Longrightarrow> delivers env (size (Cond CIf t c e)) st x"
    if "n = t \<or> e = Some n" for n x
    using that by (auto elim: delivers_mono)
  show ?case
  proof (cases "satisfied env (seen st) c")
    case True
    with 6 weak [of t] show ?thesis by (fastforce split: option.splits)
  next
    case False
    with 6 weak show ?thesis by (cases e) (fastforce split: option.splits)+
  qed
next
  case (7 env final who t c e st)
  have weak: "delivers env (size n) st x \<Longrightarrow> delivers env (size (Cond CUnless t c e)) st x"
    if "n = t \<or> e = Some n" for n x
    using that by (auto elim: delivers_mono)
  show ?case
  proof (cases "satisfied env (seen st) c")
    case True
    with 7 weak show ?thesis
      by (cases e) (fastforce simp: delivers_def split: option.splits)+
  next
    case False
    with 7 weak [of t] show ?thesis by (fastforce split: option.splits if_splits)
  qed
next
  case (8 env final who st)
  then show ?case by (simp add: delivers_def)
next
  case (9 env final who c cs st)
  obtain q st1 where q: "require env final who c st = (q, st1)" by fastforce
  show ?case
  proof (cases q)
    case None
    with q "9.IH"(1) have "st1 = st" by fastforce
    with None q "9.prems" have "require_all env final who cs (add_pending c who st) = (out, st')"
      by simp
    with "9.IH"(2) [OF q [symmetric] None] \<open>st1 = st\<close>
    have "delivers env (size_list size cs) (add_pending c who st) (out, st')" by simp
    then show ?thesis
      using logs_trans [OF logs_add(3) [of st c who]]
        adds_pending_trans [OF adds_pending_node [of c st who], of _ st']
      by (auto simp: delivers_def)
  next
    case (Some got)
    obtain rest st2 where rest: "require_all env final who cs st1 = (rest, st2)" by fastforce
    have "delivers env (size c) st (got, st1)" using "9.IH"(1) [OF q] Some by simp
    moreover have "delivers env (size_list size cs) st1 (rest, st2)"
      using "9.IH"(3) [OF q [symmetric] Some] rest by simp
    moreover have "out = got @ rest" "st' = st2" using "9.prems" q Some rest by auto
    moreover have "adds_pending (size_list size (c # cs)) st st2"
      if "adds_pending (size c) st st1" "adds_pending (size_list size cs) st1 st2"
      using that by (rule adds_pending_trans) simp
    ultimately show ?thesis
      by (auto simp: delivers_def intro: logs_trans)
  qed
qed

end
