(* ===== verification/RuntimeClosure.thy ===== *)
theory RuntimeClosure
  imports Require
begin

text \<open>
  The worklist of \<^verbatim>\<open>runtime_closure\<close> (\<^verbatim>\<open>tools/depgraph.py\<close>): draining the frontier, the
  passes over what was put off, the outer loop and its report. Every loop is proved to end, so
  the functions are total; the measure is the number of nameable packages not yet seen.
\<close>

section \<open>The loops\<close>

definition push :: "string list \<Rightarrow> closure_state \<Rightarrow> closure_state" where
  "push got st = st\<lparr>frontier := rev (filter (\<lambda>p. p \<notin> seen st) got) @ frontier st\<rparr>"

fun visit :: "closure_env \<Rightarrow> string \<Rightarrow> string list \<Rightarrow> closure_state \<Rightarrow> closure_state" where
  "visit env pkg [] st = st"
| "visit env pkg (cap # caps) st =
     (let base = strip_capability_version cap in
      if is_rich_dep base then
        (case reduce_rich env base pkg st of (got, st') \<Rightarrow> visit env pkg caps (push got st'))
      else
        (case resolve env cap pkg st of
           (None, st') \<Rightarrow> visit env pkg caps st'
         | (Some p, st') \<Rightarrow> visit env pkg caps (push [p] st')))"

definition enter :: "closure_env \<Rightarrow> string \<Rightarrow> string list \<Rightarrow> closure_state \<Rightarrow> closure_state" where
  "enter env pkg rest st =
     visit env pkg (dget_or (env_requires env) pkg [])
       (st\<lparr>frontier := rest, seen := insert pkg (seen st)\<rparr>)"

text \<open>What a step may do to the frontier: it grows by nameable packages only.\<close>

definition advances :: "closure_env \<Rightarrow> closure_state \<Rightarrow> closure_state \<Rightarrow> bool" where
  "advances env st st' =
     (seen st' = seen st \<and> set (frontier st) \<subseteq> set (frontier st')
      \<and> set (frontier st') \<subseteq> set (frontier st) \<union> (named env - seen st)
      \<and> set (problems st) \<subseteq> set (problems st'))"

lemma advances_refl [simp]: "advances env st st"
  by (auto simp: advances_def)

lemma advances_trans: "advances env a b \<Longrightarrow> advances env b c \<Longrightarrow> advances env a c"
  unfolding advances_def by blast

lemma logs_advances: "logs st st' \<Longrightarrow> advances env st st'"
  by (auto simp: logs_def advances_def)

lemma push_advances: "set got \<subseteq> named env \<Longrightarrow> advances env st (push got st)"
  by (auto simp: advances_def push_def)

lemma reduce_rich_delivers:
  "reduce_rich env base pkg st = (got, st') \<Longrightarrow> set got \<subseteq> named env \<and> logs st st'"
proof -
  assume r: "reduce_rich env base pkg st = (got, st')"
  show ?thesis
  proof (cases "parse_boolean base")
    case None
    with r show ?thesis by (auto simp: reduce_rich_def)
  next
    case (Some n)
    obtain q st1 where q: "require env False pkg n st = (q, st1)" by fastforce
    with require_delivers(1) [OF q] r Some show ?thesis
      by (cases q) (auto simp: reduce_rich_def delivers_def)
  qed
qed

lemma visit_advances: "advances env st (visit env pkg caps st)"
proof (induction env pkg caps st rule: visit.induct)
  case (2 env pkg cap caps st)
  let ?base = "strip_capability_version cap"
  show ?case
  proof (cases "is_rich_dep ?base")
    case True
    obtain got st' where r: "reduce_rich env ?base pkg st = (got, st')" by fastforce
    have "advances env st (push got st')"
      using reduce_rich_delivers [OF r] logs_advances push_advances advances_trans by blast
    with 2 True r show ?thesis by (auto simp: Let_def intro: advances_trans)
  next
    case False
    obtain q st' where r: "resolve env cap pkg st = (q, st')" by fastforce
    have logs: "logs st st'" and named: "q = Some p \<Longrightarrow> p \<in> named env" for p
      using resolve_delivers [OF r] by (auto simp: delivers_def split: option.splits)
    show ?thesis
    proof (cases q)
      case None
      with 2 False r logs show ?thesis by (auto simp: Let_def intro: advances_trans logs_advances)
    next
      case (Some p)
      have "advances env st (push [p] st')"
        using logs named [OF Some] logs_advances push_advances [of "[p]" env] advances_trans by simp blast
      with 2 False r Some show ?thesis by (auto simp: Let_def intro: advances_trans)
    qed
  qed
qed simp

definition unseen :: "closure_env \<Rightarrow> closure_state \<Rightarrow> nat" where
  "unseen env st = card ((named env \<union> set (frontier st)) - seen st)"

lemma unseen_le:
  "named env \<union> set (frontier st') - seen st' \<subseteq> named env \<union> set (frontier st) - seen st
   \<Longrightarrow> unseen env st' \<le> unseen env st"
  unfolding unseen_def by (rule card_mono) auto

lemma unseen_less:
  "named env \<union> set (frontier st') - seen st' \<subset> named env \<union> set (frontier st) - seen st
   \<Longrightarrow> unseen env st' < unseen env st"
  unfolding unseen_def by (rule psubset_card_mono) auto

lemma enter_seen: "seen (enter env pkg rest st) = insert pkg (seen st)"
  using visit_advances by (auto simp: enter_def advances_def)

lemma enter_frontier:
  fixes env :: closure_env
  shows "set rest \<subseteq> set (frontier (enter env pkg rest st))"
  "set (frontier (enter env pkg rest st)) \<subseteq> set rest \<union> (named env - insert pkg (seen st))"
  using visit_advances [of env "st\<lparr>frontier := rest, seen := insert pkg (seen st)\<rparr>" pkg
      "dget_or (env_requires env) pkg []"]
  by (auto simp: enter_def advances_def)

lemma enter_unseen:
  assumes "frontier st = pkg # rest" and "pkg \<notin> seen st"
  shows "unseen env (enter env pkg rest st) < unseen env st"
proof (rule unseen_less)
  have "pkg \<in> named env \<union> set (frontier st) - seen st" using assms by simp
  moreover have "named env \<union> set (frontier (enter env pkg rest st)) - seen (enter env pkg rest st)
      \<subseteq> (named env \<union> set (frontier st) - seen st) - {pkg}"
    using enter_frontier(2) [where env = env and rest = rest and pkg = pkg and st = st] assms(1) by (auto simp: enter_seen)
  ultimately show "named env \<union> set (frontier (enter env pkg rest st)) - seen (enter env pkg rest st)
      \<subset> named env \<union> set (frontier st) - seen st" by blast
qed

function drain :: "closure_env \<Rightarrow> closure_state \<Rightarrow> closure_state" where
  "drain env st =
     (case frontier st of
        [] \<Rightarrow> st
      | pkg # rest \<Rightarrow>
          if pkg \<in> seen st then drain env (st\<lparr>frontier := rest\<rparr>)
          else drain env (enter env pkg rest st))"
  by pat_completeness auto
termination
proof (relation "measures [\<lambda>(env, st). unseen env st, \<lambda>(env, st). length (frontier st)]", goal_cases)
  case 1 show ?case by simp
next
  case (2 env st pkg rest)
  then have "unseen env (st\<lparr>frontier := rest\<rparr>) \<le> unseen env st" by (intro unseen_le) auto
  with 2 show ?case by auto
next
  case (3 env st pkg rest)
  then show ?case using enter_unseen by simp
qed

declare drain.simps [simp del]

lemma require_pending_size:
  assumes "require env final who n (st\<lparr>pending := []\<rparr>) = (r, st')"
  shows "pending_size (pending st') \<le> size n"
  using require_delivers(1) [OF assms]
  by (cases r) (auto simp: delivers_def adds_pending_def)

text \<open>
  One pass over \<open>pending\<close>. The code iterates over the list while \<^verbatim>\<open>require\<close> may append to it;
  what it appends is visited by the same loop. \<open>todo\<close> is the part not visited yet, the state's
  \<open>pending\<close> holds what the current call appended, \<open>still\<close> is \<^verbatim>\<open>still_pending\<close>.
\<close>

function recheck ::
  "closure_env \<Rightarrow> bool \<Rightarrow> (node \<times> string) list \<Rightarrow> (node \<times> string) list \<Rightarrow> closure_state \<Rightarrow> closure_state"
where
  "recheck env final [] still st = st\<lparr>pending := still\<rparr>"
| "recheck env final ((n, who) # todo) still st =
     (case require env final who n (st\<lparr>pending := []\<rparr>) of
        (None, st') \<Rightarrow> recheck env final (todo @ pending st') (still @ [(n, who)]) st'
      | (Some got, st') \<Rightarrow> recheck env final (todo @ pending st') still (push got st'))"
  by pat_completeness auto
termination
proof (relation "measure (\<lambda>(env, final, todo, still, st). pending_size todo)", goal_cases)
  case 1 show ?case by simp
next
  case (2 env final n who todo still st x st')
  then show ?case using require_pending_size [of env final who n st None st'] by simp
next
  case (3 env final n who todo still st x st' got)
  then show ?case using require_pending_size [of env final who n st "Some got" st'] by simp
qed

text \<open>One pass over \<open>choices\<close>.\<close>

fun recheck_choices ::
  "closure_env \<Rightarrow> (string \<times> string list \<times> string) list \<Rightarrow> (string \<times> string list \<times> string) list
   \<Rightarrow> closure_state \<Rightarrow> closure_state" where
  "recheck_choices env [] still st = st\<lparr>choices := still\<rparr>"
| "recheck_choices env ((e, alts, who) # todo) still st =
     (if list_ex (capability_present env (seen st)) alts then recheck_choices env todo still st
      else
        case dget (env_overrides env) e of
          Some p \<Rightarrow> recheck_choices env todo still (push [p] st)
        | None \<Rightarrow> recheck_choices env todo (still @ [(e, alts, who)]) st)"

definition round :: "closure_env \<Rightarrow> closure_state \<Rightarrow> closure_state" where
  "round env st =
     (let st1 = drain env st;
          st2 = recheck env False (pending st1) [] st1;
          st3 = recheck_choices env (choices st2) [] st2
      in if frontier st3 = [] then recheck env True (pending st3) [] st3 else st3)"

lemma drain_result:
  "frontier (drain env st) = []
   \<and> seen st \<union> set (frontier st) \<subseteq> seen (drain env st)
   \<and> seen (drain env st) \<subseteq> seen st \<union> set (frontier st) \<union> named env
   \<and> set (problems st) \<subseteq> set (problems (drain env st))"
proof (induction env st rule: drain.induct)
  case (1 env st)
  show ?case
  proof (cases "frontier st")
    case Nil
    then show ?thesis by (subst (1 2 3 4) drain.simps) simp
  next
    case (Cons pkg rest)
    show ?thesis
    proof (cases "pkg \<in> seen st")
      case True
      then have "drain env st = drain env (st\<lparr>frontier := rest\<rparr>)"
        using Cons by (subst drain.simps) simp
      with "1.IH"(1) [OF Cons True] Cons True show ?thesis by auto
    next
      case False
      then have eq: "drain env st = drain env (enter env pkg rest st)"
        using Cons by (subst drain.simps) simp
      have "set (problems st) \<subseteq> set (problems (enter env pkg rest st))"
        using visit_advances by (fastforce simp: enter_def advances_def)
      with "1.IH"(2) [OF Cons False] Cons enter_seen [of env pkg rest st]
        enter_frontier [where env = env and rest = rest and pkg = pkg and st = st]
      show ?thesis unfolding eq by auto
    qed
  qed
qed

lemma advances_pending: "advances env (st\<lparr>pending := ns\<rparr>) st' = advances env st st'"
  "advances env st (st'\<lparr>pending := ns\<rparr>) = advances env st st'"
  "advances env st (st'\<lparr>choices := cs\<rparr>) = advances env st st'"
  by (simp_all add: advances_def)

lemma require_advances:
  assumes "require env final who n (st\<lparr>pending := []\<rparr>) = (r, st')"
  shows "advances env st st'" and "r = Some got \<Longrightarrow> advances env st (push got st')"
proof -
  have "logs (st\<lparr>pending := []\<rparr>) st'"
    using require_delivers(1) [OF assms] by (cases r) (auto simp: delivers_def)
  then show *: "advances env st st'" using logs_advances advances_pending(1) by blast
  assume "r = Some got"
  then have "set got \<subseteq> named env"
    using require_delivers(1) [OF assms] by (simp add: delivers_def)
  then show "advances env st (push got st')" using * push_advances advances_trans by blast
qed

lemma recheck_advances: "advances env st (recheck env final todo still st)"
proof (induction env final todo still st rule: recheck.induct)
  case (2 env final n who todo still st)
  obtain r st' where r: "require env final who n (st\<lparr>pending := []\<rparr>) = (r, st')" by fastforce
  with 2 require_advances [OF r] show ?case
    by (cases r) (auto intro: advances_trans)
qed (simp add: advances_pending)

lemma recheck_choices_advances: "advances env st (recheck_choices env todo still st)"
proof (induction env todo still st rule: recheck_choices.induct)
  case (2 env e alts who todo still st)
  have "advances env st (push [p] st)" if "dget (env_overrides env) e = Some p" for p
    using that by (intro push_advances) (auto intro: override_named)
  with 2 show ?case by (auto split: option.splits intro: advances_trans)
qed (simp add: advances_pending)

lemma round_advances: "advances env (drain env st) (round env st)"
proof -
  let ?st1 = "drain env st"
  let ?st2 = "recheck env False (pending ?st1) [] ?st1"
  let ?st3 = "recheck_choices env (choices ?st2) [] ?st2"
  have "advances env ?st1 ?st3"
    by (rule advances_trans [OF recheck_advances recheck_choices_advances])
  moreover have "advances env ?st1 (recheck env True (pending ?st3) [] ?st3)"
    by (rule advances_trans [OF calculation recheck_advances])
  ultimately show ?thesis by (simp add: round_def Let_def)
qed

function closure_loop :: "closure_env \<Rightarrow> closure_state \<Rightarrow> closure_state" where
  "closure_loop env st =
     (let st' = round env st in if frontier st' = [] then st' else closure_loop env st')"
  by pat_completeness auto
termination
proof (relation "measures [\<lambda>(env, st). unseen env st,
    \<lambda>(env, st). if set (frontier st) \<subseteq> seen st then 1 else 0]", goal_cases)
  case 1 show ?case by simp
next
  case (2 env st st')
  have seen: "seen st' = seen (drain env st)"
    and new: "set (frontier st') \<subseteq> named env - seen st'"
    using round_advances [of env st] drain_result [of env st] 2 by (auto simp: advances_def)
  have sub: "named env \<union> set (frontier st') - seen st' \<subseteq> named env \<union> set (frontier st) - seen st"
    using seen new drain_result [of env st] by auto
  show ?case
  proof (cases "set (frontier st) \<subseteq> seen st")
    case True
    have "\<not> set (frontier st') \<subseteq> seen st'" using new 2 by (cases "frontier st'") auto
    with True unseen_le [OF sub] show ?thesis by auto
  next
    case False
    then obtain p where "p \<in> set (frontier st)" "p \<notin> seen st" by blast
    then have "p \<in> named env \<union> set (frontier st) - seen st"
      "p \<notin> named env \<union> set (frontier st') - seen st'"
      using seen new drain_result [of env st] by auto
    with sub have "unseen env st' < unseen env st" by (intro unseen_less) blast
    then show ?thesis by simp
  qed
qed

declare closure_loop.simps [simp del]

section \<open>The closure and its report\<close>

definition closure_start :: "string list \<Rightarrow> closure_state" where
  "closure_start roots =
     \<lparr>seen = {}, problems = [], frontier = rev roots, pending = [], choices = []\<rparr>"

definition extend :: "string list \<Rightarrow> closure_state \<Rightarrow> closure_state" where
  "extend got st = st\<lparr>frontier := rev got @ frontier st\<rparr>"

fun add_extra :: "closure_env \<Rightarrow> (string \<times> string) list \<Rightarrow> closure_state \<Rightarrow> closure_state" where
  "add_extra env [] st = st"
| "add_extra env ((cap, who) # extra) st =
     (let base = strip_capability_version cap in
      if is_rich_dep base then
        (case reduce_rich env base who st of (got, st') \<Rightarrow> add_extra env extra (extend got st'))
      else
        (case resolve env base who st of
           (None, st') \<Rightarrow> add_extra env extra st'
         | (Some p, st') \<Rightarrow> add_extra env extra (extend [p] st')))"

fun group_choices ::
  "(string \<times> string list \<times> string) list \<Rightarrow> (string, string list \<times> string list) dict
   \<Rightarrow> (string, string list \<times> string list) dict" where
  "group_choices [] grouped = grouped"
| "group_choices ((e, alts, who) # cs) grouped =
     group_choices cs
       (case dget grouped e of
          None \<Rightarrow> dset e (alts, [who]) grouped
        | Some (alts0, askers) \<Rightarrow> dset e (alts0, List.insert who askers) grouped)"

definition choice_problem ::
  "(string, string list \<times> string list) dict \<Rightarrow> string \<Rightarrow> problem list" where
  "choice_problem grouped e =
     (case dget grouped e of
        None \<Rightarrow> []
      | Some (alts, askers) \<Rightarrow>
          (let wanted = sort askers in [(''choice'', OpenChoice e alts wanted, hd wanted)]))"

definition report_choices :: "(string \<times> string list \<times> string) list \<Rightarrow> problem list" where
  "report_choices cs =
     (let grouped = group_choices cs [] in
      concat (map (choice_problem grouped) (sort (keys grouped))))"

definition runtime_closure ::
  "closure_env \<Rightarrow> string list \<Rightarrow> (string \<times> string) list \<Rightarrow> string set \<times> problem list" where
  "runtime_closure env roots extra =
     (let st = closure_loop env (add_extra env extra (closure_start roots))
      in (seen st, problems st @ report_choices (choices st)))"

end
