(* ===== verification/ClosureSound.thy ===== *)
theory ClosureSound
  imports RuntimeClosure
begin

text \<open>
  What a closure promises: it holds its roots, nothing no one could name, and, when it reports no
  problem, something for every requirement of every package in it. The invariant is per demand:
  at each moment a demand is answered by the packages reached so far, or is waiting among the
  choices, or has been reported.
\<close>

section \<open>A requirement that is answered, waiting or reported\<close>

lemma capability_present_mono:
  "capability_present env S c \<Longrightarrow> S \<subseteq> T \<Longrightarrow> capability_present env T c"
  by (auto simp: capability_present_def list_ex_iff split: option.splits)

definition answered_plain :: "closure_env \<Rightarrow> closure_state \<Rightarrow> string \<Rightarrow> string \<Rightarrow> bool" where
  "answered_plain env st who cap =
     (case env_resolve env cap who of
        Inr q \<Rightarrow> q \<in> seen st \<union> set (frontier st)
      | Inl (Ambiguous _ ps) \<Rightarrow>
          (cap, sorted_set ps, who) \<in> set (choices st)
          \<or> list_ex (capability_present env (seen st)) (sorted_set ps)
      | Inl (Unresolved _ _) \<Rightarrow> problems st \<noteq> [])"

definition answered_or :: "closure_env \<Rightarrow> closure_state \<Rightarrow> string \<Rightarrow> string list \<Rightarrow> bool" where
  "answered_or env st who cs =
     (let names = map strip_capability_version cs;
          text = unparse_boolean (Chain COr (map Cap cs)) in
      dget (env_overrides env) text \<noteq> None
      \<or> (text, names, who) \<in> set (choices st)
      \<or> list_ex (capability_present env (seen st \<union> set (frontier st))) names)"

text \<open>
  A flat choice between plain capabilities, each with one constraint at most: cutting the
  constraint off leaves a name from which nothing more is cut.
\<close>

definition flat_or :: "string \<Rightarrow> string list \<Rightarrow> bool" where
  "flat_or base cs =
     (parse_boolean base = Some (Chain COr (map Cap cs))
      \<and> (\<forall>n \<in> strip_capability_version ` set cs. strip_capability_version n = n))"

text \<open>
  \<open>base\<close> is the requirement without its constraint, which decides how it is read; \<open>cap\<close> is what
  is looked up when it is a plain one.
\<close>

definition answered ::
  "closure_env \<Rightarrow> closure_state \<Rightarrow> string \<times> string \<times> string \<Rightarrow> bool" where
  "answered env st d = (case d of (who, base, cap) \<Rightarrow>
     if is_rich_dep base then
        \<forall>cs. flat_or base cs \<longrightarrow> answered_or env st who cs
     else answered_plain env st who cap)"

text \<open>A step that loses no answer.\<close>

definition keeps :: "closure_env \<Rightarrow> closure_state \<Rightarrow> closure_state \<Rightarrow> bool" where
  "keeps env st st' =
     (seen st \<subseteq> seen st' \<and> set (frontier st) \<subseteq> seen st' \<union> set (frontier st')
      \<and> set (problems st) \<subseteq> set (problems st')
      \<and> (\<forall>e alts who. (e, alts, who) \<in> set (choices st) \<longrightarrow>
           (e, alts, who) \<in> set (choices st')
           \<or> list_ex (capability_present env (seen st')) alts
           \<or> dget (env_overrides env) e \<noteq> None))"

lemma keeps_refl [simp]: "keeps env st st"
  by (auto simp: keeps_def)

lemma list_ex_present_mono:
  "list_ex (capability_present env S) alts \<Longrightarrow> S \<subseteq> T \<Longrightarrow> list_ex (capability_present env T) alts"
  by (auto simp: list_ex_iff intro: capability_present_mono)

lemma keeps_trans: "keeps env a b \<Longrightarrow> keeps env b c \<Longrightarrow> keeps env a c"
  unfolding keeps_def by (blast intro: list_ex_present_mono)

lemma logs_keeps: "logs st st' \<Longrightarrow> keeps env st st'"
  by (auto simp: logs_def keeps_def)

lemma push_keeps: "keeps env st (push got st)"
  by (auto simp: push_def keeps_def)

lemma keeps_pending: "keeps env (st\<lparr>pending := ns\<rparr>) st' = keeps env st st'"
  "keeps env st (st'\<lparr>pending := ns\<rparr>) = keeps env st st'"
  by (simp_all add: keeps_def)

lemma push_reaches: "p \<in> set got \<Longrightarrow> p \<in> seen (push got st) \<union> set (frontier (push got st))"
  by (auto simp: push_def)

lemma ambiguous_not_overridden:
  "env_resolve env cap who = Inl x \<Longrightarrow> dget (env_overrides env) cap = None"
  by (auto simp: resolve_capability_def split: option.splits)

lemma answered_plain_keeps:
  assumes "answered_plain env st who cap" and "keeps env st st'"
  shows "answered_plain env st' who cap"
proof (cases "env_resolve env cap who")
  case (Inr q)
  with assms show ?thesis by (auto simp: answered_plain_def keeps_def)
next
  case (Inl x)
  show ?thesis
  proof (cases x)
    case (Unresolved msg asker)
    with assms Inl show ?thesis by (auto simp: answered_plain_def keeps_def)
  next
    case (Ambiguous c ps)
    have none: "dget (env_overrides env) cap = None" using Inl by (rule ambiguous_not_overridden)
    from assms(1) Inl Ambiguous
    consider "(cap, sorted_set ps, who) \<in> set (choices st)"
      | "list_ex (capability_present env (seen st)) (sorted_set ps)"
      by (auto simp: answered_plain_def)
    then show ?thesis
    proof cases
      case 1
      with assms(2) none Inl Ambiguous show ?thesis
        by (fastforce simp: answered_plain_def keeps_def)
    next
      case 2
      with assms(2) have "list_ex (capability_present env (seen st')) (sorted_set ps)"
        by (auto simp: keeps_def intro: list_ex_present_mono)
      with Inl Ambiguous show ?thesis by (simp add: answered_plain_def)
    qed
  qed
qed

lemma answered_or_keeps:
  assumes "answered_or env st who cs" and "keeps env st st'"
  shows "answered_or env st' who cs"
proof -
  let ?names = "map strip_capability_version cs"
  have sub: "seen st \<union> set (frontier st) \<subseteq> seen st' \<union> set (frontier st')" "seen st' \<subseteq> seen st' \<union> set (frontier st')"
    using assms(2) by (auto simp: keeps_def)
  show ?thesis
    using assms list_ex_present_mono [OF _ sub(1), of env ?names]
      list_ex_present_mono [OF _ sub(2), of env ?names]
    unfolding answered_or_def keeps_def Let_def by blast
qed

lemma answered_keeps: "answered env st d \<Longrightarrow> keeps env st st' \<Longrightarrow> answered env st' d"
  by (auto simp: answered_def intro: answered_plain_keeps answered_or_keeps split: if_splits)

section \<open>Each step answers what it reads\<close>

lemma resolve_answers:
  assumes "resolve env cap who st = (q, st')" and "\<not> is_rich_dep base"
  shows "answered env (push (case q of None \<Rightarrow> [] | Some p \<Rightarrow> [p]) st') (who, base, cap)"
  using assms push_reaches
  by (auto simp: resolve_def answered_def answered_plain_def add_choice_def add_problem_def push_def
      split: sum.splits resolve_error.splits)

lemma live_providers_from:
  "live_providers env who names = Some ps \<Longrightarrow> p \<in> set ps \<Longrightarrow>
     \<exists>n \<in> set names. resolve_capability n (env_provides env) who (env_overrides env) [] = Inr p"
  by (induction names arbitrary: ps)
     (auto split: sum.splits resolve_error.splits)

lemma provider_present:
  assumes "resolve_capability n (env_provides env) who (env_overrides env) [] = Inr p"
    and "strip_capability_version n = n" and "p \<in> S"
  shows "capability_present env S n"
proof (cases "dget (env_overrides env) n")
  case (Some q)
  with assms show ?thesis by (auto simp: resolve_capability_def capability_present_def)
next
  case None
  with assms have "supplies (env_provides env) [] n p" by (auto intro: resolve_supplies)
  with assms None show ?thesis
    using split_constraint_name [of n]
    by (auto simp: supplies_def capability_present_def list_ex_iff split: prod.splits)
qed

lemma leaf_names_caps: "leaf_names (Chain c (map Cap cs)) = Some (map strip_capability_version cs)"
proof -
  have "those (map leaf_names (map Cap cs)) = Some (map (\<lambda>c. [strip_capability_version c]) cs)"
    by (induction cs) auto
  moreover have "concat (map (\<lambda>c. [strip_capability_version c]) cs) = map strip_capability_version cs"
    by (induction cs) auto
  ultimately show ?thesis by simp
qed

lemma satisfied_caps:
  "list_ex (satisfied env S) (map Cap cs)
   = list_ex (capability_present env S) (map strip_capability_version cs)"
  by (induction cs) auto

lemma require_or_answers:
  assumes "require_or env who (map Cap cs) st = (q, st')"
    and stable: "\<forall>n \<in> strip_capability_version ` set cs. strip_capability_version n = n"
  shows "\<exists>got. q = Some got \<and> answered_or env (push got st') who cs"
proof -
  let ?n = "Chain COr (map Cap cs)" and ?names = "map strip_capability_version cs"
  show ?thesis
  proof (cases "list_ex (satisfied env (seen st)) (map Cap cs)")
    case True
    moreover have "list_ex (capability_present env (seen st)) ?names"
      using True unfolding satisfied_caps .
    then have "list_ex (capability_present env (seen st \<union> set (frontier st))) ?names"
      by (rule list_ex_present_mono) simp
    moreover have "q = Some [] \<and> st' = st" using True assms(1) by (simp add: require_or_def)
    ultimately show ?thesis
      by (simp add: answered_or_def push_def del: unparse_boolean.simps)
  next
    case unsat: False
    note def = require_or_def [of env who "map Cap cs" st, unfolded Let_def leaf_names_caps]
    show ?thesis
    proof (cases "dget (env_overrides env) (unparse_boolean ?n)")
      case (Some p)
      moreover have "\<exists>got. q = Some got"
        using unsat assms(1) Some by (auto simp: def simp del: unparse_boolean.simps)
      ultimately show ?thesis by (auto simp: answered_or_def Let_def simp del: unparse_boolean.simps)
    next
      case no_override: None
      show ?thesis
      proof (cases "only_one (live_providers env who ?names)")
        case None
        with unsat no_override assms(1)
        have "q = Some [] \<and> st' = add_choice (unparse_boolean ?n) ?names who st"
          by (simp add: def del: unparse_boolean.simps)
        then show ?thesis
          by (simp add: answered_or_def add_choice_def push_def del: unparse_boolean.simps)
      next
        case (Some p)
        then have "live_providers env who ?names = Some [p]" by (simp only: only_one_Some)
        from live_providers_from [OF this, of p] obtain n where n: "n \<in> set ?names"
          "resolve_capability n (env_provides env) who (env_overrides env) [] = Inr p" by auto
        have "q = Some [p]" "st' = st"
          using unsat no_override Some assms(1) by (simp_all add: def del: unparse_boolean.simps)
        moreover have "strip_capability_version n = n" using n(1) stable unfolding set_map by blast
        then have "capability_present env (seen (push [p] st) \<union> set (frontier (push [p] st))) n"
          using provider_present [OF n(2)] push_reaches [of p "[p]" st] by simp
        then have "list_ex (capability_present env (seen (push [p] st) \<union> set (frontier (push [p] st)))) ?names"
          using n(1) unfolding list_ex_iff by blast
        ultimately show ?thesis by (simp add: answered_or_def del: unparse_boolean.simps)
      qed
    qed
  qed
qed

lemma reduce_rich_answers:
  assumes r: "reduce_rich env base who st = (got, st')" and rich: "is_rich_dep base"
  shows "answered env (push got st') (who, base, cap)"
  unfolding answered_def
proof (simp only: rich if_True prod.case, intro allI impI)
  fix cs assume flat: "flat_or base cs"
  then have parse: "parse_boolean base = Some (Chain COr (map Cap cs))"
    and stable: "\<forall>n \<in> strip_capability_version ` set cs. strip_capability_version n = n"
    by (simp_all add: flat_or_def)
  obtain q st1 where q: "require_or env who (map Cap cs) st = (q, st1)" by fastforce
  obtain out where out: "q = Some out" "answered_or env (push out st1) who cs"
    using require_or_answers [OF q stable] by blast
  with r parse q have "got = out" "st' = st1" by (simp_all add: reduce_rich_def)
  with out show "answered_or env (push got st') who cs" by simp
qed

lemma visit_step:
  obtains mid where "visit env pkg (cap # caps) st = visit env pkg caps mid"
    and "keeps env st mid" and "answered env mid (pkg, strip_capability_version cap, cap)"
proof (cases "is_rich_dep (strip_capability_version cap)")
  case True
  obtain got st' where r: "reduce_rich env (strip_capability_version cap) pkg st = (got, st')"
    by fastforce
  have "keeps env st (push got st')"
    using reduce_rich_delivers [OF r] logs_keeps push_keeps keeps_trans by blast
  moreover have "visit env pkg (cap # caps) st = visit env pkg caps (push got st')"
    using True r by (simp add: Let_def)
  ultimately show ?thesis using that reduce_rich_answers [OF r True] by blast
next
  case False
  obtain q st' where r: "resolve env cap pkg st = (q, st')" by fastforce
  let ?got = "case q of None \<Rightarrow> [] | Some p \<Rightarrow> [p]"
  have "keeps env st st'"
    using resolve_delivers [OF r] logs_keeps by (auto simp: delivers_def)
  then have "keeps env st (push ?got st')" using push_keeps keeps_trans by blast
  moreover have "visit env pkg (cap # caps) st = visit env pkg caps (push ?got st')"
    using False r by (cases q) (simp_all add: Let_def push_def)
  ultimately show ?thesis using that resolve_answers [OF r False] by blast
qed

lemma visit_keeps: "keeps env st (visit env pkg caps st)"
proof (induction caps arbitrary: st)
  case (Cons c caps)
  show ?case
  proof (rule visit_step [of env pkg c caps st])
    fix mid assume "visit env pkg (c # caps) st = visit env pkg caps mid" "keeps env st mid"
    then show ?thesis using Cons keeps_trans by metis
  qed
qed simp

lemma visit_answers: "cap \<in> set caps \<Longrightarrow> answered env (visit env pkg caps st) (pkg, strip_capability_version cap, cap)"
proof (induction caps arbitrary: st)
  case (Cons c caps)
  show ?case
  proof (rule visit_step [of env pkg c caps st])
    fix mid assume mid: "visit env pkg (c # caps) st = visit env pkg caps mid" "answered env mid (pkg, strip_capability_version c, c)"
    then have "answered env (visit env pkg caps mid) (pkg, strip_capability_version c, c)"
      using answered_keeps visit_keeps by blast
    with mid Cons show ?thesis by auto
  qed
qed simp

section \<open>The invariant of the loops\<close>

text \<open>
  Every demand of a reached package, and every demand of \<open>X\<close> (the caller's \<open>extra\<close>), is
  answered.
\<close>

type_synonym demand = "string \<times> string \<times> string"

definition demands :: "closure_env \<Rightarrow> string set \<Rightarrow> demand set" where
  "demands env S =
     {(p, strip_capability_version cap, cap) | p cap.
        p \<in> S \<and> cap \<in> set (dget_or (env_requires env) p [])}"

definition sound :: "closure_env \<Rightarrow> demand set \<Rightarrow> closure_state \<Rightarrow> bool" where
  "sound env X st = (\<forall>d \<in> X \<union> demands env (seen st). answered env st d)"

lemma sound_keeps:
  "sound env X st \<Longrightarrow> keeps env st st' \<Longrightarrow> seen st' = seen st \<Longrightarrow> sound env X st'"
  by (auto simp: sound_def demands_def intro: answered_keeps)

lemma enter_keeps: "frontier st = pkg # rest \<Longrightarrow> keeps env st (enter env pkg rest st)"
proof -
  assume f: "frontier st = pkg # rest"
  let ?st = "st\<lparr>frontier := rest, seen := insert pkg (seen st)\<rparr>"
  have "keeps env st ?st" using f by (auto simp: keeps_def)
  then show ?thesis unfolding enter_def by (rule keeps_trans) (rule visit_keeps)
qed

lemma enter_sound:
  assumes "sound env X st" and f: "frontier st = pkg # rest"
  shows "sound env X (enter env pkg rest st)"
  unfolding sound_def
proof
  let ?st' = "enter env pkg rest st"
  fix d assume d: "d \<in> X \<union> demands env (seen ?st')"
  show "answered env ?st' d"
  proof (cases "d \<in> X \<union> demands env (seen st)")
    case True
    then show ?thesis using assms enter_keeps [OF f] by (auto simp: sound_def intro: answered_keeps)
  next
    case False
    with d obtain cap where "d = (pkg, strip_capability_version cap, cap)"
      "cap \<in> set (dget_or (env_requires env) pkg [])"
      by (auto simp: demands_def enter_seen)
    with visit_answers show ?thesis by (simp add: enter_def)
  qed
qed

lemma drain_sound: "sound env X st \<Longrightarrow> sound env X (drain env st)"
proof (induction env st rule: drain.induct)
  case (1 env st)
  show ?case
  proof (cases "frontier st")
    case Nil
    with 1 show ?thesis by (simp add: drain.simps)
  next
    case (Cons pkg rest)
    show ?thesis
    proof (cases "pkg \<in> seen st")
      case True
      then have "keeps env st (st\<lparr>frontier := rest\<rparr>)" using Cons by (auto simp: keeps_def)
      then have "sound env X (st\<lparr>frontier := rest\<rparr>)" using "1.prems" sound_keeps by simp
      with "1.IH"(1) [OF Cons True] Cons True show ?thesis by (simp add: drain.simps [of env st])
    next
      case False
      with "1.IH"(2) [OF Cons False enter_sound [OF "1.prems" Cons]] Cons
      show ?thesis by (simp add: drain.simps [of env st])
    qed
  qed
qed

lemma recheck_keeps: "keeps env st (recheck env final todo still st)"
proof (induction env final todo still st rule: recheck.induct)
  case (2 env final n who todo still st)
  obtain r st' where r: "require env final who n (st\<lparr>pending := []\<rparr>) = (r, st')" by fastforce
  have "logs (st\<lparr>pending := []\<rparr>) st'"
    using require_delivers(1) [OF r] by (cases r) (auto simp: delivers_def)
  then have k: "keeps env st st'" using logs_keeps keeps_pending(1) by blast
  then have "keeps env st (push got st')" for got by (rule keeps_trans) (rule push_keeps)
  with 2 r k show ?case
    by (cases r) (auto intro: keeps_trans)
qed (simp add: keeps_pending)

lemma recheck_seen: "seen (recheck env final todo still st) = seen st"
  using recheck_advances by (auto simp: advances_def)

lemma recheck_choices_result:
  "seen (recheck_choices env todo still st) = seen st
   \<and> problems (recheck_choices env todo still st) = problems st
   \<and> set (frontier st) \<subseteq> set (frontier (recheck_choices env todo still st))
   \<and> (\<exists>kept. choices (recheck_choices env todo still st) = still @ kept
        \<and> (\<forall>e alts who. (e, alts, who) \<in> set todo \<longrightarrow> (e, alts, who) \<in> set kept
             \<or> list_ex (capability_present env (seen st)) alts
             \<or> dget (env_overrides env) e \<noteq> None))"
proof (induction env todo still st rule: recheck_choices.induct)
  case (2 env e alts who todo still st)
  show ?case
  proof (cases "list_ex (capability_present env (seen st)) alts")
    case True
    with "2.IH"(1) [OF True] show ?thesis by auto
  next
    case F: False
    show ?thesis
    proof (cases "dget (env_overrides env) e")
      case None
      with "2.IH"(2) [OF F None] F show ?thesis by auto
    next
      case (Some p)
      with "2.IH"(3) [OF F Some] F show ?thesis by (auto simp: push_def)
    qed
  qed
qed simp

lemma recheck_choices_keeps: "keeps env st (recheck_choices env (choices st) [] st)"
  using recheck_choices_result [of env "choices st" "[]" st] unfolding keeps_def by auto

lemma round_sound: "sound env X st \<Longrightarrow> sound env X (round env st)"
proof -
  assume st: "sound env X st"
  let ?st1 = "drain env st"
  let ?st2 = "recheck env False (pending ?st1) [] ?st1"
  let ?st3 = "recheck_choices env (choices ?st2) [] ?st2"
  have "sound env X ?st1" using st by (rule drain_sound)
  then have "sound env X ?st2" by (rule sound_keeps) (simp_all add: recheck_keeps recheck_seen)
  then have *: "sound env X ?st3"
    by (rule sound_keeps) (simp_all add: recheck_choices_keeps recheck_choices_result)
  then have "sound env X (recheck env True (pending ?st3) [] ?st3)"
    by (rule sound_keeps) (simp_all add: recheck_keeps recheck_seen)
  with * show ?thesis by (simp add: round_def Let_def)
qed

lemma closure_loop_result:
  "frontier (closure_loop env st) = []
   \<and> (sound env X st \<longrightarrow> sound env X (closure_loop env st))
   \<and> seen st \<union> set (frontier st) \<subseteq> seen (closure_loop env st)
   \<and> seen (closure_loop env st) \<subseteq> seen st \<union> set (frontier st) \<union> named env"
proof (induction env st rule: closure_loop.induct)
  case (1 env st)
  let ?st' = "round env st"
  have step: "seen ?st' = seen (drain env st)" "set (frontier ?st') \<subseteq> named env - seen ?st'"
    using round_advances [of env st] drain_result [of env st] by (auto simp: advances_def)
  show ?case
  proof (cases "frontier ?st' = []")
    case True
    with step drain_result [of env st] round_sound [of env X st] show ?thesis
      by (auto simp: closure_loop.simps [of env st])
  next
    case False
    with "1.IH" [OF refl False] step drain_result [of env st] round_sound [of env X st]
    show ?thesis by (auto simp: closure_loop.simps [of env st])
  qed
qed

section \<open>Roots, extras and the report\<close>

lemma extend_keeps: "keeps env st (extend got st)"
  by (auto simp: extend_def keeps_def)

lemma push_extend:
  "answered env (push got st) d \<Longrightarrow> answered env (extend got st) d"
  by (rule answered_keeps) (auto simp: push_def extend_def keeps_def)

definition extra_demands :: "(string \<times> string) list \<Rightarrow> demand set" where
  "extra_demands extra =
     (\<lambda>(cap, who). (who, strip_capability_version cap, strip_capability_version cap)) ` set extra"

lemma add_extra_step:
  obtains mid where "add_extra env ((cap, who) # extra) st = add_extra env extra mid"
    and "keeps env st mid" and "seen mid = seen st"
    and "set (frontier mid) \<subseteq> set (frontier st) \<union> named env"
    and "answered env mid (who, strip_capability_version cap, strip_capability_version cap)"
proof (cases "is_rich_dep (strip_capability_version cap)")
  case True
  let ?base = "strip_capability_version cap"
  obtain got st' where r: "reduce_rich env ?base who st = (got, st')" by fastforce
  have "keeps env st (extend got st')"
    using reduce_rich_delivers [OF r] logs_keeps extend_keeps keeps_trans by blast
  moreover have "add_extra env ((cap, who) # extra) st = add_extra env extra (extend got st')"
    using True r by (simp add: Let_def)
  moreover have "seen (extend got st') = seen st"
    "set (frontier (extend got st')) \<subseteq> set (frontier st) \<union> named env"
    using reduce_rich_delivers [OF r] by (auto simp: extend_def logs_def)
  ultimately show ?thesis using that push_extend [OF reduce_rich_answers [OF r True]] by blast
next
  case False
  let ?base = "strip_capability_version cap"
  obtain q st' where r: "resolve env ?base who st = (q, st')" by fastforce
  let ?got = "case q of None \<Rightarrow> [] | Some p \<Rightarrow> [p]"
  have d: "set ?got \<subseteq> named env" "logs st st'"
    using resolve_delivers [OF r] by (auto simp: delivers_def)
  have "keeps env st (extend ?got st')"
    using d(2) logs_keeps extend_keeps keeps_trans by blast
  moreover have "add_extra env ((cap, who) # extra) st = add_extra env extra (extend ?got st')"
    using False r by (cases q) (simp_all add: Let_def extend_def)
  moreover have "seen (extend ?got st') = seen st"
    "set (frontier (extend ?got st')) \<subseteq> set (frontier st) \<union> named env"
    using d by (auto simp: extend_def logs_def)
  ultimately show ?thesis using that push_extend [OF resolve_answers [OF r False]] by blast
qed

lemma add_extra_result:
  "keeps env st (add_extra env extra st) \<and> seen (add_extra env extra st) = seen st
   \<and> set (frontier (add_extra env extra st)) \<subseteq> set (frontier st) \<union> named env
   \<and> (\<forall>d \<in> extra_demands extra. answered env (add_extra env extra st) d)"
proof (induction extra arbitrary: st)
  case Nil then show ?case by (simp add: extra_demands_def)
next
  case (Cons x extra)
  obtain cap who where x: "x = (cap, who)" by fastforce
  show ?case
  proof (rule add_extra_step [of env cap who extra st])
    fix mid
    let ?d = "(who, strip_capability_version cap, strip_capability_version cap)"
    assume mid: "add_extra env ((cap, who) # extra) st = add_extra env extra mid"
      "keeps env st mid" "seen mid = seen st"
      "set (frontier mid) \<subseteq> set (frontier st) \<union> named env" "answered env mid ?d"
    have "extra_demands (x # extra) = insert ?d (extra_demands extra)"
      by (simp add: extra_demands_def x)
    then show ?thesis
      using mid Cons [of mid] unfolding x
      by (auto intro: keeps_trans answered_keeps)
  qed
qed

lemma group_choices_keys:
  "set (keys (group_choices cs grouped)) = set (keys grouped) \<union> fst ` set cs"
  by (induction cs grouped rule: group_choices.induct)
     (auto simp: keys_def dom_update split: option.splits)

text \<open>No choice is left out of the report.\<close>

lemma report_choices_Nil: "report_choices cs = [] \<longleftrightarrow> cs = []"
proof
  assume r: "report_choices cs = []"
  show "cs = []"
  proof (rule ccontr)
    assume "cs \<noteq> []"
    then obtain e alts who rest where cs: "cs = (e, alts, who) # rest" by (metis neq_Nil_conv prod_cases3)
    then have e: "e \<in> set (keys (group_choices cs []))" unfolding group_choices_keys by simp
    then obtain v where "dget (group_choices cs []) e = Some v"
      by (auto simp: keys_def dest: weak_map_of_SomeI)
    then have "choice_problem (group_choices cs []) e \<noteq> []"
      by (simp add: choice_problem_def Let_def split: prod.split)
    with r e show False by (auto simp: report_choices_def Let_def)
  qed
qed (simp add: report_choices_def keys_def)

section \<open>The closure\<close>

text \<open>Which packages can be in it: its roots and what an override or a provides entry names.\<close>

lemma runtime_closure_bounds:
  "set roots \<subseteq> fst (runtime_closure env roots extra)"
  "fst (runtime_closure env roots extra) \<subseteq> set roots \<union> named env"
proof -
  let ?st = "add_extra env extra (closure_start roots)"
  have "keeps env (closure_start roots) ?st" and "seen ?st = {}"
    and "set (frontier ?st) \<subseteq> set roots \<union> named env"
    using add_extra_result [of env "closure_start roots" extra] by (auto simp: closure_start_def)
  moreover from this have "set roots \<subseteq> set (frontier ?st)"
    by (auto simp: keeps_def closure_start_def)
  ultimately show "set roots \<subseteq> fst (runtime_closure env roots extra)"
    "fst (runtime_closure env roots extra) \<subseteq> set roots \<union> named env"
    using closure_loop_result [of env ?st "{}"] unfolding runtime_closure_def Let_def fst_conv
    by blast+
qed

text \<open>
  The answers to a demand in a finished set of packages: its resolution is among them or, where
  several packages provide it, one of the candidates' names is provided by the set.
\<close>

definition met_plain :: "closure_env \<Rightarrow> string set \<Rightarrow> string \<Rightarrow> string \<Rightarrow> bool" where
  "met_plain env S who cap =
     (case env_resolve env cap who of
        Inr q \<Rightarrow> q \<in> S
      | Inl (Ambiguous _ ps) \<Rightarrow> \<exists>p \<in> set ps. capability_present env S p
      | Inl (Unresolved _ _) \<Rightarrow> False)"

definition met_or :: "closure_env \<Rightarrow> string set \<Rightarrow> string list \<Rightarrow> bool" where
  "met_or env S cs =
     (dget (env_overrides env) (unparse_boolean (Chain COr (map Cap cs))) \<noteq> None
      \<or> (\<exists>c \<in> set cs. capability_present env S (strip_capability_version c)))"

lemma answered_final:
  assumes "answered env st (who, base, cap)" and "frontier st = []" and "problems st = []"
    and "choices st = []"
  shows "\<not> is_rich_dep base \<Longrightarrow> met_plain env (seen st) who cap"
    and "is_rich_dep base \<Longrightarrow> flat_or base cs \<Longrightarrow> met_or env (seen st) cs"
  using assms
  by (auto simp: answered_def answered_plain_def answered_or_def met_plain_def met_or_def
      list_ex_iff Let_def simp del: unparse_boolean.simps split: sum.splits resolve_error.splits)

lemma clean_closure:
  assumes "runtime_closure env roots extra = (S, [])"
    and "(who, base, cap) \<in> extra_demands extra \<union> demands env S"
  shows "\<not> is_rich_dep base \<Longrightarrow> met_plain env S who cap"
    and "is_rich_dep base \<Longrightarrow> flat_or base cs \<Longrightarrow> met_or env S cs"
proof -
  let ?start = "add_extra env extra (closure_start roots)"
  let ?st = "closure_loop env ?start"
  have "sound env (extra_demands extra) ?start"
    using add_extra_result [of env "closure_start roots" extra]
    by (auto simp: sound_def demands_def closure_start_def)
  then have "sound env (extra_demands extra) ?st" and f: "frontier ?st = []"
    using closure_loop_result [of env ?start] by blast+
  moreover have S: "S = seen ?st" "problems ?st = []" "choices ?st = []"
    using assms(1) by (auto simp: runtime_closure_def Let_def report_choices_Nil)
  ultimately have "answered env ?st (who, base, cap)"
    using assms(2) by (auto simp: sound_def)
  from answered_final [OF this f S(2,3)]
  show "\<not> is_rich_dep base \<Longrightarrow> met_plain env S who cap"
    and "is_rich_dep base \<Longrightarrow> flat_or base cs \<Longrightarrow> met_or env S cs"
    by (simp_all add: S(1))
qed

section \<open>Universes without expressions\<close>

text \<open>
  Where no requirement is an expression the closure is exact: what resolution reaches from the
  roots and nothing else, whatever is reported.
\<close>

definition plain_universe :: "closure_env \<Rightarrow> bool" where
  "plain_universe env =
     (\<forall>(p, caps) \<in> set (env_requires env).
        \<forall>cap \<in> set caps. \<not> is_rich_dep (strip_capability_version cap))"

definition depends :: "closure_env \<Rightarrow> string \<Rightarrow> string \<Rightarrow> bool" where
  "depends env p q = (\<exists>cap \<in> set (dget_or (env_requires env) p []). env_resolve env cap p = Inr q)"

lemma plain_universe_requires:
  "plain_universe env \<Longrightarrow> cap \<in> set (dget_or (env_requires env) p []) \<Longrightarrow>
   \<not> is_rich_dep (strip_capability_version cap)"
  by (erule dget_or_cases) (auto simp: plain_universe_def dest!: map_of_SomeD)

definition within :: "closure_env \<Rightarrow> string set \<Rightarrow> closure_state \<Rightarrow> bool" where
  "within env R st =
     (seen st \<union> set (frontier st) \<subseteq> R \<and> pending st = []
      \<and> (\<forall>c \<in> set (choices st). dget (env_overrides env) (fst c) = None))"

lemma within_push: "within env R st \<Longrightarrow> set got \<subseteq> R \<Longrightarrow> within env R (push got st)"
  by (auto simp: within_def push_def)

lemma resolve_within:
  assumes "resolve env cap who st = (q, st')" and "within env R st"
  shows "within env R st'"
proof (cases "env_resolve env cap who")
  case (Inr p)
  with assms show ?thesis by (simp add: resolve_def)
next
  case (Inl x)
  have "dget (env_overrides env) cap = None" using Inl by (rule ambiguous_not_overridden)
  with assms Inl show ?thesis
    by (cases x) (auto simp: resolve_def within_def add_choice_def add_problem_def)
qed

lemma resolve_env: "resolve env cap who st = (Some q, st') \<Longrightarrow> env_resolve env cap who = Inr q"
  by (auto simp: resolve_def split: sum.splits resolve_error.splits)

lemma visit_within:
  assumes "within env R st" and "\<forall>cap \<in> set caps. \<not> is_rich_dep (strip_capability_version cap)"
    and "\<forall>cap \<in> set caps. \<forall>q. env_resolve env cap pkg = Inr q \<longrightarrow> q \<in> R"
  shows "within env R (visit env pkg caps st)"
  using assms
proof (induction caps arbitrary: st)
  case (Cons c caps)
  obtain q st' where r: "resolve env c pkg st = (q, st')" by fastforce
  let ?got = "case q of None \<Rightarrow> [] | Some p \<Rightarrow> [p]"
  have "visit env pkg (c # caps) st = visit env pkg caps (push ?got st')"
    using Cons.prems(2) r by (cases q) (simp_all add: Let_def push_def)
  moreover have "within env R (push ?got st')"
    using resolve_within [OF r Cons.prems(1)] resolve_env r Cons.prems(3)
    by (intro within_push) (auto split: option.split)
  ultimately show ?case using Cons by simp
qed simp

definition closed_in :: "closure_env \<Rightarrow> string set \<Rightarrow> bool" where
  "closed_in env R = (plain_universe env \<and> (\<forall>p \<in> R. \<forall>q. depends env p q \<longrightarrow> q \<in> R))"

lemma enter_within:
  assumes "closed_in env R" and "within env R st" and "frontier st = pkg # rest"
  shows "within env R (enter env pkg rest st)"
  unfolding enter_def
proof (rule visit_within)
  show "within env R (st\<lparr>frontier := rest, seen := insert pkg (seen st)\<rparr>)"
    using assms by (auto simp: within_def)
  show "\<forall>cap \<in> set (dget_or (env_requires env) pkg []). \<forall>q. env_resolve env cap pkg = Inr q \<longrightarrow> q \<in> R"
    using assms by (auto simp: within_def depends_def closed_in_def)
  show "\<forall>cap \<in> set (dget_or (env_requires env) pkg []). \<not> is_rich_dep (strip_capability_version cap)"
    using assms(1) plain_universe_requires by (auto simp: closed_in_def)
qed

lemma drain_within: "closed_in env R \<Longrightarrow> within env R st \<Longrightarrow> within env R (drain env st)"
proof (induction env st rule: drain.induct)
  case (1 env st)
  show ?case
  proof (cases "frontier st")
    case Nil
    with 1 show ?thesis by (simp add: drain.simps)
  next
    case (Cons pkg rest)
    show ?thesis
    proof (cases "pkg \<in> seen st")
      case True
      have "within env R (st\<lparr>frontier := rest\<rparr>)" using "1.prems"(2) Cons by (auto simp: within_def)
      with "1.IH"(1) [OF Cons True] "1.prems" Cons True show ?thesis
        by (simp add: drain.simps [of env st])
    next
      case False
      with "1.IH"(2) [OF Cons False "1.prems"(1) enter_within [OF "1.prems" Cons]] Cons
      show ?thesis by (simp add: drain.simps [of env st])
    qed
  qed
qed

lemma recheck_choices_within:
  "\<forall>c \<in> set todo \<union> set still. dget (env_overrides env) (fst c) = None \<Longrightarrow> within env R st
   \<Longrightarrow> within env R (recheck_choices env todo still st)
     \<and> frontier (recheck_choices env todo still st) = frontier st"
proof (induction env todo still st rule: recheck_choices.induct)
  case (2 env e alts who todo still st)
  have none: "dget (env_overrides env) e = None" using "2.prems"(1) by simp
  show ?case
  proof (cases "list_ex (capability_present env (seen st)) alts")
    case True
    with "2.IH"(1) [OF True] "2.prems" show ?thesis by simp
  next
    case False
    with "2.IH"(2) [OF False none] "2.prems" none show ?thesis by simp
  qed
qed (auto simp: within_def)

lemma recheck_nothing: "pending st = [] \<Longrightarrow> recheck env final [] [] st = st"
  by (cases st) simp

lemma round_within:
  assumes "closed_in env R" and "within env R st"
  shows "within env R (round env st)" and "frontier (round env st) = []"
proof -
  let ?a = "drain env st"
  have a: "within env R ?a" using assms by (rule drain_within)
  then have p: "pending ?a = []" by (simp add: within_def)
  let ?b = "recheck_choices env (choices ?a) [] ?a"
  have "within env R ?b \<and> frontier ?b = []"
    using recheck_choices_within [of "choices ?a" "[]" env R ?a] a drain_result [of env st]
    by (auto simp: within_def)
  moreover from this have "pending ?b = []" by (simp add: within_def)
  ultimately show "within env R (round env st)" "frontier (round env st) = []"
    unfolding round_def Let_def p recheck_nothing [OF p] by (simp_all add: recheck_nothing del: recheck.simps)
qed

lemma closure_loop_within:
  "closed_in env R \<Longrightarrow> within env R st \<Longrightarrow> within env R (closure_loop env st)"
  using round_within by (simp add: closure_loop.simps [of env st] Let_def)

lemma closure_exact:
  assumes "plain_universe env"
  shows "fst (runtime_closure env roots []) = {q. \<exists>r \<in> set roots. (depends env)\<^sup>*\<^sup>* r q}"
    (is "?S = ?R")
proof
  have "closed_in env ?R" using assms by (auto simp: closed_in_def intro: rtranclp.rtrancl_into_rtrancl)
  moreover have "within env ?R (closure_start roots)" by (auto simp: within_def closure_start_def)
  ultimately have "within env ?R (closure_loop env (closure_start roots))" by (rule closure_loop_within)
  then show "?S \<subseteq> ?R" by (auto simp: runtime_closure_def Let_def within_def)
next
  let ?fin = "closure_loop env (closure_start roots)"
  have "sound env {} (closure_start roots)" by (simp add: sound_def demands_def closure_start_def)
  then have snd: "sound env {} ?fin" and f: "frontier ?fin = []" and roots: "set roots \<subseteq> seen ?fin"
    using closure_loop_result [of env "closure_start roots" "{}"] by (auto simp: closure_start_def)
  have step: "q \<in> seen ?fin" if p: "p \<in> seen ?fin" and d: "depends env p q" for p q
  proof -
    obtain cap where cap: "cap \<in> set (dget_or (env_requires env) p [])" "env_resolve env cap p = Inr q"
      using d by (auto simp: depends_def)
    have "answered env ?fin (p, strip_capability_version cap, cap)"
      using snd p cap(1) by (auto simp: sound_def demands_def)
    then show ?thesis
      using plain_universe_requires [OF assms cap(1)] cap(2) f
      by (simp add: answered_def answered_plain_def)
  qed
  have "q \<in> seen ?fin" if "(depends env)\<^sup>*\<^sup>* r q" "r \<in> set roots" for r q
    using that by (induction rule: rtranclp_induct) (use roots step in auto)
  then show "?R \<subseteq> ?S" by (auto simp: runtime_closure_def Let_def)
qed

section \<open>Properties\<close>

text \<open>
  The closure is total, contains its roots, and invents nothing: every other package in it
  is named by the provides map or by an override.
\<close>

theorem closure_between:
  "set roots \<subseteq> fst (runtime_closure env roots extra)
   \<and> fst (runtime_closure env roots extra) \<subseteq> set roots \<union> named env"
  using runtime_closure_bounds by blast

text \<open>
  C2: Where no requirement is a boolean expression the closure is exactly what resolution
  reaches from the roots: the smallest set that holds the roots and, with a package, everything
  its requirements resolve to. It depends on the set of the roots only, not on their order, and
  it is the same whether or not problems are reported.
\<close>

theorem plain_closure_exact:
  assumes "plain_universe env"
  shows "fst (runtime_closure env roots []) = {q. \<exists>r \<in> set roots. (depends env)\<^sup>*\<^sup>* r q}"
  by (rule closure_exact [OF assms])

theorem plain_closure_exact_witness:
  "let env = \<lparr>env_requires = [(''zlib-devel'', [''zlib = 1.3'', ''sh'']), (''zlib'', [''libc.so''])],
       env_provides = [(''zlib'', [''zlib'']), (''libc.so'', [''glibc'']), (''sh'', [''bash'', ''dash''])],
       env_overrides = [], env_provide_evr = []\<rparr> in
   {q. (depends env)\<^sup>*\<^sup>* ''zlib-devel'' q} = {''zlib-devel'', ''zlib'', ''glibc''}"
proof -
  let ?env = "\<lparr>env_requires = [(''zlib-devel'', [''zlib = 1.3'', ''sh'']), (''zlib'', [''libc.so''])],
       env_provides = [(''zlib'', [''zlib'']), (''libc.so'', [''glibc'']), (''sh'', [''bash'', ''dash''])],
       env_overrides = [], env_provide_evr = []\<rparr>"
  have "plain_universe ?env" by code_simp
  then have "fst (runtime_closure ?env [''zlib-devel''] [])
      = {q. \<exists>r \<in> set [''zlib-devel'']. (depends ?env)\<^sup>*\<^sup>* r q}"
    by (rule plain_closure_exact)
  moreover have "fst (runtime_closure ?env [''zlib-devel''] []) = {''zlib-devel'', ''zlib'', ''glibc''}"
    by code_simp
  ultimately show ?thesis unfolding Let_def by simp
qed

text \<open>
  C3: A closure reported without problems leaves no plain requirement behind. For every
  requirement of every package in it, and for every extra demand, either the package it
  resolves to is in the closure, or several packages provide it and the closure contains a
  provider of one of their names.
\<close>

theorem clean_closure_plain:
  assumes "runtime_closure env roots extra = (S, [])"
    and "(who, base, cap) \<in> extra_demands extra \<union> demands env S"
    and "\<not> is_rich_dep base"
  shows "met_plain env S who cap"
  by (rule clean_closure(1) [OF assms])

theorem clean_closure_plain_witness:
  "met_plain \<lparr>env_requires = [(''a'', [''sh'', ''b >= 2''])],
       env_provides = [(''sh'', [''bash'', ''dash'']), (''b'', [''b'']), (''bash'', [''bash''])],
       env_overrides = [], env_provide_evr = []\<rparr> {''a'', ''b'', ''bash''} ''a'' ''sh''"
proof -
  let ?env = "\<lparr>env_requires = [(''a'', [''sh'', ''b >= 2''])],
       env_provides = [(''sh'', [''bash'', ''dash'']), (''b'', [''b'']), (''bash'', [''bash''])],
       env_overrides = [], env_provide_evr = []\<rparr>"
  let ?extra = "[(''bash'', ''spec'')]"
  have "runtime_closure ?env [''a''] ?extra = ({''a'', ''b'', ''bash''}, [])" by code_simp
  moreover have "strip_capability_version ''sh'' = ''sh''" "\<not> is_rich_dep ''sh''" by code_simp+
  moreover from this have "(''a'', ''sh'', ''sh'') \<in> extra_demands ?extra
      \<union> demands ?env {''a'', ''b'', ''bash''}"
    by (auto simp: demands_def dget_or_def)
  ultimately show ?thesis using clean_closure_plain by blast
qed

text \<open>
  C4: In a closure reported without problems every choice between plain capabilities that a
  package in it requires is settled: an alternative is provided by the closure, or the choice
  was overridden as a whole.
\<close>

theorem clean_closure_choice:
  assumes "runtime_closure env roots extra = (S, [])"
    and "(who, base, cap) \<in> extra_demands extra \<union> demands env S"
    and "is_rich_dep base" and "flat_or base cs"
  shows "met_or env S cs"
  by (rule clean_closure(2) [OF assms])

theorem clean_closure_choice_witness:
  "met_or \<lparr>env_requires = [(''systemd'', [''(util-linux-core or util-linux)'']), (''dracut'', [''util-linux''])],
       env_provides = [(''util-linux'', [''util-linux'']), (''util-linux-core'', [''util-linux-core''])],
       env_overrides = [], env_provide_evr = []\<rparr>
     {''systemd'', ''dracut'', ''util-linux''} [''util-linux-core'', ''util-linux'']"
proof -
  let ?env = "\<lparr>env_requires = [(''systemd'', [''(util-linux-core or util-linux)'']), (''dracut'', [''util-linux''])],
       env_provides = [(''util-linux'', [''util-linux'']), (''util-linux-core'', [''util-linux-core''])],
       env_overrides = [], env_provide_evr = []\<rparr>"
  let ?S = "{''systemd'', ''dracut'', ''util-linux''}"
  let ?cap = "''(util-linux-core or util-linux)''"
  have run: "runtime_closure ?env [''systemd'', ''dracut''] [] = (?S, [])" by code_simp
  have strip: "strip_capability_version ?cap = ?cap" and rich: "is_rich_dep ?cap" by code_simp+
  have flat: "flat_or ?cap [''util-linux-core'', ''util-linux'']" by code_simp
  have "(''systemd'', ?cap, ?cap) \<in> extra_demands [] \<union> demands ?env ?S"
    using strip by (auto simp: demands_def dget_or_def)
  from clean_closure_choice [OF run this rich flat] show ?thesis .
qed

end
