(* ===== verification/ClosureCases.thy ===== *)
theory ClosureCases
  imports ClosureSound
begin

text \<open>
  Behaviours of \<^verbatim>\<open>runtime_closure\<close> on small universes that its comments do not
  lead one to expect, each evaluated on the model.
\<close>

definition small :: "(string, string list) dict \<Rightarrow> provides_map \<Rightarrow> closure_env" where
  "small reqs prov =
     \<lparr>env_requires = reqs, env_provides = prov, env_overrides = [], env_provide_evr = []\<rparr>"

text \<open>
  \<open>(x if b else y)\<close> is answered when it is read. Read before \<open>b\<close> arrives it takes \<open>y\<close> and is
  never asked again, so \<open>x\<close> is missing from a closure that holds \<open>b\<close> and reports nothing; with
  the roots the other way round \<open>x\<close> is there.
\<close>

theorem if_else_depends_on_order:
  "let env = small [(''a'', [''(x if b else y)''])] [(''x'', [''x'']), (''y'', [''y'']), (''b'', [''b''])] in
   runtime_closure env [''b'', ''a''] [] = ({''a'', ''b'', ''y''}, [])
   \<and> runtime_closure env [''a'', ''b''] [] = ({''a'', ''b'', ''x''}, [])"
  unfolding Let_def by (intro conjI; code_simp)

text \<open>
  A choice that the last pass raises is reported although a candidate is in the closure: the
  loop ends before the choices are looked at again.
\<close>

theorem last_choice_not_rechecked:
  "let env = small [(''a'', [''(cap unless foo)''])] [(''cap'', [''b'', ''c'']), (''b'', [''b''])] in
   runtime_closure env [''a'', ''b''] []
     = ({''a'', ''b''}, [(''choice'', OpenChoice ''cap'' [''b'', ''c''] [''a''], ''a'')])"
  by code_simp

text \<open>
  An ambiguity is dropped once something provides the \<^emph>\<open>name\<close> of a candidate: nobody in this
  closure provides \<open>cap\<close>, and nothing is reported.
\<close>

theorem ambiguity_met_by_name:
  "let env = small [(''a'', [''cap''])] [(''cap'', [''b'', ''c'']), (''b'', [''x''])] in
   runtime_closure env [''a'', ''x''] [] = ({''a'', ''x''}, [])"
  by code_simp

text \<open>
  The alternatives of a choice with an expression among its branches are the leaves of all its
  branches: half of the conjunction is enough to drop \<open>(p or (q and r))\<close>.
\<close>

theorem half_of_a_conjunction_is_enough:
  "let env = small [(''a'', [''(p or (q and r))''])] [(''p'', [''p'']), (''q'', [''q'']), (''r'', [''r''])] in
   runtime_closure env [''a'', ''q''] [] = ({''a'', ''q''}, [])
   \<and> map_option (satisfied env {''a'', ''q''}) (parse_boolean ''(p or (q and r))'') = Some False"
  unfolding Let_def by (intro conjI; code_simp)

end
