(* ===== verification/Tarjan.thy ===== *)
theory Tarjan
  imports Prelude
begin

text \<open>
  The strongly connected components of a package graph, as
  \<^verbatim>\<open>strongly_connected_components\<close> of \<^verbatim>\<open>tools/depgraph.py\<close>
  computes them: an iterative depth-first search with an explicit work list, a stack of the nodes
  not yet in a component, and the lowest index known to be reachable.
\<close>

section \<open>The algorithm\<close>

type_synonym graph = "(string, string list) dict"

text \<open>\<open>graph.get(node, ())\<close>: the sets of neighbours are lists whose order plays no part.\<close>

abbreviation succs :: "graph \<Rightarrow> string \<Rightarrow> string list" where
  "succs g u \<equiv> dget_or g u []"

record tarjan =
  index_of :: "string \<Rightarrow> nat option"
  low :: "string \<Rightarrow> nat option"
  on_stack :: "string \<Rightarrow> bool"
  stack :: "string list"
  result :: "string list list"
  counter :: nat

text \<open>The work list holds a node with the neighbours its iterator has not given yet, top first.\<close>

type_synonym work = "(string \<times> string list) list"

definition discover :: "string \<Rightarrow> tarjan \<Rightarrow> tarjan" where
  "discover node st = st\<lparr>
     index_of := (index_of st)(node \<mapsto> counter st), low := (low st)(node \<mapsto> counter st),
     counter := counter st + 1, stack := node # stack st, on_stack := (on_stack st)(node := True)\<rparr>"

definition lower :: "string \<Rightarrow> nat \<Rightarrow> tarjan \<Rightarrow> tarjan" where
  "lower node k st = st\<lparr>low := (low st)(node \<mapsto> min (the (low st node)) k)\<rparr>"

text \<open>
  The \<open>for\<close> loop over the neighbours: the neighbour it breaks off at with the rest of the
  iterator, or nothing when the iterator is exhausted.
\<close>

fun scan :: "string \<Rightarrow> string list \<Rightarrow> tarjan \<Rightarrow> (string \<times> string list) option \<times> tarjan" where
  "scan node [] st = (None, st)"
| "scan node (nxt # it) st =
     (if index_of st nxt = None then (Some (nxt, it), discover nxt st)
      else if on_stack st nxt then scan node it (lower node (the (index_of st nxt)) st)
      else scan node it st)"

fun pop_to :: "string \<Rightarrow> string list \<Rightarrow> string list \<times> string list" where
  "pop_to node [] = ([], [])"
| "pop_to node (w # ws) =
     (if w = node then ([w], ws) else (case pop_to node ws of (c, rest) \<Rightarrow> (w # c, rest)))"

definition emit :: "string \<Rightarrow> tarjan \<Rightarrow> tarjan" where
  "emit node st =
     (case pop_to node (stack st) of (component, rest) \<Rightarrow>
        st\<lparr>stack := rest, on_stack := (\<lambda>x. x \<notin> set component \<and> on_stack st x),
          result := result st @ [sort component]\<rparr>)"

definition retire :: "string \<Rightarrow> work \<Rightarrow> tarjan \<Rightarrow> tarjan" where
  "retire node rest st =
     (let st1 = (case rest of [] \<Rightarrow> st
                 | (parent, _) # _ \<Rightarrow> lower parent (the (low st node)) st)
      in if low st1 node = index_of st1 node then emit node st1 else st1)"

definition nodes_left :: "graph \<Rightarrow> work \<Rightarrow> tarjan \<Rightarrow> nat" where
  "nodes_left g work st =
     card (((\<Union>vs \<in> set (map snd g). set vs) \<union> (\<Union>vs \<in> set (map snd work). set vs))
           - dom (index_of st))"

lemma scan_exhausted:
  "scan node it st = (None, st') \<Longrightarrow> index_of st' = index_of st \<and> dom (index_of st) \<supseteq> set it"
  by (induction node it st rule: scan.induct) (auto simp: lower_def split: if_splits)

lemma scan_found:
  "scan node it st = (Some (nxt, it'), st') \<Longrightarrow>
     nxt \<in> set it \<and> index_of st nxt = None \<and> set it' \<subseteq> set it
     \<and> dom (index_of st') = insert nxt (dom (index_of st))"
  by (induction node it st rule: scan.induct) (auto simp: lower_def discover_def split: if_splits)

lemma retire_index: "index_of (retire node rest st) = index_of st"
  by (auto simp: retire_def Let_def lower_def emit_def split: list.split prod.split)

lemma succs_in_graph: "set (succs g u) \<subseteq> (\<Union>vs \<in> set (map snd g). set vs)"
proof
  fix v assume "v \<in> set (succs g u)"
  then obtain vs where "map_of g u = Some vs" "v \<in> set vs"
    by (rule dget_or_cases)
  then show "v \<in> (\<Union>vs \<in> set (map snd g). set vs)" by (force dest: map_of_SomeD)
qed

lemma nodes_left_less:
  assumes "scan node it st = (Some (nxt, it'), st')"
  shows "nodes_left g ((nxt, sorted_set (succs g nxt)) # (node, it') # rest) st'
    < nodes_left g ((node, it) # rest) st"
  unfolding nodes_left_def
proof (rule psubset_card_mono)
  note f = scan_found [OF assms]
  show "(\<Union>vs \<in> set (map snd g). set vs)
      \<union> (\<Union>vs \<in> set (map snd ((nxt, sorted_set (succs g nxt)) # (node, it') # rest)). set vs)
      - dom (index_of st')
    \<subset> (\<Union>vs \<in> set (map snd g). set vs) \<union> (\<Union>vs \<in> set (map snd ((node, it) # rest)). set vs)
      - dom (index_of st)"
    using f succs_in_graph [of g nxt] by (auto simp: domIff)
qed auto

lemma nodes_left_retire:
  assumes "scan node it st = (None, st')"
  shows "nodes_left g rest (retire node rest st') \<le> nodes_left g ((node, it) # rest) st"
  using scan_exhausted [OF assms] unfolding nodes_left_def retire_index
  by (intro card_mono) auto

function dfs_loop :: "graph \<Rightarrow> work \<Rightarrow> tarjan \<Rightarrow> tarjan" where
  "dfs_loop g [] st = st"
| "dfs_loop g ((node, it) # rest) st =
     (case scan node it st of
        (Some (nxt, it'), st') \<Rightarrow>
          dfs_loop g ((nxt, sorted_set (succs g nxt)) # (node, it') # rest) st'
      | (None, st') \<Rightarrow> dfs_loop g rest (retire node rest st'))"
  by pat_completeness auto
termination
proof (relation "measures [\<lambda>(g, work, st). nodes_left g work st, \<lambda>(g, work, st). length work]",
    goal_cases)
  case 1 show ?case by simp
next
  case 2
  then show ?case using nodes_left_retire by (fastforce simp: le_less)
next
  case 3
  then show ?case using nodes_left_less by fastforce
qed

declare dfs_loop.simps(2) [simp del]

definition scc_start :: tarjan where
  "scc_start = \<lparr>index_of = Map.empty, low = Map.empty, on_stack = (\<lambda>_. False), stack = [],
     result = [], counter = 0\<rparr>"

definition scc_root :: "graph \<Rightarrow> string \<Rightarrow> tarjan \<Rightarrow> tarjan" where
  "scc_root g root st =
     (if index_of st root \<noteq> None then st
      else dfs_loop g [(root, sorted_set (succs g root))] (discover root st))"

definition strongly_connected_components :: "graph \<Rightarrow> string list list" where
  "strongly_connected_components g =
     result (fold (scc_root g) (sort (keys g)) scc_start)"

end
