(* ===== verification/TarjanInv.thy ===== *)
theory TarjanInv
  imports Tarjan
begin

text \<open>
  The invariant of the iterative search of \<open>Tarjan\<close> and its preservation by each of the four
  things an iteration does: passing a neighbour by, lowering a node, discovering one, and
  retiring one.
\<close>

section \<open>The invariant\<close>

definition edge :: "graph \<Rightarrow> string \<Rightarrow> string \<Rightarrow> bool" where
  "edge g u v = (v \<in> set (succs g u))"

abbreviation reach :: "graph \<Rightarrow> string \<Rightarrow> string \<Rightarrow> bool" where
  "reach g \<equiv> (edge g)\<^sup>*\<^sup>*"

abbreviation num :: "tarjan \<Rightarrow> string \<Rightarrow> nat" where
  "num st x \<equiv> the (index_of st x)"

abbreviation low_of :: "tarjan \<Rightarrow> string \<Rightarrow> nat" where
  "low_of st x \<equiv> the (low st x)"

definition popped :: "tarjan \<Rightarrow> string set" where
  "popped st = (\<Union>c \<in> set (result st). set c)"

definition is_scc :: "graph \<Rightarrow> string set \<Rightarrow> bool" where
  "is_scc g C = (\<exists>x \<in> C. C = {y. reach g x y \<and> reach g y x})"

text \<open>Indices are stack order; what was visited is on the stack or in a component.\<close>

definition indexed :: "tarjan \<Rightarrow> bool" where
  "indexed st =
     (dom (index_of st) = set (stack st) \<union> popped st \<and> set (stack st) \<inter> popped st = {}
      \<and> (\<forall>x. on_stack st x \<longleftrightarrow> x \<in> set (stack st))
      \<and> sorted_wrt (\<lambda>x y. num st y < num st x) (stack st)
      \<and> (\<forall>x \<in> dom (index_of st). num st x < counter st))"

text \<open>
  A lower stack node reaches every higher one, every stack node reaches an open one at or below
  it, and the low value of an open node is the index of a stack node it reaches.
\<close>

definition connected :: "graph \<Rightarrow> string list \<Rightarrow> tarjan \<Rightarrow> bool" where
  "connected g gray st =
     (set gray \<subseteq> set (stack st) \<and> sorted_wrt (\<lambda>a b. num st b < num st a) gray
      \<and> (\<forall>x \<in> set (stack st). \<forall>y \<in> set (stack st). num st x \<le> num st y \<longrightarrow> reach g x y)
      \<and> (\<forall>y \<in> set (stack st). \<exists>x \<in> set gray. num st x \<le> num st y \<and> reach g y x)
      \<and> (\<forall>w \<in> set gray. \<exists>z \<in> set (stack st). low st w = Some (num st z)
           \<and> num st z \<le> num st w \<and> reach g w z))"

text \<open>
  The stack nodes from an open node \<open>w\<close> up to the next open one belong to \<open>w\<close>. Their edges,
  apart from those \<open>w\<close>'s iterator has still to give and the one it is following, lead to visited
  nodes, on the stack to none below \<open>w\<close>'s low value.
\<close>

fun frames_ok :: "graph \<Rightarrow> tarjan \<Rightarrow> nat \<Rightarrow> string set \<Rightarrow> work \<Rightarrow> bool" where
  "frames_ok g st hi C [] = True"
| "frames_ok g st hi C ((w, it) # rest) =
     (set it \<subseteq> set (succs g w)
      \<and> (\<forall>y z. y \<in> set (stack st) \<and> num st w \<le> num st y \<and> num st y < hi \<and> edge g y z
           \<and> (y = w \<longrightarrow> z \<notin> set it \<union> C)
           \<longrightarrow> index_of st z \<noteq> None \<and> (z \<in> set (stack st) \<longrightarrow> low_of st w \<le> num st z))
      \<and> frames_ok g st (num st w) {w} rest)"

text \<open>The components found: strongly connected, disjoint, each after all it depends on.\<close>

definition emitted :: "graph \<Rightarrow> string list list \<Rightarrow> bool" where
  "emitted g r =
     ((\<forall>c \<in> set r. is_scc g (set c) \<and> sorted c) \<and> distinct (concat r)
      \<and> (\<forall>k < length r. \<forall>u \<in> set (r ! k). \<forall>v. edge g u v \<longrightarrow> (\<exists>j \<le> k. v \<in> set (r ! j))))"

definition search_inv :: "graph \<Rightarrow> work \<Rightarrow> tarjan \<Rightarrow> bool" where
  "search_inv g work st =
     (indexed st \<and> connected g (map fst work) st \<and> frames_ok g st (counter st) {} work
      \<and> emitted g (result st))"

section \<open>Frames\<close>

lemma frames_ok_cong:
  assumes "frames_ok g st hi C work"
    and "\<forall>w \<in> set (map fst work). num st' w = num st w \<and> low st' w = low st w \<and> num st w \<le> hi"
    and "\<forall>y \<in> set (stack st'). num st' y < hi \<longrightarrow> y \<in> set (stack st) \<and> num st' y = num st y"
    and "\<forall>z. index_of st z \<noteq> None \<longrightarrow> index_of st' z \<noteq> None"
    and "\<forall>z \<in> set (stack st'). index_of st z \<noteq> None \<longrightarrow> z \<in> set (stack st) \<and> num st' z = num st z"
    and "sorted_wrt (\<lambda>a b. num st b < num st a) (map fst work)"
  shows "frames_ok g st' hi C work"
  using assms
proof (induction g st hi C work rule: frames_ok.induct)
  case (2 g st hi C w it rest)
  have w: "num st' w = num st w" "low st' w = low st w" "num st w \<le> hi" using "2.prems"(2) by simp_all
  have "frames_ok g st' (num st w) {w} rest"
  proof (rule "2.IH")
    show "frames_ok g st (num st w) {w} rest" using "2.prems"(1) by simp
    show "\<forall>y \<in> set (stack st'). num st' y < num st w \<longrightarrow> y \<in> set (stack st) \<and> num st' y = num st y"
      using "2.prems"(3) w(3) by auto
    show "\<forall>v \<in> set (map fst rest). num st' v = num st v \<and> low st' v = low st v \<and> num st v \<le> num st w"
      using "2.prems"(2,6) by auto
    show "sorted_wrt (\<lambda>a b. num st b < num st a) (map fst rest)" using "2.prems"(6) by simp
  qed (fact "2.prems"(4), fact "2.prems"(5))
  moreover have "index_of st' z \<noteq> None \<and> (z \<in> set (stack st') \<longrightarrow> low_of st' w \<le> num st' z)"
    if y: "y \<in> set (stack st')" "num st' w \<le> num st' y" "num st' y < hi" "edge g y z"
      "y = w \<longrightarrow> z \<notin> set it \<union> C" for y z
  proof -
    have "y \<in> set (stack st)" "num st w \<le> num st y" "num st y < hi"
      using y "2.prems"(3) w(1) by auto
    then have "index_of st z \<noteq> None \<and> (z \<in> set (stack st) \<longrightarrow> low_of st w \<le> num st z)"
      using "2.prems"(1) y(4,5) by (simp only: frames_ok.simps) blast
    then show ?thesis using "2.prems"(4,5) w(2) by auto
  qed
  moreover have "set it \<subseteq> set (succs g w)" using "2.prems"(1) by simp
  ultimately show ?case unfolding frames_ok.simps w(1) by blast
qed simp

lemma frames_ok_weaken:
  "frames_ok g st hi C ((w, it) # rest) \<Longrightarrow> set it' \<subseteq> set (succs g w) \<Longrightarrow> set it \<union> C \<subseteq> set it' \<union> D
   \<Longrightarrow> frames_ok g st hi D ((w, it') # rest)"
  by (simp only: frames_ok.simps) blast

lemma frames_ok_edge:
  assumes "frames_ok g st hi C ((w, it) # rest)" and "y \<in> set (stack st)" and "num st w \<le> num st y"
    and "num st y < hi" and "edge g y z" and "y = w \<Longrightarrow> z \<notin> set it \<union> C"
  shows "index_of st z \<noteq> None" and "z \<in> set (stack st) \<Longrightarrow> low_of st w \<le> num st z"
  using assms unfolding frames_ok.simps by blast+

section \<open>Discovering a node\<close>

lemma discover_sel [simp]:
  "index_of (discover v st) = (index_of st)(v \<mapsto> counter st)"
  "low (discover v st) = (low st)(v \<mapsto> counter st)"
  "stack (discover v st) = v # stack st" "result (discover v st) = result st"
  "counter (discover v st) = counter st + 1" "popped (discover v st) = popped st"
  "on_stack (discover v st) = (on_stack st)(v := True)"
  by (simp_all add: discover_def popped_def)

lemma indexed_discover:
  assumes "indexed st" and new: "index_of st v = None"
  shows "indexed (discover v st)"
proof -
  have d: "dom (index_of st) = set (stack st) \<union> popped st" using assms by (simp add: indexed_def)
  have v: "v \<notin> set (stack st)" "v \<notin> popped st" using d new by auto
  have less: "num st x < counter st" if "x \<in> set (stack st)" for x
    using that assms(1) d by (auto simp: indexed_def)
  have "sorted_wrt (\<lambda>x y. num (discover v st) y < num (discover v st) x) (stack st)"
    using assms(1) v(1) by (auto simp: indexed_def elim!: sorted_wrt_mono_rel [rotated])
  then show ?thesis
    using assms(1) v less unfolding indexed_def by (auto simp: less_Suc_eq)
qed

lemma connected_discover:
  assumes "connected g gray st" and "indexed st" and new: "index_of st v = None"
    and src: "case gray of [] \<Rightarrow> True | w # _ \<Rightarrow> edge g w v"
  shows "connected g (v # gray) (discover v st)"
proof -
  let ?st = "discover v st"
  note c = assms(1) [unfolded connected_def]
  have v: "v \<notin> set (stack st)" using assms(2) new by (auto simp: indexed_def)
  then have vg: "v \<notin> set gray" using c by auto
  have n: "num ?st x = num st x" if "x \<in> set (stack st)" for x using that v by auto
  have less: "num st x < counter st" if "x \<in> set (stack st)" for x
    using that assms(2) by (auto simp: indexed_def)
  have reach_v: "reach g x v" if x: "x \<in> set (stack st)" for x
  proof -
    obtain w' where w': "w' \<in> set gray" "reach g x w'" using c x by blast
    then obtain w ws where gray: "gray = w # ws" by (cases gray) auto
    have "num st w' \<le> num st w" using c w'(1) gray by auto
    moreover have "w \<in> set (stack st)" "w' \<in> set (stack st)" using c w'(1) gray by auto
    ultimately have "reach g w' w" using c by blast
    with w'(2) have "reach g x w" by (rule rtranclp_trans)
    then show ?thesis using src gray by (simp add: rtranclp.rtrancl_into_rtrancl)
  qed
  have "sorted_wrt (\<lambda>a b. num ?st b < num ?st a) (v # gray)"
    using c n less vg by (auto elim!: sorted_wrt_mono_rel [rotated] intro: sorted_wrt_mono_rel)
  moreover have "\<forall>x \<in> set (stack ?st). \<forall>y \<in> set (stack ?st). num ?st x \<le> num ?st y \<longrightarrow> reach g x y"
    using c n reach_v less by (auto simp: not_le dest: less)
  moreover have "\<forall>y \<in> set (stack ?st). \<exists>x \<in> set (v # gray). num ?st x \<le> num ?st y \<and> reach g y x"
  proof
    fix y assume "y \<in> set (stack ?st)"
    then consider "y = v" | "y \<in> set (stack st)" by auto
    then show "\<exists>x \<in> set (v # gray). num ?st x \<le> num ?st y \<and> reach g y x"
    proof cases
      case 2
      then obtain x where x: "x \<in> set gray" "num st x \<le> num st y" "reach g y x" using c by blast
      then have "x \<in> set (stack st)" using c by auto
      with x 2 n show ?thesis by (metis list.set_intros(2))
    qed auto
  qed
  moreover have "\<forall>w \<in> set (v # gray). \<exists>z \<in> set (stack ?st). low ?st w = Some (num ?st z)
      \<and> num ?st z \<le> num ?st w \<and> reach g w z"
  proof
    fix w assume "w \<in> set (v # gray)"
    then consider "w = v" | "w \<in> set gray" "w \<noteq> v" using vg by auto
    then show "\<exists>z \<in> set (stack ?st). low ?st w = Some (num ?st z) \<and> num ?st z \<le> num ?st w \<and> reach g w z"
    proof cases
      case 2
      then obtain z where z: "z \<in> set (stack st)" "low st w = Some (num st z)" "num st z \<le> num st w"
        "reach g w z" using c by blast
      moreover have "w \<in> set (stack st)" using c 2 by auto
      ultimately show ?thesis using n [of z] n [of w] 2(2)
        by (intro bexI [of _ z]) auto
    qed auto
  qed
  ultimately show ?thesis unfolding connected_def using c by auto
qed

lemma gray_indexed:
  assumes "indexed st" and "connected g gray st" and "w \<in> set gray"
  shows "w \<in> set (stack st)" "index_of st w \<noteq> None" "num st w < counter st"
  using assms by (auto simp: indexed_def connected_def)

lemma frames_ok_discover:
  assumes "frames_ok g st hi C work" and "indexed st" and "connected g (map fst work) st"
    and new: "index_of st v = None" and hi: "hi \<le> counter st"
    and "\<forall>w \<in> set (map fst work). num st w \<le> hi"
  shows "frames_ok g (discover v st) hi C work"
proof (rule frames_ok_cong [OF assms(1)])
  have v: "v \<notin> set (stack st)" using assms(2) new by (auto simp: indexed_def)
  have "v \<notin> set (map fst work)" using v assms(3) by (auto simp: connected_def)
  then show "\<forall>w \<in> set (map fst work). num (discover v st) w = num st w
      \<and> low (discover v st) w = low st w \<and> num st w \<le> hi"
    using assms(6) by auto
  show "\<forall>y \<in> set (stack (discover v st)). num (discover v st) y < hi \<longrightarrow>
      y \<in> set (stack st) \<and> num (discover v st) y = num st y"
    using hi v by auto
  show "\<forall>z \<in> set (stack (discover v st)). index_of st z \<noteq> None \<longrightarrow>
      z \<in> set (stack st) \<and> num (discover v st) z = num st z"
    using new by auto
  show "sorted_wrt (\<lambda>a b. num st b < num st a) (map fst work)"
    using assms(3) by (simp add: connected_def)
qed simp

lemma frames_ok_new:
  assumes "frames_ok g st (num st v) {v} work" and "\<forall>y \<in> set (stack st). y \<noteq> v \<longrightarrow> num st y < num st v"
  shows "frames_ok g st hi {} ((v, sorted_set (succs g v)) # work)"
  unfolding frames_ok.simps
proof (intro conjI allI impI)
  fix y z
  assume "y \<in> set (stack st) \<and> num st v \<le> num st y \<and> num st y < hi \<and> edge g y z
    \<and> (y = v \<longrightarrow> z \<notin> set (sorted_set (succs g v)) \<union> {})"
  then have False using assms(2) by (auto simp: edge_def)
  then show "index_of st z \<noteq> None" "low_of st v \<le> num st z" by simp_all
qed (use assms(1) in simp_all)

lemma inv_discover:
  assumes "search_inv g ((w, v # it) # rest) st" and new: "index_of st v = None"
  shows "search_inv g ((v, sorted_set (succs g v)) # (w, it) # rest) (discover v st)"
proof -
  let ?st = "discover v st" and ?work = "(w, it) # rest"
  note i = assms(1) [unfolded search_inv_def]
  have con: "connected g (map fst ?work) st" using i by simp
  have f0: "frames_ok g st (counter st) {} ((w, v # it) # rest)" and ix: "indexed st"
    using i by blast+
  have it: "set (v # it) \<subseteq> set (succs g w)" using f0 by simp
  have "edge g w v" using it by (simp add: edge_def)
  then have con': "connected g (v # map fst ?work) ?st"
    using connected_discover [OF con ix new] by simp
  have "frames_ok g st (counter st) {v} ?work"
    by (rule frames_ok_weaken [OF f0]) (use it in auto)
  moreover have "\<forall>u \<in> set (map fst ?work). num st u \<le> counter st"
    using gray_indexed(3) [OF ix con] by (auto intro: less_imp_le)
  ultimately have f: "frames_ok g ?st (counter st) {v} ?work"
    using frames_ok_discover [OF _ ix con new] by blast
  have "num ?st y < counter st" if "y \<in> set (stack ?st)" "y \<noteq> v" for y
    using that ix by (auto simp: indexed_def)
  then have "frames_ok g ?st (counter ?st) {} ((v, sorted_set (succs g v)) # ?work)"
    using f by (intro frames_ok_new) simp_all
  then show ?thesis
    using con' indexed_discover [OF _ new] i by (simp add: search_inv_def)
qed

lemma inv_root:
  assumes "search_inv g [] st" and new: "index_of st v = None"
  shows "search_inv g [(v, sorted_set (succs g v))] (discover v st)"
proof -
  let ?st = "discover v st"
  note i = assms(1) [unfolded search_inv_def]
  have "connected g [v] ?st" using i new by (intro connected_discover) auto
  moreover have "stack st = []" using i by (auto simp: connected_def)
  ultimately show ?thesis
    using indexed_discover [OF _ new] i by (auto simp: search_inv_def edge_def)
qed

section \<open>Passing a neighbour by\<close>

lemma inv_skip:
  assumes "search_inv g ((w, v # it) # rest) st" and "index_of st v \<noteq> None" and "\<not> on_stack st v"
  shows "search_inv g ((w, it) # rest) st"
proof -
  note i = assms(1) [unfolded search_inv_def]
  have v: "v \<notin> set (stack st)" using i assms(3) by (simp add: indexed_def)
  have f: "frames_ok g st (counter st) {} ((w, v # it) # rest)" using i by blast
  have "frames_ok g st (counter st) {} ((w, it) # rest)"
    unfolding frames_ok.simps
  proof (intro conjI allI impI, goal_cases)
    case 1 show ?case using f by simp
  next
    case (2 y z)
    then show ?case using frames_ok_edge(1) [OF f, of y z] assms(2) by (cases "z = v") auto
  next
    case (3 y z)
    then show ?case using frames_ok_edge(2) [OF f, of y z] v by (cases "z = v") auto
  next
    case 4 show ?case using f by simp
  qed
  then show ?thesis using i by (simp add: search_inv_def)
qed

lemma lower_sel [simp]:
  "index_of (lower w k st) = index_of st" "stack (lower w k st) = stack st"
  "result (lower w k st) = result st" "counter (lower w k st) = counter st"
  "popped (lower w k st) = popped st" "on_stack (lower w k st) = on_stack st"
  "low (lower w k st) = (low st)(w \<mapsto> min (low_of st w) k)"
  by (simp_all add: lower_def popped_def)

text \<open>Lowering an open node to an index below its own that it can reach.\<close>

lemma connected_lower:
  assumes "connected g gray st" and "w \<in> set gray" and "v \<in> set (stack st)" and "reach g w v"
  shows "connected g gray (lower w (num st v) st)"
proof -
  note c = assms(1) [unfolded connected_def]
  have "\<exists>z \<in> set (stack st). low (lower w (num st v) st) u = Some (num st z)
      \<and> num st z \<le> num st u \<and> reach g u z" if u: "u \<in> set gray" for u
  proof (cases "u = w")
    case True
    obtain z where z: "z \<in> set (stack st)" "low st w = Some (num st z)" "num st z \<le> num st w" "reach g w z"
      using c u True by blast
    show ?thesis
    proof (cases "num st v < num st z")
      case less: True
      then show ?thesis using z assms(3,4) True by (intro bexI [of _ v]) auto
    next
      case False
      then show ?thesis using z True by (intro bexI [of _ z]) auto
    qed
  next
    case False
    then show ?thesis using c u by auto
  qed
  then show ?thesis using c by (simp add: connected_def)
qed

lemma frames_ok_lower:
  assumes "frames_ok g st hi C rest" and "w \<notin> set (map fst rest)"
    and "sorted_wrt (\<lambda>a b. num st b < num st a) (map fst rest)"
    and "\<forall>u \<in> set (map fst rest). num st u \<le> hi"
  shows "frames_ok g (lower w k st) hi C rest"
  by (rule frames_ok_cong [OF assms(1)]) (use assms(2-) in auto)

lemma inv_lower:
  assumes "search_inv g ((w, v # it) # rest) st" and "index_of st v \<noteq> None" and "on_stack st v"
  shows "search_inv g ((w, it) # rest) (lower w (num st v) st)"
proof -
  let ?st = "lower w (num st v) st"
  note i = assms(1) [unfolded search_inv_def]
  have f: "frames_ok g st (counter st) {} ((w, v # it) # rest)" and ix: "indexed st"
    and con0: "connected g (map fst ((w, v # it) # rest)) st" using i by blast+
  have v: "v \<in> set (stack st)" using ix assms(3) by (simp add: indexed_def)
  have "edge g w v" using f by (simp add: edge_def)
  then have con: "connected g (map fst ((w, it) # rest)) ?st"
    using connected_lower [OF con0 _ v, of w] r_into_rtranclp [of "edge g" w v] by simp
  have sorted: "sorted_wrt (\<lambda>a b. num st b < num st a) (w # map fst rest)"
    using con0 by (simp add: connected_def)
  then have wr: "w \<notin> set (map fst rest)" by auto
  have rest: "frames_ok g ?st (num st w) {w} rest"
    using f wr sorted by (intro frames_ok_lower) auto
  have low: "low_of ?st w \<le> low_of st w" "low_of ?st w \<le> num st v" by simp_all
  have "frames_ok g ?st (counter st) {} ((w, it) # rest)"
    unfolding frames_ok.simps lower_sel(1-6)
  proof (intro conjI allI impI, goal_cases)
    case 1 show ?case using f by simp
  next
    case (2 y z)
    then show ?case using frames_ok_edge(1) [OF f, of y z] assms(2) by (cases "z = v") auto
  next
    case (3 y z)
    then have "z = v \<or> low_of st w \<le> num st z" using frames_ok_edge(2) [OF f, of y z] by auto
    then show ?case using low order_trans by blast
  next
    case 4 show ?case using rest by simp
  qed
  then show ?thesis using i con by (simp add: search_inv_def indexed_def)
qed

section \<open>Retiring a node\<close>

text \<open>The parent takes the child's low value over, and with it the stack nodes of the child.\<close>

definition settle_parent :: "string \<Rightarrow> work \<Rightarrow> tarjan \<Rightarrow> tarjan" where
  "settle_parent w rest st =
     (case rest of [] \<Rightarrow> st | (p, _) # _ \<Rightarrow> lower p (low_of st w) st)"

lemma settle_parent_sel [simp]:
  "index_of (settle_parent w rest st) = index_of st" "stack (settle_parent w rest st) = stack st"
  "result (settle_parent w rest st) = result st" "counter (settle_parent w rest st) = counter st"
  "popped (settle_parent w rest st) = popped st" "on_stack (settle_parent w rest st) = on_stack st"
  by (auto simp: settle_parent_def split: list.split)

lemma inv_parts:
  assumes "search_inv g ((w, it) # rest) st"
  shows "indexed st" "connected g (w # map fst rest) st"
    "frames_ok g st (counter st) {} ((w, it) # rest)" "emitted g (result st)"
    "w \<in> set (stack st)" "w \<notin> set (map fst rest)" "\<forall>u \<in> set (map fst rest). num st u < num st w"
  using assms by (auto simp: search_inv_def connected_def)

lemma connected_low:
  assumes "connected g gray st" and "w \<in> set gray"
  obtains z where "z \<in> set (stack st)" "low_of st w = num st z" "num st z \<le> num st w" "reach g w z"
  using assms by (force simp: connected_def)

lemma settle_connected:
  assumes "search_inv g ((w, it) # rest) st"
  shows "connected g (w # map fst rest) (settle_parent w rest st)"
proof (cases rest)
  case Nil
  then show ?thesis using inv_parts(2) [OF assms] by (simp add: settle_parent_def)
next
  case (Cons f rest')
  obtain p itp where f: "f = (p, itp)" by fastforce
  note con = inv_parts(2) [OF assms]
  obtain z where z: "z \<in> set (stack st)" "low_of st w = num st z" "reach g w z"
    using connected_low [OF con, of w] by auto
  have "p \<in> set (stack st)" "num st p < num st w" "w \<in> set (stack st)"
    using con by (auto simp: connected_def Cons f)
  then have "reach g p w" using con less_imp_le by (auto simp: connected_def)
  then have "reach g p z" using z(3) by (rule rtranclp_trans)
  then show ?thesis
    using connected_lower [OF con _ z(1), of p] z(2) by (simp add: settle_parent_def Cons f)
qed

lemma settle_low: "w \<notin> set (map fst rest) \<Longrightarrow> low (settle_parent w rest st) w = low st w"
  by (auto simp: settle_parent_def split: list.split)

lemma settle_frames:
  assumes "search_inv g ((w, []) # rest) st"
  shows "frames_ok g (settle_parent w rest st) (counter st) {} rest"
proof (cases rest)
  case (Cons f rest')
  obtain p itp where f: "f = (p, itp)" by fastforce
  let ?st = "settle_parent w rest st"
  note i = inv_parts [OF assms]
  have fw: "frames_ok g st (counter st) {} ((w, []) # (p, itp) # rest')" using i(3) Cons f by simp
  have fp: "frames_ok g st (num st w) {w} ((p, itp) # rest')" using fw by simp
  have sorted: "sorted_wrt (\<lambda>a b. num st b < num st a) (p # map fst rest')" and wp: "p \<noteq> w"
    using i(2,6) Cons f by (auto simp: connected_def)
  have low: "low_of ?st p = min (low_of st p) (low_of st w)"
    using Cons f by (simp add: settle_parent_def)
  obtain z0 where "low_of st w = num st z0" "num st z0 \<le> num st w"
    using connected_low [OF i(2), of w] by auto
  then have low_w: "low_of st w \<le> num st w" by simp
  have edge: "index_of st z \<noteq> None \<and> (z \<in> set (stack st) \<longrightarrow> low_of ?st p \<le> num st z)"
    if y: "y \<in> set (stack st)" "num st p \<le> num st y" "num st y < counter st" "edge g y z"
      "y = p \<longrightarrow> z \<notin> set itp" for y z
  proof (cases "num st w \<le> num st y")
    case True
    then show ?thesis using frames_ok_edge [OF fw y(1) True y(3,4)] low by auto
  next
    case False
    show ?thesis
    proof (cases "z = w")
      case True
      then show ?thesis using gray_indexed [OF i(1,2), of w] low low_w by auto
    next
      case z: False
      with frames_ok_edge [OF fp y(1,2) _ y(4)] False y(5) low show ?thesis by auto
    qed
  qed
  have "frames_ok g ?st (num st p) {p} rest'"
    using frames_ok_lower [of g st "num st p" "{p}" rest' p] fp sorted Cons f
    by (auto simp: settle_parent_def intro: less_imp_le)
  moreover have "set itp \<subseteq> set (succs g p)" using fp by simp
  ultimately show ?thesis
    unfolding Cons f frames_ok.simps settle_parent_sel using edge unfolding Cons f by blast
qed simp

lemma retire_settle:
  "retire w rest st =
     (let st1 = settle_parent w rest st
      in if low st1 w = index_of st1 w then emit w st1 else st1)"
  by (simp add: retire_def settle_parent_def)

lemma inv_keep:
  assumes "search_inv g ((w, []) # rest) st" and differ: "low st w \<noteq> index_of st w"
  shows "search_inv g rest (settle_parent w rest st)"
proof -
  let ?st = "settle_parent w rest st"
  note i = inv_parts [OF assms(1)]
  note c = settle_connected [OF assms(1), unfolded connected_def]
  have lw: "low ?st w = low st w" using settle_low [OF i(6)] .
  obtain z where z: "z \<in> set (stack st)" "low st w = Some (num st z)" "num st z \<le> num st w" "reach g w z"
    using i(2) by (auto simp: connected_def)
  have "index_of st w = Some (num st w)" using gray_indexed [OF i(1,2), of w] by auto
  then have less: "num st z < num st w" using z differ by (cases "num st z = num st w") auto
  obtain x where x: "x \<in> set (w # map fst rest)" "num st x \<le> num st z" "reach g z x"
    using i(2) z(1) unfolding connected_def by blast
  then have xr: "x \<in> set (map fst rest)" using less by auto
  have wx: "reach g w x" using z(4) x(3) by (rule rtranclp_trans)
  have "\<exists>x \<in> set (map fst rest). num st x \<le> num st y \<and> reach g y x" if y: "y \<in> set (stack st)" for y
  proof -
    obtain x' where x': "x' \<in> set (w # map fst rest)" "num st x' \<le> num st y" "reach g y x'"
      using i(2) y unfolding connected_def by blast
    show ?thesis
    proof (cases "x' = w")
      case True
      then have "reach g y x" using x'(3) wx by (metis rtranclp_trans)
      moreover have "num st x \<le> num st y" using x(2) less x'(2) True by simp
      ultimately show ?thesis using xr by blast
    next
      case False
      then show ?thesis using x' by auto
    qed
  qed
  then have "connected g (map fst rest) ?st"
    using c unfolding connected_def by auto
  moreover have "indexed ?st" using i(1) by (simp add: indexed_def)
  ultimately show ?thesis using settle_frames [OF assms(1)] i(4) by (simp add: search_inv_def)
qed

end
