(* ===== verification/TarjanCorrect.thy ===== *)
theory TarjanCorrect
  imports TarjanInv
begin

text \<open>
  A node whose low value is its own index closes a strongly connected component; with that the
  search of \<open>Tarjan\<close> is correct.
\<close>

section \<open>Emitting a component\<close>

lemma falling_distinct: "sorted_wrt (\<lambda>x y. (n y :: nat) < n x) xs \<Longrightarrow> distinct xs"
  by (induction xs) auto

lemma pop_to_split:
  assumes "sorted_wrt (\<lambda>x y. n y < n x) xs" and "w \<in> set xs" and "pop_to w xs = (c, rest)"
  shows "xs = c @ rest \<and> set c = {y \<in> set xs. (n w :: nat) \<le> n y}
    \<and> set rest = {y \<in> set xs. n y < n w}"
  using assms
proof (induction xs arbitrary: c)
  case (Cons x xs)
  show ?case
  proof (cases "x = w")
    case True
    then have "c = [w]" "rest = xs" using Cons.prems(3) by simp_all
    then show ?thesis using True Cons.prems(1) by auto
  next
    case False
    obtain c' rest' where p: "pop_to w xs = (c', rest')" by fastforce
    then have e: "c = x # c'" "rest = rest'" using False Cons.prems(3) by simp_all
    have w: "w \<in> set xs" using False Cons.prems(2) by simp
    have less: "n w < n x" using Cons.prems(1) w by simp
    have "sorted_wrt (\<lambda>x y. n y < n x) xs" "pop_to w xs = (c', rest)"
      using Cons.prems(1) p e(2) by simp_all
    from Cons.IH [OF this(1) w this(2)] have a: "xs = c' @ rest"
      and c: "set c' = {y \<in> set xs. n w \<le> n y}" and r: "set rest = {y \<in> set xs. n y < n w}"
      by blast+
    have "x # xs = c @ rest" using a e(1) by simp
    moreover have "set c = {y \<in> set (x # xs). n w \<le> n y}"
    proof (rule set_eqI)
      fix y
      have "y \<in> set c' \<longleftrightarrow> y \<in> set xs \<and> n w \<le> n y" unfolding c by blast
      then show "y \<in> set c \<longleftrightarrow> y \<in> {y \<in> set (x # xs). n w \<le> n y}"
        unfolding e(1) using less by (cases "y = x") simp_all
    qed
    moreover have "set rest = {y \<in> set (x # xs). n y < n w}"
    proof (rule set_eqI)
      fix y
      have "y \<in> set rest \<longleftrightarrow> y \<in> set xs \<and> n y < n w" unfolding r by blast
      then show "y \<in> set rest \<longleftrightarrow> y \<in> {y \<in> set (x # xs). n y < n w}"
        using less by (cases "y = x") simp_all
    qed
    ultimately show ?thesis by blast
  qed
qed simp

lemma emitted_snoc:
  assumes "emitted g r" and "is_scc g (set c)" "sorted c" "distinct c"
    and "set c \<inter> (\<Union>d \<in> set r. set d) = {}"
    and closed: "\<forall>u \<in> set c. \<forall>v. edge g u v \<longrightarrow> v \<in> set c \<union> (\<Union>d \<in> set r. set d)"
  shows "emitted g (r @ [c])"
proof -
  have "\<exists>j \<le> k. v \<in> set ((r @ [c]) ! j)"
    if k: "k < length (r @ [c])" "u \<in> set ((r @ [c]) ! k)" "edge g u v" for k u v
  proof (cases "k < length r")
    case True
    then have "u \<in> set (r ! k)" using k(2) by (simp add: nth_append)
    then obtain j where "j \<le> k" "v \<in> set (r ! j)"
      using assms(1) k(3) True unfolding emitted_def by blast
    then show ?thesis using True by (intro exI [of _ j]) (simp add: nth_append)
  next
    case False
    then have "k = length r" "u \<in> set c" using k by (auto simp: nth_append less_Suc_eq)
    then consider "v \<in> set c" | d where "d \<in> set r" "v \<in> set d" using closed k(3) by blast
    then show ?thesis
    proof cases
      case 1
      then show ?thesis using \<open>k = length r\<close> by (intro exI [of _ k]) simp
    next
      case (2 d)
      then obtain j where "j < length r" "r ! j = d" by (auto simp: in_set_conv_nth)
      then show ?thesis using 2 \<open>k = length r\<close> by (intro exI [of _ j]) (simp add: nth_append)
    qed
  qed
  then show ?thesis using assms unfolding emitted_def by auto
qed

text \<open>Edges out of components already found lead to such components.\<close>

lemma popped_closed:
  assumes "emitted g (result st)" and "reach g u v" and "u \<in> popped st"
  shows "v \<in> popped st"
  using assms(2,3)
proof (induction rule: rtranclp_induct)
  case (step y z)
  then obtain c where "c \<in> set (result st)" "y \<in> set c" by (auto simp: popped_def)
  then obtain k where k: "k < length (result st)" "y \<in> set (result st ! k)"
    by (metis in_set_conv_nth)
  with step(2) assms(1) obtain j where "j \<le> k" "z \<in> set (result st ! j)"
    unfolding emitted_def by blast
  with \<open>k < length (result st)\<close> show ?case by (auto simp: popped_def)
qed

lemma component_closed:
  assumes i: "search_inv g ((w, []) # rest) st" and eq: "low st w = index_of st w"
    and "y \<in> set (stack st)" "num st w \<le> num st y" "edge g y z"
  shows "(z \<in> set (stack st) \<and> num st w \<le> num st z) \<or> z \<in> popped st"
proof -
  note p = inv_parts [OF i]
  have "num st y < counter st" using p(1) assms(3) by (auto simp: indexed_def)
  then have *: "index_of st z \<noteq> None" "z \<in> set (stack st) \<Longrightarrow> low_of st w \<le> num st z"
    using frames_ok_edge [OF p(3) assms(3,4) _ assms(5)] by auto
  then have "z \<in> set (stack st) \<union> popped st" using p(1) by (auto simp: indexed_def)
  then show ?thesis using * eq by auto
qed

lemma component_is_scc:
  assumes i: "search_inv g ((w, []) # rest) st" and eq: "low st w = index_of st w"
  shows "is_scc g {y \<in> set (stack st). num st w \<le> num st y}" (is "is_scc g ?C")
proof -
  note p = inv_parts [OF i]
  have w: "w \<in> ?C" using p(5) by simp
  have to: "reach g w y \<and> reach g y w" if y: "y \<in> ?C" for y
  proof
    show "reach g w y" using p(2,5) y by (auto simp: connected_def)
    obtain x where x: "x \<in> set (w # map fst rest)" "reach g y x"
      using p(2) y unfolding connected_def by blast
    have "num st x \<le> num st w" "x \<in> set (stack st)" using x(1) p(2,7)
      by (auto simp: connected_def intro: less_imp_le)
    then have "reach g x w" using p(2,5) by (auto simp: connected_def)
    then show "reach g y w" using x(2) by (metis rtranclp_trans)
  qed
  have "z \<in> ?C \<union> popped st" if "reach g w z" for z
    using that
  proof (induction rule: rtranclp_induct)
    case base show ?case using w by simp
  next
    case (step y z)
    show ?case
    proof (cases "y \<in> ?C")
      case True
      then show ?thesis using component_closed [OF i eq _ _ step(2)] by auto
    next
      case False
      then have "y \<in> popped st" using step(3) by blast
      then show ?thesis using popped_closed [OF p(4), of y z] step(2) by auto
    qed
  qed
  moreover have "w \<notin> popped st" using p(1,5) by (auto simp: indexed_def)
  ultimately have "?C = {y. reach g w y \<and> reach g y w}"
    using to popped_closed [OF p(4)] by blast
  with w show ?thesis unfolding is_scc_def by blast
qed

lemma emit_sel:
  assumes "pop_to w (stack st) = (c, rs)"
  shows "index_of (emit w st) = index_of st" "low (emit w st) = low st"
    "counter (emit w st) = counter st" "stack (emit w st) = rs"
    "result (emit w st) = result st @ [sort c]" "popped (emit w st) = popped st \<union> set c"
    "on_stack (emit w st) = (\<lambda>x. x \<notin> set c \<and> on_stack st x)"
  using assms by (auto simp: emit_def popped_def)

lemma inv_emit:
  assumes "search_inv g ((w, []) # rest) st" and eq: "low st w = index_of st w"
  shows "search_inv g rest (emit w (settle_parent w rest st))"
proof -
  let ?s = "settle_parent w rest st"
  note i = inv_parts [OF assms(1)]
  obtain c rs where pop: "pop_to w (stack st) = (c, rs)" by fastforce
  have sorted: "sorted_wrt (\<lambda>x y. num st y < num st x) (stack st)" using i(1) by (simp add: indexed_def)
  note sp = pop_to_split [OF sorted i(5) pop]
  have split: "stack st = c @ rs" and c: "set c = {y \<in> set (stack st). num st w \<le> num st y}"
    and rs: "set rs = {y \<in> set (stack st). num st y < num st w}" using sp by blast+
  have dist: "distinct (stack st)"
    using sorted by (rule falling_distinct)
  have pop': "pop_to w (stack ?s) = (c, rs)" using pop by simp
  let ?e = "emit w ?s"
  note e = emit_sel [OF pop', unfolded settle_parent_sel]
  have ix: "indexed ?e"
  proof -
    have "sorted_wrt (\<lambda>x y. num st y < num st x) rs"
      using sorted by (simp add: split sorted_wrt_append)
    moreover have "dom (index_of st) = set rs \<union> (popped st \<union> set c)"
      using i(1) unfolding indexed_def split by auto
    moreover have "set rs \<inter> (popped st \<union> set c) = {}"
      using i(1) dist unfolding indexed_def split by auto
    moreover have "(x \<notin> set c \<and> on_stack st x) = (x \<in> set rs)" for x
      using i(1) dist unfolding indexed_def split by auto
    ultimately show ?thesis using i(1) unfolding indexed_def e by blast
  qed
  have con: "connected g (map fst rest) ?e"
  proof -
    note k = settle_connected [OF assms(1), unfolded connected_def settle_parent_sel]
    have k_open: "\<forall>y \<in> set (stack st). \<exists>x \<in> set (w # map fst rest). num st x \<le> num st y \<and> reach g y x"
      using k by (intro ballI) (elim conjE, drule (1) bspec, assumption)
    have below: "x \<in> set rs" if "x \<in> set (map fst rest)" for x
      using that k i(7) rs by auto
    have "\<exists>x \<in> set (map fst rest). num st x \<le> num st y \<and> reach g y x" if "y \<in> set rs" for y
    proof -
      have "y \<in> set (stack st)" using that rs by blast
      then obtain x where x: "x \<in> set (w # map fst rest)" "num st x \<le> num st y" "reach g y x"
        using k_open by blast
      have "num st y < num st w" using that rs by simp
      then have "x \<noteq> w" using x(2) by auto
      then show ?thesis using x by auto
    qed
    moreover have "\<exists>z \<in> set rs. low ?s u = Some (num st z) \<and> num st z \<le> num st u \<and> reach g u z"
      if u: "u \<in> set (map fst rest)" for u
    proof -
      have "u \<in> set (w # map fst rest)" using u by simp
      then obtain z where z: "z \<in> set (stack st)" "low ?s u = Some (num st z)" "num st z \<le> num st u" "reach g u z"
        using k by blast
      have "num st u < num st w" using u i(7) by blast
      then have "num st z < num st w" using z(3) by linarith
      then have "z \<in> set rs" using z(1) rs by simp
      then show ?thesis using z by blast
    qed
    ultimately show ?thesis using k below rs unfolding connected_def e by auto
  qed
  have fr: "frames_ok g ?e (counter ?e) {} rest"
  proof (rule frames_ok_cong)
    show "frames_ok g ?s (counter ?e) {} rest" using settle_frames [OF assms(1)] e(3) by simp
    show "\<forall>u \<in> set (map fst rest). num ?e u = num ?s u \<and> low ?e u = low ?s u \<and> num ?s u \<le> counter ?e"
      using gray_indexed(3) [OF i(1,2)] by (auto simp: e intro!: less_imp_le image_eqI)
    show "sorted_wrt (\<lambda>a b. num ?s b < num ?s a) (map fst rest)"
      using i(2) by (simp add: connected_def)
  qed (auto simp: e split)
  have "emitted g (result ?e)"
    unfolding e
  proof (rule emitted_snoc [OF i(4)])
    show "is_scc g (set (sort c))" using component_is_scc [OF assms] c by simp
    show "distinct (sort c)" using dist by (simp add: split)
    have "set c \<subseteq> set (stack st)" using split by simp
    then show "set (sort c) \<inter> (\<Union>d \<in> set (result st). set d) = {}"
      using i(1) by (auto simp: indexed_def popped_def)
    show "\<forall>u \<in> set (sort c). \<forall>v. edge g u v \<longrightarrow> v \<in> set (sort c) \<union> (\<Union>d \<in> set (result st). set d)"
      using component_closed [OF assms] c by (auto simp: popped_def)
  qed simp
  with ix con fr show ?thesis by (simp add: search_inv_def)
qed

lemma inv_retire:
  assumes "search_inv g ((w, []) # rest) st"
  shows "search_inv g rest (retire w rest st)"
  using inv_emit [OF assms] inv_keep [OF assms] settle_low [OF inv_parts(6) [OF assms]]
  by (simp add: retire_settle Let_def)

section \<open>The search\<close>

lemma inv_scan:
  assumes "search_inv g ((w, it) # rest) st" and "scan w it st = (r, st')"
  shows "case r of None \<Rightarrow> search_inv g ((w, []) # rest) st'
    | Some (v, it') \<Rightarrow> search_inv g ((v, sorted_set (succs g v)) # (w, it') # rest) st'"
  using assms
proof (induction w it st arbitrary: r st' rule: scan.induct)
  case (2 w v it st)
  show ?case
  proof (cases "index_of st v = None")
    case True
    then show ?thesis using 2 inv_discover by auto
  next
    case old: False
    show ?thesis
    proof (cases "on_stack st v")
      case True
      with 2 old inv_lower [OF "2.prems"(1) old True] show ?thesis by simp
    next
      case False
      with 2 old inv_skip [OF "2.prems"(1) old False] show ?thesis by simp
    qed
  qed
qed simp

lemma inv_dfs_loop: "search_inv g work st \<Longrightarrow> search_inv g [] (dfs_loop g work st)"
proof (induction g work st rule: dfs_loop.induct)
  case (2 g w it rest st)
  obtain r st' where s: "scan w it st = (r, st')" by fastforce
  show ?case
  proof (cases r)
    case None
    with 2 s inv_scan [OF "2.prems" s] inv_retire show ?thesis by (simp add: dfs_loop.simps(2) [of g w it rest st])
  next
    case (Some p)
    obtain v it' where p: "p = (v, it')" by fastforce
    with 2 s Some inv_scan [OF "2.prems" s] show ?thesis by (simp add: dfs_loop.simps(2) [of g w it rest st])
  qed
qed simp

lemma inv_scc_start: "search_inv g [] scc_start"
  by (simp add: search_inv_def scc_start_def indexed_def connected_def emitted_def popped_def)

lemma inv_scc_root: "search_inv g [] st \<Longrightarrow> search_inv g [] (scc_root g root st)"
  using inv_root inv_dfs_loop by (simp add: scc_root_def)

text \<open>What was visited stays visited, and only nodes reachable from a key are.\<close>

lemma scan_index_mono: "scan w it st = (r, st') \<Longrightarrow> dom (index_of st) \<subseteq> dom (index_of st')"
  by (induction w it st arbitrary: r st' rule: scan.induct) (auto simp: lower_def split: if_splits)

lemma dfs_loop_mono: "dom (index_of st) \<subseteq> dom (index_of (dfs_loop g work st))"
proof (induction g work st rule: dfs_loop.induct)
  case (2 g w it rest st)
  obtain r st' where s: "scan w it st = (r, st')" by fastforce
  note m = scan_index_mono [OF s]
  show ?case
  proof (cases r)
    case None
    with 2 s m show ?thesis by (auto simp: retire_index dfs_loop.simps(2) [of g w it rest st])
  next
    case (Some p)
    obtain v it' where p: "p = (v, it')" by fastforce
    have "dfs_loop g ((w, it) # rest) st
        = dfs_loop g ((v, sorted_set (succs g v)) # (w, it') # rest) st'"
      using s Some p by (simp add: dfs_loop.simps(2) [of g w it rest st])
    with "2.IH"(2) [OF s [symmetric] Some p [symmetric]] m show ?thesis by simp
  qed
qed simp

definition nodes_of :: "graph \<Rightarrow> string set" where
  "nodes_of g = set (keys g) \<union> (\<Union>u \<in> set (keys g). set (succs g u))"

lemma succs_nodes: "set (succs g u) \<subseteq> nodes_of g"
proof (cases "u \<in> set (keys g)")
  case False
  then have "map_of g u = None" by (simp add: keys_def map_of_eq_None_iff)
  then show ?thesis by (simp add: dget_or_def)
qed (auto simp: nodes_of_def)

lemma dfs_loop_visits:
  "set (map fst work) \<union> (\<Union>f \<in> set work. set (snd f)) \<union> dom (index_of st) \<subseteq> nodes_of g
   \<Longrightarrow> dom (index_of (dfs_loop g work st)) \<subseteq> nodes_of g"
proof (induction g work st rule: dfs_loop.induct)
  case (2 g w it rest st)
  obtain r st' where s: "scan w it st = (r, st')" by fastforce
  show ?case
  proof (cases r)
    case None
    with s have "index_of st' = index_of st" using scan_exhausted by blast
    with 2 s None show ?thesis by (simp add: retire_index dfs_loop.simps(2) [of g w it rest st])
  next
    case (Some p)
    obtain v it' where p: "p = (v, it')" by fastforce
    have f: "v \<in> set it" "set it' \<subseteq> set it" "dom (index_of st') = insert v (dom (index_of st))"
      using scan_found [of w it st v it' st'] s Some p by blast+
    moreover have "set (succs g v) \<subseteq> nodes_of g"
      by (rule succs_nodes)
    ultimately have "set (map fst ((v, sorted_set (succs g v)) # (w, it') # rest))
        \<union> (\<Union>f \<in> set ((v, sorted_set (succs g v)) # (w, it') # rest). set (snd f))
        \<union> dom (index_of st') \<subseteq> nodes_of g"
      using "2.prems" by auto
    then show ?thesis using "2.IH"(2) [OF s [symmetric]] Some p s by (simp add: dfs_loop.simps(2) [of g w it rest st])
  qed
qed simp

lemma inv_emitted: "search_inv g [] st \<Longrightarrow> emitted g (result st) \<and> popped st = dom (index_of st)"
  by (auto simp: search_inv_def indexed_def connected_def)

lemma scc_fold:
  assumes "search_inv g [] st" and "dom (index_of st) \<subseteq> nodes_of g" and "set ks \<subseteq> nodes_of g"
  shows "search_inv g [] (fold (scc_root g) ks st)
    \<and> dom (index_of st) \<union> set ks \<subseteq> dom (index_of (fold (scc_root g) ks st))
    \<and> dom (index_of (fold (scc_root g) ks st)) \<subseteq> nodes_of g"
  using assms
proof (induction ks arbitrary: st)
  case (Cons k ks)
  let ?st = "scc_root g k st"
  have "insert k (dom (index_of st)) \<subseteq> dom (index_of ?st)"
    using dfs_loop_mono [of "discover k st" g] by (auto simp: scc_root_def domIff)
  moreover have "dom (index_of ?st) \<subseteq> nodes_of g"
  proof (cases "index_of st k = None")
    case True
    have "set (succs g k) \<subseteq> nodes_of g" by (rule succs_nodes)
    then have "dom (index_of (dfs_loop g [(k, sorted_set (succs g k))] (discover k st))) \<subseteq> nodes_of g"
      using Cons.prems by (intro dfs_loop_visits) auto
    with True show ?thesis by (simp add: scc_root_def)
  qed (use Cons.prems in \<open>simp add: scc_root_def\<close>)
  ultimately show ?case
    using Cons.IH [OF inv_scc_root [OF Cons.prems(1)], of k] Cons.prems(3)
    by (simp del: fun_upd_apply) blast
qed simp

lemma scc_result:
  fixes g :: graph
  defines "r \<equiv> strongly_connected_components g"
  shows "emitted g r" and "(\<Union>c \<in> set r. set c) = nodes_of g"
proof -
  let ?st = "fold (scc_root g) (sort (keys g)) scc_start"
  have f: "search_inv g [] ?st" "set (keys g) \<subseteq> dom (index_of ?st)" "dom (index_of ?st) \<subseteq> nodes_of g"
    using scc_fold [OF inv_scc_start, of g "sort (keys g)"] by (auto simp: scc_start_def nodes_of_def)
  note e = inv_emitted [OF f(1)]
  then show "emitted g r" by (simp add: r_def strongly_connected_components_def)
  have p: "(\<Union>c \<in> set r. set c) = popped ?st"
    by (simp add: r_def strongly_connected_components_def popped_def)
  have "v \<in> popped ?st" if "u \<in> set (keys g)" "v \<in> set (succs g u)" for u v
    using that e f popped_closed [of g ?st u v] r_into_rtranclp [of "edge g" u v]
    by (auto simp: edge_def)
  then show "(\<Union>c \<in> set r. set c) = nodes_of g"
    using p e f by (auto simp: nodes_of_def)
qed

end
