(* ===== verification/SourceGraph.thy ===== *)
theory SourceGraph
  imports TarjanCorrect
begin

text \<open>
  The source-level graph of \<^verbatim>\<open>tools/depgraph.py\<close>: collapsing resolved build
  dependencies onto source packages, finding and staging the bootstrap cycles, ordering the rest,
  and counting what is built against what is seeded.
\<close>

section \<open>Decimal text\<close>

definition digit_char :: "nat \<Rightarrow> char" where
  "digit_char n = ''0123456789'' ! n"

fun nat_text :: "nat \<Rightarrow> string" where
  "nat_text n = (if n < 10 then [digit_char n] else nat_text (n div 10) @ [digit_char (n mod 10)])"

declare nat_text.simps [simp del]

definition int_text :: "int \<Rightarrow> string" where
  "int_text n = (if n < 0 then CHR ''-'' # nat_text (nat (- n)) else nat_text (nat n))"

section \<open>The graph\<close>

type_synonym build_deps = "(string, string list) dict"
type_synonym source_map = "(string, string) dict"
type_synonym routes = "(string, source_map) dict"

text \<open>\<open>routed.get(binary) or source_of.get(binary)\<close>\<close>

definition dep_source :: "source_map \<Rightarrow> source_map \<Rightarrow> string \<Rightarrow> string option" where
  "dep_source routed source_of binary =
     (if truthy (dget routed binary) then dget routed binary else dget source_of binary)"

definition add_dep ::
  "string \<Rightarrow> source_map \<Rightarrow> source_map \<Rightarrow> string list \<Rightarrow> string \<Rightarrow> graph \<Rightarrow> graph" where
  "add_dep src routed source_of build_set binary g =
     (case dep_source routed source_of binary of
        None \<Rightarrow> g
      | Some dep \<Rightarrow>
          if dep \<notin> set build_set then g
          else if dep \<noteq> src then dset src (List.insert dep (dget_or g src [])) g
          else g)"

definition project_to_source_graph ::
  "build_deps \<Rightarrow> source_map \<Rightarrow> string list \<Rightarrow> routes \<Rightarrow> graph" where
  "project_to_source_graph build_deps source_of build_set routes =
     fold (\<lambda>(src, bins) g.
         if src \<notin> set build_set then g
         else fold (add_dep src (dget_or routes src []) source_of build_set) bins g)
       build_deps (fold (\<lambda>src. dset src []) build_set [])"

lemma edge_add_dep:
  "edge (add_dep src routed source_of bs b g) u v \<longleftrightarrow>
     edge g u v \<or> (u = src \<and> v \<noteq> src \<and> v \<in> set bs \<and> dep_source routed source_of b = Some v)"
  by (auto simp: add_dep_def edge_def dget_or_def dget_dset split: option.splits)

lemma edge_add_deps:
  "edge (fold (add_dep src routed source_of bs) bins g) u v \<longleftrightarrow>
     edge g u v \<or> (u = src \<and> v \<noteq> src \<and> v \<in> set bs
       \<and> (\<exists>b \<in> set bins. dep_source routed source_of b = Some v))"
  by (induction bins arbitrary: g) (auto simp: edge_add_dep)

lemma edge_project_fold:
  "edge (fold (\<lambda>(src, bins) g.
         if src \<notin> set bs then g
         else fold (add_dep src (dget_or routes src []) source_of bs) bins g) deps g) u v \<longleftrightarrow>
     edge g u v \<or> (u \<in> set bs \<and> v \<noteq> u \<and> v \<in> set bs
       \<and> (\<exists>bins. (u, bins) \<in> set deps
            \<and> (\<exists>b \<in> set bins. dep_source (dget_or routes u []) source_of b = Some v)))"
proof (induction deps arbitrary: g)
  case (Cons d deps)
  obtain src bins where d: "d = (src, bins)" by fastforce
  show ?case
  proof (cases "src \<in> set bs")
    case True
    then show ?thesis unfolding d by (simp add: Cons.IH edge_add_deps) blast
  next
    case False
    then show ?thesis unfolding d by (simp add: Cons.IH) blast
  qed
qed simp

lemma edge_dset: "edge (dset a vs g) u v \<longleftrightarrow> (if u = a then v \<in> set vs else edge g u v)"
  by (simp add: edge_def dget_or_def dget_dset)

lemma edge_empty: "\<not> edge (fold (\<lambda>src. dset src []) bs []) u v"
proof -
  have "\<not> edge (fold (\<lambda>src. dset src []) bs g) u v" if "\<forall>v. \<not> edge g u v" for g
    using that by (induction bs arbitrary: g) (auto simp: edge_dset)
  from this [of "[]"] show ?thesis by (simp add: edge_def dget_or_def)
qed

lemma project_edge:
  "edge (project_to_source_graph deps source_of bs routes) u v \<longleftrightarrow>
     u \<in> set bs \<and> v \<in> set bs \<and> v \<noteq> u
     \<and> (\<exists>bins. (u, bins) \<in> set deps
          \<and> (\<exists>b \<in> set bins. dep_source (dget_or routes u []) source_of b = Some v))"
  unfolding project_to_source_graph_def edge_project_fold by (auto simp: edge_empty)

lemma keys_dset: "set (keys (dset k v d)) = insert k (set (keys d))"
  by (simp add: keys_def dom_update)

lemma keys_add_deps:
  "src \<in> set (keys g) \<Longrightarrow> set (keys (fold (add_dep src routed source_of bs) bins g)) = set (keys g)"
  by (induction bins arbitrary: g) (auto simp: add_dep_def keys_dset insert_absorb split: option.split)

lemma project_keys: "set (keys (project_to_source_graph deps source_of bs routes)) = set bs"
proof -
  have "set (keys (fold (\<lambda>(src, bins) g.
         if src \<notin> set bs then g
         else fold (add_dep src (dget_or routes src []) source_of bs) bins g) deps g)) = set bs"
    if "set (keys g) = set bs" for g
    using that by (induction deps arbitrary: g) (auto simp: keys_add_deps)
  moreover have "set (keys (fold (\<lambda>src. dset src []) bs g)) = set (keys g) \<union> set bs" for g
    by (induction bs arbitrary: g) (auto simp: keys_dset)
  from this [of "[]"] have "set (keys (fold (\<lambda>src. dset src []) bs [])) = set bs" by (simp add: keys_def)
  ultimately show ?thesis unfolding project_to_source_graph_def by blast
qed

lemma project_nodes: "nodes_of (project_to_source_graph deps source_of bs routes) = set bs"
  unfolding nodes_of_def project_keys using project_edge by (fastforce simp: edge_def)

definition has_self_loop :: "graph \<Rightarrow> string \<Rightarrow> bool" where
  "has_self_loop g node = (node \<in> set (succs g node))"

definition find_cycles :: "graph \<Rightarrow> string list list" where
  "find_cycles g =
     filter (\<lambda>comp. 1 < length comp \<or> has_self_loop g (hd comp)) (strongly_connected_components g)"

definition topological_order :: "graph \<Rightarrow> string list" where
  "topological_order g = concat (strongly_connected_components g)"

section \<open>Staging\<close>

record stage =
  stage_source :: string
  stage_number :: int
  stage_target :: string
  cycle_deps_from :: string
  cycle_deps :: "string list"
  ships :: bool

definition stage_of :: "graph \<Rightarrow> string list \<Rightarrow> int \<Rightarrow> int \<Rightarrow> string \<Rightarrow> stage" where
  "stage_of g members stages n pkg =
     \<lparr>stage_source = pkg, stage_number = n, stage_target = pkg @ ''-stage'' @ int_text n,
      cycle_deps_from = (if n = 1 then ''seed'' else ''stage'' @ int_text (n - 1)),
      cycle_deps = sorted_set (filter (\<lambda>d. d \<in> set members) (succs g pkg)), ships = (n = stages)\<rparr>"

text \<open>\<open>ValueError\<close> is the left side of the sum.\<close>

definition stage_cycle :: "string list \<Rightarrow> graph \<Rightarrow> int \<Rightarrow> string + stage list" where
  "stage_cycle component g stages =
     (if stages < 1 then Inl ''stages must be >= 1''
      else
        let members = sort component in
        Inr (concat (map (\<lambda>n. map (stage_of g members stages n) members) [1..stages])))"

record build_plan =
  plan_order :: "string list"
  plan_cycles :: "string list list"
  plan_staged :: "stage list"
  plan_acyclic :: bool

fun stage_cycles :: "string list list \<Rightarrow> graph \<Rightarrow> int \<Rightarrow> string + stage list" where
  "stage_cycles [] g stages = Inr []"
| "stage_cycles (c # cs) g stages =
     (case stage_cycle c g stages of
        Inl e \<Rightarrow> Inl e
      | Inr s \<Rightarrow> (case stage_cycles cs g stages of Inl e \<Rightarrow> Inl e | Inr t \<Rightarrow> Inr (s @ t)))"

definition plan_build_order ::
  "build_deps \<Rightarrow> source_map \<Rightarrow> string list \<Rightarrow> int \<Rightarrow> routes \<Rightarrow> string + build_plan" where
  "plan_build_order build_deps source_of build_set stages routes =
     (let g = project_to_source_graph build_deps source_of build_set routes;
          cycles = find_cycles g;
          cyclic = concat cycles in
      case stage_cycles cycles g stages of
        Inl e \<Rightarrow> Inl e
      | Inr staged \<Rightarrow>
          Inr \<lparr>plan_order = filter (\<lambda>p. p \<notin> set cyclic) (topological_order g),
               plan_cycles = cycles, plan_staged = staged, plan_acyclic = (cycles = [])\<rparr>)"

section \<open>Bootstrap depth\<close>

text \<open>
  The counts behind the report. The printed fraction is the first count over the third as a
  float rounded to four places; here it is the two counts themselves, nothing when there is
  nothing to count.
\<close>

record depth =
  built_from_source :: nat
  from_seed :: nat
  total_build_deps :: nat
  fraction_built :: "(nat \<times> nat) option"
  source_packages_built :: nat

definition classify ::
  "string \<Rightarrow> source_map \<Rightarrow> source_map \<Rightarrow> string list \<Rightarrow> string
   \<Rightarrow> string list \<times> string list \<Rightarrow> string list \<times> string list" where
  "classify src routed source_of build_set binary counts =
     (case counts of (built, seeded) \<Rightarrow>
        (case dep_source routed source_of binary of
           Some dep \<Rightarrow> if dep \<in> set build_set then (List.insert binary built, seeded)
                       else (built, List.insert binary seeded)
         | None \<Rightarrow> (built, List.insert binary seeded)))"

definition classify_all ::
  "build_deps \<Rightarrow> source_map \<Rightarrow> string list \<Rightarrow> routes \<Rightarrow> string list \<times> string list" where
  "classify_all build_deps source_of build_set routes =
     fold (\<lambda>(src, bins) counts.
         if src \<notin> set build_set then counts
         else fold (classify src (dget_or routes src []) source_of build_set) bins counts)
       build_deps ([], [])"

definition bootstrap_depth ::
  "build_deps \<Rightarrow> source_map \<Rightarrow> string list \<Rightarrow> routes \<Rightarrow> depth" where
  "bootstrap_depth build_deps source_of build_set routes =
     (case classify_all build_deps source_of build_set routes of (built, seeded) \<Rightarrow>
        let total = length built + length seeded in
        \<lparr>built_from_source = length built, from_seed = length seeded, total_build_deps = total,
         fraction_built = (if total = 0 then None else Some (length built, total)),
         source_packages_built = length (remdups build_set)\<rparr>)"

end
