(* ===== verification/Package.thy ===== *)
theory Package
  imports Resolve SourceGraph
begin

text \<open>
  The package records of \<^verbatim>\<open>tools/solve.py\<close>: reading one out of a
  \<^verbatim>\<open>primary.xml\<close> element, and the small functions over its fields
  (\<^verbatim>\<open>package_is_newer\<close> is in \<^verbatim>\<open>tools/rpmvercmp.py\<close>).
\<close>

section \<open>Elements\<close>

text \<open>
  An \<open>ElementTree\<close> element: its tag, its attributes, its text and its children. Tags are
  written with the namespace in braces, as the library gives them.
\<close>

datatype xml = Elem (tag: string) (attrs: "(string, string) dict") (elem_text: "string option")
  (children: "xml list")

definition xml_findall :: "string \<Rightarrow> xml \<Rightarrow> xml list" where
  "xml_findall t e = filter (\<lambda>c. tag c = t) (children e)"

definition xml_find :: "string \<Rightarrow> xml \<Rightarrow> xml option" where
  "xml_find t e = find (\<lambda>c. tag c = t) (children e)"

abbreviation attr :: "xml \<Rightarrow> string \<Rightarrow> string option" where
  "attr e a \<equiv> dget (attrs e) a"

definition rpm_ns :: string where
  "rpm_ns = ''http://linux.duke.edu/metadata/rpm''"

definition common_ns :: string where
  "common_ns = ''http://linux.duke.edu/metadata/common''"

definition in_ns :: "string \<Rightarrow> string \<Rightarrow> string" where
  "in_ns ns t = ''{'' @ ns @ ''}'' @ t"

text \<open>\<open>_text\<close>\<close>

definition xml_text :: "xml \<Rightarrow> string \<Rightarrow> string \<Rightarrow> string option" where
  "xml_text e t ns = Option.bind (xml_find (in_ns ns t) e) elem_text"

section \<open>Package records\<close>

record package =
  pkg_name :: string
  pkg_arch :: string
  pkg_epoch :: "string option"
  pkg_version :: "string option"
  pkg_release :: "string option"
  pkg_location :: "string option"
  pkg_checksum :: "string option"
  pkg_checksum_type :: "string option"
  pkg_provides :: "string list"
  pkg_provide_evr :: "(string \<times> evr) list"
  pkg_require_ranges :: "(string \<times> string option \<times> evr) list"
  pkg_requires :: "string list"
  pkg_sourcerpm :: "string option"
  pkg_repo :: "string option"

text \<open>The entries of a \<open>provides\<close> or \<open>requires\<close> container that have a name.\<close>

definition named_entries :: "string \<Rightarrow> xml \<Rightarrow> (string \<times> string option \<times> evr) list" where
  "named_entries kind fmt =
     (case xml_find (in_ns rpm_ns kind) fmt of
        None \<Rightarrow> []
      | Some container \<Rightarrow>
          concat (map (\<lambda>entry.
              case attr entry ''name'' of
                Some (c # cap) \<Rightarrow>
                  [(c # cap, attr entry ''flags'',
                    (attr entry ''epoch'', attr entry ''ver'', attr entry ''rel''))]
              | _ \<Rightarrow> [])
            (xml_findall (in_ns rpm_ns ''entry'') container)))"

definition versioned :: "string \<times> string option \<times> evr \<Rightarrow> bool" where
  "versioned entry = (fst (snd (snd (snd entry))) \<noteq> None)"

definition file_provides :: "xml \<Rightarrow> string list" where
  "file_provides fmt =
     map the (filter truthy (map elem_text (xml_findall (in_ns common_ns ''file'') fmt)))"

definition parse_package_elem :: "xml \<Rightarrow> package option" where
  "parse_package_elem elem =
     (case xml_text elem ''name'' common_ns of
        Some (c # name) \<Rightarrow>
          (let version_el = xml_find (in_ns common_ns ''version'') elem;
               location_el = xml_find (in_ns common_ns ''location'') elem;
               checksum_el = xml_find (in_ns common_ns ''checksum'') elem;
               fmt = xml_find (in_ns common_ns ''format'') elem;
               provided = (case fmt of None \<Rightarrow> [] | Some f \<Rightarrow> named_entries ''provides'' f);
               required = (case fmt of None \<Rightarrow> [] | Some f \<Rightarrow> named_entries ''requires'' f)
           in Some
             \<lparr>pkg_name = c # name,
              pkg_arch = py_or (xml_text elem ''arch'' common_ns) [],
              pkg_epoch = Option.bind version_el (\<lambda>e. attr e ''epoch''),
              pkg_version = Option.bind version_el (\<lambda>e. attr e ''ver''),
              pkg_release = Option.bind version_el (\<lambda>e. attr e ''rel''),
              pkg_location = Option.bind location_el (\<lambda>e. attr e ''href''),
              pkg_checksum = Option.bind checksum_el elem_text,
              pkg_checksum_type = Option.bind checksum_el (\<lambda>e. attr e ''type''),
              pkg_provides = map fst provided
                @ (case fmt of None \<Rightarrow> [] | Some f \<Rightarrow> file_provides f),
              pkg_provide_evr = map (\<lambda>(cap, _, evr). (cap, evr)) (filter versioned provided),
              pkg_require_ranges = filter versioned required,
              pkg_requires = map fst required,
              pkg_sourcerpm = Option.bind fmt (\<lambda>f. xml_text f ''sourcerpm'' rpm_ns),
              pkg_repo = None\<rparr>)
      | _ \<Rightarrow> None)"

text \<open>
  The elements in the order a parser closes them. The source clears a package element once it is
  read; nothing inside a package is a package, so that does not show.
\<close>

fun closed_elements :: "xml \<Rightarrow> xml list" where
  "closed_elements (Elem t as txt cs) = concat (map closed_elements cs) @ [Elem t as txt cs]"

definition parse_primary :: "xml \<Rightarrow> string option \<Rightarrow> package list" where
  "parse_primary document repo =
     List.map_filter
       (\<lambda>e. if py_endswith (tag e) ''}package''
            then map_option (\<lambda>rec. rec\<lparr>pkg_repo := repo\<rparr>) (parse_package_elem e) else None)
       (closed_elements document)"

section \<open>Names and versions\<close>

definition pkg_evr :: "package \<Rightarrow> evr" where
  "pkg_evr p = (pkg_epoch p, pkg_version p, pkg_release p)"

definition package_is_newer :: "package \<Rightarrow> package \<Rightarrow> bool" where
  "package_is_newer candidate incumbent = (0 < compare_evr (pkg_evr candidate) (pkg_evr incumbent))"

text \<open>\<open>str.format\<close> of an optional string.\<close>

definition opt_text :: "string option \<Rightarrow> string" where
  "opt_text s = (case s of None \<Rightarrow> ''None'' | Some t \<Rightarrow> t)"

definition epoch_prefix :: "string option \<Rightarrow> string" where
  "epoch_prefix epoch =
     (if truthy epoch \<and> epoch \<noteq> Some ''0'' then opt_text epoch @ '':'' else [])"

definition evr_string :: "package \<Rightarrow> string" where
  "evr_string p = epoch_prefix (pkg_epoch p) @ opt_text (pkg_version p) @ ''-'' @ opt_text (pkg_release p)"

definition cut_suffix :: "string \<Rightarrow> string \<Rightarrow> string" where
  "cut_suffix suf s = take (length s - length suf) s"

definition source_name_from_sourcerpm :: "string option \<Rightarrow> string option" where
  "source_name_from_sourcerpm sourcerpm =
     (if \<not> truthy sourcerpm then None
      else
        let s = the sourcerpm;
            base = (if py_endswith s ''.src.rpm'' then cut_suffix ''.src.rpm'' s
                    else if py_endswith s ''.nosrc.rpm'' then cut_suffix ''.nosrc.rpm'' s else s)
        in case py_rsplit CHR ''-'' 2 base of [name, _, _] \<Rightarrow> Some name | _ \<Rightarrow> Some base)"

definition arch_qualified :: "string \<Rightarrow> string \<Rightarrow> string" where
  "arch_qualified name arch = name @ ''.'' @ arch"

definition foreign_rank :: nat where
  "foreign_rank = 2"

definition arch_rank :: "string \<Rightarrow> string \<Rightarrow> nat" where
  "arch_rank arch target_cpu =
     (if arch = target_cpu then 0 else if arch \<in> {''noarch'', ''src''} then 1 else 2)"

definition pseudo_prefixes :: "string list" where
  "pseudo_prefixes = [''rpmlib('', ''config('', ''rpmlib'']"

definition is_pseudo_capability :: "string \<Rightarrow> bool" where
  "is_pseudo_capability cap = list_ex (py_startswith cap) pseudo_prefixes"

definition rpm_flag_ops :: "(string, string) dict" where
  "rpm_flag_ops = [(''EQ'', ''=''), (''GE'', ''>=''), (''GT'', ''>''), (''LE'', ''<=''), (''LT'', ''<'')]"

text \<open>One range as the text of a requirement, nothing for a flag rpm does not define.\<close>

definition range_text :: "string \<times> string option \<times> evr \<Rightarrow> string option" where
  "range_text r = (case r of (cap, flags, (epoch, version, release)) \<Rightarrow>
     map_option
       (\<lambda>op. cap @ '' '' @ op @ '' '' @ epoch_prefix epoch @ opt_text version
             @ (if truthy release then ''-'' @ opt_text release else []))
       (Option.bind flags (dget rpm_flag_ops)))"

definition range_texts :: "(string \<times> string option \<times> evr) list \<Rightarrow> (string, string) dict" where
  "range_texts rs =
     fold (\<lambda>r d. case range_text r of None \<Rightarrow> d | Some t \<Rightarrow> dsetdefault (fst r) t d) rs []"

definition constrained_requires :: "package \<Rightarrow> string list" where
  "constrained_requires p =
     map (\<lambda>cap. dget_or (range_texts (pkg_require_ranges p)) cap cap) (pkg_requires p)"

section \<open>Facts\<close>

interpretation pkgs: keyed_version_order compare_evr pkg_evr
  by unfold_locales

lemma package_is_newer_order: "package_is_newer = (\<lambda>x y. 0 < compare_evr (pkg_evr x) (pkg_evr y))"
  by (simp add: fun_eq_iff package_is_newer_def)

lemmas pkg_newest_max =
  pkgs.keyed.fold_newest_max [folded package_is_newer_order]

text \<open>Cutting a source rpm's file name gives back the name it was built from.\<close>

lemma rsplit_two:
  assumes "CHR ''-'' \<notin> set v" and "CHR ''-'' \<notin> set r"
  shows "py_rsplit CHR ''-'' 2 (n @ CHR ''-'' # v @ CHR ''-'' # r) = [n, v, r]"
proof -
  let ?p = "\<lambda>d. d \<noteq> CHR ''-''"
  have cut: "takeWhile ?p (rev x @ CHR ''-'' # y) = rev x" "dropWhile ?p (rev x @ CHR ''-'' # y) = CHR ''-'' # y"
    if "CHR ''-'' \<notin> set x" for x y
    using that by (induction x rule: rev_induct) auto
  have two: "2 = Suc (Suc 0)" by simp
  have "rev (n @ CHR ''-'' # v @ CHR ''-'' # r) = rev r @ CHR ''-'' # rev v @ CHR ''-'' # rev n" by simp
  then show ?thesis
    unfolding two using cut [OF assms(2)] cut [OF assms(1)] by simp
qed

lemma source_name_roundtrip:
  assumes "CHR ''-'' \<notin> set v" and "CHR ''-'' \<notin> set r"
  shows "source_name_from_sourcerpm (Some (n @ ''-'' @ v @ ''-'' @ r @ ''.src.rpm'')) = Some n"
proof -
  let ?s = "n @ ''-'' @ v @ ''-'' @ r @ ''.src.rpm''"
  have "py_endswith ?s ''.src.rpm''" "cut_suffix ''.src.rpm'' ?s = n @ CHR ''-'' # v @ CHR ''-'' # r"
    by (simp_all add: py_endswith_def cut_suffix_def)
  moreover have "truthy (Some ?s)" by (simp add: truthy_def)
  ultimately show ?thesis
    by (simp add: source_name_from_sourcerpm_def Let_def rsplit_two [OF assms] del: py_rsplit.simps)
qed

text \<open>Requirements without a range pass through, and every one keeps its place.\<close>

lemma constrained_requires_plain:
  "pkg_require_ranges p = [] \<Longrightarrow> constrained_requires p = pkg_requires p"
  by (simp add: constrained_requires_def range_texts_def dget_or_def)

lemma length_constrained_requires [simp]:
  "length (constrained_requires p) = length (pkg_requires p)"
  by (simp add: constrained_requires_def)

text \<open>
  Both halves of a range on one capability are written as its first half: the upper bound of a
  package that requires \<open>crate(base64) >= 0.21\<close> and \<open>crate(base64) < 0.23\<close> is lost.
\<close>

theorem second_bound_lost:
  "constrained_requires
     \<lparr>pkg_name = ''x'', pkg_arch = ''x86_64'', pkg_epoch = None, pkg_version = None,
      pkg_release = None, pkg_location = None, pkg_checksum = None, pkg_checksum_type = None,
      pkg_provides = [], pkg_provide_evr = [],
      pkg_require_ranges = [(''crate(base64)'', Some ''GE'', (Some ''0'', Some ''0.21'', None)),
        (''crate(base64)'', Some ''LT'', (Some ''0'', Some ''0.23'', None))],
      pkg_requires = [''crate(base64)'', ''crate(base64)''],
      pkg_sourcerpm = None, pkg_repo = None\<rparr>
   = [''crate(base64) >= 0.21'', ''crate(base64) >= 0.21'']"
  by code_simp

end
