(* ===== verification/PackageMerge.thy ===== *)
theory PackageMerge
  imports Package
begin

text \<open>
  Layering repositories: \<^verbatim>\<open>merge_packages\<close> and
  \<^verbatim>\<open>merge_fallback_packages\<close> of \<^verbatim>\<open>tools/solve.py\<close>. The source asks
  whether two records are the same object; here a record carries the number of the group it came
  from, which settles that, since a group keeps one build of each name and architecture.
\<close>

declare split_paired_All [simp del] split_paired_Ex [simp del]

type_synonym pkg_key = "string \<times> string"
type_synonym build = "nat \<times> package"

definition key_of :: "package \<Rightarrow> pkg_key" where
  "key_of p = (pkg_name p, pkg_arch p)"

text \<open>\<open>sorted(d.items())\<close> where no two keys are equal.\<close>

definition sorted_items :: "('k::linorder, 'v) dict \<Rightarrow> ('k \<times> 'v) list" where
  "sorted_items d = sort_key fst d"

definition keep_newest :: "package \<Rightarrow> (pkg_key, package) dict \<Rightarrow> (pkg_key, package) dict" where
  "keep_newest p best =
     (case dget best (key_of p) of
        None \<Rightarrow> dset (key_of p) p best
      | Some incumbent \<Rightarrow> if package_is_newer p incumbent then dset (key_of p) p best else best)"

definition group_best :: "package list \<Rightarrow> (pkg_key, package) dict" where
  "group_best packages = fold keep_newest packages []"

record merge_state =
  merge_index :: "(pkg_key, build) dict"
  merge_origin :: "(pkg_key, build) dict"
  merge_candidates :: "(pkg_key, build list) dict"

definition merge_entry :: "nat \<Rightarrow> pkg_key \<times> package \<Rightarrow> merge_state \<Rightarrow> merge_state" where
  "merge_entry i kp st =
     (case kp of (key, p) \<Rightarrow>
        let st1 = st\<lparr>merge_candidates := dappend key (i, p) (merge_candidates st)\<rparr> in
        case dget (merge_index st) key of
          None \<Rightarrow> st1\<lparr>merge_index := dset key (i, p) (merge_index st),
                     merge_origin := dset key (i, p) (merge_origin st)\<rparr>
        | Some (_, incumbent) \<Rightarrow>
            if package_is_newer p incumbent
            then st1\<lparr>merge_index := dset key (i, p) (merge_index st)\<rparr> else st1)"

fun merge_groups :: "nat \<Rightarrow> (string \<times> package list) list \<Rightarrow> merge_state \<Rightarrow> merge_state" where
  "merge_groups i [] st = st"
| "merge_groups i ((_, packages) # groups) st =
     merge_groups (Suc i) groups (fold (merge_entry i) (group_best packages) st)"

record replacement =
  rep_name :: string
  rep_arch :: string
  rep_from :: string
  rep_from_repo :: "string option"
  rep_to :: string
  rep_to_repo :: "string option"

definition replacement_of :: "pkg_key \<Rightarrow> package \<Rightarrow> package \<Rightarrow> replacement" where
  "replacement_of key old new =
     \<lparr>rep_name = fst key, rep_arch = snd key, rep_from = evr_string old, rep_from_repo = pkg_repo old,
      rep_to = evr_string new, rep_to_repo = pkg_repo new\<rparr>"

definition replacements_of :: "merge_state \<Rightarrow> replacement list" where
  "replacements_of st =
     List.map_filter (\<lambda>(key, (i, p)).
         case dget (merge_origin st) key of
           Some (j, old) \<Rightarrow> if i \<noteq> j then Some (replacement_of key old p) else None
         | None \<Rightarrow> None)
       (sorted_items (merge_index st))"

type_synonym superseded = "(pkg_key, (string, package) dict) dict"

definition add_superseded :: "pkg_key \<Rightarrow> package \<Rightarrow> superseded \<Rightarrow> superseded" where
  "add_superseded key p d = dset key (dset (evr_string p) p (dget_or d key [])) d"

definition superseded_of :: "merge_state \<Rightarrow> superseded" where
  "superseded_of st =
     fold (\<lambda>(key, losers) d.
         fold (\<lambda>(i, p) d.
             if map_option fst (dget (merge_index st) key) = Some i then d
             else add_superseded key p d) losers d)
       (sorted_items (merge_candidates st)) []"

definition merge_start :: merge_state where
  "merge_start = \<lparr>merge_index = [], merge_origin = [], merge_candidates = []\<rparr>"

definition merge_packages ::
  "(string \<times> package list) list \<Rightarrow> package list \<times> replacement list \<times> superseded" where
  "merge_packages groups =
     (let st = merge_groups 0 groups merge_start
      in (map (snd \<circ> snd) (sorted_items (merge_index st)), replacements_of st, superseded_of st))"

definition merge_fallback_packages ::
  "package list \<Rightarrow> (string \<times> package list) list
   \<Rightarrow> package list \<times> package list \<times> package list \<times> superseded" where
  "merge_fallback_packages compose fallback_groups =
     (case merge_packages fallback_groups of (fallback, _, superseded) \<Rightarrow>
        let compose_keys = map key_of compose;
            added = filter (\<lambda>p. key_of p \<notin> set compose_keys) fallback;
            shadowed = filter (\<lambda>p. key_of p \<in> set compose_keys) fallback;
            added_keys = map key_of added
        in (sort_key key_of (compose @ added), added, shadowed,
            filter (\<lambda>(key, _). key \<in> set added_keys) superseded))"

section \<open>Newest wins\<close>

definition builds_of :: "pkg_key \<Rightarrow> package list \<Rightarrow> package list" where
  "builds_of key packages = filter (\<lambda>p. key_of p = key) packages"

lemma dget_keep_newest:
  "dget (keep_newest p best) key =
     (if key_of p = key then newest_step package_is_newer (dget best key) p else dget best key)"
  by (auto simp: keep_newest_def newest_step_def split: option.split)

lemma dget_group_best: "dget (group_best packages) key = fold_newest package_is_newer (builds_of key packages)"
proof -
  have "dget (fold keep_newest packages best) key
      = foldl (newest_step package_is_newer) (dget best key) (builds_of key packages)" for best
    by (induction packages arbitrary: best) (auto simp: dget_keep_newest builds_of_def)
  then show ?thesis by (simp add: group_best_def fold_newest_def)
qed

lemma distinct_group_best: "distinct (map fst (group_best packages))"
proof -
  have "distinct (map fst (fold keep_newest packages best))" if "distinct (map fst best)" for best
    using that by (induction packages arbitrary: best) (auto simp: keep_newest_def split: option.split)
  then show ?thesis by (simp add: group_best_def)
qed

text \<open>The index keeps, of each key, the newest of the builds it was shown.\<close>

definition newest_known :: "pkg_key \<Rightarrow> merge_state \<Rightarrow> build option" where
  "newest_known key st = dget (merge_index st) key"

definition newer_build :: "build \<Rightarrow> build \<Rightarrow> bool" where
  "newer_build x y = package_is_newer (snd x) (snd y)"

lemma merge_entry_index:
  "dget (merge_index (merge_entry i (key, p) st)) k =
     (if k = key then newest_step newer_build (dget (merge_index st) k) (i, p)
      else dget (merge_index st) k)"
  by (auto simp: merge_entry_def Let_def newest_step_def newer_build_def split: option.split)

lemma merge_fold_index:
  "distinct (map fst es) \<Longrightarrow>
   dget (merge_index (fold (merge_entry i) es st)) k =
     (case dget es k of None \<Rightarrow> dget (merge_index st) k
      | Some p \<Rightarrow> newest_step newer_build (dget (merge_index st) k) (i, p))"
proof (induction es arbitrary: st)
  case (Cons e es)
  obtain key p where e: "e = (key, p)" by fastforce
  have "dget es key = None" using Cons.prems e by (simp add: map_of_eq_None_iff)
  then show ?case using Cons e by (auto simp: merge_entry_index split: option.split)
qed simp

fun indexed_builds :: "nat \<Rightarrow> pkg_key \<Rightarrow> (string \<times> package list) list \<Rightarrow> build list" where
  "indexed_builds i key [] = []"
| "indexed_builds i key ((_, packages) # groups) =
     (case dget (group_best packages) key of None \<Rightarrow> [] | Some p \<Rightarrow> [(i, p)])
     @ indexed_builds (Suc i) key groups"

lemma merge_groups_index:
  "dget (merge_index (merge_groups i groups st)) key =
     foldl (newest_step newer_build) (dget (merge_index st) key) (indexed_builds i key groups)"
  by (induction i groups st rule: merge_groups.induct)
     (auto simp: merge_fold_index [OF distinct_group_best] split: option.split)

lemma merge_index_newest:
  "dget (merge_index (merge_groups 0 groups merge_start)) key
   = fold_newest newer_build (indexed_builds 0 key groups)"
  by (simp add: merge_groups_index merge_start_def fold_newest_def)

lemma indexed_builds_iff:
  "(\<exists>j. (j, p) \<in> set (indexed_builds i key groups)) \<longleftrightarrow>
     (\<exists>repo packages. (repo, packages) \<in> set groups \<and> dget (group_best packages) key = Some p)"
proof (induction groups arbitrary: i)
  case (Cons g groups)
  obtain repo packages where g: "g = (repo, packages)" by fastforce
  have "(\<exists>j. (j, p) \<in> set (indexed_builds i key (g # groups))) \<longleftrightarrow>
      dget (group_best packages) key = Some p \<or> (\<exists>j. (j, p) \<in> set (indexed_builds (Suc i) key groups))"
    unfolding g by (cases "dget (group_best packages) key") auto
  then show ?case unfolding Cons.IH g by auto
qed simp

interpretation builds: keyed_version_order compare_evr "\<lambda>b :: build. pkg_evr (snd b)"
  by unfold_locales

lemma newer_build_order: "newer_build = (\<lambda>x y. 0 < compare_evr (pkg_evr (snd x)) (pkg_evr (snd y)))"
  by (simp add: fun_eq_iff newer_build_def package_is_newer_def)

lemmas build_newest_max = builds.keyed.fold_newest_max [folded newer_build_order]

definition shown :: "(string \<times> package list) list \<Rightarrow> pkg_key \<Rightarrow> package \<Rightarrow> bool" where
  "shown groups key p = (\<exists>repo packages. (repo, packages) \<in> set groups \<and> p \<in> set packages \<and> key_of p = key)"

lemma group_best_shown:
  "(repo, packages) \<in> set groups \<Longrightarrow> dget (group_best packages) key = Some p \<Longrightarrow> shown groups key p"
  unfolding dget_group_best shown_def by (drule fold_newest_in_set) (auto simp: builds_of_def)

lemma index_shown:
  assumes "dget (merge_index (merge_groups 0 groups merge_start)) key = Some (i, w)"
  shows "shown groups key w"
  using assms fold_newest_in_set [of newer_build "indexed_builds 0 key groups" "(i, w)"]
    indexed_builds_iff [of w 0 key groups] group_best_shown
  unfolding merge_index_newest by blast

lemma index_max:
  assumes w: "dget (merge_index (merge_groups 0 groups merge_start)) key = Some (i, w)"
    and "shown groups key p"
  shows "0 \<le> compare_evr (pkg_evr w) (pkg_evr p)"
proof -
  obtain repo packages where g: "(repo, packages) \<in> set groups" and "p \<in> set packages" "key_of p = key"
    using assms(2) by (auto simp: shown_def)
  then have p: "p \<in> set (builds_of key packages)" by (simp add: builds_of_def)
  then obtain b where b: "fold_newest package_is_newer (builds_of key packages) = Some b"
    by (cases "fold_newest package_is_newer (builds_of key packages)") auto
  have bp: "0 \<le> compare_evr (pkg_evr b) (pkg_evr p)" by (rule pkg_newest_max [OF b p])
  obtain j where j: "(j, b) \<in> set (indexed_builds 0 key groups)"
    using indexed_builds_iff [of b 0 key groups] g b by (metis dget_group_best)
  have "0 \<le> compare_evr (pkg_evr (snd (i, w))) (pkg_evr (snd (j, b)))"
    by (rule build_newest_max [OF _ j]) (use w in \<open>simp add: merge_index_newest\<close>)
  then show ?thesis using bp evr.cmp_trans by simp
qed

lemma index_domain:
  "(\<exists>b. dget (merge_index (merge_groups 0 groups merge_start)) key = Some b) \<longleftrightarrow> (\<exists>p. shown groups key p)"
proof
  assume "\<exists>p. shown groups key p"
  then obtain repo packages p where g: "(repo, packages) \<in> set groups" "p \<in> set (builds_of key packages)"
    by (auto simp: shown_def builds_of_def)
  then obtain b where "dget (group_best packages) key = Some b"
    unfolding dget_group_best by (cases "fold_newest package_is_newer (builds_of key packages)") auto
  then have "indexed_builds 0 key groups \<noteq> []"
    using indexed_builds_iff [of b 0 key groups] g(1) by fastforce
  then show "\<exists>b. dget (merge_index (merge_groups 0 groups merge_start)) key = Some b"
    unfolding merge_index_newest by (metis fold_newest_None not_Some_eq)
qed (use index_shown in fastforce)

lemma distinct_merge_index: "distinct (map fst (merge_index (merge_groups 0 groups merge_start)))"
proof -
  have entry: "distinct (map fst (merge_index (merge_entry i e st)))"
    if "distinct (map fst (merge_index st))" for i e st
    using that by (cases e) (auto simp: merge_entry_def Let_def split: option.split)
  then have "distinct (map fst (merge_index (fold (merge_entry i) es st)))"
    if "distinct (map fst (merge_index st))" for i es st
    using that by (induction es arbitrary: st) auto
  then have "distinct (map fst (merge_index (merge_groups i groups st)))"
    if "distinct (map fst (merge_index st))" for i st
    using that by (induction i groups st rule: merge_groups.induct) auto
  then show ?thesis by (simp add: merge_start_def)
qed

lemma sorted_items_facts:
  "set (sorted_items d) = set d" "sorted (map fst (sorted_items d))"
  "distinct (map fst d) \<Longrightarrow> distinct (map fst (sorted_items d))"
  by (simp_all add: sorted_items_def distinct_map)

lemma merge_list:
  assumes "merge_packages groups = (merged, reps, older)"
  shows "sorted (map key_of merged)" and "distinct (map key_of merged)"
    and "set merged = {w. \<exists>key i. dget (merge_index (merge_groups 0 groups merge_start)) key = Some (i, w)}"
proof -
  let ?ix = "merge_index (merge_groups 0 groups merge_start)"
  have m: "merged = map (snd \<circ> snd) (sorted_items ?ix)"
    using assms by (simp add: merge_packages_def Let_def)
  have "key_of w = key" if "(key, (i, w)) \<in> set ?ix" for key i w
    using index_shown [of groups key i w] that distinct_merge_index [of groups]
    by (auto simp: shown_def)
  then have "key_of (snd (snd e)) = fst e" if "e \<in> set (sorted_items ?ix)" for e
    using that sorted_items_facts(1) [of ?ix] by (cases e) auto
  then have k: "map key_of merged = map fst (sorted_items ?ix)" by (simp add: m)
  show "sorted (map key_of merged)" "distinct (map key_of merged)"
    unfolding k using sorted_items_facts(2,3) distinct_merge_index by blast+
  show "set merged = {w. \<exists>key i. dget ?ix key = Some (i, w)}"
    using distinct_merge_index [of groups] by (force simp: m sorted_items_facts(1))
qed

section \<open>Superseded builds\<close>

lemma merge_entry_candidates:
  "merge_candidates (merge_entry i (key, p) st) = dappend key (i, p) (merge_candidates st)"
  by (simp add: merge_entry_def Let_def split: option.split prod.split)

lemma merge_candidates_shown:
  assumes "dget (merge_candidates (merge_groups 0 groups merge_start)) key = Some bs"
    and "(i, p) \<in> set bs"
  shows "shown groups key p"
proof -
  define ok where "ok (st :: merge_state) gs = (\<forall>key bs i p. dget (merge_candidates st) key = Some bs \<longrightarrow>
      (i, p) \<in> set bs \<longrightarrow> shown gs key p)" for st gs
  have entry: "ok (merge_entry i (key, p) st) gs" if "ok st gs" "shown gs key p" for i key p st gs
    unfolding ok_def
  proof (intro allI impI)
    fix k bs j q
    assume "dget (merge_candidates (merge_entry i (key, p) st)) k = Some bs" "(j, q) \<in> set bs"
    then have "(k = key \<and> q = p) \<or> (j, q) \<in> set (dget_or (merge_candidates st) k [])"
      by (auto simp: merge_entry_candidates dget_dappend dget_or_def split: if_splits)
    then show "shown gs k q" using that unfolding ok_def by (auto elim: dget_or_cases)
  qed
  have fold_ok: "ok (fold (merge_entry i) es st) gs"
    if "ok st gs" "\<forall>(key, p) \<in> set es. shown gs key p" for i es st gs
    using that by (induction es arbitrary: st) (auto intro: entry)
  have "ok (merge_groups i gs st) groups" if "ok st groups" "set gs \<subseteq> set groups" for i gs st
    using that
  proof (induction i gs st rule: merge_groups.induct)
    case (2 i repo packages gs st)
    have "\<forall>(key, p) \<in> set (group_best packages). shown groups key p"
      using group_best_shown [of repo packages groups] "2.prems"(2) distinct_group_best [of packages]
      by auto
    then show ?case using 2 fold_ok by simp
  qed simp
  from this [of merge_start groups 0] have "ok (merge_groups 0 groups merge_start) groups"
    by (simp add: ok_def merge_start_def)
  then show ?thesis using assms unfolding ok_def by blast
qed

definition superseded_ok :: "(string \<times> package list) list \<Rightarrow> superseded \<Rightarrow> bool" where
  "superseded_ok groups d =
     (\<forall>key versions text p. dget d key = Some versions \<longrightarrow> dget versions text = Some p \<longrightarrow>
        shown groups key p \<and> text = evr_string p)"

lemma add_superseded_ok:
  "superseded_ok groups d \<Longrightarrow> shown groups key p \<Longrightarrow> superseded_ok groups (add_superseded key p d)"
  by (fastforce simp: superseded_ok_def add_superseded_def dget_or_def split: if_splits option.splits)

lemma superseded_shown: "superseded_ok groups (superseded_of (merge_groups 0 groups merge_start))"
proof -
  let ?st = "merge_groups 0 groups merge_start"
  have inner: "superseded_ok groups (fold (\<lambda>(i, p) d.
       if map_option fst (dget (merge_index ?st) key) = Some i then d
       else add_superseded key p d) losers d)"
    if "superseded_ok groups d" "\<forall>(i, p) \<in> set losers. shown groups key p" for key losers d
    using that
  proof (induction losers arbitrary: d)
    case (Cons l losers)
    obtain i p where l: "l = (i, p)" by fastforce
    have "superseded_ok groups (add_superseded key p d)"
      using Cons.prems l by (intro add_superseded_ok) auto
    then show ?case using Cons l by simp
  qed simp
  have outer: "superseded_ok groups (fold (\<lambda>(key, losers) d.
         fold (\<lambda>(i, p) d.
             if map_option fst (dget (merge_index ?st) key) = Some i then d
             else add_superseded key p d) losers d) es d)"
    if "superseded_ok groups d" "\<forall>(key, losers) \<in> set es. \<forall>(i, p) \<in> set losers. shown groups key p" for es d
    using that
  proof (induction es arbitrary: d)
    case (Cons e es)
    obtain key losers where e: "e = (key, losers)" by fastforce
    show ?case using Cons inner [of d losers key] e by simp
  qed simp
  have "distinct (map fst (merge_candidates ?st))"
  proof -
    have "distinct (map fst (merge_candidates (merge_entry i e st)))"
      if "distinct (map fst (merge_candidates st))" for i e st
      using that by (cases e) (simp add: merge_entry_candidates dappend_def)
    then have "distinct (map fst (merge_candidates (fold (merge_entry i) es st)))"
      if "distinct (map fst (merge_candidates st))" for i es st
      using that by (induction es arbitrary: st) auto
    then have "distinct (map fst (merge_candidates (merge_groups i groups st)))"
      if "distinct (map fst (merge_candidates st))" for i groups st
      using that by (induction i groups st rule: merge_groups.induct) auto
    then show ?thesis by (simp add: merge_start_def)
  qed
  then have "\<forall>(key, losers) \<in> set (sorted_items (merge_candidates ?st)).
      \<forall>(i, p) \<in> set losers. shown groups key p"
    using merge_candidates_shown [of groups] by (auto simp: sorted_items_facts(1))
  then show ?thesis unfolding superseded_of_def by (intro outer) (simp_all add: superseded_ok_def)
qed

section \<open>Properties\<close>

text \<open>
  C11: Merging repositories is newest-wins whatever their order: the result holds exactly one
  build of every name and architecture that any repository carries, sorted by that pair, and no
  repository carries a newer build of it.
\<close>

theorem merge_newest_wins:
  assumes "merge_packages groups = (merged, replaced, older)"
  shows "sorted (map key_of merged) \<and> distinct (map key_of merged)
    \<and> set (map key_of merged) = {key. \<exists>p. shown groups key p}
    \<and> (\<forall>w \<in> set merged. shown groups (key_of w) w
         \<and> (\<forall>p. shown groups (key_of w) p \<longrightarrow> 0 \<le> compare_evr (pkg_evr w) (pkg_evr p)))"
proof -
  note m = merge_list [OF assms]
  have w: "shown groups (key_of w) w \<and> (\<forall>p. shown groups (key_of w) p \<longrightarrow> 0 \<le> compare_evr (pkg_evr w) (pkg_evr p))"
    if wm: "w \<in> set merged" for w
  proof -
    obtain key i where ix: "dget (merge_index (merge_groups 0 groups merge_start)) key = Some (i, w)"
      using wm m(3) by auto
    have s: "shown groups key w" by (rule index_shown [OF ix])
    then have "key_of w = key" by (auto simp: shown_def)
    then show ?thesis using s index_max [OF ix] by auto
  qed
  have "key \<in> set (map key_of merged)" if "shown groups key p" for key p
  proof -
    have "\<exists>b. dget (merge_index (merge_groups 0 groups merge_start)) key = Some b"
      using index_domain [of groups key] that by blast
    then obtain b where "dget (merge_index (merge_groups 0 groups merge_start)) key = Some b" ..
    then obtain i v where ix: "dget (merge_index (merge_groups 0 groups merge_start)) key = Some (i, v)"
      by (cases b) simp
    then have "v \<in> set merged" using m(3) by auto
    moreover have "key_of v = key" using index_shown [OF ix] by (auto simp: shown_def)
    ultimately show ?thesis by force
  qed
  moreover have "\<exists>p. shown groups key p" if "key \<in> set (map key_of merged)" for key
  proof -
    obtain v where "v \<in> set merged" "key = key_of v" using \<open>key \<in> set (map key_of merged)\<close> by auto
    then show ?thesis using w by blast
  qed
  ultimately have "set (map key_of merged) = {key. \<exists>p. shown groups key p}" by blast
  then show ?thesis using m(1,2) w by blast
qed

definition build_at :: "string \<Rightarrow> string \<Rightarrow> string \<Rightarrow> string option \<Rightarrow> package" where
  "build_at name version arch repo =
     \<lparr>pkg_name = name, pkg_arch = arch, pkg_epoch = Some ''0'', pkg_version = Some version,
      pkg_release = Some ''1.fc43'', pkg_location = None, pkg_checksum = None,
      pkg_checksum_type = None, pkg_provides = [], pkg_provide_evr = [], pkg_require_ranges = [],
      pkg_requires = [], pkg_sourcerpm = None, pkg_repo = repo\<rparr>"

theorem merge_newest_wins_witness:
  "let acl = build_at ''acl'' ''2.3.2'' ''x86_64'' (Some ''releases'');
       new = build_at ''acl'' ''2.4.0'' ''x86_64'' (Some ''updates'') in
   map pkg_version (fst (merge_packages [(''releases'', [acl]), (''updates'', [new])])) = [Some ''2.4.0'']
   \<and> 0 \<le> compare_evr (pkg_evr new) (pkg_evr acl)"
proof -
  let ?acl = "build_at ''acl'' ''2.3.2'' ''x86_64'' (Some ''releases'')"
  let ?new = "build_at ''acl'' ''2.4.0'' ''x86_64'' (Some ''updates'')"
  let ?gs = "[(''releases'', [?acl]), (''updates'', [?new])]"
  obtain m r s where e: "merge_packages ?gs = (m, r, s)" by (cases "merge_packages ?gs")
  have "fst (merge_packages ?gs) = [?new]" by code_simp
  then have m: "m = [?new]" using e by simp
  have "(''releases'', [?acl]) \<in> set ?gs" "?acl \<in> set [?acl]" "key_of ?acl = key_of ?new"
    by (simp_all add: key_of_def build_at_def)
  then have "shown ?gs (key_of ?new) ?acl" unfolding shown_def by blast
  then have "0 \<le> compare_evr (pkg_evr ?new) (pkg_evr ?acl)"
    using merge_newest_wins [OF e] unfolding m by simp
  then show ?thesis unfolding Let_def using e m by (simp add: build_at_def)
qed

text \<open>
  Fallback repositories only fill empty slots. Every package of the compose stays as it is,
  every package added has a name and architecture the compose does not carry, and every fallback
  build is either added or reported as shadowed.
\<close>

theorem fallback_never_replaces:
  assumes "merge_fallback_packages compose groups = (combined, added, shadowed, older)"
  shows "set combined = set compose \<union> set added
    \<and> key_of ` set added \<inter> key_of ` set compose = {}
    \<and> key_of ` set shadowed \<subseteq> key_of ` set compose
    \<and> set added \<union> set shadowed = set (fst (merge_packages groups))
    \<and> sorted (map key_of combined)
    \<and> fst ` set older \<subseteq> key_of ` set added"
  using assms
proof -
  obtain fb reps d where m: "merge_packages groups = (fb, reps, d)" by (cases "merge_packages groups")
  have parts: "combined = sort_key key_of (compose @ added)"
    "added = filter (\<lambda>p. key_of p \<notin> set (map key_of compose)) fb"
    "shadowed = filter (\<lambda>p. key_of p \<in> set (map key_of compose)) fb"
    "older = filter (\<lambda>(key, _). key \<in> set (map key_of added)) d"
    using assms m by (auto simp: merge_fallback_packages_def Let_def)
  have "k \<notin> key_of ` set compose" if "k \<in> key_of ` set added" for k
    using that unfolding parts(2) by auto
  then have "key_of ` set added \<inter> key_of ` set compose = {}" by blast
  moreover have "fst ` set older \<subseteq> key_of ` set added" unfolding parts(4) by auto
  moreover have "set combined = set compose \<union> set added" "sorted (map key_of combined)"
    by (simp_all add: parts(1))
  moreover have "set added \<union> set shadowed = set fb" "key_of ` set shadowed \<subseteq> key_of ` set compose"
    unfolding parts(2,3) by auto
  ultimately show ?thesis using m by simp
qed

theorem fallback_never_replaces_witness:
  "let zlib = build_at ''zlib'' ''1.3'' ''x86_64'' (Some ''compose'');
       newer = build_at ''zlib'' ''1.4'' ''x86_64'' (Some ''buildroot'');
       only = build_at ''doxygen'' ''1.10'' ''x86_64'' (Some ''buildroot'') in
   set (fst (merge_fallback_packages [zlib] [(''buildroot'', [newer, only])])) = {zlib, only}"
proof -
  let ?zlib = "build_at ''zlib'' ''1.3'' ''x86_64'' (Some ''compose'')"
  let ?newer = "build_at ''zlib'' ''1.4'' ''x86_64'' (Some ''buildroot'')"
  let ?only = "build_at ''doxygen'' ''1.10'' ''x86_64'' (Some ''buildroot'')"
  let ?r = "merge_fallback_packages [?zlib] [(''buildroot'', [?newer, ?only])]"
  obtain c a s d where e: "?r = (c, a, s, d)" by (cases ?r)
  have "fst (snd ?r) = [?only]" by code_simp
  then have "a = [?only]" using e by simp
  then show ?thesis using fallback_never_replaces [OF e] unfolding Let_def e by auto
qed

text \<open>
  The builds kept as superseded are builds some repository carries for that name and
  architecture, filed under their own version text and at most as new as the build that won.
\<close>

theorem superseded_sound:
  assumes "merge_packages groups = (merged, replaced, older)"
    and "dget older key = Some versions" and "dget versions version = Some p"
  shows "shown groups key p \<and> version = evr_string p
    \<and> (\<exists>w \<in> set merged. key_of w = key \<and> 0 \<le> compare_evr (pkg_evr w) (pkg_evr p))"
proof -
  have "older = superseded_of (merge_groups 0 groups merge_start)"
    using assms(1) by (simp add: merge_packages_def Let_def)
  then have p: "shown groups key p" "version = evr_string p"
    using superseded_shown [of groups] assms(2,3) unfolding superseded_ok_def by blast+
  obtain b where "dget (merge_index (merge_groups 0 groups merge_start)) key = Some b"
    using index_domain [of groups key] p(1) by blast
  then obtain i w where ix: "dget (merge_index (merge_groups 0 groups merge_start)) key = Some (i, w)"
    by (cases b) simp
  have "w \<in> set merged" using merge_list(3) [OF assms(1)] ix by auto
  moreover have "key_of w = key" using index_shown [OF ix] by (auto simp: shown_def)
  ultimately show ?thesis using p index_max [OF ix p(1)] by blast
qed

theorem superseded_sound_witness:
  "let acl = build_at ''acl'' ''2.3.2'' ''x86_64'' (Some ''releases'');
       new = build_at ''acl'' ''2.4.0'' ''x86_64'' (Some ''updates'') in
   shown [(''releases'', [acl]), (''updates'', [new])] (''acl'', ''x86_64'') acl"
proof -
  let ?acl = "build_at ''acl'' ''2.3.2'' ''x86_64'' (Some ''releases'')"
  let ?new = "build_at ''acl'' ''2.4.0'' ''x86_64'' (Some ''updates'')"
  let ?gs = "[(''releases'', [?acl]), (''updates'', [?new])]"
  obtain m r s where e: "merge_packages ?gs = (m, r, s)" by (cases "merge_packages ?gs")
  have "snd (snd (merge_packages ?gs)) = [((''acl'', ''x86_64''), [(''2.3.2-1.fc43'', ?acl)])]"
    by code_simp
  then have "s = [((''acl'', ''x86_64''), [(''2.3.2-1.fc43'', ?acl)])]" using e by simp
  then show ?thesis using superseded_sound [OF e, of "(''acl'', ''x86_64'')"] unfolding Let_def by simp
qed

text \<open>
  A build that lost to another of its own repository is not among the superseded ones, so a
  source variant cannot name it.
\<close>

theorem loser_of_its_own_repository:
  "snd (snd (merge_packages [(''updates'', [build_at ''acl'' ''2.4.0'' ''x86_64'' (Some ''updates''),
     build_at ''acl'' ''2.3.2'' ''x86_64'' (Some ''updates'')])])) = []"
  by code_simp

end
