(* ===== verification/Universe.thy ===== *)
theory Universe
  imports PackageMerge
begin

text \<open>
  \<^verbatim>\<open>build_universe\<close> of \<^verbatim>\<open>tools/solve.py\<close>: from package records to the
  maps resolution works on. Several builds can share a name; one of them wins the plain name, and
  the builds for another architecture that lost stay reachable under an arch-qualified one.
\<close>

section \<open>Which build wins a name\<close>

definition from_fallback :: "string list \<Rightarrow> package \<Rightarrow> bool" where
  "from_fallback fallback p = (case pkg_repo p of None \<Rightarrow> False | Some r \<Rightarrow> r \<in> set fallback)"

definition better :: "string \<Rightarrow> string list \<Rightarrow> package \<Rightarrow> package \<Rightarrow> bool" where
  "better cpu fallback candidate incumbent =
     (if from_fallback fallback candidate \<noteq> from_fallback fallback incumbent
      then \<not> from_fallback fallback candidate
      else
        let rank_new = arch_rank (pkg_arch candidate) cpu;
            rank_old = arch_rank (pkg_arch incumbent) cpu
        in if rank_new \<noteq> rank_old then rank_new < rank_old
           else package_is_newer candidate incumbent)"

text \<open>The record's place in the list stands for its identity.\<close>

definition keep_better ::
  "string \<Rightarrow> string list \<Rightarrow> build \<Rightarrow> (string, build) dict \<Rightarrow> (string, build) dict" where
  "keep_better cpu fallback b index =
     (case dget index (pkg_name (snd b)) of
        None \<Rightarrow> dset (pkg_name (snd b)) b index
      | Some incumbent \<Rightarrow>
          if better cpu fallback (snd b) (snd incumbent)
          then dset (pkg_name (snd b)) b index else index)"

definition collapse :: "string \<Rightarrow> string list \<Rightarrow> package list \<Rightarrow> (string, build) dict" where
  "collapse cpu fallback pkgs = fold (keep_better cpu fallback) (enumerate 0 pkgs) []"

section \<open>The maps read off the winners\<close>

record maps =
  m_provides :: "(string, string list) dict"
  m_provide_evr :: "(string, (string, evr list) dict) dict"
  m_requires :: "(string, string list) dict"
  m_source_of :: "(string, string) dict"
  m_subpackages :: "(string, string list) dict"

definition real_capabilities :: "string list \<Rightarrow> string list" where
  "real_capabilities caps = filter (\<lambda>c. \<not> is_pseudo_capability c) caps"

definition add_provide_evr ::
  "string \<Rightarrow> string \<times> evr \<Rightarrow> (string, (string, evr list) dict) dict
   \<Rightarrow> (string, (string, evr list) dict) dict" where
  "add_provide_evr name ce d =
     (case ce of (cap, e) \<Rightarrow>
        if is_pseudo_capability cap then d
        else dset cap (dappend name e (dget_or d cap [])) d)"

definition add_winner :: "string \<times> build \<Rightarrow> maps \<Rightarrow> maps" where
  "add_winner nb m =
     (case nb of (name, (_, p)) \<Rightarrow>
        let m1 = m\<lparr>
              m_requires := dset name (real_capabilities (constrained_requires p)) (m_requires m),
              m_provides := fold (\<lambda>cap. dappend cap name) (real_capabilities (pkg_provides p) @ [name])
                              (m_provides m),
              m_provide_evr := fold (add_provide_evr name) (pkg_provide_evr p) (m_provide_evr m)\<rparr>
        in case source_name_from_sourcerpm (pkg_sourcerpm p) of
             Some (c # src) \<Rightarrow>
               m1\<lparr>m_source_of := dset name (c # src) (m_source_of m),
                  m_subpackages := dappend (c # src) name (m_subpackages m)\<rparr>
           | _ \<Rightarrow> m1)"

definition no_maps :: maps where
  "no_maps = \<lparr>m_provides = [], m_provide_evr = [], m_requires = [], m_source_of = [], m_subpackages = []\<rparr>"

definition winner_maps :: "(string, build) dict \<Rightarrow> maps" where
  "winner_maps index = fold add_winner index no_maps"

section \<open>The builds the collapse discarded\<close>

definition is_foreign ::
  "string \<Rightarrow> string list \<Rightarrow> (string, build) dict \<Rightarrow> build \<Rightarrow> bool" where
  "is_foreign cpu fallback index b =
     (let p = snd b; winner = dget index (pkg_name p);
          fallback_alternative = (from_fallback fallback p \<and> map_option fst winner \<noteq> Some (fst b))
      in if arch_rank (pkg_arch p) cpu \<noteq> foreign_rank \<and> \<not> fallback_alternative then False
         else case winner of Some (_, w) \<Rightarrow> pkg_arch w \<noteq> pkg_arch p | None \<Rightarrow> True)"

definition qualified_name :: "package \<Rightarrow> string" where
  "qualified_name p = arch_qualified (pkg_name p) (pkg_arch p)"

definition keep_foreign :: "package \<Rightarrow> (string, package) dict \<Rightarrow> (string, package) dict" where
  "keep_foreign p index =
     (case dget index (qualified_name p) of
        None \<Rightarrow> dset (qualified_name p) p index
      | Some incumbent \<Rightarrow> if package_is_newer p incumbent then dset (qualified_name p) p index else index)"

definition foreign_builds ::
  "string \<Rightarrow> string list \<Rightarrow> (string, build) dict \<Rightarrow> package list \<Rightarrow> (string, package) dict" where
  "foreign_builds cpu fallback index pkgs =
     fold (\<lambda>b. keep_foreign (snd b)) (filter (is_foreign cpu fallback index) (enumerate 0 pkgs)) []"

type_synonym arch_provides = "(string, (string, string list) dict) dict"

definition add_foreign_provides :: "string \<times> package \<Rightarrow> arch_provides \<Rightarrow> arch_provides" where
  "add_foreign_provides kp d =
     (case kp of (key, p) \<Rightarrow>
        dset (pkg_arch p)
          (fold (\<lambda>cap. dappend cap key) (real_capabilities (pkg_provides p) @ [pkg_name p])
             (dget_or d (pkg_arch p) [])) d)"

definition foreign_provides_of :: "(string, package) dict \<Rightarrow> arch_provides" where
  "foreign_provides_of foreign =
     map (\<lambda>(arch, caps). (arch, map (\<lambda>(cap, names). (cap, sorted_set names)) caps))
       (fold add_foreign_provides foreign [])"

definition foreign_requires ::
  "(string, package) dict \<Rightarrow> (string, string list) dict \<Rightarrow> (string, string list) dict" where
  "foreign_requires foreign requires =
     fold (\<lambda>(key, p). dset key (real_capabilities (constrained_requires p))) foreign requires"

definition foreign_sources :: "(string, package) dict \<Rightarrow> (string, string) dict" where
  "foreign_sources foreign =
     fold (\<lambda>(key, p) d.
         case source_name_from_sourcerpm (pkg_sourcerpm p) of
           Some (c # src) \<Rightarrow> dset key (c # src) d | _ \<Rightarrow> d) foreign []"

text \<open>A foreign build answers a capability only where the winners have no answer at all.\<close>

definition fill_one :: "string \<times> string list \<Rightarrow> (string, string list) dict \<Rightarrow> (string, string list) dict" where
  "fill_one cn provides =
     (case cn of (cap, names) \<Rightarrow>
        case dget provides cap of None \<Rightarrow> dset cap names provides | Some _ \<Rightarrow> provides)"

definition fill_empty ::
  "arch_provides \<Rightarrow> (string, string list) dict \<Rightarrow> (string, string list) dict" where
  "fill_empty foreign provides =
     fold (\<lambda>(_, caps). fold fill_one (sorted_items caps)) (sorted_items foreign) provides"

section \<open>The universe\<close>

record universe =
  u_provides :: provides_map
  u_provide_evr :: evr_map
  u_requires :: "(string, string list) dict"
  u_source_of :: source_map
  u_subpackages :: "(string, string list) dict"
  u_binary_index :: "(string, package) dict"
  u_source_index :: "(string, package) dict"
  u_superseded :: superseded
  u_foreign_index :: "(string, package) dict"
  u_foreign_provides :: arch_provides
  u_foreign_source_of :: source_map

definition sort_values :: "(string, string list) dict \<Rightarrow> (string, string list) dict" where
  "sort_values d = map (\<lambda>(k, v). (k, sorted_set v)) d"

definition build_universe ::
  "package list \<Rightarrow> package list \<Rightarrow> string \<Rightarrow> superseded \<Rightarrow> string list \<Rightarrow> universe" where
  "build_universe binary_pkgs source_pkgs cpu older fallback =
     (let index = collapse cpu fallback binary_pkgs;
          m = winner_maps index;
          foreign = foreign_builds cpu fallback index binary_pkgs;
          foreign_provides = foreign_provides_of foreign
      in \<lparr>u_provides = sort_values (fill_empty foreign_provides (m_provides m)),
          u_provide_evr = m_provide_evr m,
          u_requires = foreign_requires foreign (m_requires m),
          u_source_of = m_source_of m,
          u_subpackages = sort_values (m_subpackages m),
          u_binary_index =
            fold (\<lambda>(key, p). dsetdefault key p) foreign (map (\<lambda>(n, b). (n, snd b)) index),
          u_source_index = map (\<lambda>(n, b). (n, snd b)) (collapse cpu fallback source_pkgs),
          u_superseded = older,
          u_foreign_index = foreign,
          u_foreign_provides = foreign_provides,
          u_foreign_source_of = foreign_sources foreign\<rparr>)"

section \<open>Preference is an order\<close>

definition preference :: "string \<Rightarrow> string list \<Rightarrow> package \<Rightarrow> package \<Rightarrow> int" where
  "preference cpu fallback x y =
     (if from_fallback fallback x \<noteq> from_fallback fallback y
      then (if from_fallback fallback x then -1 else 1)
      else if arch_rank (pkg_arch x) cpu \<noteq> arch_rank (pkg_arch y) cpu
      then (if arch_rank (pkg_arch x) cpu < arch_rank (pkg_arch y) cpu then 1 else -1)
      else compare_evr (pkg_evr x) (pkg_evr y))"

interpretation slot: version_order "preference cpu fallback" for cpu fallback
proof
  fix x y z
  show "preference cpu fallback x x = 0" by (simp add: preference_def evr.cmp_self)
  show "preference cpu fallback y x = - preference cpu fallback x y"
    using evr.cmp_swap [of "pkg_evr y" "pkg_evr x"] by (auto simp: preference_def)
  show "0 \<le> preference cpu fallback x y \<Longrightarrow> 0 \<le> preference cpu fallback y z
      \<Longrightarrow> 0 \<le> preference cpu fallback x z"
    using evr.cmp_trans [of "pkg_evr x" "pkg_evr y" "pkg_evr z"]
    by (auto simp: preference_def split: if_splits)
qed

lemma better_preference: "better cpu fallback x y \<longleftrightarrow> 0 < preference cpu fallback x y"
  by (auto simp: better_def preference_def package_is_newer_def Let_def)

lemma better_order: "better cpu fallback = (\<lambda>x y. 0 < preference cpu fallback x y)"
  by (simp add: fun_eq_iff better_preference)

lemmas better_max = slot.fold_newest_max [folded better_order]

section \<open>The winners\<close>

definition named :: "string \<Rightarrow> package list \<Rightarrow> package list" where
  "named n pkgs = filter (\<lambda>p. pkg_name p = n) pkgs"

lemma dget_keep_better:
  "map_option snd (dget (keep_better cpu fallback b index) n) =
     (if pkg_name (snd b) = n
      then newest_step (better cpu fallback) (map_option snd (dget index n)) (snd b)
      else map_option snd (dget index n))"
  by (auto simp: keep_better_def newest_step_def split: option.split)

lemma dget_collapse:
  "map_option snd (dget (collapse cpu fallback pkgs) n) = fold_newest (better cpu fallback) (named n pkgs)"
proof -
  have "map_option snd (dget (fold (keep_better cpu fallback) (enumerate i pkgs) index) n)
      = foldl (newest_step (better cpu fallback)) (map_option snd (dget index n)) (named n pkgs)" for i index
    by (induction pkgs arbitrary: i index) (auto simp: dget_keep_better named_def)
  then show ?thesis by (simp add: collapse_def fold_newest_def)
qed

lemma distinct_collapse: "distinct (map fst (collapse cpu fallback pkgs))"
proof -
  have "distinct (map fst (fold (keep_better cpu fallback) bs index))" if "distinct (map fst index)" for bs index
    using that by (induction bs arbitrary: index) (auto simp: keep_better_def split: option.split)
  then show ?thesis by (simp add: collapse_def)
qed

definition winner :: "string \<Rightarrow> string list \<Rightarrow> package list \<Rightarrow> string \<Rightarrow> package option" where
  "winner cpu fallback pkgs n = map_option snd (dget (collapse cpu fallback pkgs) n)"

lemma winner_newest: "winner cpu fallback pkgs n = fold_newest (better cpu fallback) (named n pkgs)"
  by (simp add: winner_def dget_collapse)

lemma winner_in: "winner cpu fallback pkgs n = Some w \<Longrightarrow> w \<in> set pkgs \<and> pkg_name w = n"
  unfolding winner_newest by (drule fold_newest_in_set) (simp add: named_def)

lemma winner_unbeaten:
  assumes "winner cpu fallback pkgs n = Some w" and "p \<in> set pkgs" and "pkg_name p = n"
  shows "\<not> better cpu fallback p w"
proof -
  have "p \<in> set (named n pkgs)" using assms(2,3) by (simp add: named_def)
  from better_max [OF assms(1) [unfolded winner_newest] this]
  show ?thesis unfolding better_preference using slot.cmp_swap [of cpu fallback w p] by linarith
qed

lemma winner_exists:
  assumes "p \<in> set pkgs"
  obtains w where "winner cpu fallback pkgs (pkg_name p) = Some w"
proof -
  have "named (pkg_name p) pkgs \<noteq> []" using assms by (auto simp: named_def filter_empty_conv)
  then have "winner cpu fallback pkgs (pkg_name p) \<noteq> None" by (simp add: winner_newest)
  then show ?thesis using that by blast
qed

lemma dget_fold_setdefault:
  "dget index n = Some p \<Longrightarrow> dget (fold (\<lambda>(key, p). dsetdefault key p) es index) n = Some p"
proof (induction es arbitrary: index)
  case (Cons e es)
  obtain k v where e: "e = (k, v)" by fastforce
  have "dget (dsetdefault k v index) n = Some p" using Cons.prems by (auto simp: dget_dsetdefault)
  from Cons.IH [OF this] show ?case by (simp add: e)
qed simp

lemma dget_map_values: "dget (map (\<lambda>(k, v). (k, f v)) d) n = map_option f (dget d n)"
  by (induction d) auto

lemma universe_binary_index:
  "winner cpu fallback pkgs n = Some w \<Longrightarrow>
   dget (u_binary_index (build_universe pkgs srcs cpu older fallback)) n = Some w"
  unfolding build_universe_def Let_def winner_def by (simp add: dget_fold_setdefault dget_map_values)

text \<open>
  C13: the universe holds, under every name the repositories carry, a build of that name which no
  build of the name is preferred to: compose over fallback, then architecture, then version.
\<close>
theorem universe_winner:
  assumes "p \<in> set pkgs"
  shows "\<exists>w. dget (u_binary_index (build_universe pkgs srcs cpu older fallback)) (pkg_name p) = Some w
           \<and> w \<in> set pkgs \<and> pkg_name w = pkg_name p
           \<and> (\<forall>q \<in> set pkgs. pkg_name q = pkg_name p \<longrightarrow> \<not> better cpu fallback q w)"
proof -
  obtain w where w: "winner cpu fallback pkgs (pkg_name p) = Some w" by (rule winner_exists [OF assms])
  show ?thesis using universe_binary_index [OF w] winner_in [OF w] winner_unbeaten [OF w] by blast
qed

section \<open>Who provides a capability\<close>

definition answers :: "string \<Rightarrow> package \<Rightarrow> bool" where
  "answers cap p = (cap = pkg_name p \<or> cap \<in> set (pkg_provides p) \<and> \<not> is_pseudo_capability cap)"

lemma set_fold_dappend:
  "set (dget_or (fold (\<lambda>cap. dappend cap n) caps d) c []) =
     set (dget_or d c []) \<union> (if c \<in> set caps then {n} else {})"
  by (induction caps arbitrary: d) (auto simp: dget_or_dappend)

lemma set_real_capabilities: "c \<in> set (real_capabilities caps) \<longleftrightarrow> c \<in> set caps \<and> \<not> is_pseudo_capability c"
  by (simp add: real_capabilities_def)

lemma add_winner_provides:
  "m_provides (add_winner (n, (i, p)) m)
   = fold (\<lambda>cap. dappend cap n) (real_capabilities (pkg_provides p) @ [n]) (m_provides m)"
  by (simp add: add_winner_def Let_def split: option.split list.split)

lemma winner_maps_provides:
  "set (dget_or (m_provides (fold add_winner ws m)) c []) =
     set (dget_or (m_provides m) c []) \<union>
     {n. \<exists>i p. (n, (i, p)) \<in> set ws
        \<and> (c = n \<or> c \<in> set (pkg_provides p) \<and> \<not> is_pseudo_capability c)}"
proof (induction ws arbitrary: m)
  case (Cons w ws)
  obtain n i p where w: "w = (n, (i, p))" by (metis prod.collapse)
  have "set (dget_or (m_provides (add_winner w m)) c []) = set (dget_or (m_provides m) c []) \<union>
      (if c = n \<or> c \<in> set (pkg_provides p) \<and> \<not> is_pseudo_capability c then {n} else {})"
    unfolding w add_winner_provides set_fold_dappend by (auto simp: set_real_capabilities)
  then show ?case using Cons.IH [of "add_winner w m"] by (auto simp: w)
qed simp

definition no_empty_value :: "('k, 'v list) dict \<Rightarrow> bool" where
  "no_empty_value d = (\<forall>k. dget d k \<noteq> Some [])"

lemma no_empty_value_fold:
  "no_empty_value d \<Longrightarrow> no_empty_value (fold (\<lambda>cap. dappend cap n) caps d)"
  by (induction caps arbitrary: d) (auto simp: no_empty_value_def dget_dappend)

lemma no_empty_provides: "no_empty_value (m_provides m) \<Longrightarrow> no_empty_value (m_provides (fold add_winner ws m))"
proof (induction ws arbitrary: m)
  case (Cons w ws)
  obtain n i p where "w = (n, (i, p))" by (metis prod.collapse)
  then have "no_empty_value (m_provides (add_winner w m))"
    unfolding \<open>w = (n, (i, p))\<close> add_winner_provides by (intro no_empty_value_fold Cons.prems)
  then show ?case using Cons.IH by simp
qed simp

lemma winner_in_collapse:
  "(n, (i, p)) \<in> set (collapse cpu fallback pkgs) \<Longrightarrow> winner cpu fallback pkgs n = Some p"
  using distinct_collapse by (simp add: winner_def)

lemma collapse_has_winner:
  "winner cpu fallback pkgs n = Some p \<Longrightarrow> \<exists>i. (n, (i, p)) \<in> set (collapse cpu fallback pkgs)"
  by (auto simp: winner_def dest!: dget_in_set)

lemma winner_providers:
  "set (dget_or (m_provides (winner_maps (collapse cpu fallback pkgs))) c []) =
     {n. \<exists>w. winner cpu fallback pkgs n = Some w \<and> answers c w}"
proof -
  have "(\<exists>i p. (n, (i, p)) \<in> set (collapse cpu fallback pkgs)
          \<and> (c = n \<or> c \<in> set (pkg_provides p) \<and> \<not> is_pseudo_capability c))
      \<longleftrightarrow> (\<exists>w. winner cpu fallback pkgs n = Some w \<and> answers c w)" for n
    using winner_in_collapse [of n] collapse_has_winner [of cpu fallback pkgs n] winner_in [of cpu fallback pkgs n]
    unfolding answers_def by metis
  moreover have "dget_or (m_provides no_maps) c [] = []" by (simp add: no_maps_def dget_or_def)
  ultimately show ?thesis unfolding winner_maps_def winner_maps_provides by simp
qed

lemma winner_provides_None:
  "dget (m_provides (winner_maps (collapse cpu fallback pkgs))) c = None \<longleftrightarrow>
     (\<forall>n w. winner cpu fallback pkgs n = Some w \<longrightarrow> \<not> answers c w)"
proof -
  have "no_empty_value (m_provides (winner_maps (collapse cpu fallback pkgs)))"
    unfolding winner_maps_def by (rule no_empty_provides) (simp add: no_maps_def no_empty_value_def)
  then have "dget (m_provides (winner_maps (collapse cpu fallback pkgs))) c = None \<longleftrightarrow>
      set (dget_or (m_provides (winner_maps (collapse cpu fallback pkgs))) c []) = {}"
    by (cases "dget (m_provides (winner_maps (collapse cpu fallback pkgs))) c")
       (auto simp: no_empty_value_def dget_or_def)
  then show ?thesis unfolding winner_providers by blast
qed

section \<open>The builds the collapse discarded\<close>

lemma keep_foreign_cases:
  "dget (keep_foreign p index) key = Some q \<Longrightarrow> dget index key = Some q \<or> (q = p \<and> key = qualified_name p)"
  by (auto simp: keep_foreign_def split: option.splits if_splits)

lemma fold_keep_foreign:
  assumes "dget (fold (\<lambda>b. keep_foreign (snd b)) bs index) key = Some q"
  shows "dget index key = Some q \<or> (\<exists>b \<in> set bs. q = snd b \<and> key = qualified_name q)"
  using assms
proof (induction bs arbitrary: index)
  case (Cons b bs)
  show ?case using Cons.IH [of "keep_foreign (snd b) index"] Cons.prems
      keep_foreign_cases [of "snd b" index key q] by auto
qed simp

lemma distinct_foreign: "distinct (map fst (foreign_builds cpu fallback index pkgs))"
proof -
  have "distinct (map fst (fold (\<lambda>b. keep_foreign (snd b)) bs d))" if "distinct (map fst d)" for bs d
    using that by (induction bs arbitrary: d) (auto simp: keep_foreign_def split: option.split)
  from this [of "[]"] show ?thesis by (simp add: foreign_builds_def)
qed

text \<open>A qualified name stands for a build the collapse discarded in favour of another architecture.\<close>

definition discarded ::
  "string \<Rightarrow> string list \<Rightarrow> package list \<Rightarrow> string \<Rightarrow> package \<Rightarrow> bool" where
  "discarded cpu fallback pkgs key p =
     (p \<in> set pkgs \<and> key = qualified_name p \<and>
      (\<exists>w. winner cpu fallback pkgs (pkg_name p) = Some w \<and> pkg_arch w \<noteq> pkg_arch p))"

lemma in_set_enumerate: "(i, p) \<in> set (enumerate k xs) \<Longrightarrow> p \<in> set xs"
  by (induction xs arbitrary: k) auto

lemma foreign_discarded:
  assumes "(key, p) \<in> set (foreign_builds cpu fallback (collapse cpu fallback pkgs) pkgs)"
  shows "discarded cpu fallback pkgs key p"
proof -
  let ?index = "collapse cpu fallback pkgs"
  have "dget (foreign_builds cpu fallback ?index pkgs) key = Some p"
    using assms distinct_foreign by simp
  then obtain i where b: "(i, p) \<in> set (enumerate 0 pkgs)" "is_foreign cpu fallback ?index (i, p)"
      "key = qualified_name p"
    unfolding foreign_builds_def by (auto dest!: fold_keep_foreign)
  have p: "p \<in> set pkgs" using b(1) by (rule in_set_enumerate)
  obtain w where w: "winner cpu fallback pkgs (pkg_name p) = Some w" by (rule winner_exists [OF p])
  then have "pkg_arch w \<noteq> pkg_arch p"
    using b(2) by (auto simp: is_foreign_def winner_def Let_def split: if_splits)
  then show ?thesis using p b(3) w by (simp add: discarded_def)
qed

text \<open>Every entry of the nested map names a build that answers the capability.\<close>

definition caps_ok :: "(string \<Rightarrow> string \<Rightarrow> bool) \<Rightarrow> (string, string list) dict \<Rightarrow> bool" where
  "caps_ok ok caps = (\<forall>c names key. (c, names) \<in> set caps \<longrightarrow> key \<in> set names \<longrightarrow> ok c key)"

definition entries_ok :: "(string \<Rightarrow> string \<Rightarrow> bool) \<Rightarrow> arch_provides \<Rightarrow> bool" where
  "entries_ok ok d = (\<forall>arch caps. (arch, caps) \<in> set d \<longrightarrow> caps_ok ok caps)"

lemma set_dset: "x \<in> set (dset k v d) \<Longrightarrow> x \<in> set d \<or> x = (k, v)"
  by (induction d) (auto split: if_splits)

lemma dappend_entries:
  assumes "caps_ok ok caps" and "ok cap key"
  shows "caps_ok ok (dappend cap key caps)"
proof -
  have "ok cap x" if "x \<in> set (dget_or caps cap [])" for x
    using that assms(1) unfolding caps_ok_def by (metis dget_or_cases dget_in_set)
  then show ?thesis using assms unfolding dappend_def caps_ok_def by (auto dest!: set_dset)
qed

lemma fold_dappend_entries:
  "caps_ok ok caps \<Longrightarrow> \<forall>c \<in> set cs. ok c key \<Longrightarrow> caps_ok ok (fold (\<lambda>cap. dappend cap key) cs caps)"
  by (induction cs arbitrary: caps) (auto intro: dappend_entries)

lemma add_foreign_provides_ok:
  assumes "entries_ok ok d" and "\<And>c. answers c p \<Longrightarrow> ok c key"
  shows "entries_ok ok (add_foreign_provides (key, p) d)"
proof -
  have "caps_ok ok (dget_or d (pkg_arch p) [])"
    using assms(1) unfolding entries_ok_def dget_or_def
    by (cases "dget d (pkg_arch p)") (auto simp: caps_ok_def[of ok "[]"] dest: dget_in_set)
  moreover have "\<forall>c \<in> set (real_capabilities (pkg_provides p) @ [pkg_name p]). ok c key"
    using assms(2) by (auto simp: answers_def set_real_capabilities)
  ultimately have "caps_ok ok (fold (\<lambda>cap. dappend cap key)
      (real_capabilities (pkg_provides p) @ [pkg_name p]) (dget_or d (pkg_arch p) []))"
    by (rule fold_dappend_entries)
  then show ?thesis using assms(1) unfolding entries_ok_def add_foreign_provides_def prod.case
    using set_dset by fastforce
qed

lemma fold_foreign_provides_ok:
  assumes "\<And>key p c. (key, p) \<in> set foreign \<Longrightarrow> answers c p \<Longrightarrow> ok c key"
  shows "entries_ok ok d \<Longrightarrow> entries_ok ok (fold add_foreign_provides foreign d)"
  using assms
proof (induction foreign arbitrary: d)
  case (Cons e foreign)
  obtain key p where e: "e = (key, p)" by fastforce
  have step: "entries_ok ok (add_foreign_provides (key, p) d)"
    by (rule add_foreign_provides_ok [OF Cons.prems(1)]) (rule Cons.prems(2) [of key p], simp_all add: e)
  have "entries_ok ok (fold add_foreign_provides foreign (add_foreign_provides (key, p) d))"
    by (rule Cons.IH [OF step]) (rule Cons.prems(2), simp_all)
  then show ?case by (simp add: e)
qed simp

lemma caps_ok_sorted: "caps_ok ok caps \<Longrightarrow> caps_ok ok (map (\<lambda>(cap, names). (cap, sorted_set names)) caps)"
  by (auto simp: caps_ok_def)

lemma foreign_provides_ok:
  assumes "\<And>key p c. (key, p) \<in> set foreign \<Longrightarrow> answers c p \<Longrightarrow> ok c key"
  shows "entries_ok ok (foreign_provides_of foreign)"
proof -
  have "entries_ok ok (fold add_foreign_provides foreign [])"
    by (rule fold_foreign_provides_ok) (rule assms, simp_all add: entries_ok_def)
  then show ?thesis unfolding foreign_provides_of_def entries_ok_def
    using caps_ok_sorted by fastforce
qed

section \<open>Filling the empty slots\<close>

lemma dget_fill_one:
  "dget (fill_one (cap, names) provides) c =
     (if c = cap \<and> dget provides c = None then Some names else dget provides c)"
  by (auto simp: fill_one_def split: option.split)

lemma fill_inner_keeps: "dget provides c = Some v \<Longrightarrow> dget (fold fill_one es provides) c = Some v"
proof (induction es arbitrary: provides)
  case (Cons e es)
  obtain k w where e: "e = (k, w)" by fastforce
  have "dget (fill_one e provides) c = Some v" using Cons.prems by (simp add: e dget_fill_one)
  from Cons.IH [OF this] show ?case by simp
qed simp

lemma fill_inner_new:
  "dget (fold fill_one es provides) c = Some v \<Longrightarrow> dget provides c = None \<Longrightarrow> (c, v) \<in> set es"
proof (induction es arbitrary: provides)
  case (Cons e es)
  obtain k w where e: "e = (k, w)" by fastforce
  show ?case
  proof (cases "dget (fill_one e provides) c")
    case None
    then show ?thesis using Cons by simp
  next
    case (Some u)
    then have "k = c" "u = w" using Cons.prems(2) e by (auto simp: dget_fill_one split: if_splits)
    moreover have "u = v" using fill_inner_keeps [OF Some] Cons.prems(1) by simp
    ultimately show ?thesis using e by simp
  qed
qed simp

lemma fill_outer_keeps:
  "dget provides c = Some v \<Longrightarrow>
   dget (fold (\<lambda>(_, caps). fold fill_one (sorted_items caps)) es provides) c = Some v"
proof (induction es arbitrary: provides)
  case (Cons e es)
  obtain a caps where e: "e = (a, caps)" by fastforce
  from Cons.IH [OF fill_inner_keeps [OF Cons.prems]] show ?case by (simp add: e)
qed simp

lemma fill_outer_new:
  "dget (fold (\<lambda>(_, caps). fold fill_one (sorted_items caps)) es provides) c = Some v \<Longrightarrow>
   dget provides c = None \<Longrightarrow> \<exists>(arch, caps) \<in> set es. (c, v) \<in> set caps"
proof (induction es arbitrary: provides)
  case (Cons e es)
  obtain a caps where e: "e = (a, caps)" by fastforce
  let ?next = "fold fill_one (sorted_items caps) provides"
  show ?case
  proof (cases "dget ?next c")
    case None
    have "\<exists>(arch, caps) \<in> set es. (c, v) \<in> set caps"
      by (rule Cons.IH [of ?next]) (use Cons.prems(1) None e in simp_all)
    then show ?thesis by auto
  next
    case (Some u)
    have "u = v" using fill_outer_keeps [OF Some, of es] Cons.prems(1) e by simp
    then have "(c, v) \<in> set caps"
      using fill_inner_new [OF Some Cons.prems(2)] by (simp add: sorted_items_facts(1))
    then show ?thesis using e by auto
  qed
qed simp

lemma fill_empty_keeps: "dget provides c = Some v \<Longrightarrow> dget (fill_empty foreign provides) c = Some v"
  by (simp add: fill_empty_def fill_outer_keeps)

lemma fill_empty_new:
  assumes "dget (fill_empty foreign provides) c = Some v" and "dget provides c = None"
  obtains arch caps where "(arch, caps) \<in> set foreign" "(c, v) \<in> set caps"
  using fill_outer_new [OF assms(1) [unfolded fill_empty_def] assms(2)]
  by (auto simp: sorted_items_facts(1))

section \<open>What the universe says of a capability\<close>

lemma universe_provides_def:
  "u_provides (build_universe pkgs srcs cpu older fallback) =
     sort_values (fill_empty
       (foreign_provides_of (foreign_builds cpu fallback (collapse cpu fallback pkgs) pkgs))
       (m_provides (winner_maps (collapse cpu fallback pkgs))))"
  by (simp add: build_universe_def Let_def)

lemma dget_sort_values: "dget (sort_values d) k = map_option sorted_set (dget d k)"
  by (simp add: sort_values_def dget_map_values)

text \<open>
  C12: a capability some winner answers is provided by exactly the winners that answer it, by
  their plain names, sorted and without repetition; no discarded build adds itself.
\<close>
theorem winners_provide_exactly:
  assumes "winner cpu fallback pkgs n = Some w" and "answers cap w"
  shows "\<exists>names. dget (u_provides (build_universe pkgs srcs cpu older fallback)) cap = Some names
           \<and> sorted names \<and> distinct names
           \<and> set names = {n. \<exists>w. winner cpu fallback pkgs n = Some w \<and> answers cap w}"
proof -
  let ?m = "m_provides (winner_maps (collapse cpu fallback pkgs))"
  obtain names where names: "dget ?m cap = Some names"
    using winner_provides_None [of cpu fallback pkgs cap] assms by blast
  have "set names = {n. \<exists>w. winner cpu fallback pkgs n = Some w \<and> answers cap w}"
    using winner_providers [of cpu fallback pkgs cap] names by (simp add: dget_or_def)
  then show ?thesis
    unfolding universe_provides_def dget_sort_values fill_empty_keeps [OF names] by simp
qed

text \<open>
  a capability no winner answers resolves, if at all, to builds of another architecture that
  lost their plain name, each under its arch-qualified name and each answering the capability.
\<close>
theorem discarded_fill_gaps_only:
  assumes "\<And>n w. winner cpu fallback pkgs n = Some w \<Longrightarrow> \<not> answers cap w"
    and "dget (u_provides (build_universe pkgs srcs cpu older fallback)) cap = Some names"
    and "key \<in> set names"
  shows "\<exists>p. discarded cpu fallback pkgs key p \<and> answers cap p"
proof -
  let ?foreign = "foreign_builds cpu fallback (collapse cpu fallback pkgs) pkgs"
  let ?m = "m_provides (winner_maps (collapse cpu fallback pkgs))"
  have none: "dget ?m cap = None" using winner_provides_None assms(1) by blast
  obtain v where v: "dget (fill_empty (foreign_provides_of ?foreign) ?m) cap = Some v" "names = sorted_set v"
    using assms(2) unfolding universe_provides_def dget_sort_values by auto
  obtain arch caps where "(arch, caps) \<in> set (foreign_provides_of ?foreign)" "(cap, v) \<in> set caps"
    by (rule fill_empty_new [OF v(1) none])
  moreover have "entries_ok (\<lambda>c key. \<exists>p. discarded cpu fallback pkgs key p \<and> answers c p)
      (foreign_provides_of ?foreign)"
    by (rule foreign_provides_ok) (use foreign_discarded in blast)
  ultimately show ?thesis using assms(3) v(2) unfolding entries_ok_def caps_ok_def by auto
qed

section \<open>Instances\<close>

text \<open>A build of glibc-devel for each of two architectures, as a 64-bit compose carries them.\<close>

definition multilib :: "package list" where
  "multilib =
     [build_at ''glibc-devel'' ''2.42'' ''i686'' None\<lparr>pkg_provides := [''glibc-devel(x86-32)'']\<rparr>,
      build_at ''glibc-devel'' ''2.42'' ''x86_64'' None\<lparr>pkg_provides := [''glibc-devel(x86-64)'']\<rparr>]"

theorem universe_winner_witness:
  "map_option pkg_arch
     (dget (u_binary_index (build_universe multilib [] ''x86_64'' [] [])) ''glibc-devel'') = Some ''x86_64''
   \<and> \<not> better ''x86_64'' [] (multilib ! 0) (multilib ! 1)"
proof -
  have "multilib ! 0 \<in> set multilib" "multilib ! 1 \<in> set multilib"
    "pkg_name (multilib ! 0) = ''glibc-devel''" "pkg_name (multilib ! 1) = ''glibc-devel''"
    by (simp_all add: multilib_def build_at_def)
  moreover have "dget (u_binary_index (build_universe multilib [] ''x86_64'' [] [])) ''glibc-devel''
      = Some (multilib ! 1)" by code_simp
  moreover have "pkg_arch (multilib ! 1) = ''x86_64''" by (simp add: multilib_def build_at_def)
  ultimately show ?thesis
    using universe_winner [of "multilib ! 1" multilib "[]" "''x86_64''" "[]" "[]"] by auto
qed

theorem winners_provide_exactly_witness:
  "\<exists>names. dget (u_provides (build_universe multilib [] ''x86_64'' [] [])) ''glibc-devel'' = Some names
     \<and> ''glibc-devel'' \<in> set names"
proof -
  have w: "winner ''x86_64'' [] multilib ''glibc-devel'' = Some (multilib ! 1)" by code_simp
  have a: "answers ''glibc-devel'' (multilib ! 1)" by (simp add: answers_def multilib_def build_at_def)
  show ?thesis using winners_provide_exactly [OF w a] w a by blast
qed

theorem discarded_fill_gaps_only_witness:
  "\<exists>p. discarded ''x86_64'' [] multilib ''glibc-devel.i686'' p \<and> answers ''glibc-devel(x86-32)'' p"
proof (rule discarded_fill_gaps_only)
  show "\<not> answers ''glibc-devel(x86-32)'' w" if "winner ''x86_64'' [] multilib n = Some w" for n w
  proof -
    have "n = ''glibc-devel''" using winner_in [OF that] by (auto simp: multilib_def build_at_def)
    moreover have "winner ''x86_64'' [] multilib ''glibc-devel'' = Some (multilib ! 1)" by code_simp
    ultimately have "w = multilib ! 1" using that by simp
    then show ?thesis by (simp add: answers_def multilib_def build_at_def)
  qed
  show "dget (u_provides (build_universe multilib [] ''x86_64'' [] [])) ''glibc-devel(x86-32)''
      = Some [''glibc-devel.i686'']" by code_simp
qed simp

end
