(* ===== verification/Solve.thy ===== *)
theory Solve
  imports Universe ClosureSound
begin

text \<open>
  \<^verbatim>\<open>solve\<close> of \<^verbatim>\<open>tools/solve.py\<close> and what feeds it: where a package's
  BuildRequires come from, which binaries a probed spec really produces, the buildroot of every
  source package, and the closures of the images.
\<close>

section \<open>BuildRequires\<close>

definition BUILDSYS_BUILD :: "string list" where
  "BUILDSYS_BUILD =
     [''bash'', ''binutils'', ''bzip2'', ''coreutils'', ''cpio'', ''diffutils'', ''fedora-release-common'',
      ''findutils'', ''gawk'', ''gcc'', ''gcc-c++'', ''grep'', ''gzip'', ''info'',
      ''make'', ''patch'', ''redhat-rpm-config'', ''rpm-build'', ''sed'', ''shadow-utils'', ''tar'',
      ''unzip'', ''util-linux'', ''which'', ''xz'']"

definition CENTOS_BUILDSYS_BUILD :: "string list" where
  "CENTOS_BUILDSYS_BUILD =
     [''bash'', ''binutils'', ''bzip2'', ''centos-stream-release'', ''coreutils'', ''cpio'', ''diffutils'',
      ''findutils'', ''gawk'', ''gcc'', ''gcc-c++'', ''grep'', ''gzip'', ''info'',
      ''make'', ''patch'', ''redhat-rpm-config'', ''rpm-build'', ''sed'', ''shadow-utils'', ''tar'',
      ''unzip'', ''util-linux'', ''which'', ''xz'']"

definition IMPLICIT_GROUPS :: "(string, string list) dict" where
  "IMPLICIT_GROUPS =
     [(''centos'', CENTOS_BUILDSYS_BUILD), (''centos-hyperscale'', CENTOS_BUILDSYS_BUILD),
      (''fedora'', BUILDSYS_BUILD)]"

definition build_requires_of :: "package \<Rightarrow> string list \<Rightarrow> string list" where
  "build_requires_of p implicit = implicit @ filter (\<lambda>c. \<not> is_pseudo_capability c) (pkg_requires p)"

definition generator_markers :: "string list" where
  "generator_markers =
     [''rust-packaging'', ''go-rpm-macros'', ''pyproject-rpm-macros'', ''cargo-rpm-macros'']"

definition detect_dynamic_buildrequires :: "package \<Rightarrow> string list" where
  "detect_dynamic_buildrequires p =
     sort (filter (\<lambda>m. m \<in> set (build_requires_of p [])) generator_markers)"

text \<open>
  What a probe reported of one source. An absent field is an empty list or false, which is how
  every reader treats it.
\<close>

record report =
  rpt_buildrequires :: "string list"
  rpt_dynamic :: "string list"
  rpt_unmet :: bool
  rpt_produces :: "string list"

definition probed_buildrequires :: "report \<Rightarrow> string list \<Rightarrow> string list" where
  "probed_buildrequires r implicit =
     implicit @ filter (\<lambda>c. \<not> is_pseudo_capability c) (rpt_buildrequires r)"

section \<open>Producers\<close>

type_synonym probe = "(string, report) dict"

text \<open>One source with a report: the state is \<open>subpackages\<close>, \<open>source_of\<close> and \<open>dropped\<close>.\<close>

definition drop_claim :: "string \<Rightarrow> string \<Rightarrow> source_map \<Rightarrow> source_map" where
  "drop_claim src binary source_of =
     (if dget source_of binary = Some src then AList.delete binary source_of else source_of)"

type_synonym producers = "(string, string list) dict \<times> source_map \<times> (string, string list) dict"

definition filter_producer :: "string \<times> report \<Rightarrow> producers \<Rightarrow> producers" where
  "filter_producer sr st =
     (case (sr, st) of ((src, r), (subpackages, source_of, dropped)) \<Rightarrow>
        let claims = dget_or subpackages src [];
            gone = filter (\<lambda>b. b \<notin> set (rpt_produces r)) claims
        in if rpt_produces r = [] \<or> gone = [] then (subpackages, source_of, dropped)
           else (dset src (filter (\<lambda>b. b \<in> set (rpt_produces r)) claims) subpackages,
                 fold (drop_claim src) gone source_of, dset src gone dropped))"

definition apply_probed_producers :: "universe \<Rightarrow> probe \<Rightarrow> universe" where
  "apply_probed_producers u probe =
     (if probe = [] then u
      else case fold filter_producer (sorted_items probe) (u_subpackages u, u_source_of u, []) of
        (subpackages, source_of, _) \<Rightarrow> u\<lparr>u_subpackages := subpackages, u_source_of := source_of\<rparr>)"

section \<open>The solve\<close>

record dynamic_info =
  dyn_source :: string
  dyn_capabilities :: "string list"
  dyn_suspected :: "string list"
  dyn_unmet :: bool

text \<open>\<open>direct\<close>, \<open>conditional\<close>, the problems and the resolutions of one source package.\<close>

record requirements =
  req_direct :: "string list"
  req_conditional :: "(string \<times> string) list"
  req_problems :: "problem list"
  req_resolved :: "(string, string) dict"

definition no_requirements :: requirements where
  "no_requirements = \<lparr>req_direct = [], req_conditional = [], req_problems = [], req_resolved = []\<rparr>"

definition solve_requirement ::
  "universe \<Rightarrow> override_map \<Rightarrow> string \<Rightarrow> string \<Rightarrow> requirements \<Rightarrow> requirements" where
  "solve_requirement u overrides src cap rq =
     (let base = strip_capability_version cap in
      if is_rich_dep base then rq\<lparr>req_conditional := req_conditional rq @ [(base, src)]\<rparr>
      else
        case resolve_capability cap (u_provides u) src overrides (u_provide_evr u) of
          Inl (Ambiguous _ _) \<Rightarrow> rq\<lparr>req_conditional := req_conditional rq @ [(base, src)]\<rparr>
        | Inl (Unresolved text_ by_) \<Rightarrow>
            rq\<lparr>req_problems := req_problems rq @ [(''unresolved'', NoProvider text_ by_, src)]\<rparr>
        | Inr provider \<Rightarrow>
            rq\<lparr>req_direct := req_direct rq @ [provider],
               req_resolved := dset base provider (req_resolved rq)\<rparr>)"

definition closure_env_of :: "universe \<Rightarrow> override_map \<Rightarrow> closure_env" where
  "closure_env_of u overrides =
     \<lparr>env_requires = u_requires u, env_provides = u_provides u, env_overrides = overrides,
      env_provide_evr = u_provide_evr u\<rparr>"

definition requirements_of :: "package \<Rightarrow> report option \<Rightarrow> string list \<Rightarrow> string list" where
  "requirements_of p r implicit =
     (case r of None \<Rightarrow> build_requires_of p implicit | Some r \<Rightarrow> probed_buildrequires r implicit)"

definition dynamic_of :: "package \<Rightarrow> report option \<Rightarrow> dynamic_info" where
  "dynamic_of p r =
     (case r of
        None \<Rightarrow> \<lparr>dyn_source = ''repodata'', dyn_capabilities = [],
                 dyn_suspected = detect_dynamic_buildrequires p, dyn_unmet = False\<rparr>
      | Some r \<Rightarrow> \<lparr>dyn_source = ''probe'', dyn_capabilities = sort (rpt_dynamic r),
                   dyn_suspected = [], dyn_unmet = rpt_unmet r\<rparr>)"

record solution =
  sol_deps :: build_deps
  sol_resolutions :: "(string, (string, string) dict) dict"
  sol_problems :: "problem list"
  sol_dynamic :: "(string, dynamic_info) dict"

text \<open>The closure is a set in the source; \<open>sorted_list_of_set\<close> lists it, as every reader does.\<close>

definition solve_source ::
  "universe \<Rightarrow> override_map \<Rightarrow> probe \<Rightarrow> string list \<Rightarrow> string \<Rightarrow> solution \<Rightarrow> solution" where
  "solve_source u overrides probe implicit src sol =
     (case dget (u_source_index u) src of
        None \<Rightarrow>
          sol\<lparr>sol_problems := sol_problems sol @ [(''missing-source'', NoSourcePackage src, src)],
              sol_deps := dset src [] (sol_deps sol)\<rparr>
      | Some p \<Rightarrow>
          let r = dget probe src;
              rq = fold (solve_requirement u overrides src) (requirements_of p r implicit) no_requirements
          in case runtime_closure (closure_env_of u overrides) (req_direct rq) (req_conditional rq) of
               (closure, closure_problems) \<Rightarrow>
                 sol\<lparr>sol_deps := dset src (sorted_list_of_set closure) (sol_deps sol),
                     sol_resolutions :=
                       (if req_resolved rq = [] then sol_resolutions sol
                        else dset src (req_resolved rq) (sol_resolutions sol)),
                     sol_problems := sol_problems sol @ req_problems rq @ closure_problems,
                     sol_dynamic := dset src (dynamic_of p r) (sol_dynamic sol)\<rparr>)"

text \<open>The shared base: the implicit group, resolved without versions, and its closure.\<close>

fun base_direct ::
  "universe \<Rightarrow> override_map \<Rightarrow> string list \<Rightarrow> string list \<times> problem list" where
  "base_direct u overrides [] = ([], [])"
| "base_direct u overrides (cap # caps) =
     (case base_direct u overrides caps of (direct, ps) \<Rightarrow>
        case resolve_capability cap (u_provides u) ''@buildsys-build'' overrides [] of
          Inr provider \<Rightarrow> (provider # direct, ps)
        | Inl (Ambiguous name candidates) \<Rightarrow>
            (direct, (''unresolved'', ManyProviders name candidates, ''@buildsys-build'') # ps)
        | Inl (Unresolved text_ by_) \<Rightarrow>
            (direct, (''unresolved'', NoProvider text_ by_, ''@buildsys-build'') # ps))"

definition solve_all ::
  "universe \<Rightarrow> string list \<Rightarrow> override_map \<Rightarrow> probe \<Rightarrow> string list \<Rightarrow> solution" where
  "solve_all u build_set overrides probe implicit =
     fold (solve_source u overrides probe implicit) (sorted_set build_set)
       \<lparr>sol_deps = [], sol_resolutions = [], sol_problems = validate_overrides overrides (u_provides u) [],
        sol_dynamic = []\<rparr>"

text \<open>
  \<open>Inl\<close> is the exit of a strict solve, with the problems it prints; \<open>Inr\<close> is the solution and the
  closure of the base.
\<close>

definition solve ::
  "universe \<Rightarrow> string list \<Rightarrow> override_map \<Rightarrow> bool \<Rightarrow> probe \<Rightarrow> string list
   \<Rightarrow> problem list + solution \<times> string set" where
  "solve u build_set overrides strict probe implicit =
     (let sol = solve_all u build_set overrides probe implicit in
      case base_direct u overrides implicit of (direct, direct_problems) \<Rightarrow>
      case runtime_closure (closure_env_of u overrides) direct [] of (base, base_problems) \<Rightarrow>
        let ps = sol_problems sol @ direct_problems @ base_problems in
        if strict \<and> ps \<noteq> [] then Inl ps else Inr (sol\<lparr>sol_problems := ps\<rparr>, base))"

section \<open>Package sets and images\<close>

definition in_scope :: "string \<Rightarrow> problem \<Rightarrow> problem" where
  "in_scope scope p = (case p of (kind, what, who) \<Rightarrow> (kind, what, scope @ '' ('' @ who @ '')''))"

definition solve_package_set ::
  "universe \<Rightarrow> string list \<Rightarrow> override_map \<Rightarrow> string \<Rightarrow> string list \<times> problem list" where
  "solve_package_set u roots overrides scope =
     (let missing = filter (\<lambda>r. dget (u_binary_index u) r = None) roots in
      case runtime_closure (closure_env_of u overrides) (filter (\<lambda>r. r \<notin> set missing) roots) [] of
        (closure, closure_problems) \<Rightarrow>
          (sorted_list_of_set closure,
           map (\<lambda>r. (''missing-binary'', NoBinaryPackage r, scope)) missing
           @ map (in_scope scope) closure_problems))"

text \<open>\<open>dict(overrides, **scoped)\<close>\<close>

definition layered :: "override_map \<Rightarrow> override_map \<Rightarrow> override_map" where
  "layered overrides scoped = fold (\<lambda>(k, v). dset k v) scoped overrides"

definition solve_image ::
  "universe \<Rightarrow> (string, string list) dict \<Rightarrow> override_map \<Rightarrow> (string, override_map) dict \<Rightarrow> string
   \<Rightarrow> (string, string list) dict \<times> problem list \<Rightarrow> (string, string list) dict \<times> problem list" where
  "solve_image u image_roots overrides image_overrides name st =
     (let own = dget_or image_overrides name [] in
      case solve_package_set u (dget_or image_roots name []) (layered overrides own) (''image:'' @ name) of
        (closure, ps) \<Rightarrow>
          (dset name closure (fst st),
           snd st @ validate_overrides own (u_provides u) (''image:'' @ name) @ ps))"

definition solve_image_sets ::
  "universe \<Rightarrow> (string, string list) dict \<Rightarrow> override_map \<Rightarrow> (string, override_map) dict
   \<Rightarrow> (string, string list) dict \<times> problem list" where
  "solve_image_sets u image_roots overrides image_overrides =
     fold (solve_image u image_roots overrides image_overrides) (sort (keys image_roots)) ([], [])"

section \<open>What to build for the images\<close>

datatype source_error =
    PrebuiltWithoutImage "string list"
  | MissingImageSets "string list"
  | NoSourceIdentity "string list"
  | StalePrebuilt "string list"

text \<open>The sources of the payloads, and the payloads that have none.\<close>

definition payload_sources ::
  "(string, string list) dict \<Rightarrow> source_map \<Rightarrow> string list \<Rightarrow> string set" where
  "payload_sources image_sets source_of selected =
     set (map (\<lambda>p. the (dget source_of p))
       (filter (\<lambda>p. truthy (dget source_of p))
          (concat (map (\<lambda>name. dget_or image_sets name []) selected))))"

definition unsourced ::
  "(string, string list) dict \<Rightarrow> source_map \<Rightarrow> string list \<Rightarrow> string list" where
  "unsourced image_sets source_of selected =
     concat (map (\<lambda>name. map (\<lambda>p. name @ '':'' @ p)
       (filter (\<lambda>p. \<not> truthy (dget source_of p)) (dget_or image_sets name []))) selected)"

definition source_build_set ::
  "(string, string list) dict \<Rightarrow> source_map \<Rightarrow> string list \<Rightarrow> string list
   \<Rightarrow> source_error + string set" where
  "source_build_set image_sets source_of selected_image_sets prebuilt =
     (let selected = sorted_set selected_image_sets in
      if selected = [] then
        (if prebuilt \<noteq> [] then Inl (PrebuiltWithoutImage (sorted_set prebuilt)) else Inr {})
      else
        let missing = filter (\<lambda>s. dget image_sets s = None) selected in
        if missing \<noteq> [] then Inl (MissingImageSets missing)
        else
          let sources = payload_sources image_sets source_of selected;
              nameless = unsourced image_sets source_of selected;
              stale = filter (\<lambda>s. s \<notin> sources) (sorted_set prebuilt)
          in if nameless \<noteq> [] then Inl (NoSourceIdentity (sort nameless))
             else if stale \<noteq> [] then Inl (StalePrebuilt stale)
             else Inr (sources - set prebuilt))"

section \<open>The requirements of one source\<close>

text \<open>Where one requirement ends up: resolved, put off to the closure, or reported.\<close>

definition requirement_handled ::
  "universe \<Rightarrow> override_map \<Rightarrow> string \<Rightarrow> requirements \<Rightarrow> string \<Rightarrow> bool" where
  "requirement_handled u overrides src rq cap =
     (if is_rich_dep (strip_capability_version cap)
      then (strip_capability_version cap, src) \<in> set (req_conditional rq)
      else case env_resolve (closure_env_of u overrides) cap src of
             Inr q \<Rightarrow> q \<in> set (req_direct rq)
           | Inl (Ambiguous _ _) \<Rightarrow> (strip_capability_version cap, src) \<in> set (req_conditional rq)
           | Inl (Unresolved _ _) \<Rightarrow> req_problems rq \<noteq> [])"

definition grows :: "requirements \<Rightarrow> requirements \<Rightarrow> bool" where
  "grows rq rq' =
     (set (req_direct rq) \<subseteq> set (req_direct rq') \<and> set (req_conditional rq) \<subseteq> set (req_conditional rq')
      \<and> set (req_problems rq) \<subseteq> set (req_problems rq'))"

lemma solve_requirement_grows: "grows rq (solve_requirement u overrides src cap rq)"
  by (auto simp: grows_def solve_requirement_def Let_def split: sum.splits resolve_error.splits)

lemma solve_requirement_handles:
  "requirement_handled u overrides src (solve_requirement u overrides src cap rq) cap"
  by (auto simp: requirement_handled_def solve_requirement_def closure_env_of_def Let_def
      split: sum.splits resolve_error.splits)

lemma handled_grows:
  "requirement_handled u overrides src rq cap \<Longrightarrow> grows rq rq' \<Longrightarrow> requirement_handled u overrides src rq' cap"
  by (cases "req_problems rq'")
     (auto simp: requirement_handled_def grows_def split: sum.splits resolve_error.splits if_splits)

lemma grows_refl [simp]: "grows rq rq"
  by (simp add: grows_def)

lemma grows_trans: "grows a b \<Longrightarrow> grows b c \<Longrightarrow> grows a c"
  unfolding grows_def by blast

lemma fold_requirement_grows: "grows rq (fold (solve_requirement u overrides src) caps rq)"
  by (induction caps arbitrary: rq) (auto intro: grows_trans solve_requirement_grows)

lemma fold_requirement_handles:
  "cap \<in> set caps \<Longrightarrow>
   requirement_handled u overrides src (fold (solve_requirement u overrides src) caps rq) cap"
proof (induction caps arbitrary: rq)
  case (Cons c caps)
  show ?case
  proof (cases "cap = c")
    case True
    then show ?thesis
      using handled_grows [OF solve_requirement_handles fold_requirement_grows] by simp
  qed (use Cons in simp)
qed simp

section \<open>One buildroot\<close>

text \<open>What the solve records for one source: its closure and its problems.\<close>

definition buildroot ::
  "universe \<Rightarrow> override_map \<Rightarrow> probe \<Rightarrow> string list \<Rightarrow> string \<Rightarrow> string set \<times> problem list" where
  "buildroot u overrides probe implicit src =
     (case dget (u_source_index u) src of
        None \<Rightarrow> ({}, [(''missing-source'', NoSourcePackage src, src)])
      | Some p \<Rightarrow>
          let rq = fold (solve_requirement u overrides src)
                     (requirements_of p (dget probe src) implicit) no_requirements;
              c = runtime_closure (closure_env_of u overrides) (req_direct rq) (req_conditional rq)
          in (fst c, req_problems rq @ snd c))"

lemma solve_source_buildroot:
  "sol_deps (solve_source u overrides probe implicit src sol)
     = dset src (sorted_list_of_set (fst (buildroot u overrides probe implicit src))) (sol_deps sol)"
  "sol_problems (solve_source u overrides probe implicit src sol)
     = sol_problems sol @ snd (buildroot u overrides probe implicit src)"
  by (simp_all add: solve_source_def buildroot_def Let_def split: option.split prod.split)

lemma fold_solve_source:
  assumes "distinct srcs" and "set srcs \<inter> set (map fst (sol_deps sol)) = {}"
  shows "sol_deps (fold (solve_source u overrides probe implicit) srcs sol) = sol_deps sol @
      map (\<lambda>src. (src, sorted_list_of_set (fst (buildroot u overrides probe implicit src)))) srcs"
    and "sol_problems (fold (solve_source u overrides probe implicit) srcs sol) =
      sol_problems sol @ concat (map (\<lambda>src. snd (buildroot u overrides probe implicit src)) srcs)"
proof -
  let ?entry = "\<lambda>src. (src, sorted_list_of_set (fst (buildroot u overrides probe implicit src)))"
  show "sol_problems (fold (solve_source u overrides probe implicit) srcs sol) =
      sol_problems sol @ concat (map (\<lambda>src. snd (buildroot u overrides probe implicit src)) srcs)"
    by (induction srcs arbitrary: sol) (simp_all add: solve_source_buildroot)
  show "sol_deps (fold (solve_source u overrides probe implicit) srcs sol) = sol_deps sol @ map ?entry srcs"
    using assms
  proof (induction srcs arbitrary: sol)
    case (Cons src srcs)
    have "dset src (snd (?entry src)) (sol_deps sol) = sol_deps sol @ [?entry src]"
      using Cons.prems(2) by (intro trans [OF update_fresh]) (auto simp: map_of_eq_None_iff)
    then have one: "sol_deps (solve_source u overrides probe implicit src sol) = sol_deps sol @ [?entry src]"
      by (simp add: solve_source_buildroot)
    have "sol_deps (fold (solve_source u overrides probe implicit) srcs (solve_source u overrides probe implicit src sol))
        = sol_deps (solve_source u overrides probe implicit src sol) @ map ?entry srcs"
      by (rule Cons.IH) (use Cons.prems in \<open>auto simp: one\<close>)
    then show ?case by (simp add: one)
  qed simp
qed

lemma solve_Inr:
  assumes "solve u build_set overrides strict probe implicit = Inr (sol, base)"
  shows "sol_deps sol = map (\<lambda>src. (src, sorted_list_of_set (fst (buildroot u overrides probe implicit src))))
      (sorted_set build_set)"
    and "src \<in> set build_set \<Longrightarrow> set (snd (buildroot u overrides probe implicit src)) \<subseteq> set (sol_problems sol)"
proof -
  obtain ps where sol: "sol = solve_all u build_set overrides probe implicit\<lparr>sol_problems :=
      sol_problems (solve_all u build_set overrides probe implicit) @ ps\<rparr>"
    using assms by (auto simp: solve_def Let_def split: prod.splits if_splits)
  show "sol_deps sol = map (\<lambda>src. (src, sorted_list_of_set (fst (buildroot u overrides probe implicit src))))
      (sorted_set build_set)"
    unfolding sol by (simp add: solve_all_def fold_solve_source)
  show "src \<in> set build_set \<Longrightarrow> set (snd (buildroot u overrides probe implicit src)) \<subseteq> set (sol_problems sol)"
    unfolding sol by (auto simp: solve_all_def fold_solve_source)
qed

text \<open>
  What a BuildRequires is owed: the package it resolves to, or, where several provide it, one of
  them, the range it asked for being no longer known at that point.
\<close>

definition met_build_require :: "closure_env \<Rightarrow> string set \<Rightarrow> string \<Rightarrow> string \<Rightarrow> bool" where
  "met_build_require env S src cap =
     (case env_resolve env cap src of
        Inr q \<Rightarrow> q \<in> S
      | Inl (Ambiguous _ _) \<Rightarrow> met_plain env S src (strip_capability_version cap)
      | Inl (Unresolved _ _) \<Rightarrow> False)"

text \<open>A closed tree: every plain requirement of everything in it is met in it.\<close>

definition closed_tree :: "closure_env \<Rightarrow> string set \<Rightarrow> bool" where
  "closed_tree env S =
     (\<forall>q \<in> S. \<forall>cap \<in> set (dget_or (env_requires env) q []).
        \<not> is_rich_dep (strip_capability_version cap) \<longrightarrow> met_plain env S q cap)"

lemma clean_closed_tree: "runtime_closure env roots extra = (S, []) \<Longrightarrow> closed_tree env S"
  unfolding closed_tree_def using clean_closure(1) by (fastforce simp: demands_def)

lemma buildroot_meets:
  assumes b: "buildroot u overrides probe implicit src = (S, [])"
    and p: "dget (u_source_index u) src = Some p"
  shows "closed_tree (closure_env_of u overrides) S"
    and "cap \<in> set (requirements_of p (dget probe src) implicit)
      \<Longrightarrow> \<not> is_rich_dep (strip_capability_version cap)
      \<Longrightarrow> strip_capability_version (strip_capability_version cap) = strip_capability_version cap
      \<Longrightarrow> met_build_require (closure_env_of u overrides) S src cap"
proof -
  let ?env = "closure_env_of u overrides"
  let ?rq = "fold (solve_requirement u overrides src) (requirements_of p (dget probe src) implicit) no_requirements"
  have c: "runtime_closure ?env (req_direct ?rq) (req_conditional ?rq) = (S, [])" and "req_problems ?rq = []"
    using b p by (auto simp: buildroot_def Let_def prod_eq_iff)
  show "closed_tree ?env S" by (rule clean_closed_tree [OF c])
  assume cap: "cap \<in> set (requirements_of p (dget probe src) implicit)"
    "\<not> is_rich_dep (strip_capability_version cap)"
    "strip_capability_version (strip_capability_version cap) = strip_capability_version cap"
  have h: "requirement_handled u overrides src ?rq cap" by (rule fold_requirement_handles [OF cap(1)])
  have direct: "set (req_direct ?rq) \<subseteq> S" using runtime_closure_bounds(1) [of "req_direct ?rq" ?env "req_conditional ?rq"] c by simp
  have put_off: "met_plain ?env S src (strip_capability_version cap)"
    if "(strip_capability_version cap, src) \<in> set (req_conditional ?rq)"
  proof (rule clean_closure(1) [OF c])
    show "(src, strip_capability_version cap, strip_capability_version cap)
        \<in> extra_demands (req_conditional ?rq) \<union> demands ?env S"
      using that cap(3) by (force simp: extra_demands_def)
  qed (use cap(2) in simp)
  show "met_build_require ?env S src cap"
    using h cap(2) direct put_off \<open>req_problems ?rq = []\<close>
    by (auto simp: requirement_handled_def met_build_require_def split: sum.splits resolve_error.splits)
qed

lemma finite_buildroot: "finite (fst (buildroot u overrides probe implicit src))"
proof -
  have "finite (fst (runtime_closure env roots extra))" for env roots extra
    by (rule finite_subset [OF runtime_closure_bounds(2)]) simp
  then show ?thesis by (simp add: buildroot_def Let_def split: option.split)
qed

lemma solve_clean_buildroot:
  assumes "solve u build_set overrides strict probe implicit = Inr (sol, base)" and "sol_problems sol = []"
    and "src \<in> set build_set"
  shows "\<exists>p deps. dget (u_source_index u) src = Some p \<and> dget (sol_deps sol) src = Some deps
    \<and> closed_tree (closure_env_of u overrides) (set deps)
    \<and> (\<forall>cap \<in> set (requirements_of p (dget probe src) implicit).
         \<not> is_rich_dep (strip_capability_version cap) \<longrightarrow>
         strip_capability_version (strip_capability_version cap) = strip_capability_version cap \<longrightarrow>
         met_build_require (closure_env_of u overrides) (set deps) src cap)"
proof -
  let ?b = "buildroot u overrides probe implicit src"
  have clean: "snd ?b = []" using solve_Inr(2) [OF assms(1,3)] assms(2) by simp
  then obtain p where p: "dget (u_source_index u) src = Some p"
    by (cases "dget (u_source_index u) src") (simp_all add: buildroot_def)
  have b: "?b = (fst ?b, [])" using clean by (metis prod.collapse)
  have "dget (sol_deps sol) src = Some (sorted_list_of_set (fst ?b))"
    using assms(3) by (simp add: solve_Inr(1) [OF assms(1)] map_of_map_restrict)
  moreover have "set (sorted_list_of_set (fst ?b)) = fst ?b" using finite_buildroot by simp
  ultimately show ?thesis using p buildroot_meets [OF b p] by auto
qed


section \<open>Producers, probed\<close>

definition spec_allows :: "probe \<Rightarrow> string \<Rightarrow> string \<Rightarrow> bool" where
  "spec_allows probe src b =
     (case dget probe src of None \<Rightarrow> True | Some r \<Rightarrow> rpt_produces r = [] \<or> b \<in> set (rpt_produces r))"

definition agree :: "(string, string list) dict \<Rightarrow> source_map \<Rightarrow> bool" where
  "agree subpackages source_of =
     (\<forall>b src. dget source_of b = Some src \<longrightarrow> b \<in> set (dget_or subpackages src []))"

lemma dget_fold_drop:
  "dget (fold (drop_claim src) gone m) b = (if b \<in> set gone \<and> dget m b = Some src then None else dget m b)"
  by (induction gone arbitrary: m) (auto simp: drop_claim_def delete_conv')

lemma filter_producer_step:
  assumes "filter_producer (src, r) (sub, so, dr) = (sub', so', dr')" and "agree sub so"
  shows "dget so' b = Some s \<longleftrightarrow> dget so b = Some s \<and> spec_allows [(src, r)] s b"
    and "set (dget_or sub' s []) = {b \<in> set (dget_or sub s []). spec_allows [(src, r)] s b}"
    and "agree sub' so'"
proof -
  show so: "dget so' b = Some s \<longleftrightarrow> dget so b = Some s \<and> spec_allows [(src, r)] s b" for b s
    using assms
    by (auto simp: filter_producer_def spec_allows_def agree_def dget_fold_drop Let_def filter_empty_conv
        split: if_splits)
  show sub: "set (dget_or sub' s []) = {b \<in> set (dget_or sub s []). spec_allows [(src, r)] s b}" for s
    using assms(1)
    by (cases "s = src")
       (auto simp: filter_producer_def spec_allows_def dget_or_def Let_def filter_empty_conv split: if_splits)
  show "agree sub' so'" unfolding agree_def sub using so assms(2) unfolding agree_def by blast
qed

lemma spec_allows_Cons:
  "src \<notin> set (map fst items) \<Longrightarrow>
   spec_allows ((src, r) # items) s b \<longleftrightarrow> spec_allows [(src, r)] s b \<and> spec_allows items s b"
  using map_of_eq_None_iff [of items src] by (cases "s = src") (simp_all add: spec_allows_def)

lemma fold_filter_producer:
  assumes "distinct (map fst items)" and "fold filter_producer items (sub, so, dr) = (sub', so', dr')"
    and "agree sub so"
  shows "(dget so' b = Some s \<longleftrightarrow> dget so b = Some s \<and> spec_allows items s b)
    \<and> set (dget_or sub' s []) = {b \<in> set (dget_or sub s []). spec_allows items s b}
    \<and> agree sub' so'"
  using assms
proof (induction items arbitrary: sub so dr)
  case Nil
  then show ?case by (simp add: spec_allows_def)
next
  case (Cons item items)
  obtain src r where item: "item = (src, r)" by fastforce
  obtain sub1 so1 dr1 where one: "filter_producer (src, r) (sub, so, dr) = (sub1, so1, dr1)"
    by (metis prod_cases3)
  note step = filter_producer_step [OF one Cons.prems(3)]
  have "fold filter_producer items (sub1, so1, dr1) = (sub', so', dr')"
    using Cons.prems(2) one item by simp
  moreover have "src \<notin> set (map fst items)" "distinct (map fst items)" using Cons.prems(1) item by auto
  ultimately show ?case using Cons.IH [of sub1 so1 dr1] step unfolding item spec_allows_Cons [OF \<open>src \<notin> _\<close>]
    by auto
qed

lemma winner_maps_agree: "agree (m_subpackages (winner_maps index)) (m_source_of (winner_maps index))"
proof -
  have "agree (m_subpackages (fold add_winner ws m)) (m_source_of (fold add_winner ws m))"
    if "agree (m_subpackages m) (m_source_of m)" for ws m
    using that
  proof (induction ws arbitrary: m)
    case (Cons w ws)
    obtain n i p where w: "w = (n, (i, p))" by (metis prod.collapse)
    have "agree (m_subpackages (add_winner w m)) (m_source_of (add_winner w m))"
      using Cons.prems unfolding w
      by (cases "source_name_from_sourcerpm (pkg_sourcerpm p)" rule: option.exhaust)
         (auto simp: agree_def add_winner_def Let_def dget_or_dappend split: list.split)
    then show ?case using Cons.IH by simp
  qed simp
  then show ?thesis by (simp add: winner_maps_def no_maps_def agree_def)
qed

lemma universe_agree:
  "agree (u_subpackages (build_universe pkgs srcs cpu older fallback))
     (u_source_of (build_universe pkgs srcs cpu older fallback))"
proof -
  have "set (dget_or (sort_values d) k []) = set (dget_or d k [])" for d k
    by (simp add: dget_or_def dget_sort_values split: option.split)
  then show ?thesis using winner_maps_agree by (simp add: build_universe_def Let_def agree_def)
qed

text \<open>
  C14: after the probe has been consulted a binary is attributed to a source exactly when the
  repository metadata attributes it and the source's spec, where one was probed, produces it; the
  two indexes of that fact still agree, and sources without a report are untouched.
\<close>
theorem probed_producers_exact:
  fixes pkgs srcs :: "package list"
  assumes "distinct (map fst probe)"
  shows "let u = build_universe pkgs srcs cpu older fallback; u' = apply_probed_producers u probe in
    (dget (u_source_of u') b = Some src \<longleftrightarrow> dget (u_source_of u) b = Some src \<and> spec_allows probe src b)
    \<and> set (dget_or (u_subpackages u') src []) = {b \<in> set (dget_or (u_subpackages u) src []). spec_allows probe src b}
    \<and> agree (u_subpackages u') (u_source_of u')"
proof (cases "probe = []")
  case True
  then show ?thesis using universe_agree by (simp add: apply_probed_producers_def spec_allows_def)
next
  case False
  let ?u = "build_universe pkgs srcs cpu older fallback"
  obtain sub so dr where f: "fold filter_producer (sorted_items probe) (u_subpackages ?u, u_source_of ?u, []) = (sub, so, dr)"
    by (metis prod_cases3)
  have d: "distinct (map fst (sorted_items probe))" by (rule sorted_items_facts(3) [OF assms])
  have "dget (sorted_items probe) = dget probe"
    using d assms by (intro map_of_eqI ext) (auto simp: sorted_items_facts(1) map_of_eq_Some_iff fun_eq_iff)
  then have "spec_allows (sorted_items probe) = spec_allows probe" by (simp add: spec_allows_def fun_eq_iff)
  then show ?thesis
    using fold_filter_producer [OF d f universe_agree, of b src] False f
    by (simp add: apply_probed_producers_def Let_def)
qed

section \<open>Images\<close>

lemma dget_layered:
  "distinct (map fst scoped) \<Longrightarrow>
   dget (layered overrides scoped) c = (case dget scoped c of Some p \<Rightarrow> Some p | None \<Rightarrow> dget overrides c)"
  unfolding layered_def
proof (induction scoped arbitrary: overrides)
  case (Cons e scoped)
  obtain k v where e: "e = (k, v)" by fastforce
  have none: "dget scoped k = None" using Cons.prems e by (simp add: map_of_eq_None_iff)
  have "dget (fold (\<lambda>(k, v). dset k v) scoped (dset k v overrides)) c =
      (case dget scoped c of Some p \<Rightarrow> Some p | None \<Rightarrow> dget (dset k v overrides) c)"
    by (rule Cons.IH) (use Cons.prems in simp)
  then show ?case using none by (auto simp: e split: option.split)
qed simp

abbreviation image_result ::
  "universe \<Rightarrow> (string, string list) dict \<Rightarrow> override_map \<Rightarrow> (string, override_map) dict \<Rightarrow> string
   \<Rightarrow> string list \<times> problem list" where
  "image_result u image_roots overrides image_overrides name \<equiv>
     solve_package_set u (dget_or image_roots name [])
       (layered overrides (dget_or image_overrides name [])) (''image:'' @ name)"

lemma solve_image_facts:
  "fst (solve_image u roots ov iov name st) = dset name (fst (image_result u roots ov iov name)) (fst st)"
  "set (snd st) \<union> set (snd (image_result u roots ov iov name)) \<subseteq> set (snd (solve_image u roots ov iov name st))"
  by (auto simp: solve_image_def Let_def split: prod.split)

lemma fold_solve_image:
  "distinct names \<Longrightarrow> dget (fst (fold (solve_image u roots ov iov) names st)) n =
     (if n \<in> set names then Some (fst (image_result u roots ov iov n)) else dget (fst st) n)"
  by (induction names arbitrary: st) (auto simp: solve_image_facts(1))

lemma fold_solve_image_problems:
  "n \<in> set names \<Longrightarrow>
   set (snd (image_result u roots ov iov n)) \<subseteq> set (snd (fold (solve_image u roots ov iov) names st))"
proof (induction names arbitrary: st)
  case (Cons m names)
  have keep: "set (snd st) \<subseteq> set (snd (fold (solve_image u roots ov iov) names st))" for names st
  proof (induction names arbitrary: st)
    case (Cons k ks)
    then show ?case using solve_image_facts(2) [where st = st and u = u and roots = roots and ov = ov and iov = iov and name = k] by fastforce
  qed simp
  show ?case
  proof (cases "n = m")
    case True
    then show ?thesis using solve_image_facts(2) [where st = st and u = u and roots = roots and ov = ov and iov = iov and name = m] keep by fastforce
  qed (use Cons in simp)
qed simp

lemma package_set_clean:
  assumes "solve_package_set u roots overrides scope = (members, [])"
  shows "set roots \<subseteq> set members" and "closed_tree (closure_env_of u overrides) (set members)"
    and "\<forall>r \<in> set roots. dget (u_binary_index u) r \<noteq> None"
proof -
  let ?env = "closure_env_of u overrides"
  have ok: "filter (\<lambda>r. dget (u_binary_index u) r = None) roots = []"
    and c: "runtime_closure ?env roots [] = (fst (runtime_closure ?env roots []), [])"
    and m: "members = sorted_list_of_set (fst (runtime_closure ?env roots []))"
  proof -
    let ?missing = "filter (\<lambda>r. dget (u_binary_index u) r = None) roots"
    obtain S ps where r: "runtime_closure ?env (filter (\<lambda>r. r \<notin> set ?missing) roots) [] = (S, ps)" by fastforce
    have "?missing = []" "ps = []" "members = sorted_list_of_set S"
      using assms r by (auto simp: solve_package_set_def Let_def)
    moreover from this(1) have "filter (\<lambda>r. r \<notin> set ?missing) roots = roots" by simp
    ultimately show "?missing = []" "runtime_closure ?env roots [] = (fst (runtime_closure ?env roots []), [])"
      "members = sorted_list_of_set (fst (runtime_closure ?env roots []))" using r by simp_all
  qed
  have "finite (fst (runtime_closure ?env roots []))"
    by (rule finite_subset [OF runtime_closure_bounds(2)]) simp
  then have s: "set members = fst (runtime_closure ?env roots [])" by (simp add: m)
  show "set roots \<subseteq> set members" unfolding s by (rule runtime_closure_bounds(1))
  show "closed_tree ?env (set members)" unfolding s by (rule clean_closed_tree [OF c])
  show "\<forall>r \<in> set roots. dget (u_binary_index u) r \<noteq> None" using ok by (auto simp: filter_empty_conv)
qed

lemma solve_image_sets_clean:
  assumes "solve_image_sets u image_roots overrides image_overrides = (sets, [])"
    and "dget image_roots name = Some roots" and "distinct (map fst image_roots)"
  obtains members where "dget sets name = Some members"
    and "solve_package_set u roots (layered overrides (dget_or image_overrides name [])) (''image:'' @ name) = (members, [])"
proof -
  let ?r = "image_result u image_roots overrides image_overrides name"
  let ?names = "sort (keys image_roots)"
  have names: "distinct ?names" "name \<in> set ?names"
    using assms(2,3) dget_in_set [OF assms(2)] by (force simp: keys_def)+
  have f: "fold (solve_image u image_roots overrides image_overrides) ?names ([], []) = (sets, [])"
    using assms(1) by (simp add: solve_image_sets_def)
  have "dget sets name = Some (fst ?r)"
    using fold_solve_image [OF names(1), of u image_roots overrides image_overrides "([], [])" name] names(2) f by simp
  moreover have "snd ?r = []"
    using fold_solve_image_problems [OF names(2), of u image_roots overrides image_overrides "([], [])"] f by simp
  moreover have "dget_or image_roots name [] = roots" by (simp add: dget_or_def assms(2))
  ultimately show ?thesis using that [of "fst ?r"] by (simp add: prod_eq_iff)
qed

text \<open>
  image sets that are solved without problems each hold the packages the image asks for, all
  of them known, and are closed under requirements read with the image's own overrides over the
  global ones; another image's overrides and roots play no part.
\<close>
theorem image_sets_closed:
  assumes "solve_image_sets u image_roots overrides image_overrides = (sets, [])"
    and "dget image_roots name = Some roots" and "distinct (map fst image_roots)"
    and "distinct (map fst (dget_or image_overrides name []))"
  shows "\<exists>members env. dget sets name = Some members \<and> set roots \<subseteq> set members
    \<and> (\<forall>r \<in> set roots. dget (u_binary_index u) r \<noteq> None) \<and> closed_tree env (set members)
    \<and> env_requires env = u_requires u \<and> env_provides env = u_provides u
    \<and> env_provide_evr env = u_provide_evr u
    \<and> (\<forall>c. dget (env_overrides env) c =
         (case dget (dget_or image_overrides name []) c of Some p \<Rightarrow> Some p | None \<Rightarrow> dget overrides c))"
proof -
  let ?own = "dget_or image_overrides name []"
  obtain members where m: "dget sets name = Some members"
    "solve_package_set u roots (layered overrides ?own) (''image:'' @ name) = (members, [])"
    by (rule solve_image_sets_clean [OF assms(1-3)])
  show ?thesis
    by (rule exI [of _ members], rule exI [of _ "closure_env_of u (layered overrides ?own)"])
       (use m(1) package_set_clean [OF m(2)] dget_layered [OF assms(4)] in \<open>simp add: closure_env_of_def\<close>)
qed

text \<open>
  the sources built for the images are exactly the recorded sources of their payloads, less
  the ones declared prebuilt; and the selection is refused exactly when it names an image that
  was not solved, a payload has no source, or a prebuilt source produces no payload.
\<close>
theorem source_build_set_exact:
  "source_build_set image_sets source_of selected prebuilt = Inr S \<longleftrightarrow>
     (if selected = [] then prebuilt = [] \<and> S = {}
      else (\<forall>name \<in> set selected. dget image_sets name \<noteq> None
              \<and> (\<forall>p \<in> set (dget_or image_sets name []). truthy (dget source_of p)))
        \<and> (let sources = {the (dget source_of p) | name p. name \<in> set selected \<and> p \<in> set (dget_or image_sets name [])}
           in set prebuilt \<subseteq> sources \<and> S = sources - set prebuilt))"
proof (cases "selected = []")
  case True
  then show ?thesis by (auto simp: source_build_set_def sorted_set_def)
next
  case False
  have Nil: "sorted_set xs = [] \<longleftrightarrow> xs = []" "sort xs = [] \<longleftrightarrow> xs = []" for xs :: "string list"
    by (metis set_empty set_sorted_set) (metis set_empty set_sort)
  have nameless: "unsourced image_sets source_of (sorted_set selected) = [] \<longleftrightarrow>
      (\<forall>name \<in> set selected. \<forall>p \<in> set (dget_or image_sets name []). truthy (dget source_of p))"
    by (simp add: unsourced_def filter_empty_conv)
  have sources: "payload_sources image_sets source_of (sorted_set selected) =
      {the (dget source_of p) | name p. name \<in> set selected \<and> p \<in> set (dget_or image_sets name [])}"
    if "\<forall>name \<in> set selected. \<forall>p \<in> set (dget_or image_sets name []). truthy (dget source_of p)"
    using that by (auto simp: payload_sources_def)
  show ?thesis
    using False nameless sources
    by (auto simp: source_build_set_def Let_def Nil filter_empty_conv split: if_splits) blast
qed

section \<open>Versions a source asks for\<close>

text \<open>
  The comment above the function expects a declared, versioned BuildRequires. The ranges of a
  source record are not read at all: only the names in its \<open>requires\<close> list are.
\<close>

lemma build_requires_ignore_ranges:
  "build_requires_of (p\<lparr>pkg_require_ranges := ranges\<rparr>) implicit = build_requires_of p implicit"
  by (simp add: build_requires_of_def)

section \<open>Instances\<close>

text \<open>Two binaries, one of which needs the other, and the source package that builds one of them.\<close>

definition small_repo :: "package list" where
  "small_repo =
     [build_at ''make'' ''4.4'' ''x86_64'' None\<lparr>pkg_requires := [''glibc'']\<rparr>,
      build_at ''glibc'' ''2.42'' ''x86_64'' None\<lparr>pkg_sourcerpm := Some ''glibc-2.42-1.fc43.src.rpm''\<rparr>]"

definition small_sources :: "package list" where
  "small_sources = [build_at ''zlib'' ''1.3'' ''src'' None\<lparr>pkg_requires := [''make'']\<rparr>]"

definition small_universe :: universe where
  "small_universe = build_universe small_repo small_sources ''x86_64'' [] []"


theorem probed_producers_exact_witness:
  "dget (u_source_of (apply_probed_producers small_universe
      [(''glibc'', \<lparr>rpt_buildrequires = [], rpt_dynamic = [], rpt_unmet = False, rpt_produces = [''glibc-common'']\<rparr>)]))
     ''glibc'' \<noteq> Some ''glibc''
   \<and> dget (u_source_of small_universe) ''glibc'' = Some ''glibc''"
proof -
  let ?p = "[(''glibc'', \<lparr>rpt_buildrequires = [], rpt_dynamic = [], rpt_unmet = False,
     rpt_produces = [''glibc-common'']\<rparr>)]"
  have src: "dget (u_source_of small_universe) ''glibc'' = Some ''glibc''" by code_simp
  have "\<not> spec_allows ?p ''glibc'' ''glibc''" by (simp add: spec_allows_def)
  then show ?thesis
    using probed_producers_exact [of ?p small_repo small_sources "''x86_64''" "[]" "[]" "''glibc''" "''glibc''"]
    unfolding Let_def small_universe_def [symmetric] using src by simp
qed

theorem image_sets_closed_witness:
  "\<exists>members. dget (fst (solve_image_sets small_universe [(''live'', [''make''])] [] [])) ''live'' = Some members
     \<and> {''make''} \<subseteq> set members"
proof -
  have run: "solve_image_sets small_universe [(''live'', [''make''])] [] [] = ([(''live'', [''glibc'', ''make''])], [])"
    by code_simp
  show ?thesis using image_sets_closed [OF run, of "''live''" "[''make'']"] unfolding run by (auto simp: dget_or_def)
qed

theorem source_build_set_exact_witness:
  "source_build_set [(''live'', [''bash'', ''glibc''])] [(''bash'', ''bash''), (''glibc'', ''glibc'')] [''live''] [''glibc'']
     = Inr {''bash''}"
proof -
  have "{the (dget [(''bash'', ''bash''), (''glibc'', ''glibc'')] p) | name p.
      name \<in> set [''live''] \<and> p \<in> set (dget_or [(''live'', [''bash'', ''glibc''])] name [])} = {''bash'', ''glibc''}"
    by (auto simp: dget_or_def)
  then show ?thesis unfolding source_build_set_exact by (auto simp: dget_or_def truthy_def)
qed

end
