(* ===== verification/Variants.thy ===== *)
theory Variants
  imports Solve
begin

text \<open>
  Version variants of \<^verbatim>\<open>tools/solve.py\<close>: a source package built a second time at an
  older version, under a name of its own, for named consumers (\<^verbatim>\<open>parse_source_variants\<close>
  and \<^verbatim>\<open>add_source_variants\<close>).
\<close>

section \<open>Reading a declaration\<close>

record variant =
  var_source :: string
  var_evr :: string
  var_consumers :: "string list"

datatype variant_error =
    MalformedVariant string
  | VariantNamesItsSource string

definition consumers_of :: "string \<Rightarrow> string list" where
  "consumers_of s = sorted_set (filter (\<lambda>c. c \<noteq> []) (map py_strip (py_split CHR '','' s)))"

definition parse_variant :: "string \<Rightarrow> variant_error + string \<times> variant" where
  "parse_variant spec =
     (case py_partition CHR '':'' spec of (head, _, consumers) \<Rightarrow>
      case py_partition CHR ''='' head of (name, _, origin) \<Rightarrow>
      case py_partition CHR ''@'' origin of (source, _, evr) \<Rightarrow>
        let name = py_strip name; source = py_strip source; evr = py_strip evr
        in if name = [] \<or> source = [] \<or> evr = [] \<or> py_strip consumers = []
           then Inl (MalformedVariant spec)
           else if name = source then Inl (VariantNamesItsSource name)
           else Inr (name, \<lparr>var_source = source, var_evr = evr, var_consumers = consumers_of consumers\<rparr>))"

fun parse_variants :: "string list \<Rightarrow> (string, variant) dict \<Rightarrow> variant_error + (string, variant) dict" where
  "parse_variants [] variants = Inr variants"
| "parse_variants (spec # specs) variants =
     (case parse_variant spec of
        Inl e \<Rightarrow> Inl e
      | Inr (name, v) \<Rightarrow> parse_variants specs (dset name v variants))"

definition parse_source_variants :: "string list \<Rightarrow> variant_error + (string, variant) dict" where
  "parse_source_variants specs = parse_variants specs []"

section \<open>Registering the second build\<close>

text \<open>What the loop changes: the universe and the build set it was given, and its three results.\<close>

record variants_state =
  vs_universe :: universe
  vs_build_set :: "string list"
  vs_problems :: "problem list"
  vs_subpackages :: "(string, string list) dict"
  vs_routes :: routes

definition superseded_build :: "superseded \<Rightarrow> string \<Rightarrow> string option \<Rightarrow> string \<Rightarrow> package option" where
  "superseded_build older name arch evr =
     (case arch of None \<Rightarrow> None | Some a \<Rightarrow> dget (dget_or older (name, a) []) evr)"

text \<open>\<open>routes.setdefault(consumer, {})[binary] = name\<close>\<close>

definition add_route :: "string \<Rightarrow> string \<Rightarrow> string \<Rightarrow> routes \<Rightarrow> routes" where
  "add_route consumer binary name rs = dset consumer (dset binary name (dget_or rs consumer [])) rs"

definition arch_of :: "universe \<Rightarrow> string \<Rightarrow> string option" where
  "arch_of u binary = map_option pkg_arch (dget (u_binary_index u) binary)"

definition route_consumer ::
  "universe \<Rightarrow> superseded \<Rightarrow> string \<Rightarrow> string \<Rightarrow> string list \<Rightarrow> string \<Rightarrow> routes \<Rightarrow> routes" where
  "route_consumer u binary_older name evr binaries consumer rs =
     fold (\<lambda>binary rs.
         if superseded_build binary_older binary (arch_of u binary) evr = None then rs
         else add_route consumer binary name rs)
       binaries rs"

definition add_variant ::
  "superseded \<Rightarrow> superseded \<Rightarrow> string \<times> variant \<Rightarrow> variants_state \<Rightarrow> variants_state" where
  "add_variant source_older binary_older nv st =
     (case nv of (name, v) \<Rightarrow>
        let u = vs_universe st in
        case dget (u_source_index u) (var_source v) of
          None \<Rightarrow>
            st\<lparr>vs_problems := vs_problems st @ [(''variant'', NoSourcePackage (var_source v), name)]\<rparr>
        | Some current \<Rightarrow>
            (case superseded_build source_older (var_source v) (Some (pkg_arch current)) (var_evr v) of
               None \<Rightarrow>
                 st\<lparr>vs_problems := vs_problems st @
                      [(''variant'',
                        VersionNotCarried name (var_source v) (var_evr v) (evr_string current)
                          (sort (keys (dget_or source_older (var_source v, pkg_arch current) []))),
                        name)]\<rparr>
             | Some older \<Rightarrow>
                 let binaries = dget_or (u_subpackages u) (var_source v) [];
                     u' = u\<lparr>u_source_index := dset name (older\<lparr>pkg_name := name\<rparr>) (u_source_index u)\<rparr>
                 in st\<lparr>vs_universe := u',
                       vs_build_set := List.insert name (vs_build_set st),
                       vs_subpackages := dset name binaries (vs_subpackages st),
                       vs_routes :=
                         fold (route_consumer u' binary_older name (var_evr v) binaries)
                           (var_consumers v) (vs_routes st)\<rparr>))"

definition add_source_variants ::
  "(string, variant) dict \<Rightarrow> universe \<Rightarrow> superseded \<Rightarrow> superseded \<Rightarrow> string list \<Rightarrow> variants_state" where
  "add_source_variants variants u source_older binary_older build_set =
     fold (add_variant source_older binary_older) (sorted_items variants)
       \<lparr>vs_universe = u, vs_build_set = build_set, vs_problems = [], vs_subpackages = [], vs_routes = []\<rparr>"

section \<open>Stripping, splitting, joining\<close>

lemma rdrop_while_idem: "rdrop_while p (rdrop_while p xs) = rdrop_while p xs"
  by (simp add: rdrop_while_def dropWhile_idem)

lemma dropWhile_rdrop: "dropWhile p (rdrop_while p (dropWhile p xs)) = rdrop_while p (dropWhile p xs)"
proof (cases "dropWhile p xs")
  case Nil
  show ?thesis unfolding Nil by (simp add: rdrop_while_def)
next
  case (Cons y ys)
  then have y: "\<not> p y" by (metis hd_dropWhile list.distinct(1) list.sel(1))
  have "rdrop_while p (y # ys) = y # rdrop_while p ys"
    using y by (simp add: rdrop_while_def dropWhile_append3)
  then show ?thesis using Cons y by simp
qed

lemma py_strip_idem [simp]: "py_strip (py_strip s) = py_strip s"
  by (simp add: py_strip_def dropWhile_rdrop rdrop_while_idem)

lemma set_py_strip: "set (py_strip s) \<subseteq> set s"
  unfolding py_strip_def rdrop_while_def
  by (auto dest!: set_dropWhileD)

lemma py_strip_Nil_iff: "py_strip s = [] \<longleftrightarrow> (\<forall>c \<in> set s. py_isspace c)"
proof (cases "dropWhile py_isspace s")
  case Nil
  then have "\<forall>c \<in> set s. py_isspace c" by simp
  moreover have "py_strip s = []" unfolding py_strip_def Nil by (simp add: rdrop_while_def)
  ultimately show ?thesis by simp
next
  case (Cons y ys)
  then have "\<not> py_isspace y" by (metis hd_dropWhile list.distinct(1) list.sel(1))
  moreover have "y \<in> set s" using set_dropWhileD [of y py_isspace s] Cons by simp
  ultimately show ?thesis using Cons by (auto simp: py_strip_def rdrop_while_def)
qed

lemma py_partition_append: "c \<notin> set a \<Longrightarrow> py_partition c (a @ c # b) = (a, True, b)"
proof -
  assume a: "c \<notin> set a"
  then have *: "\<And>x. x \<in> set a \<Longrightarrow> x \<noteq> c" by auto
  show ?thesis
    using * by (simp add: py_partition_def takeWhile_append2 dropWhile_append2)
qed

lemma py_partition_whole:
  "py_partition c s = (a, found, b) \<Longrightarrow> s = (if found then a @ c # b else a)"
proof -
  assume p: "py_partition c s = (a, found, b)"
  show ?thesis
  proof (cases "c \<in> set s")
    case True
    then have "dropWhile (\<lambda>d. d \<noteq> c) s \<noteq> []" by auto
    then have "dropWhile (\<lambda>d. d \<noteq> c) s = c # tl (dropWhile (\<lambda>d. d \<noteq> c) s)"
      using hd_dropWhile [of "\<lambda>d. d \<noteq> c" s] by (metis list.collapse)
    then have "s = takeWhile (\<lambda>d. d \<noteq> c) s @ c # tl (dropWhile (\<lambda>d. d \<noteq> c) s)"
      by (metis takeWhile_dropWhile_id)
    then show ?thesis using p True by (simp add: py_partition_def)
  qed (use p in \<open>simp add: py_partition_def\<close>)
qed

lemma py_partition_parts:
  assumes "py_partition c s = (a, found, b)"
  shows "c \<notin> set a" and "set a \<subseteq> set s" and "set b \<subseteq> set s"
proof -
  show "c \<notin> set a" "set a \<subseteq> set s" using assms
    by (auto simp: py_partition_def split: if_splits dest: set_takeWhileD)
  have "set (tl (dropWhile (\<lambda>d. d \<noteq> c) s)) \<subseteq> set s"
    using set_dropWhileD [of _ "\<lambda>d. d \<noteq> c" s] list.set_sel(2) by (metis subsetI tl_Nil)
  then show "set b \<subseteq> set s" using assms by (auto simp: py_partition_def split: if_splits)
qed

lemma py_split_plain: "c \<notin> set w \<Longrightarrow> py_split c w = [w]"
  by (induction w) auto

lemma py_split_append: "c \<notin> set w \<Longrightarrow> py_split c (w @ c # s) = w # py_split c s"
  by (induction w) auto

lemma py_split_join:
  "ws \<noteq> [] \<Longrightarrow> \<forall>w \<in> set ws. c \<notin> set w \<Longrightarrow> py_split c (py_join [c] ws) = ws"
  by (induction "[c]" ws rule: py_join.induct) (simp_all add: py_split_plain py_split_append)

lemma py_split_parts: "w \<in> set (py_split c s) \<Longrightarrow> c \<notin> set w"
proof (induction c s arbitrary: w rule: py_split.induct)
  case (2 c d s)
  then show ?case by (auto split: if_splits list.splits)
qed simp

section \<open>What was recorded is read back\<close>

text \<open>The form a lock records a variant in (\<^verbatim>\<open>emit_lockfile\<close>).\<close>

definition variant_text :: "string \<times> variant \<Rightarrow> string" where
  "variant_text nv = (case nv of (name, v) \<Rightarrow>
     name @ ''='' @ var_source v @ ''@'' @ var_evr v @ '':'' @ py_join '','' (var_consumers v))"

definition valid_variant :: "string \<times> variant \<Rightarrow> bool" where
  "valid_variant nv = (case nv of (name, v) \<Rightarrow>
     name \<noteq> [] \<and> py_strip name = name \<and> CHR '':'' \<notin> set name \<and> CHR ''='' \<notin> set name
     \<and> var_source v \<noteq> [] \<and> py_strip (var_source v) = var_source v
     \<and> CHR '':'' \<notin> set (var_source v) \<and> CHR ''@'' \<notin> set (var_source v)
     \<and> var_evr v \<noteq> [] \<and> py_strip (var_evr v) = var_evr v \<and> CHR '':'' \<notin> set (var_evr v)
     \<and> name \<noteq> var_source v
     \<and> (\<forall>c \<in> set (var_consumers v). c \<noteq> [] \<and> py_strip c = c \<and> CHR '','' \<notin> set c)
     \<and> sorted (var_consumers v) \<and> distinct (var_consumers v))"

lemma consumers_of_join:
  assumes "ws \<noteq> []" "\<forall>c \<in> set ws. c \<noteq> [] \<and> py_strip c = c \<and> CHR '','' \<notin> set c"
    and "sorted ws" "distinct ws"
  shows "consumers_of (py_join '','' ws) = ws"
proof -
  have "py_split CHR '','' (py_join '','' ws) = ws" by (rule py_split_join) (use assms in auto)
  moreover have "map py_strip ws = ws" by (rule map_idI) (use assms in blast)
  moreover have "filter (\<lambda>c. c \<noteq> []) ws = ws" using assms(2) by simp
  moreover have "sorted_set ws = ws" using assms(3,4) by (simp add: sorted_set_def distinct_remdups_id sorted_sort_id)
  ultimately show ?thesis by (simp add: consumers_of_def)
qed

lemma set_py_join: "w \<in> set ws \<Longrightarrow> set w \<subseteq> set (py_join t ws)"
  by (induction t ws rule: py_join.induct) auto

lemma parse_variant_text:
  assumes "valid_variant (name, v)" and "var_consumers v \<noteq> []"
  shows "parse_variant (variant_text (name, v)) = Inr (name, v)"
proof -
  let ?cs = "py_join '','' (var_consumers v)"
  note v = assms(1) [unfolded valid_variant_def prod.case]
  have 1: "py_partition CHR '':'' (variant_text (name, v)) = (name @ ''='' @ var_source v @ ''@'' @ var_evr v, True, ?cs)"
    using v py_partition_append [of "CHR '':''" "name @ ''='' @ var_source v @ ''@'' @ var_evr v" ?cs]
    by (simp add: variant_text_def)
  have 2: "py_partition CHR ''='' (name @ ''='' @ var_source v @ ''@'' @ var_evr v)
      = (name, True, var_source v @ ''@'' @ var_evr v)"
    using v py_partition_append [of "CHR ''=''" name] by simp
  have 3: "py_partition CHR ''@'' (var_source v @ ''@'' @ var_evr v) = (var_source v, True, var_evr v)"
    using v py_partition_append [of "CHR ''@''" "var_source v"] by simp
  have "py_strip ?cs \<noteq> []"
  proof -
    obtain c where c: "c \<in> set (var_consumers v)" using assms(2) by (cases "var_consumers v") auto
    then have "py_strip c \<noteq> []" using v by auto
    then show ?thesis using set_py_join [OF c, of "'',''"] unfolding py_strip_Nil_iff by blast
  qed
  moreover have "consumers_of ?cs = var_consumers v" by (rule consumers_of_join) (use v assms(2) in auto)
  ultimately show ?thesis using v unfolding parse_variant_def 1 prod.case 2 3 by (simp add: Let_def)
qed

lemma parse_variant_valid:
  assumes "parse_variant spec = Inr (name, v)"
  shows "valid_variant (name, v)"
proof -
  obtain head f consumers where 1: "py_partition CHR '':'' spec = (head, f, consumers)" by (metis prod_cases3)
  obtain n g origin where 2: "py_partition CHR ''='' head = (n, g, origin)" by (metis prod_cases3)
  obtain src h e where 3: "py_partition CHR ''@'' origin = (src, h, e)" by (metis prod_cases3)
  note p1 = py_partition_parts [OF 1] and p2 = py_partition_parts [OF 2] and p3 = py_partition_parts [OF 3]
  have nv: "name = py_strip n" "v = \<lparr>var_source = py_strip src, var_evr = py_strip e, var_consumers = consumers_of consumers\<rparr>"
    and ne: "py_strip n \<noteq> []" "py_strip src \<noteq> []" "py_strip e \<noteq> []" "py_strip n \<noteq> py_strip src"
    using assms by (auto simp: parse_variant_def 1 2 3 Let_def split: if_splits)
  have colon: "CHR '':'' \<notin> set n" "CHR '':'' \<notin> set src" "CHR '':'' \<notin> set e"
    using p1 p2 p3 by blast+
  have cs: "c \<noteq> [] \<and> py_strip c = c \<and> CHR '','' \<notin> set c" if "c \<in> set (consumers_of consumers)" for c
  proof -
    have "c \<in> py_strip ` set (py_split CHR '','' consumers)" "c \<noteq> []"
      using that unfolding consumers_of_def set_sorted_set set_filter set_map by simp_all
    then obtain w where "w \<in> set (py_split CHR '','' consumers)" "c = py_strip w" "c \<noteq> []" by blast
    then show ?thesis using py_split_parts [of w] set_py_strip [of w] by auto
  qed
  have "x \<notin> set (py_strip s)" if "x \<notin> set s" for x s using that set_py_strip by blast
  note plain = colon [THEN this] p2(1) [THEN this] p3(1) [THEN this]
  have "sorted (consumers_of consumers)" "distinct (consumers_of consumers)"
    by (simp_all add: consumers_of_def)
  then show ?thesis unfolding valid_variant_def prod.case nv using ne plain cs by simp
qed

lemma parse_variants_valid:
  "parse_variants specs vs = Inr out \<Longrightarrow> \<forall>nv \<in> set vs. valid_variant nv \<Longrightarrow> \<forall>nv \<in> set out. valid_variant nv"
proof (induction specs vs rule: parse_variants.induct)
  case (2 spec specs vs)
  obtain name v where p: "parse_variant spec = Inr (name, v)"
    using "2.prems"(1) by (cases "parse_variant spec") auto
  have "\<forall>nv \<in> set (dset name v vs). valid_variant nv"
    using "2.prems"(2) parse_variant_valid [OF p] by (auto dest!: set_dset)
  then show ?case using 2 p by simp
qed simp

lemma distinct_parse_variants:
  "parse_variants specs vs = Inr out \<Longrightarrow> distinct (map fst vs) \<Longrightarrow> distinct (map fst out)"
  by (induction specs vs rule: parse_variants.induct) (auto split: sum.splits prod.splits)

lemma parse_variants_texts:
  assumes "\<forall>nv \<in> set nvs. valid_variant nv \<and> var_consumers (snd nv) \<noteq> []"
    and "distinct (map fst nvs)" and "set (map fst vs) \<inter> set (map fst nvs) = {}"
  shows "parse_variants (map variant_text nvs) vs = Inr (vs @ nvs)"
  using assms
proof (induction nvs arbitrary: vs)
  case (Cons nv nvs)
  obtain name v where nv: "nv = (name, v)" by fastforce
  have p: "parse_variant (variant_text nv) = Inr (name, v)"
    using Cons.prems(1) parse_variant_text [of name v] by (simp add: nv)
  have "dset name v vs = vs @ [(name, v)]"
    by (rule update_fresh) (use Cons.prems(3) in \<open>auto simp: nv map_of_eq_None_iff\<close>)
  moreover have "parse_variants (map variant_text nvs) (vs @ [(name, v)]) = Inr ((vs @ [(name, v)]) @ nvs)"
    by (rule Cons.IH) (use Cons.prems in \<open>auto simp: nv\<close>)
  ultimately show ?case using p by (simp add: nv)
qed simp

text \<open>
  the variants a lock records are read back unchanged: whatever declarations were given, the
  recorded texts, one for each variant in name order, parse to the same variants again, provided
  each has a consumer left once its list is cleaned.
\<close>
theorem variants_round_trip:
  assumes "parse_source_variants specs = Inr variants" and "\<forall>(name, v) \<in> set variants. var_consumers v \<noteq> []"
  shows "parse_source_variants (map variant_text (sorted_items variants)) = Inr (sorted_items variants)"
proof -
  have d: "distinct (map fst (sorted_items variants))"
    using distinct_parse_variants [of specs "[]" variants] assms(1) sorted_items_facts(3)
    by (simp add: parse_source_variants_def)
  have "\<forall>nv \<in> set variants. valid_variant nv"
    using parse_variants_valid [of specs "[]" variants] assms(1) by (simp add: parse_source_variants_def)
  then show ?thesis
    using parse_variants_texts [of "sorted_items variants" "[]"] d assms(2)
    by (simp add: parse_source_variants_def sorted_items_facts(1) case_prod_beta)
qed

text \<open>
  A colon ends the version of a variant, so one whose version carries an epoch cannot be named,
  although the superseded builds it is looked up in are keyed by versions that do carry it.
\<close>

lemma variant_evr_has_no_epoch: "parse_variant spec = Inr (name, v) \<Longrightarrow> CHR '':'' \<notin> set (var_evr v)"
  by (drule parse_variant_valid) (simp add: valid_variant_def)

theorem variants_round_trip_witness:
  "\<exists>vs. parse_source_variants [''tool=acl@1:rsync'', '' acl-compat = acl@2.3.2-4.fc43 : tar, rsync,tar''] = Inr vs
     \<and> parse_source_variants (map variant_text (sorted_items vs)) = Inr (sorted_items vs)
     \<and> map variant_text (sorted_items vs) = [''acl-compat=acl@2.3.2-4.fc43:rsync,tar'', ''tool=acl@1:rsync'']"
proof -
  let ?vs = "[(''tool'', \<lparr>var_source = ''acl'', var_evr = ''1'', var_consumers = [''rsync'']\<rparr>),
     (''acl-compat'', \<lparr>var_source = ''acl'', var_evr = ''2.3.2-4.fc43'', var_consumers = [''rsync'', ''tar'']\<rparr>)]"
  have p: "parse_source_variants [''tool=acl@1:rsync'', '' acl-compat = acl@2.3.2-4.fc43 : tar, rsync,tar''] = Inr ?vs"
    by code_simp
  have t: "map variant_text (sorted_items ?vs) = [''acl-compat=acl@2.3.2-4.fc43:rsync,tar'', ''tool=acl@1:rsync'']"
    by code_simp
  show ?thesis using p t variants_round_trip [OF p] by (intro exI [of _ ?vs]) simp
qed

text \<open>
  The guard looks at the text of the consumer list, not at the list: a comma passes it and leaves
  no consumer, although the comment rules that out, and what is then recorded is refused.
\<close>

lemma variant_without_consumers:
  "parse_variant ''a=b@1:,'' = Inr (''a'', \<lparr>var_source = ''b'', var_evr = ''1'', var_consumers = []\<rparr>)"
  "parse_variant (variant_text (''a'', \<lparr>var_source = ''b'', var_evr = ''1'', var_consumers = []\<rparr>))
     = Inl (MalformedVariant ''a=b@1:'')"
  by code_simp+

section \<open>Routes\<close>

lemma dget_add_route:
  "dget (dget_or (add_route c b name rs) c' []) b' =
     (if c' = c \<and> b' = b then Some name else dget (dget_or rs c' []) b')"
  by (auto simp: add_route_def dget_or_def)

lemma fold_routes:
  assumes "\<And>x rs. dget (dget_or (f x rs) c []) b = Some n \<Longrightarrow> dget (dget_or rs c []) b = Some n \<or> P x"
    and "dget (dget_or (fold f xs rs) c []) b = Some n"
  shows "dget (dget_or rs c []) b = Some n \<or> (\<exists>x \<in> set xs. P x)"
  using assms(2)
proof (induction xs arbitrary: rs)
  case (Cons x xs)
  then show ?case using assms(1) [of x rs] by auto
qed simp

lemma route_consumer_sound:
  assumes "dget (dget_or (route_consumer u older name evr binaries consumer rs) c []) b = Some n"
  shows "dget (dget_or rs c []) b = Some n
    \<or> (n = name \<and> c = consumer \<and> b \<in> set binaries \<and> superseded_build older b (arch_of u b) evr \<noteq> None)"
proof -
  have "dget (dget_or rs c []) b = Some n \<or> (\<exists>x \<in> set binaries.
      x = b \<and> n = name \<and> c = consumer \<and> superseded_build older b (arch_of u b) evr \<noteq> None)"
    by (rule fold_routes [OF _ assms [unfolded route_consumer_def]])
       (auto simp: dget_add_route split: if_splits)
  then show ?thesis by auto
qed

text \<open>What a variant leaves alone, and what it adds.\<close>

definition keeps_maps :: "universe \<Rightarrow> universe \<Rightarrow> bool" where
  "keeps_maps u u' =
     (u_provides u' = u_provides u \<and> u_requires u' = u_requires u \<and> u_source_of u' = u_source_of u
      \<and> u_subpackages u' = u_subpackages u \<and> u_binary_index u' = u_binary_index u
      \<and> u_provide_evr u' = u_provide_evr u)"

definition routed_by ::
  "universe \<Rightarrow> superseded \<Rightarrow> variants_state \<Rightarrow> string \<times> variant \<Rightarrow> string \<Rightarrow> string \<Rightarrow> bool" where
  "routed_by u older st nv consumer binary = (case nv of (name, v) \<Rightarrow>
     name \<in> set (vs_build_set st) \<and> dget (vs_subpackages st) name \<noteq> None
     \<and> consumer \<in> set (var_consumers v)
     \<and> binary \<in> set (dget_or (u_subpackages u) (var_source v) [])
     \<and> superseded_build older binary (arch_of u binary) (var_evr v) \<noteq> None)"

definition routes_sound :: "universe \<Rightarrow> superseded \<Rightarrow> (string \<times> variant) set \<Rightarrow> variants_state \<Rightarrow> bool" where
  "routes_sound u older nvs st =
     (keeps_maps u (vs_universe st) \<and>
      (\<forall>c b n. dget (dget_or (vs_routes st) c []) b = Some n \<longrightarrow>
         (\<exists>v. (n, v) \<in> nvs \<and> routed_by u older st (n, v) c b)))"

lemma superseded_build_keeps: "keeps_maps u u' \<Longrightarrow> arch_of u' b = arch_of u b"
  by (simp add: arch_of_def keeps_maps_def)

lemma add_variant_sound:
  assumes "routes_sound u older nvs st" and "nv \<in> nvs"
  shows "routes_sound u older nvs (add_variant source_older older nv st)"
proof -
  obtain name v where nv: "nv = (name, v)" by fastforce
  note ks = assms(1) [unfolded routes_sound_def, THEN conjunct1]
  note rs = assms(1) [unfolded routes_sound_def, THEN conjunct2, rule_format]
  show ?thesis
  proof (cases "dget (u_source_index (vs_universe st)) (var_source v)")
    case None
    then show ?thesis using assms(1) by (simp add: nv add_variant_def routes_sound_def routed_by_def Let_def)
  next
    case (Some current)
    show ?thesis
    proof (cases "superseded_build source_older (var_source v) (Some (pkg_arch current)) (var_evr v)")
      case None
      then show ?thesis using assms(1) Some
        by (simp add: nv add_variant_def routes_sound_def routed_by_def Let_def)
    next
      case old: (Some old)
      let ?u' = "vs_universe st\<lparr>u_source_index := dset name (old\<lparr>pkg_name := name\<rparr>) (u_source_index (vs_universe st))\<rparr>"
      let ?bs = "dget_or (u_subpackages (vs_universe st)) (var_source v) []"
      let ?st' = "add_variant source_older older nv st"
      have st': "vs_universe ?st' = ?u'" "vs_build_set ?st' = List.insert name (vs_build_set st)"
        "vs_subpackages ?st' = dset name ?bs (vs_subpackages st)"
        "vs_routes ?st' = fold (route_consumer ?u' older name (var_evr v) ?bs) (var_consumers v) (vs_routes st)"
        using Some old by (simp_all add: nv add_variant_def Let_def)
      have k: "keeps_maps u ?u'" using ks by (simp add: keeps_maps_def)
      have "\<exists>w. (n, w) \<in> nvs \<and> routed_by u older ?st' (n, w) c b"
        if "dget (dget_or (vs_routes ?st') c []) b = Some n" for c b n
      proof -
        have "dget (dget_or (vs_routes st) c []) b = Some n \<or> (\<exists>consumer \<in> set (var_consumers v).
            n = name \<and> c = consumer \<and> b \<in> set ?bs \<and> superseded_build older b (arch_of ?u' b) (var_evr v) \<noteq> None)"
          using that unfolding st'(4) by (rule fold_routes [rotated]) (rule route_consumer_sound)
        then show ?thesis
        proof
          assume "dget (dget_or (vs_routes st) c []) b = Some n"
          from rs [OF this] show ?thesis by (auto simp: routed_by_def st')
        next
          assume "\<exists>consumer \<in> set (var_consumers v). n = name \<and> c = consumer \<and> b \<in> set ?bs
              \<and> superseded_build older b (arch_of ?u' b) (var_evr v) \<noteq> None"
          then have "routed_by u older ?st' (n, v) c b" "n = name"
            using k ks superseded_build_keeps [OF k] by (auto simp: routed_by_def st' keeps_maps_def)
          then show ?thesis using assms(2) nv by blast
        qed
      qed
      then show ?thesis using k by (simp add: routes_sound_def st'(1))
    qed
  qed
qed

lemma add_source_variants_sound:
  "routes_sound u older (set variants) (add_source_variants variants u source_older older build_set)"
proof -
  have "routes_sound u older (set variants) (fold (add_variant source_older older) nvs st)"
    if "routes_sound u older (set variants) st" "set nvs \<subseteq> set variants" for nvs st
    using that by (induction nvs arbitrary: st) (auto intro: add_variant_sound)
  moreover have "routes_sound u older (set variants) \<lparr>vs_universe = u, vs_build_set = build_set,
      vs_problems = [], vs_subpackages = [], vs_routes = []\<rparr>"
    by (simp add: routes_sound_def keeps_maps_def dget_or_def)
  ultimately show ?thesis unfolding add_source_variants_def by (simp add: sorted_items_facts(1))
qed

text \<open>A source that no variant is named after keeps its record.\<close>

lemma add_source_variants_index:
  "src \<notin> set (map fst variants)
   \<Longrightarrow> dget (u_source_index (vs_universe (add_source_variants variants u source_older older build_set))) src
     = dget (u_source_index u) src"
proof -
  assume src: "src \<notin> set (map fst variants)"
  have "dget (u_source_index (vs_universe (fold (add_variant source_older older) nvs st))) src
      = dget (u_source_index (vs_universe st)) src" if "src \<notin> set (map fst nvs)" for nvs st
    using that
  proof (induction nvs arbitrary: st)
    case (Cons nv nvs)
    have "dget (u_source_index (vs_universe (add_variant source_older older nv st))) src
        = dget (u_source_index (vs_universe st)) src"
      using Cons.prems by (cases nv) (auto simp: add_variant_def Let_def split: option.split)
    then show ?case using Cons by simp
  qed simp
  then show ?thesis using src unfolding add_source_variants_def
    by (simp add: sorted_items_facts(1) image_iff del: split_paired_Ex)
qed

text \<open>
  C16: registering variants reroutes only the consumers a variant names, only for binaries of the
  source it is a second build of, and only where an older build at its version exists to be used;
  the maps that say who normally provides and builds a binary are left as they were.
\<close>
theorem variant_routes_sound:
  assumes "dget (dget_or (vs_routes (add_source_variants variants u source_older older build_set)) consumer []) binary
    = Some name"
  shows "\<exists>v. (name, v) \<in> set variants
    \<and> routed_by u older (add_source_variants variants u source_older older build_set) (name, v) consumer binary
    \<and> keeps_maps u (vs_universe (add_source_variants variants u source_older older build_set))"
  using assms add_source_variants_sound [of u older variants source_older build_set]
  unfolding routes_sound_def by blast

text \<open>Two builds of acl, and a consumer pinned to the older one.\<close>

theorem variant_routes_sound_witness:
  "\<exists>v. (''acl-compat'', v) \<in> set [(''acl-compat'', \<lparr>var_source = ''acl'', var_evr = ''2.3.2-1.fc43'', var_consumers = [''tar'']\<rparr>)]
     \<and> ''tar'' \<in> set (var_consumers v)"
proof -
  let ?old = "build_at ''acl'' ''2.3.2'' ''src'' None"
  let ?new = "build_at ''acl'' ''2.4.0'' ''src'' None"
  let ?bin = "build_at ''libacl'' ''2.4.0'' ''x86_64'' None\<lparr>pkg_sourcerpm := Some ''acl-2.4.0-1.fc43.src.rpm''\<rparr>"
  let ?u = "build_universe [?bin] [?new] ''x86_64'' [] []"
  let ?vs = "[(''acl-compat'', \<lparr>var_source = ''acl'', var_evr = ''2.3.2-1.fc43'', var_consumers = [''tar'']\<rparr>)]"
  let ?so = "[((''acl'', ''src''), [(''2.3.2-1.fc43'', ?old)])]"
  let ?bo = "[((''libacl'', ''x86_64''), [(''2.3.2-1.fc43'', build_at ''libacl'' ''2.3.2'' ''x86_64'' None)])]"
  have "dget (dget_or (vs_routes (add_source_variants ?vs ?u ?so ?bo [''tar''])) ''tar'' []) ''libacl'' = Some ''acl-compat''"
    by code_simp
  from variant_routes_sound [OF this] show ?thesis unfolding routed_by_def prod.case by blast
qed

end
