(* ===== verification/Json.thy ===== *)
theory Json
  imports Prelude
begin

text \<open>
  The values a JSON document holds once Python has read it, and Python's equality on them: objects
  are compared as dictionaries, whatever order their keys have, and a truth value equals the number
  it stands for. Numbers are integers here; none of the modelled code writes or compares another.
  A Python exception is the left of a sum, and \<open>attempt\<close> runs the next statement unless there was one.
\<close>

datatype json =
    JNull
  | JBool bool
  | JInt int
  | JStr string
  | JList "json list"
  | JObj "(string \<times> json) list"

type_synonym jobj = "(string, json) dict"

definition truth_int :: "bool \<Rightarrow> int" where
  "truth_int b = (if b then 1 else 0)"

lemma size_dict_entry: "(k, v) \<in> set d \<Longrightarrow> size v < Suc (size_list (size_prod (\<lambda>_. 0) size) d)"
  by (induction d) auto

lemma size_zip_fst: "(x, y) \<in> set (zip xs ys) \<Longrightarrow> size x < Suc (size_list size xs)"
  by (auto dest!: set_zip_leftD intro: size_list_estimation le_imp_less_Suc size_list_estimation' [of x _ "size x"])

function json_eq :: "json \<Rightarrow> json \<Rightarrow> bool" where
  "json_eq JNull y = (y = JNull)"
| "json_eq (JBool a) y = (case y of JBool b \<Rightarrow> a = b | JInt n \<Rightarrow> truth_int a = n | _ \<Rightarrow> False)"
| "json_eq (JInt n) y = (case y of JInt m \<Rightarrow> n = m | JBool b \<Rightarrow> n = truth_int b | _ \<Rightarrow> False)"
| "json_eq (JStr s) y = (y = JStr s)"
| "json_eq (JList xs) y =
     (case y of
        JList ys \<Rightarrow> length xs = length ys \<and> (\<forall>p \<in> set (zip xs ys). json_eq (fst p) (snd p))
      | _ \<Rightarrow> False)"
| "json_eq (JObj d) y =
     (case y of
        JObj e \<Rightarrow> length d = length e
          \<and> (\<forall>kv \<in> set d. case dget e (fst kv) of None \<Rightarrow> False | Some w \<Rightarrow> json_eq (snd kv) w)
      | _ \<Rightarrow> False)"
  by pat_completeness auto
termination
  by (relation "measure (\<lambda>(x, y). size x)") (auto dest: size_zip_fst size_dict_entry)

text \<open>Dictionaries have one value for each key, at every depth.\<close>

function well_formed :: "json \<Rightarrow> bool" where
  "well_formed (JList xs) = (\<forall>x \<in> set xs. well_formed x)"
| "well_formed (JObj d) = (distinct (map fst d) \<and> (\<forall>kv \<in> set d. well_formed (snd kv)))"
| "well_formed JNull = True"
| "well_formed (JBool b) = True"
| "well_formed (JInt n) = True"
| "well_formed (JStr s) = True"
  by pat_completeness auto
termination
  by (relation "measure size") (auto intro: le_imp_less_Suc size_list_estimation' dest: size_dict_entry)

lemma json_eq_refl [simp]: "well_formed x \<Longrightarrow> json_eq x x"
proof (induction x rule: well_formed.induct)
  case (1 xs)
  then show ?case by (auto simp: zip_same_conv_map)
qed auto

definition attempt :: "'e + 'a \<Rightarrow> ('a \<Rightarrow> 'e + 'b) \<Rightarrow> 'e + 'b" where
  "attempt r f = (case r of Inl e \<Rightarrow> Inl e | Inr x \<Rightarrow> f x)"

lemma attempt_simps [simp]: "attempt (Inl e) f = Inl e" "attempt (Inr x) f = f x"
  by (simp_all add: attempt_def)

lemma attempt_Inr: "attempt r f = Inr y \<longleftrightarrow> (\<exists>x. r = Inr x \<and> f x = Inr y)"
  by (cases r) auto

lemma attempt_Inl: "attempt r f = Inl e \<longleftrightarrow> r = Inl e \<or> (\<exists>x. r = Inr x \<and> f x = Inl e)"
  by (cases r) auto

lemma attempt_cong [fundef_cong]:
  "r = r' \<Longrightarrow> (\<And>x. r' = Inr x \<Longrightarrow> f x = g x) \<Longrightarrow> attempt r f = attempt r' g"
  by (cases r') auto

definition map_error :: "('e \<Rightarrow> 'f) \<Rightarrow> 'e + 'a \<Rightarrow> 'f + 'a" where
  "map_error f r = (case r of Inl e \<Rightarrow> Inl (f e) | Inr x \<Rightarrow> Inr x)"

lemma map_error_Inr [simp]: "map_error f r = Inr x \<longleftrightarrow> r = Inr x"
  by (simp add: map_error_def split: sum.split)

end
