(* ===== verification/SourcePolicy.thy ===== *)
theory SourcePolicy
  imports Json
begin

text \<open>
  \<^verbatim>\<open>tools/source_policy.py\<close>: the policy a lock records about where the payloads of its
  images come from. Every payload is either produced by a source package the lock builds or
  covered by a reviewed exception; the policy is what remains after that was proved.
\<close>

definition SOURCE_POLICY_SCHEMA :: int where
  "SOURCE_POLICY_SCHEMA = 1"

definition SOURCE_EXCEPTION_KINDS :: "string list" where
  "SOURCE_EXCEPTION_KINDS =
     [''fedora-45-tar-incompatibility'', ''firmware'', ''host-kernel-capability'',
      ''host-kernel-input'', ''signed-artifact'']"

text \<open>
  The messages of \<open>SourcePolicyError\<close>; \<open>WrongType\<close> stands for the exception Python raises where
  a recorded value is not of the type the functions are annotated with.
\<close>

datatype policy_error =
    NoText string string
  | DuplicateException string
  | UnsupportedKind string string
  | InvalidSource string
  | NoImageSets
  | MissingImageSet string
  | DuplicatePackage string string
  | StaleException string string
  | OtherSource string string json
  | Uncovered string "string list"
  | UnusedExceptions "string list"
  | UnsupportedSchema json
  | PolicyDiffers
  | WrongType

section \<open>Exceptions\<close>

definition text_of :: "jobj \<Rightarrow> string \<Rightarrow> string option" where
  "text_of record field =
     (case dget record field of
        Some (JStr v) \<Rightarrow> if py_strip v = [] then None else Some v
      | _ \<Rightarrow> None)"

definition require_text :: "jobj \<Rightarrow> string \<Rightarrow> string \<Rightarrow> policy_error + string" where
  "require_text record field subject =
     (case text_of record field of None \<Rightarrow> Inl (NoText subject field) | Some v \<Rightarrow> Inr v)"

record policy_exception =
  exc_kind :: string
  exc_package :: string
  exc_reason :: string
  exc_source :: "string option"

text \<open>\<open>raw.get("source")\<close> when it is there: absent and null are the same.\<close>

definition source_of_exception :: "jobj \<Rightarrow> string \<Rightarrow> policy_error + string option" where
  "source_of_exception raw package =
     (case dget raw ''source'' of
        None \<Rightarrow> Inr None
      | Some JNull \<Rightarrow> Inr None
      | Some _ \<Rightarrow> (case text_of raw ''source'' of None \<Rightarrow> Inl (InvalidSource package) | Some s \<Rightarrow> Inr (Some s)))"

definition exception_entry ::
  "jobj \<Rightarrow> (string, policy_exception) dict \<Rightarrow> policy_error + policy_exception" where
  "exception_entry raw indexed =
     attempt (require_text raw ''package'' ''source exception'') (\<lambda>package.
       if dget indexed package \<noteq> None then Inl (DuplicateException package)
       else
         attempt (require_text raw ''kind'' (''source exception '' @ package)) (\<lambda>kind.
           if kind \<notin> set SOURCE_EXCEPTION_KINDS then Inl (UnsupportedKind package kind)
           else
             attempt (require_text raw ''reason'' (''source exception '' @ package)) (\<lambda>reason.
               attempt (source_of_exception raw package) (\<lambda>source.
                 Inr \<lparr>exc_kind = kind, exc_package = package, exc_reason = reason,
                      exc_source = source\<rparr>))))"

fun exception_index ::
  "jobj list \<Rightarrow> (string, policy_exception) dict
   \<Rightarrow> policy_error + (string, policy_exception) dict" where
  "exception_index [] indexed = Inr indexed"
| "exception_index (raw # exceptions) indexed =
     attempt (exception_entry raw indexed) (\<lambda>entry.
       exception_index exceptions (dset (exc_package entry) entry indexed))"

section \<open>Coverage\<close>

record tally =
  tal_seen :: "string list"
  tal_source :: nat
  tal_pinned :: nat
  tal_missing :: "string list"
  tal_used :: "string list"

definition payload_source :: "jobj \<Rightarrow> json" where
  "payload_source payload = dget_or payload ''source'' JNull"

definition produced :: "string set \<Rightarrow> jobj \<Rightarrow> bool" where
  "produced producers payload =
     (case payload_source payload of JStr s \<Rightarrow> s \<in> producers | _ \<Rightarrow> False)"

definition source_text :: "jobj \<Rightarrow> string" where
  "source_text payload = (case payload_source payload of JStr s \<Rightarrow> s | _ \<Rightarrow> [])"

definition take_payload ::
  "string \<Rightarrow> string set \<Rightarrow> (string, policy_exception) dict \<Rightarrow> jobj \<Rightarrow> tally
   \<Rightarrow> policy_error + tally" where
  "take_payload img producers index payload t =
     attempt (require_text payload ''package'' (img @ '' image payload'')) (\<lambda>package.
       if package \<in> set (tal_seen t) then Inl (DuplicatePackage img package)
       else
         let t = t\<lparr>tal_seen := package # tal_seen t\<rparr> in
         if produced producers payload then
           (if dget index package \<noteq> None then Inl (StaleException package (source_text payload))
            else Inr (t\<lparr>tal_source := Suc (tal_source t)\<rparr>))
         else
           case dget index package of
             None \<Rightarrow> Inr (t\<lparr>tal_missing := tal_missing t @ [package]\<rparr>)
           | Some e \<Rightarrow>
               (case exc_source e of
                  Some s \<Rightarrow>
                    if payload_source payload \<noteq> JStr s
                    then Inl (OtherSource package s (payload_source payload))
                    else Inr (t\<lparr>tal_used := List.insert package (tal_used t),
                               tal_pinned := Suc (tal_pinned t)\<rparr>)
                | None \<Rightarrow> Inr (t\<lparr>tal_used := List.insert package (tal_used t),
                                tal_pinned := Suc (tal_pinned t)\<rparr>)))"

fun take_payloads ::
  "string \<Rightarrow> string set \<Rightarrow> (string, policy_exception) dict \<Rightarrow> jobj list \<Rightarrow> tally
   \<Rightarrow> policy_error + tally" where
  "take_payloads img producers index [] t = Inr t"
| "take_payloads img producers index (payload # payloads) t =
     attempt (take_payload img producers index payload t)
       (take_payloads img producers index payloads)"

record coverage =
  cov_pinned :: nat
  cov_source :: nat
  cov_total :: nat

definition fresh_tally :: "string list \<Rightarrow> tally" where
  "fresh_tally used =
     \<lparr>tal_seen = [], tal_source = 0, tal_pinned = 0, tal_missing = [], tal_used = used\<rparr>"

definition coverage_of :: "tally \<Rightarrow> coverage" where
  "coverage_of t =
     \<lparr>cov_pinned = tal_pinned t, cov_source = tal_source t, cov_total = tal_source t + tal_pinned t\<rparr>"

text \<open>The loop over the selected image sets: the exceptions used so far, and the summary.\<close>

fun cover_images ::
  "(string, jobj list) dict \<Rightarrow> string set \<Rightarrow> (string, policy_exception) dict \<Rightarrow> string list
   \<Rightarrow> string list \<Rightarrow> (string, coverage) dict
   \<Rightarrow> policy_error + string list \<times> (string, coverage) dict" where
  "cover_images image_sets producers index [] used summary = Inr (used, summary)"
| "cover_images image_sets producers index (img # images) used summary =
     (case dget image_sets img of
        None \<Rightarrow> Inl (MissingImageSet img)
      | Some payloads \<Rightarrow>
          attempt (take_payloads img producers index payloads (fresh_tally used)) (\<lambda>t.
            if tal_missing t \<noteq> [] then Inl (Uncovered img (sort (tal_missing t)))
            else cover_images image_sets producers index images (tal_used t)
                   (dset img (coverage_of t) summary)))"

record source_policy =
  pol_exceptions :: "policy_exception list"
  pol_image_sets :: "string list"
  pol_schema :: int
  pol_summary :: "(string, coverage) dict"

definition build_source_policy ::
  "(string, jobj list) dict \<Rightarrow> string set \<Rightarrow> jobj list \<Rightarrow> string list
   \<Rightarrow> policy_error + source_policy" where
  "build_source_policy image_sets producers exceptions selected_image_sets =
     (let selected = sorted_set selected_image_sets in
      if selected = [] then Inl NoImageSets
      else
        attempt (exception_index exceptions []) (\<lambda>index.
          attempt (cover_images image_sets producers index selected [] []) (\<lambda>(used, summary).
            let stale = sort (filter (\<lambda>p. p \<notin> set used) (keys index)) in
            if stale \<noteq> [] then Inl (UnusedExceptions stale)
            else Inr \<lparr>pol_exceptions = List.map_filter (dget index) (sort used),
                      pol_image_sets = selected, pol_schema = SOURCE_POLICY_SCHEMA,
                      pol_summary = summary\<rparr>)))"

section \<open>Validation of a recorded policy\<close>

definition exception_json :: "policy_exception \<Rightarrow> jobj" where
  "exception_json e =
     [(''kind'', JStr (exc_kind e)), (''package'', JStr (exc_package e)),
      (''reason'', JStr (exc_reason e))]
     @ (case exc_source e of None \<Rightarrow> [] | Some s \<Rightarrow> [(''source'', JStr s)])"

definition coverage_json :: "coverage \<Rightarrow> json" where
  "coverage_json c =
     JObj [(''pinned'', JInt (int (cov_pinned c))), (''source'', JInt (int (cov_source c))),
           (''total'', JInt (int (cov_total c)))]"

definition policy_json :: "source_policy \<Rightarrow> jobj" where
  "policy_json pol =
     [(''exceptions'', JList (map (JObj \<circ> exception_json) (pol_exceptions pol))),
      (''image_sets'', JList (map JStr (pol_image_sets pol))),
      (''schema'', JInt (pol_schema pol)),
      (''summary'', JObj (map (\<lambda>(img, c). (img, coverage_json c)) (pol_summary pol)))]"

text \<open>What iterating over a JSON value yields.\<close>

definition iterate :: "json \<Rightarrow> json list option" where
  "iterate v =
     (case v of
        JList xs \<Rightarrow> Some xs
      | JObj d \<Rightarrow> Some (map (JStr \<circ> fst) d)
      | JStr s \<Rightarrow> Some (map (\<lambda>c. JStr [c]) s)
      | _ \<Rightarrow> None)"

definition texts_of :: "json \<Rightarrow> policy_error + string list" where
  "texts_of v =
     (case iterate v of
        None \<Rightarrow> Inl WrongType
      | Some xs \<Rightarrow>
          if list_all (\<lambda>x. case x of JStr _ \<Rightarrow> True | _ \<Rightarrow> False) xs
          then Inr (map (\<lambda>x. case x of JStr s \<Rightarrow> s | _ \<Rightarrow> []) xs) else Inl WrongType)"

definition objects_of :: "json \<Rightarrow> policy_error + jobj list" where
  "objects_of v =
     (case iterate v of
        None \<Rightarrow> Inl WrongType
      | Some xs \<Rightarrow>
          if list_all (\<lambda>x. case x of JObj _ \<Rightarrow> True | _ \<Rightarrow> False) xs
          then Inr (map (\<lambda>x. case x of JObj d \<Rightarrow> d | _ \<Rightarrow> []) xs) else Inl WrongType)"

definition validate_source_policy ::
  "jobj \<Rightarrow> (string, jobj list) dict \<Rightarrow> string set \<Rightarrow> policy_error + unit" where
  "validate_source_policy recorded image_sets producers =
     (if \<not> json_eq (dget_or recorded ''schema'' JNull) (JInt SOURCE_POLICY_SCHEMA)
      then Inl (UnsupportedSchema (dget_or recorded ''schema'' JNull))
      else
        attempt (texts_of (dget_or recorded ''image_sets'' (JList []))) (\<lambda>selected.
        attempt (objects_of (dget_or recorded ''exceptions'' (JList []))) (\<lambda>exceptions.
        attempt (build_source_policy image_sets producers exceptions selected) (\<lambda>expected.
          if json_eq (JObj recorded) (JObj (policy_json expected)) then Inr () else Inl PolicyDiffers))))"

section \<open>What the index of exceptions is\<close>

lemma sorted_set_Nil [simp]: "sorted_set xs = [] \<longleftrightarrow> xs = []"
  by (metis set_empty set_sorted_set)

lemma sort_Nil [simp]: "sort xs = [] \<longleftrightarrow> xs = []"
  by (metis set_empty set_sort)

text \<open>One exception as the reviewer wrote it, when it is a valid one.\<close>

definition entry_of :: "jobj \<Rightarrow> policy_exception option" where
  "entry_of raw =
     (case (text_of raw ''package'', text_of raw ''kind'', text_of raw ''reason'') of
        (Some package, Some kind, Some reason) \<Rightarrow>
          (if kind \<notin> set SOURCE_EXCEPTION_KINDS then None
           else case source_of_exception raw package of
                  Inl _ \<Rightarrow> None
                | Inr source \<Rightarrow> Some \<lparr>exc_kind = kind, exc_package = package, exc_reason = reason,
                                   exc_source = source\<rparr>)
      | _ \<Rightarrow> None)"

lemma require_text_Inr: "require_text record field subject = Inr v \<longleftrightarrow> text_of record field = Some v"
  by (simp add: require_text_def split: option.split)

lemma exception_entry_Inr:
  "exception_entry raw indexed = Inr e \<longleftrightarrow> entry_of raw = Some e \<and> dget indexed (exc_package e) = None"
proof (cases "text_of raw ''package''")
  case None
  then show ?thesis by (simp add: exception_entry_def entry_of_def require_text_def)
next
  case (Some package)
  show ?thesis
  proof (cases "dget indexed package")
    case None
    then show ?thesis using Some
      by (auto simp: exception_entry_def entry_of_def require_text_def split: option.splits sum.splits)
  next
    case (Some x)
    then show ?thesis using \<open>text_of raw ''package'' = Some package\<close>
      by (auto simp: exception_entry_def entry_of_def require_text_def split: option.splits sum.splits)
  qed
qed

definition index_of :: "policy_exception list \<Rightarrow> (string, policy_exception) dict" where
  "index_of es = map (\<lambda>e. (exc_package e, e)) es"

lemma exception_index_Inr:
  "exception_index raws indexed = Inr out \<longleftrightarrow>
     (\<exists>es. map entry_of raws = map Some es \<and> distinct (map exc_package es)
        \<and> (\<forall>e \<in> set es. dget indexed (exc_package e) = None) \<and> out = indexed @ index_of es)"
proof (induction raws arbitrary: indexed)
  case Nil
  then show ?case by (auto simp: index_of_def)
next
  case (Cons raw raws)
  have "exception_index (raw # raws) indexed = Inr out \<longleftrightarrow>
      (\<exists>e es. entry_of raw = Some e \<and> dget indexed (exc_package e) = None
         \<and> map entry_of raws = map Some es \<and> distinct (map exc_package es)
         \<and> (\<forall>x \<in> set es. exc_package x \<noteq> exc_package e \<and> dget indexed (exc_package x) = None)
         \<and> out = indexed @ index_of (e # es))"
    unfolding exception_index.simps attempt_Inr exception_entry_Inr Cons.IH
    by (fastforce simp: update_fresh index_of_def split: if_splits)
  also have "\<dots> \<longleftrightarrow> (\<exists>es. map entry_of (raw # raws) = map Some es \<and> distinct (map exc_package es)
        \<and> (\<forall>e \<in> set es. dget indexed (exc_package e) = None) \<and> out = indexed @ index_of es)"
    (is "?l \<longleftrightarrow> ?r")
  proof
    assume ?r
    then obtain es where es: "map entry_of (raw # raws) = map Some es" "distinct (map exc_package es)"
      "\<forall>e \<in> set es. dget indexed (exc_package e) = None" "out = indexed @ index_of es" by blast
    then show ?l by (cases es) (auto simp: image_iff)
  next
    assume ?l
    then obtain e es where "entry_of raw = Some e" "dget indexed (exc_package e) = None"
      "map entry_of raws = map Some es" "distinct (map exc_package es)"
      "\<forall>x \<in> set es. exc_package x \<noteq> exc_package e \<and> dget indexed (exc_package x) = None"
      "out = indexed @ index_of (e # es)" by blast
    then show ?r by (intro exI [of _ "e # es"]) (auto simp: image_iff)
  qed
  finally show ?case .
qed

lemma dget_index_of: "distinct (map exc_package es) \<Longrightarrow> e \<in> set es \<Longrightarrow> dget (index_of es) (exc_package e) = Some e"
  by (simp add: index_of_def comp_def)

lemma dget_index_of_None: "dget (index_of es) p = None \<longleftrightarrow> p \<notin> exc_package ` set es"
  by (simp add: index_of_def map_of_eq_None_iff image_image)

section \<open>What the loops compute\<close>

definition name_of :: "jobj \<Rightarrow> string" where
  "name_of payload = the (text_of payload ''package'')"

text \<open>A payload the loop gets past, and one it gets past but finds nothing for.\<close>

definition matches :: "policy_exception \<Rightarrow> jobj \<Rightarrow> bool" where
  "matches e payload = (case exc_source e of None \<Rightarrow> True | Some s \<Rightarrow> payload_source payload = JStr s)"

definition fits :: "string set \<Rightarrow> (string, policy_exception) dict \<Rightarrow> jobj \<Rightarrow> bool" where
  "fits producers index payload =
     (text_of payload ''package'' \<noteq> None \<and>
      (case dget index (name_of payload) of
         None \<Rightarrow> True | Some e \<Rightarrow> \<not> produced producers payload \<and> matches e payload))"

definition lacks :: "string set \<Rightarrow> (string, policy_exception) dict \<Rightarrow> jobj \<Rightarrow> bool" where
  "lacks producers index payload =
     (\<not> produced producers payload \<and> dget index (name_of payload) = None)"

definition count_payload ::
  "string set \<Rightarrow> (string, policy_exception) dict \<Rightarrow> jobj \<Rightarrow> tally \<Rightarrow> tally" where
  "count_payload producers index payload t =
     (let t = t\<lparr>tal_seen := name_of payload # tal_seen t\<rparr> in
      if produced producers payload then t\<lparr>tal_source := Suc (tal_source t)\<rparr>
      else if lacks producers index payload then t\<lparr>tal_missing := tal_missing t @ [name_of payload]\<rparr>
      else t\<lparr>tal_used := List.insert (name_of payload) (tal_used t), tal_pinned := Suc (tal_pinned t)\<rparr>)"

lemma take_payload_Inr:
  "take_payload img producers index payload t = Inr t' \<longleftrightarrow>
     fits producers index payload \<and> name_of payload \<notin> set (tal_seen t)
     \<and> t' = count_payload producers index payload t"
proof (cases "text_of payload ''package''")
  case None
  then show ?thesis by (simp add: take_payload_def require_text_def fits_def)
next
  case (Some p)
  then have p: "require_text payload ''package'' s = Inr p" "name_of payload = p" for s
    by (simp_all add: require_text_def name_of_def)
  show ?thesis
  proof (cases "dget index p")
    case None
    then show ?thesis using p Some
      by (auto simp: take_payload_def fits_def lacks_def count_payload_def Let_def)
  next
    case (Some e)
    then show ?thesis using p \<open>text_of payload ''package'' = Some p\<close>
      by (auto simp: take_payload_def fits_def lacks_def count_payload_def matches_def Let_def
          split: option.splits)
  qed
qed

lemma seen_count_payload [simp]: "tal_seen (count_payload producers index payload t) = name_of payload # tal_seen t"
  by (simp add: count_payload_def Let_def)

lemma take_payloads_Inr:
  "take_payloads img producers index payloads t = Inr t' \<longleftrightarrow>
     (\<forall>p \<in> set payloads. fits producers index p) \<and> distinct (map name_of payloads)
     \<and> set (map name_of payloads) \<inter> set (tal_seen t) = {}
     \<and> t' = fold (count_payload producers index) payloads t"
proof (induction payloads arbitrary: t)
  case (Cons payload payloads)
  show ?case unfolding take_payloads.simps attempt_Inr take_payload_Inr Cons.IH
    by (auto simp: image_iff)
qed auto

definition coverage_for :: "string set \<Rightarrow> jobj list \<Rightarrow> coverage" where
  "coverage_for producers payloads =
     \<lparr>cov_pinned = length (filter (\<lambda>p. \<not> produced producers p) payloads),
      cov_source = length (filter (produced producers) payloads), cov_total = length payloads\<rparr>"

lemma fold_count_missing:
  "tal_missing (fold (count_payload producers index) payloads t) =
     tal_missing t @ map name_of (filter (lacks producers index) payloads)"
  by (induction payloads arbitrary: t) (auto simp: count_payload_def Let_def lacks_def)

lemma fold_count_source:
  "tal_source (fold (count_payload producers index) payloads t) =
     tal_source t + length (filter (produced producers) payloads)"
  by (induction payloads arbitrary: t) (auto simp: count_payload_def Let_def)

lemma fold_count_pinned:
  "\<forall>p \<in> set payloads. \<not> lacks producers index p \<Longrightarrow>
   tal_pinned (fold (count_payload producers index) payloads t) =
     tal_pinned t + length (filter (\<lambda>p. \<not> produced producers p) payloads)"
  by (induction payloads arbitrary: t) (auto simp: count_payload_def Let_def)

lemma fold_count_used:
  "\<forall>p \<in> set payloads. \<not> lacks producers index p \<Longrightarrow>
   set (tal_used (fold (count_payload producers index) payloads t)) =
     set (tal_used t) \<union> name_of ` {p \<in> set payloads. \<not> produced producers p}"
  by (induction payloads arbitrary: t) (auto simp: count_payload_def Let_def)

lemma fold_count_distinct:
  "distinct (tal_used t) \<Longrightarrow> distinct (tal_used (fold (count_payload producers index) payloads t))"
  by (induction payloads arbitrary: t) (auto simp: count_payload_def Let_def)

lemma fresh_tally_fields [simp]:
  "tal_seen (fresh_tally used) = []" "tal_source (fresh_tally used) = 0" "tal_pinned (fresh_tally used) = 0"
  "tal_missing (fresh_tally used) = []" "tal_used (fresh_tally used) = used"
  by (simp_all add: fresh_tally_def)

lemma coverage_of_fold:
  assumes "\<forall>p \<in> set payloads. \<not> lacks producers index p"
  shows "coverage_of (fold (count_payload producers index) payloads (fresh_tally used))
    = coverage_for producers payloads"
  using sum_length_filter_compl [of "produced producers" payloads]
  by (simp add: coverage_of_def coverage_for_def fold_count_source fold_count_pinned [OF assms])

definition payloads_of :: "(string, jobj list) dict \<Rightarrow> string \<Rightarrow> jobj list" where
  "payloads_of image_sets img = dget_or image_sets img []"

definition set_passes ::
  "(string, jobj list) dict \<Rightarrow> string set \<Rightarrow> (string, policy_exception) dict \<Rightarrow> string \<Rightarrow> bool" where
  "set_passes image_sets producers index img =
     (dget image_sets img \<noteq> None
      \<and> (\<forall>p \<in> set (payloads_of image_sets img). fits producers index p \<and> \<not> lacks producers index p)
      \<and> distinct (map name_of (payloads_of image_sets img)))"

definition pinned_names :: "(string, jobj list) dict \<Rightarrow> string set \<Rightarrow> string \<Rightarrow> string set" where
  "pinned_names image_sets producers img =
     name_of ` {p \<in> set (payloads_of image_sets img). \<not> produced producers p}"

abbreviation counted ::
  "(string, jobj list) dict \<Rightarrow> string set \<Rightarrow> (string, policy_exception) dict \<Rightarrow> string list \<Rightarrow> string \<Rightarrow> tally" where
  "counted image_sets producers index used img \<equiv>
     fold (count_payload producers index) (payloads_of image_sets img) (fresh_tally used)"

lemma cover_images_Cons:
  "cover_images image_sets producers index (img # images) used summary = Inr r \<longleftrightarrow>
     set_passes image_sets producers index img
     \<and> cover_images image_sets producers index images
         (tal_used (counted image_sets producers index used img))
         (dset img (coverage_for producers (payloads_of image_sets img)) summary) = Inr r"
proof (cases "dget image_sets img")
  case None
  then show ?thesis by (simp add: set_passes_def)
next
  case (Some payloads)
  then have ps: "payloads_of image_sets img = payloads" by (simp add: payloads_of_def dget_or_def)
  have "tal_missing (fold (count_payload producers index) payloads (fresh_tally used)) = []
      \<longleftrightarrow> (\<forall>p \<in> set payloads. \<not> lacks producers index p)"
    by (simp add: fold_count_missing filter_empty_conv)
  then show ?thesis using Some
    by (auto simp: set_passes_def ps attempt_Inr take_payloads_Inr coverage_of_fold split: if_splits)
qed

lemma used_counted:
  assumes "set_passes image_sets producers index img"
  shows "set (tal_used (counted image_sets producers index used img))
      = set used \<union> pinned_names image_sets producers img"
    and "distinct used \<Longrightarrow> distinct (tal_used (counted image_sets producers index used img))"
  using assms fold_count_used [of "payloads_of image_sets img" producers index "fresh_tally used"]
    fold_count_distinct [of "fresh_tally used"]
  by (auto simp: set_passes_def pinned_names_def)

lemma cover_images_sound:
  assumes "cover_images image_sets producers index images used summary = Inr (used', summary')"
    and "distinct images" and "set images \<inter> set (map fst summary) = {}" and "distinct used"
  shows "(\<forall>img \<in> set images. set_passes image_sets producers index img)
    \<and> set used' = set used \<union> (\<Union>img \<in> set images. pinned_names image_sets producers img)
    \<and> distinct used'
    \<and> summary' = summary @ map (\<lambda>img. (img, coverage_for producers (payloads_of image_sets img))) images"
  using assms
proof (induction images arbitrary: used summary)
  case (Cons img images)
  let ?used = "tal_used (counted image_sets producers index used img)"
  let ?cov = "coverage_for producers (payloads_of image_sets img)"
  have passes: "set_passes image_sets producers index img"
    and rest: "cover_images image_sets producers index images ?used (dset img ?cov summary) = Inr (used', summary')"
    using Cons.prems(1) unfolding cover_images_Cons by blast+
  have "dset img ?cov summary = summary @ [(img, ?cov)]"
    using Cons.prems(3) by (intro update_fresh) (auto simp: map_of_eq_None_iff)
  then show ?case
    using Cons.IH [OF rest] Cons.prems(2-4) passes used_counted [OF passes] by auto
qed auto

lemma cover_images_complete:
  "\<forall>img \<in> set images. set_passes image_sets producers index img \<Longrightarrow>
   \<exists>r. cover_images image_sets producers index images used summary = Inr r"
  by (induction images arbitrary: used summary) (simp_all only: cover_images.simps(1) cover_images_Cons, auto)

section \<open>The policy in full\<close>

text \<open>What a reviewer reads: every payload has a source here or an exception that names it.\<close>

definition covered :: "string set \<Rightarrow> policy_exception list \<Rightarrow> jobj \<Rightarrow> bool" where
  "covered producers es payload =
     (text_of payload ''package'' \<noteq> None \<and>
      (if produced producers payload then \<forall>e \<in> set es. exc_package e \<noteq> name_of payload
       else \<exists>e \<in> set es. exc_package e = name_of payload \<and> matches e payload))"

definition admissible ::
  "(string, jobj list) dict \<Rightarrow> string set \<Rightarrow> policy_exception list \<Rightarrow> string list \<Rightarrow> bool" where
  "admissible image_sets producers es selected =
     (selected \<noteq> [] \<and> distinct (map exc_package es)
      \<and> (\<forall>img \<in> set selected. dget image_sets img \<noteq> None
           \<and> distinct (map name_of (payloads_of image_sets img))
           \<and> (\<forall>p \<in> set (payloads_of image_sets img). covered producers es p))
      \<and> (\<forall>e \<in> set es. \<exists>img \<in> set selected. exc_package e \<in> pinned_names image_sets producers img))"

definition policy_for ::
  "(string, jobj list) dict \<Rightarrow> string set \<Rightarrow> policy_exception list \<Rightarrow> string list \<Rightarrow> source_policy" where
  "policy_for image_sets producers es selected =
     \<lparr>pol_exceptions = sort_key exc_package es, pol_image_sets = sorted_set selected,
      pol_schema = SOURCE_POLICY_SCHEMA,
      pol_summary = map (\<lambda>img. (img, coverage_for producers (payloads_of image_sets img)))
                      (sorted_set selected)\<rparr>"

lemma covered_index:
  assumes "distinct (map exc_package es)"
  shows "covered producers es p \<longleftrightarrow> fits producers (index_of es) p \<and> \<not> lacks producers (index_of es) p"
proof (cases "dget (index_of es) (name_of p)")
  case None
  moreover have "\<forall>e \<in> set es. exc_package e \<noteq> name_of p"
    using None by (simp add: dget_index_of_None) (metis imageI)
  ultimately show ?thesis by (simp add: covered_def fits_def lacks_def)
next
  case (Some e)
  have e: "e \<in> set es" "exc_package e = name_of p"
    using dget_in_set [OF Some] by (auto simp: index_of_def)
  have "x = e" if "x \<in> set es" "exc_package x = name_of p" for x
    using assms that e by (metis distinct_map inj_on_def)
  then have "(\<exists>x \<in> set es. exc_package x = name_of p \<and> matches x p) \<longleftrightarrow> matches e p"
    "\<not> (\<forall>x \<in> set es. exc_package x \<noteq> name_of p)" using e by blast+
  then show ?thesis using Some by (simp add: covered_def fits_def lacks_def)
qed

lemma passes_covered:
  assumes "distinct (map exc_package es)"
  shows "set_passes image_sets producers (index_of es) img \<longleftrightarrow>
    dget image_sets img \<noteq> None \<and> distinct (map name_of (payloads_of image_sets img))
    \<and> (\<forall>p \<in> set (payloads_of image_sets img). covered producers es p)"
  unfolding set_passes_def covered_index [OF assms] by blast

lemma pinned_excepted:
  assumes "\<forall>p \<in> set (payloads_of image_sets img). covered producers es p"
  shows "pinned_names image_sets producers img \<subseteq> exc_package ` set es"
  using assms by (force simp: pinned_names_def covered_def)

lemma map_filter_index:
  assumes "distinct (map exc_package es)"
  shows "List.map_filter (dget (index_of es)) (map exc_package es) = es"
proof -
  have "List.map_filter (dget (index_of es)) (map exc_package xs) = xs" if "set xs \<subseteq> set es" for xs
    using that by (induction xs) (auto simp: List.map_filter_simps dget_index_of [OF assms])
  then show ?thesis by blast
qed

lemma exceptions_in_order:
  assumes "distinct (map exc_package es)" and "distinct used" and "set used = exc_package ` set es"
  shows "List.map_filter (dget (index_of es)) (sort used) = sort_key exc_package es"
proof -
  have d: "distinct (map exc_package (sort_key exc_package es))" using assms(1) by (simp add: distinct_map)
  have "sort used = map exc_package (sort_key exc_package es)"
    by (rule sorted_distinct_set_unique) (use assms d in simp_all)
  moreover have "index_of (sort_key exc_package es) = index_of es \<or>
      dget (index_of (sort_key exc_package es)) = dget (index_of es)"
  proof (rule disjI2, rule ext)
    fix p
    show "dget (index_of (sort_key exc_package es)) p = dget (index_of es) p"
    proof (cases "p \<in> exc_package ` set es")
      case True
      then obtain e where "e \<in> set es" "p = exc_package e" by blast
      then show ?thesis using dget_index_of [OF assms(1)] dget_index_of [OF d] by simp
    next
      case False
      then show ?thesis using dget_index_of_None [of es p] dget_index_of_None [of "sort_key exc_package es" p]
        by simp
    qed
  qed
  ultimately show ?thesis using map_filter_index [OF d] by auto
qed

lemma index_Inr:
  "exception_index exceptions [] = Inr index \<longleftrightarrow>
     (\<exists>es. map entry_of exceptions = map Some es \<and> distinct (map exc_package es) \<and> index = index_of es)"
  by (simp add: exception_index_Inr)

lemma build_sound:
  assumes "build_source_policy image_sets producers exceptions selected = Inr pol"
  obtains es where "map entry_of exceptions = map Some es" and "admissible image_sets producers es selected"
    and "pol = policy_for image_sets producers es selected"
proof -
  let ?sel = "sorted_set selected"
  have sel: "?sel \<noteq> []" using assms by (auto simp: build_source_policy_def Let_def split: if_splits)
  then obtain index used summary where
    index: "exception_index exceptions [] = Inr index"
    and cover: "cover_images image_sets producers index ?sel [] [] = Inr (used, summary)"
    and stale: "filter (\<lambda>p. p \<notin> set used) (keys index) = []"
    and pol: "pol = \<lparr>pol_exceptions = List.map_filter (dget index) (sort used), pol_image_sets = ?sel,
        pol_schema = SOURCE_POLICY_SCHEMA, pol_summary = summary\<rparr>"
    using assms by (auto simp: build_source_policy_def Let_def attempt_Inr split: if_splits)
  obtain es where es: "map entry_of exceptions = map Some es" "distinct (map exc_package es)" "index = index_of es"
    using index unfolding index_Inr by blast
  from cover_images_sound [OF cover]
  have passes: "\<forall>img \<in> set selected. set_passes image_sets producers (index_of es) img"
    and used: "set used = (\<Union>img \<in> set selected. pinned_names image_sets producers img)" "distinct used"
    and summary: "summary = map (\<lambda>img. (img, coverage_for producers (payloads_of image_sets img))) ?sel"
    by (simp_all add: es(3))
  have covered: "\<forall>img \<in> set selected. dget image_sets img \<noteq> None
      \<and> distinct (map name_of (payloads_of image_sets img))
      \<and> (\<forall>p \<in> set (payloads_of image_sets img). covered producers es p)"
    using passes unfolding passes_covered [OF es(2)] by blast
  have "set used \<subseteq> exc_package ` set es"
    using pinned_excepted covered unfolding used(1) by blast
  moreover have all_used: "exc_package ` set es \<subseteq> set used"
    using stale by (auto simp: es(3) index_of_def keys_def filter_empty_conv)
  ultimately have "List.map_filter (dget index) (sort used) = sort_key exc_package es"
    unfolding es(3) by (intro exceptions_in_order es(2) used(2)) blast
  moreover have "admissible image_sets producers es selected"
    unfolding admissible_def using sel es(2) covered all_used used(1)
    by auto
  ultimately show ?thesis using that [OF es(1)] pol summary by (simp add: policy_for_def)
qed

lemma build_complete:
  assumes "map entry_of exceptions = map Some es" and adm: "admissible image_sets producers es selected"
  shows "build_source_policy image_sets producers exceptions selected
    = Inr (policy_for image_sets producers es selected)"
proof -
  have d: "distinct (map exc_package es)" and sel: "sorted_set selected \<noteq> []"
    using adm by (auto simp: admissible_def)
  have index: "exception_index exceptions [] = Inr (index_of es)"
    unfolding index_Inr using assms(1) d by blast
  have "\<forall>img \<in> set (sorted_set selected). set_passes image_sets producers (index_of es) img"
    using adm unfolding passes_covered [OF d] by (simp add: admissible_def)
  then obtain used summary where
    cover: "cover_images image_sets producers (index_of es) (sorted_set selected) [] [] = Inr (used, summary)"
    using cover_images_complete by (metis surj_pair)
  have "set used = (\<Union>img \<in> set selected. pinned_names image_sets producers img)"
    using cover_images_sound [OF cover] by simp
  then have "\<forall>e \<in> set es. exc_package e \<in> set used" using adm by (auto simp: admissible_def)
  then have stale: "filter (\<lambda>p. p \<notin> set used) (keys (index_of es)) = []"
    by (auto simp: index_of_def keys_def filter_empty_conv)
  have "build_source_policy image_sets producers exceptions selected = Inr
      \<lparr>pol_exceptions = List.map_filter (dget (index_of es)) (sort used), pol_image_sets = sorted_set selected,
       pol_schema = SOURCE_POLICY_SCHEMA, pol_summary = summary\<rparr>" (is "_ = Inr ?pol")
    using sel index cover stale by (simp add: build_source_policy_def Let_def)
  then obtain es' where "map entry_of exceptions = map Some es'"
    "?pol = policy_for image_sets producers es' selected" by (rule build_sound)
  moreover have "es' = es" using assms(1) calculation(1) by (metis list.inj_map_strong option.inject)
  ultimately show ?thesis using \<open>_ = Inr ?pol\<close> by simp
qed

text \<open>
  C15: the policy builder accepts exactly the locks a reviewer would: some image set is selected,
  every exception is well formed and for one package, every payload of every selected set is
  either produced from source and not excepted, or excepted with a matching source, and every
  exception is needed by a payload; and the policy it returns lists the exceptions by package.
\<close>
theorem source_policy_decides:
  "build_source_policy image_sets producers exceptions selected = Inr pol \<longleftrightarrow>
     (\<exists>es. map entry_of exceptions = map Some es \<and> admissible image_sets producers es selected
        \<and> pol = policy_for image_sets producers es selected)"
  using build_sound build_complete by metis

section \<open>A recorded policy\<close>

lemma text_of_exception [simp]:
  "text_of (exception_json e) ''package'' = (if py_strip (exc_package e) = [] then None else Some (exc_package e))"
  "text_of (exception_json e) ''kind'' = (if py_strip (exc_kind e) = [] then None else Some (exc_kind e))"
  "text_of (exception_json e) ''reason'' = (if py_strip (exc_reason e) = [] then None else Some (exc_reason e))"
  by (simp_all add: text_of_def exception_json_def)

lemma text_of_not_blank: "text_of raw f = Some v \<Longrightarrow> py_strip v \<noteq> []"
  by (auto simp: text_of_def split: option.splits json.splits if_splits)

lemma entry_of_exception_json:
  assumes "entry_of raw = Some e"
  shows "entry_of (exception_json e) = Some e"
proof -
  obtain package kind reason source where t: "text_of raw ''package'' = Some package"
    "text_of raw ''kind'' = Some kind" "text_of raw ''reason'' = Some reason"
    "kind \<in> set SOURCE_EXCEPTION_KINDS" "source_of_exception raw package = Inr source"
    "e = \<lparr>exc_kind = kind, exc_package = package, exc_reason = reason, exc_source = source\<rparr>"
    using assms by (auto simp: entry_of_def split: option.splits if_splits sum.splits)
  have blank: "source = Some s \<Longrightarrow> py_strip s \<noteq> []" for s
    using t(5) text_of_not_blank [of raw "''source''" s]
    by (auto simp: source_of_exception_def split: option.splits json.splits)
  have "source_of_exception (exception_json e) package = Inr source"
    using blank t(6)
    by (cases source) (auto simp: source_of_exception_def exception_json_def text_of_def)
  then show ?thesis using t text_of_not_blank [OF t(1)] text_of_not_blank [OF t(2)] text_of_not_blank [OF t(3)]
    by (simp add: entry_of_def)
qed

lemma texts_of_list [simp]: "texts_of (JList (map JStr ss)) = Inr ss"
  by (simp add: texts_of_def iterate_def list_all_iff comp_def)

lemma objects_of_list [simp]: "objects_of (JList (map (JObj \<circ> f) xs)) = Inr (map f xs)"
  by (simp add: objects_of_def iterate_def list_all_iff comp_def)

lemma policy_json_fields [simp]:
  "dget_or (policy_json pol) ''schema'' JNull = JInt (pol_schema pol)"
  "dget_or (policy_json pol) ''image_sets'' v = JList (map JStr (pol_image_sets pol))"
  "dget_or (policy_json pol) ''exceptions'' v = JList (map (JObj \<circ> exception_json) (pol_exceptions pol))"
  by (simp_all add: policy_json_def dget_or_def)

lemma policy_json_well_formed:
  "distinct (map fst (pol_summary pol)) \<Longrightarrow> well_formed (JObj (policy_json pol))"
  by (auto simp: policy_json_def exception_json_def coverage_json_def comp_def case_prod_beta'
      split: option.splits)

lemma admissible_permute:
  "set es' = set es \<Longrightarrow> distinct (map exc_package es') \<Longrightarrow> set selected' = set selected \<Longrightarrow>
   admissible image_sets producers es selected \<Longrightarrow> admissible image_sets producers es' selected'"
  by (cases selected; cases selected') (simp_all add: admissible_def covered_def)

text \<open>
  A policy validates against the lock contents it was built from: recording it, reading it
  back and rebuilding it from its own exceptions and image sets gives the same policy.
\<close>
theorem built_policy_validates:
  assumes "build_source_policy image_sets producers exceptions selected = Inr pol"
  shows "validate_source_policy (policy_json pol) image_sets producers = Inr ()"
proof -
  obtain es where es: "map entry_of exceptions = map Some es" "admissible image_sets producers es selected"
    "pol = policy_for image_sets producers es selected"
    by (rule build_sound [OF assms])
  let ?es = "sort_key exc_package es"
  have d: "distinct (map exc_package ?es)" using es(2) by (simp add: admissible_def distinct_map)
  have adm: "admissible image_sets producers ?es (sorted_set selected)"
    by (rule admissible_permute [OF _ d _ es(2)]) simp_all
  have "\<exists>raw. entry_of raw = Some e" if "e \<in> set es" for e
  proof -
    have "Some e \<in> set (map entry_of exceptions)" using es(1) that by simp
    then show ?thesis by force
  qed
  then have "map entry_of (map exception_json ?es) = map Some ?es"
    using entry_of_exception_json by (fastforce simp: comp_def)
  from build_complete [OF this adm]
  have "build_source_policy image_sets producers (map exception_json ?es) (sorted_set selected)
      = Inr (policy_for image_sets producers ?es (sorted_set selected))" .
  moreover have "sort_key exc_package ?es = ?es" by (simp add: sort_key_id_if_sorted)
  moreover have "sorted_set (sorted_set selected) = sorted_set selected" by (rule sorted_set_cong) simp
  ultimately have again: "build_source_policy image_sets producers (map exception_json ?es) (sorted_set selected)
      = Inr pol" using es(3) by (simp add: policy_for_def)
  have "well_formed (JObj (policy_json pol))"
    by (rule policy_json_well_formed) (simp add: es(3) policy_for_def comp_def)
  then show ?thesis
    using again es(3) by (simp add: validate_source_policy_def policy_for_def json_eq_refl del: json_eq.simps(6))
qed

text \<open>
  a recorded policy that validates leaves no payload of the image sets it names unexplained:
  each one is produced by a source the lock builds or named by a well-formed exception the record
  itself carries, and never by both.
\<close>
theorem validated_policy_covers:
  assumes "validate_source_policy recorded image_sets producers = Inr ()"
    and "texts_of (dget_or recorded ''image_sets'' (JList [])) = Inr selected"
    and "objects_of (dget_or recorded ''exceptions'' (JList [])) = Inr exceptions"
    and "img \<in> set selected" and "p \<in> set (payloads_of image_sets img)"
  shows "produced producers p \<longleftrightarrow>
    \<not> (\<exists>raw \<in> set exceptions. \<exists>e. entry_of raw = Some e \<and> exc_package e = name_of p \<and> matches e p)"
proof -
  obtain pol where "build_source_policy image_sets producers exceptions selected = Inr pol"
    using assms(1-3) by (auto simp: validate_source_policy_def attempt_Inr split: if_splits)
  then obtain es where es: "map entry_of exceptions = map Some es" "admissible image_sets producers es selected"
    by (rule build_sound)
  have "covered producers es p" using es(2) assms(4,5) by (auto simp: admissible_def)
  moreover have "(\<exists>raw \<in> set exceptions. entry_of raw = Some e) \<longleftrightarrow> e \<in> set es" for e
  proof -
    have "Some e \<in> set (map entry_of exceptions) \<longleftrightarrow> Some e \<in> set (map Some es)" using es(1) by simp
    then show ?thesis by (auto simp: image_iff eq_commute [of "Some e"])
  qed
  ultimately show ?thesis unfolding covered_def by metis
qed

section \<open>Instances\<close>

definition live_payloads :: "jobj list" where
  "live_payloads =
     [[(''package'', JStr ''bash''), (''source'', JStr ''bash'')],
      [(''package'', JStr ''iwlwifi-firmware''), (''source'', JStr ''linux-firmware'')]]"

definition firmware_exception :: jobj where
  "firmware_exception =
     [(''package'', JStr ''iwlwifi-firmware''), (''kind'', JStr ''firmware''),
      (''reason'', JStr ''vendor blob''), (''source'', JStr ''linux-firmware'')]"

theorem built_policy_validates_witness:
  "\<exists>pol. build_source_policy [(''live'', live_payloads)] {''bash''} [firmware_exception] [''live''] = Inr pol
     \<and> pol_summary pol = [(''live'', \<lparr>cov_pinned = 1, cov_source = 1, cov_total = 2\<rparr>)]
     \<and> validate_source_policy (policy_json pol) [(''live'', live_payloads)] {''bash''} = Inr ()"
proof -
  let ?pol = "\<lparr>pol_exceptions = [\<lparr>exc_kind = ''firmware'', exc_package = ''iwlwifi-firmware'',
       exc_reason = ''vendor blob'', exc_source = Some ''linux-firmware''\<rparr>], pol_image_sets = [''live''],
     pol_schema = 1, pol_summary = [(''live'', \<lparr>cov_pinned = 1, cov_source = 1, cov_total = 2\<rparr>)]\<rparr>"
  have b: "build_source_policy [(''live'', live_payloads)] {''bash''} [firmware_exception] [''live''] = Inr ?pol"
    by code_simp
  show ?thesis using b built_policy_validates [OF b] by (intro exI [of _ ?pol]) simp
qed

theorem validated_policy_covers_witness:
  "\<exists>recorded. validate_source_policy recorded [(''live'', live_payloads)] {''bash''} = Inr ()
     \<and> produced {''bash''} (live_payloads ! 0) \<and> \<not> produced {''bash''} (live_payloads ! 1)"
proof -
  let ?rec = "[(''schema'', JInt 1), (''image_sets'', JList [JStr ''live'']),
     (''exceptions'', JList [JObj firmware_exception]),
     (''summary'', JObj [(''live'', JObj [(''total'', JInt 2), (''source'', JInt 1), (''pinned'', JInt 1)])])]"
  have v: "validate_source_policy ?rec [(''live'', live_payloads)] {''bash''} = Inr ()" by code_simp
  have e: "texts_of (dget_or ?rec ''image_sets'' (JList [])) = Inr [''live'']"
    "objects_of (dget_or ?rec ''exceptions'' (JList [])) = Inr [firmware_exception]"
    by (simp_all add: dget_or_def texts_of_def objects_of_def iterate_def)
  have covers: "produced {''bash''} p \<longleftrightarrow> \<not> (\<exists>raw \<in> set [firmware_exception]. \<exists>e. entry_of raw = Some e
      \<and> exc_package e = name_of p \<and> matches e p)" if "p \<in> set live_payloads" for p
    by (rule validated_policy_covers [OF v e, of "''live''"]) (use that in \<open>simp_all add: payloads_of_def dget_or_def\<close>)
  have en: "entry_of firmware_exception = Some \<lparr>exc_kind = ''firmware'', exc_package = ''iwlwifi-firmware'',
     exc_reason = ''vendor blob'', exc_source = Some ''linux-firmware''\<rparr>" by code_simp
  have "name_of (live_payloads ! 0) = ''bash''" "name_of (live_payloads ! 1) = ''iwlwifi-firmware''"
    "payload_source (live_payloads ! 1) = JStr ''linux-firmware''" by code_simp+
  then have "produced {''bash''} (live_payloads ! 0)" "\<not> produced {''bash''} (live_payloads ! 1)"
    using covers [of "live_payloads ! 0"] covers [of "live_payloads ! 1"] en
    by (simp_all add: matches_def live_payloads_def)
  then show ?thesis using v by blast
qed

end
