(* ===== verification/BuildPlan.thy ===== *)
theory BuildPlan
  imports SourceGraph
begin

text \<open>
  What the plan over the source graph guarantees: the components are the strongly connected ones,
  the cycles are exactly the packages that depend on themselves, the order builds dependencies
  first, and the stages of a cycle take their dependencies from the stage before.
\<close>

section \<open>Components and cycles\<close>

lemma scc_mutual: "is_scc g C \<Longrightarrow> u \<in> C \<Longrightarrow> v \<in> C \<Longrightarrow> reach g u v"
  unfolding is_scc_def by (metis (mono_tags, lifting) mem_Collect_eq rtranclp_trans)

lemma scc_closed: "is_scc g C \<Longrightarrow> u \<in> C \<Longrightarrow> reach g u v \<Longrightarrow> reach g v u \<Longrightarrow> v \<in> C"
  unfolding is_scc_def by (metis (mono_tags, lifting) mem_Collect_eq rtranclp_trans)

lemma component_of:
  assumes "x \<in> nodes_of g"
  obtains c where "c \<in> set (strongly_connected_components g)" "x \<in> set c" "is_scc g (set c)"
    "distinct c"
proof -
  obtain c where c: "c \<in> set (strongly_connected_components g)" "x \<in> set c"
    using assms scc_result(2) [of g] by blast
  moreover have "is_scc g (set c)" using c(1) scc_result(1) [of g] by (simp add: emitted_def)
  moreover have "distinct c" using c(1) scc_result(1) [of g] by (simp add: emitted_def distinct_concat_iff)
  ultimately show ?thesis using that by blast
qed

lemma edge_nodes: "edge g u v \<Longrightarrow> u \<in> nodes_of g \<and> v \<in> nodes_of g"
proof
  assume e: "edge g u v"
  then have "map_of g u \<noteq> None" by (cases "map_of g u") (auto simp: edge_def dget_or_def)
  then show "u \<in> nodes_of g" by (simp add: nodes_of_def keys_def map_of_eq_None_iff)
  show "v \<in> nodes_of g" using e succs_nodes by (auto simp: edge_def)
qed

definition cyclic :: "graph \<Rightarrow> string set" where
  "cyclic g = (\<Union>c \<in> set (find_cycles g). set c)"

lemma cyclic_iff: "x \<in> cyclic g \<longleftrightarrow> (edge g)\<^sup>+\<^sup>+ x x"
proof
  assume "x \<in> cyclic g"
  then obtain c where c: "c \<in> set (strongly_connected_components g)" "x \<in> set c"
    "1 < length c \<or> has_self_loop g (hd c)" by (auto simp: cyclic_def find_cycles_def)
  have scc: "is_scc g (set c)" "distinct c"
    using c(1) scc_result(1) [of g] by (simp_all add: emitted_def distinct_concat_iff)
  show "(edge g)\<^sup>+\<^sup>+ x x"
  proof (cases "1 < length c")
    case True
    then have "2 \<le> card (set c)" using scc(2) by (simp add: distinct_card)
    then have "\<not> set c \<subseteq> {x}" using card_mono [of "{x}" "set c"] by auto
    then obtain y where y: "y \<in> set c" "y \<noteq> x" by blast
    then have "reach g x y" "reach g y x" using scc_mutual [OF scc(1)] c(2) by blast+
    then have "(edge g)\<^sup>+\<^sup>+ x y" using y(2) by (metis rtranclpD)
    then show ?thesis using \<open>reach g y x\<close> by (rule tranclp_rtranclp_tranclp)
  next
    case False
    then have "c = [x]" using c(2) by (cases c) auto
    then have "edge g x x" using c(3) by (simp add: has_self_loop_def edge_def)
    then show ?thesis by blast
  qed
next
  assume loop: "(edge g)\<^sup>+\<^sup>+ x x"
  then obtain y where y: "edge g x y" "reach g y x" by (metis tranclpD)
  obtain c where c: "c \<in> set (strongly_connected_components g)" "x \<in> set c" "is_scc g (set c)"
    "distinct c" using component_of edge_nodes [OF y(1)] by blast
  have yc: "y \<in> set c" using scc_closed [OF c(3,2)] y by blast
  have "1 < length c \<or> has_self_loop g (hd c)"
  proof (cases "y = x")
    case True
    show ?thesis
    proof (cases "1 < length c")
      case False
      then have "c = [x]" using c(2) by (cases c) auto
      then show ?thesis using y(1) True by (simp add: has_self_loop_def edge_def)
    qed simp
  next
    case False
    then have "card {x, y} \<le> card (set c)" using c(2) yc by (intro card_mono) auto
    then show ?thesis using False c(4) by (simp add: distinct_card)
  qed
  then show "x \<in> cyclic g" using c by (auto simp: cyclic_def find_cycles_def)
qed

lemma find_cycles_Nil: "find_cycles g = [] \<longleftrightarrow> (\<forall>p. \<not> (edge g)\<^sup>+\<^sup>+ p p)"
proof -
  have "find_cycles g = [] \<longleftrightarrow> cyclic g = {}"
  proof
    assume none: "cyclic g = {}"
    have "c \<notin> set (find_cycles g)" for c
    proof
      assume c: "c \<in> set (find_cycles g)"
      then have "is_scc g (set c)" using scc_result(1) [of g] by (simp add: emitted_def find_cycles_def)
      with c none show False by (auto simp: cyclic_def is_scc_def)
    qed
    then show "find_cycles g = []" by (metis list.set_intros(1) neq_Nil_conv)
  qed (simp add: cyclic_def)
  then show ?thesis using cyclic_iff by blast
qed

section \<open>Order\<close>

definition precedes :: "'a list \<Rightarrow> 'a \<Rightarrow> 'a \<Rightarrow> bool" where
  "precedes xs v u = (u \<in> set xs \<and> v \<in> set (takeWhile (\<lambda>x. x \<noteq> u) xs))"

lemma precedesI: "xs = ps @ u # qs \<Longrightarrow> distinct xs \<Longrightarrow> v \<in> set ps \<Longrightarrow> precedes xs v u"
proof -
  assume xs: "xs = ps @ u # qs" "distinct xs" "v \<in> set ps"
  then have "takeWhile (\<lambda>x. x \<noteq> u) (ps @ u # qs) = ps @ takeWhile (\<lambda>x. x \<noteq> u) (u # qs)"
    by (intro takeWhile_append2) auto
  with xs show ?thesis by (simp add: precedes_def)
qed

lemma order_split:
  assumes "edge g u v" and "\<not> reach g v u"
  obtains ps qs where "topological_order g = ps @ u # qs" and "v \<in> set ps"
proof -
  let ?r = "strongly_connected_components g"
  note em = scc_result(1) [of g, unfolded emitted_def]
  obtain c where "c \<in> set ?r" "u \<in> set c" using component_of edge_nodes [OF assms(1)] by blast
  then obtain k where k: "k < length ?r" "u \<in> set (?r ! k)" by (metis in_set_conv_nth)
  then obtain j where j: "j \<le> k" "v \<in> set (?r ! j)" using em assms(1) by blast
  have "is_scc g (set (?r ! k))" using em k(1) by simp
  then have "j \<noteq> k" using j(2) k(2) assms(2) scc_mutual by metis
  then have jk: "j < k" using j(1) by simp
  obtain a b where ab: "?r ! k = a @ u # b" using k(2) by (metis split_list)
  have "?r = take k ?r @ ?r ! k # drop (Suc k) ?r" using k(1) by (rule id_take_nth_drop)
  then have "concat ?r = concat (take k ?r @ ?r ! k # drop (Suc k) ?r)" by (rule arg_cong)
  then have "topological_order g = (concat (take k ?r) @ a) @ u # (b @ concat (drop (Suc k) ?r))"
    unfolding topological_order_def ab by simp
  moreover have "?r ! j \<in> set (take k ?r)" using jk k(1) by (auto simp: in_set_conv_nth)
  then have "v \<in> set (concat (take k ?r) @ a)" using j(2) by auto
  ultimately show ?thesis using that by blast
qed

lemma order_distinct: "distinct (topological_order g)"
  using scc_result(1) [of g] by (simp add: topological_order_def emitted_def)

lemma order_nodes: "set (topological_order g) = nodes_of g"
  using scc_result(2) [of g] by (simp add: topological_order_def)

lemma order_precedes:
  assumes "edge g u v" and "\<not> reach g v u" and "P u" and "P v"
  shows "precedes (filter P (topological_order g)) v u"
proof -
  obtain ps qs where o: "topological_order g = ps @ u # qs" "v \<in> set ps"
    using order_split [OF assms(1,2)] .
  show ?thesis
    by (rule precedesI [of _ "filter P ps" u "filter P qs"])
       (use o assms(3,4) order_distinct [of g] in auto)
qed

section \<open>The plan\<close>

lemma stage_cycles_error: "(\<exists>e. stage_cycles cs g stages = Inl e) \<longleftrightarrow> cs \<noteq> [] \<and> stages < 1"
  by (induction cs) (auto simp: stage_cycle_def Let_def split: sum.split)

lemma plan_result:
  fixes deps :: build_deps
  defines "g \<equiv> \<lambda>source_of bs routes. project_to_source_graph deps source_of bs routes"
  assumes "plan_build_order deps source_of bs stages routes = Inr plan"
  shows "plan_order plan = filter (\<lambda>p. p \<notin> cyclic (g source_of bs routes))
      (topological_order (g source_of bs routes))"
    and "plan_cycles plan = find_cycles (g source_of bs routes)"
    and "plan_acyclic plan \<longleftrightarrow> find_cycles (g source_of bs routes) = []"
  using assms(2)
  by (auto simp: plan_build_order_def Let_def g_def cyclic_def split: sum.splits)

lemma plan_error:
  "(\<exists>e. plan_build_order deps source_of bs stages routes = Inl e) \<longleftrightarrow>
     stages < 1 \<and> find_cycles (project_to_source_graph deps source_of bs routes) \<noteq> []"
  using stage_cycles_error [of "find_cycles (project_to_source_graph deps source_of bs routes)"
      "project_to_source_graph deps source_of bs routes" stages]
  by (cases "stage_cycles (find_cycles (project_to_source_graph deps source_of bs routes))
      (project_to_source_graph deps source_of bs routes) stages")
     (auto simp: plan_build_order_def Let_def)

section \<open>Stages\<close>

text \<open>A record of a stage after the first finds each of its in-cycle dependencies before it.\<close>

lemma stages_split:
  assumes "1 < n" and "n \<le> stages"
  shows "[1..stages] = [1..n - 2] @ (n - 1) # n # [n + 1..stages]"
proof -
  have "[1..stages] = [1..n - 2] @ [n - 1..stages]"
    using upto_split1 [of 1 "n - 1" stages] assms by (simp add: algebra_simps)
  also have "[n - 1..stages] = (n - 1) # n # [n + 1..stages]"
    using assms by (simp add: upto_rec1)
  finally show ?thesis by simp
qed

definition stage_rows :: "string list \<Rightarrow> graph \<Rightarrow> int \<Rightarrow> int \<Rightarrow> stage list" where
  "stage_rows members g stages n = map (stage_of g members stages n) members"

lemma stage_cycle_rows:
  "stage_cycle c g stages = Inr plan \<longleftrightarrow>
     1 \<le> stages \<and> plan = concat (map (stage_rows (sort c) g stages) [1..stages])"
  by (auto simp: stage_cycle_def Let_def stage_rows_def [abs_def])

lemma staged_earlier:
  assumes plan: "stage_cycle c g stages = Inr plan" and r: "r \<in> set plan" and d: "d \<in> set (cycle_deps r)"
    and later: "stage_number r \<noteq> 1"
  shows "\<exists>ps qs r'. plan = ps @ qs \<and> r \<notin> set ps \<and> r' \<in> set ps \<and> stage_source r' = d
    \<and> stage_number r' = stage_number r - 1
    \<and> cycle_deps_from r = ''stage'' @ int_text (stage_number r')"
proof -
  let ?rows = "stage_rows (sort c) g stages" and ?n = "stage_number r"
  have p: "1 \<le> stages" "plan = concat (map ?rows [1..stages])" using plan stage_cycle_rows by blast+
  then obtain m pkg where m: "m \<in> set [1..stages]" and pkg: "pkg \<in> set c"
    "r = stage_of g (sort c) stages m pkg"
    using r by (auto simp: stage_rows_def)
  then have n: "?n = m" "1 < ?n" "?n \<le> stages" using later by (auto simp: stage_of_def)
  have dc: "d \<in> set c" using d pkg by (auto simp: stage_of_def)
  let ?ps = "concat (map ?rows ([1..?n - 2] @ [?n - 1]))"
  let ?qs = "concat (map ?rows (?n # [?n + 1..stages]))"
  let ?r' = "stage_of g (sort c) stages (?n - 1) d"
  have "plan = ?ps @ ?qs" unfolding p(2) stages_split [OF n(2,3)] by simp
  moreover have "?r' \<in> set ?ps" using dc by (auto simp: stage_rows_def)
  moreover have "stage_number x < ?n" if "x \<in> set ?ps" for x
    using that n(2) by (auto simp: stage_rows_def stage_of_def)
  then have "r \<notin> set ?ps" by blast
  moreover have "cycle_deps_from r = ''stage'' @ int_text (?n - 1)"
    using pkg n by (simp add: stage_of_def)
  moreover have "stage_source ?r' = d" "stage_number ?r' = ?n - 1" by (simp_all add: stage_of_def)
  ultimately show ?thesis by metis
qed

lemma staged_once:
  assumes "stage_cycle c g stages = Inr plan" and "distinct c"
  shows "distinct (map (\<lambda>r. (stage_number r, stage_source r)) plan)"
    and "(\<lambda>r. (stage_number r, stage_source r)) ` set plan = {1..stages} \<times> set c"
    and "r \<in> set plan \<Longrightarrow> ships r \<longleftrightarrow> stage_number r = stages"
    and "r \<in> set plan \<Longrightarrow> stage_number r = 1 \<Longrightarrow> cycle_deps_from r = ''seed''"
    and "r \<in> set plan \<Longrightarrow> set (cycle_deps r) = {d \<in> set c. edge g (stage_source r) d}"
proof -
  have p: "plan = concat (map (stage_rows (sort c) g stages) [1..stages])"
    using assms(1) stage_cycle_rows by blast
  have "map (\<lambda>r. (stage_number r, stage_source r)) plan = List.product [1..stages] (sort c)"
    by (simp add: p map_concat stage_rows_def comp_def stage_of_def product_concat_map)
  then show "distinct (map (\<lambda>r. (stage_number r, stage_source r)) plan)"
    "(\<lambda>r. (stage_number r, stage_source r)) ` set plan = {1..stages} \<times> set c"
    using assms(2) by (simp_all add: distinct_product flip: set_map)
  show "r \<in> set plan \<Longrightarrow> ships r \<longleftrightarrow> stage_number r = stages"
    "r \<in> set plan \<Longrightarrow> stage_number r = 1 \<Longrightarrow> cycle_deps_from r = ''seed''"
    "r \<in> set plan \<Longrightarrow> set (cycle_deps r) = {d \<in> set c. edge g (stage_source r) d}"
    by (auto simp: p stage_rows_def stage_of_def edge_def)
qed

section \<open>Depth\<close>

definition built_binaries :: "build_deps \<Rightarrow> source_map \<Rightarrow> string list \<Rightarrow> routes \<Rightarrow> string set" where
  "built_binaries deps source_of bs routes =
     {b. \<exists>src bins dep. (src, bins) \<in> set deps \<and> src \<in> set bs \<and> b \<in> set bins
        \<and> dep_source (dget_or routes src []) source_of b = Some dep \<and> dep \<in> set bs}"

definition seeded_binaries :: "build_deps \<Rightarrow> source_map \<Rightarrow> string list \<Rightarrow> routes \<Rightarrow> string set" where
  "seeded_binaries deps source_of bs routes =
     {b. \<exists>src bins. (src, bins) \<in> set deps \<and> src \<in> set bs \<and> b \<in> set bins
        \<and> (\<forall>dep. dep_source (dget_or routes src []) source_of b = Some dep \<longrightarrow> dep \<notin> set bs)}"

lemma classify_step:
  assumes "classify src routed source_of bs b (built, seeded) = (b1, s1)"
  shows "set b1 = set built \<union> {x. x = b \<and> (\<exists>dep. dep_source routed source_of b = Some dep \<and> dep \<in> set bs)}
    \<and> set s1 = set seeded \<union> {x. x = b \<and> (\<forall>dep. dep_source routed source_of b = Some dep \<longrightarrow> dep \<notin> set bs)}
    \<and> (distinct built \<longrightarrow> distinct b1) \<and> (distinct seeded \<longrightarrow> distinct s1)"
  using assms by (auto simp: classify_def distinct_insert split: option.splits if_splits)

lemma classify_fold:
  assumes "fold (classify src routed source_of bs) bins (built, seeded) = (built', seeded')"
  shows "set built' = set built \<union> {b \<in> set bins. \<exists>dep. dep_source routed source_of b = Some dep \<and> dep \<in> set bs}
    \<and> set seeded' = set seeded \<union> {b \<in> set bins. \<forall>dep. dep_source routed source_of b = Some dep \<longrightarrow> dep \<notin> set bs}
    \<and> (distinct built \<longrightarrow> distinct built') \<and> (distinct seeded \<longrightarrow> distinct seeded')"
  using assms
proof (induction bins arbitrary: built seeded)
  case (Cons b bins)
  obtain b1 s1 where step: "classify src routed source_of bs b (built, seeded) = (b1, s1)" by fastforce
  with Cons.IH [of b1 s1] Cons.prems classify_step [OF step] show ?case by auto
qed simp

lemma classify_all_fold:
  assumes "fold (\<lambda>(src, bins) counts.
         if src \<notin> set bs then counts
         else fold (classify src (dget_or routes src []) source_of bs) bins counts)
       deps (built, seeded) = (built', seeded')"
  shows "set built' = set built \<union> built_binaries deps source_of bs routes
    \<and> set seeded' = set seeded \<union> seeded_binaries deps source_of bs routes
    \<and> (distinct built \<longrightarrow> distinct built') \<and> (distinct seeded \<longrightarrow> distinct seeded')"
  using assms
proof (induction deps arbitrary: built seeded)
  case Nil
  then show ?case by (simp add: built_binaries_def seeded_binaries_def)
next
  case (Cons d deps)
  obtain src bins where d: "d = (src, bins)" by fastforce
  show ?case
  proof (cases "src \<in> set bs")
    case False
    then have "built_binaries (d # deps) source_of bs routes = built_binaries deps source_of bs routes"
      "seeded_binaries (d # deps) source_of bs routes = seeded_binaries deps source_of bs routes"
      unfolding built_binaries_def seeded_binaries_def d by auto
    with False Cons d show ?thesis by simp
  next
    case True
    obtain b1 s1 where step: "fold (classify src (dget_or routes src []) source_of bs) bins (built, seeded)
        = (b1, s1)" by fastforce
    note c = classify_fold [OF step]
    have "built_binaries (d # deps) source_of bs routes
        = {b \<in> set bins. \<exists>dep. dep_source (dget_or routes src []) source_of b = Some dep \<and> dep \<in> set bs}
          \<union> built_binaries deps source_of bs routes"
      "seeded_binaries (d # deps) source_of bs routes
        = {b \<in> set bins. \<forall>dep. dep_source (dget_or routes src []) source_of b = Some dep \<longrightarrow> dep \<notin> set bs}
          \<union> seeded_binaries deps source_of bs routes"
      using True unfolding built_binaries_def seeded_binaries_def d by auto
    with Cons.IH [of b1 s1] Cons.prems True step d c show ?thesis by auto
  qed
qed

lemma depth_counts:
  "built_from_source (bootstrap_depth deps source_of bs routes)
     = card (built_binaries deps source_of bs routes)
   \<and> from_seed (bootstrap_depth deps source_of bs routes)
     = card (seeded_binaries deps source_of bs routes)"
proof -
  obtain b s where r: "classify_all deps source_of bs routes = (b, s)" by fastforce
  then show ?thesis
    using classify_all_fold [of bs routes source_of deps "[]" "[]" b s] distinct_card [of b]
      distinct_card [of s]
    by (simp add: classify_all_def bootstrap_depth_def Let_def)
qed

section \<open>Properties\<close>

text \<open>
  C1: The iterative search is Tarjan's algorithm: for every graph the lists it returns are the
  strongly connected components of the nodes the graph mentions, each sorted and each once, and
  a component comes after every component it has an edge to.
\<close>

theorem scc_correct:
  "(\<Union>c \<in> set (strongly_connected_components g). set c) = nodes_of g
   \<and> distinct (concat (strongly_connected_components g))
   \<and> (\<forall>c \<in> set (strongly_connected_components g). sorted c \<and> is_scc g (set c))
   \<and> (\<forall>k < length (strongly_connected_components g).
        \<forall>u \<in> set (strongly_connected_components g ! k). \<forall>v. edge g u v \<longrightarrow>
          (\<exists>j \<le> k. v \<in> set (strongly_connected_components g ! j)))"
  using scc_result [of g] by (simp add: emitted_def)

theorem scc_correct_witness:
  "let g = [(''gcc'', [''glibc'', ''zlib'']), (''glibc'', [''gcc'']), (''tar'', [''gcc'']), (''zlib'', [])] in
   strongly_connected_components g = [[''zlib''], [''gcc'', ''glibc''], [''tar'']]
   \<and> is_scc g {''gcc'', ''glibc''}"
proof -
  let ?g = "[(''gcc'', [''glibc'', ''zlib'']), (''glibc'', [''gcc'']), (''tar'', [''gcc'']), (''zlib'', [])]"
  have r: "strongly_connected_components ?g = [[''zlib''], [''gcc'', ''glibc''], [''tar'']]"
    by code_simp
  have "\<forall>c \<in> set (strongly_connected_components ?g). sorted c \<and> is_scc ?g (set c)"
    using scc_correct [of ?g] by (elim conjE)
  then have "is_scc ?g (set [''gcc'', ''glibc''])" unfolding r by simp
  with r show ?thesis unfolding Let_def by simp
qed

text \<open>
  The cycles reported are exact: a package is in one of them if and only if it depends on
  itself through at least one edge of the graph.
\<close>

theorem find_cycles_exact: "(\<exists>c. c \<in> set (find_cycles g) \<and> x \<in> set c) \<longleftrightarrow> (edge g)\<^sup>+\<^sup>+ x x"
  using cyclic_iff [of x g] by (auto simp: cyclic_def)



text \<open>
  Staging turns a cycle into a sequence that can be built. Every member has one record per
  pass; a record of the first pass takes its in-cycle dependencies from the seed, a record of a
  later pass finds each of them earlier in the plan, built in the pass just before; only the last
  pass ships.
\<close>

theorem stage_cycle_buildable:
  assumes "stage_cycle c g stages = Inr plan" and "distinct c" and "r \<in> set plan"
  shows "(\<lambda>r. (stage_number r, stage_source r)) ` set plan = {1..stages} \<times> set c
    \<and> distinct (map (\<lambda>r. (stage_number r, stage_source r)) plan)
    \<and> (ships r \<longleftrightarrow> stage_number r = stages)
    \<and> set (cycle_deps r) = {d \<in> set c. edge g (stage_source r) d}
    \<and> (if stage_number r = 1 then cycle_deps_from r = ''seed''
       else \<forall>d \<in> set (cycle_deps r). \<exists>ps qs r'. plan = ps @ qs \<and> r \<notin> set ps \<and> r' \<in> set ps
         \<and> stage_source r' = d \<and> stage_number r' = stage_number r - 1
         \<and> cycle_deps_from r = ''stage'' @ int_text (stage_number r'))"
  using staged_once [OF assms(1,2)] staged_earlier [OF assms(1,3)] assms(3) by simp

theorem stage_cycle_buildable_witness:
  "\<exists>ps qs r'. [stage_of [(''a'', [''b'']), (''b'', [''a''])] [''a'', ''b''] 2 n p.
       n \<leftarrow> [1, 2], p \<leftarrow> [''a'', ''b'']] = ps @ qs
     \<and> r' \<in> set ps \<and> stage_source r' = ''b'' \<and> stage_number r' = 1"
proof -
  let ?g = "[(''a'', [''b'']), (''b'', [''a''])]"
  let ?plan = "[stage_of ?g [''a'', ''b''] 2 n p. n \<leftarrow> [1, 2], p \<leftarrow> [''a'', ''b'']]"
  let ?r = "stage_of ?g [''a'', ''b''] 2 2 ''a''"
  have "[1..2::int] = [1, 2]" by code_simp
  moreover have "sort [''b'', ''a''] = [''a'', ''b'']" by code_simp
  ultimately have plan: "stage_cycle [''b'', ''a''] ?g 2 = Inr ?plan"
    by (simp add: stage_cycle_def Let_def)
  have r: "?r \<in> set ?plan" by simp
  have dist: "distinct [''b'', ''a'']" by simp
  have two: "stage_number ?r = 2" by (simp add: stage_of_def)
  have b: "''b'' \<in> set (cycle_deps ?r)" by code_simp
  have "if stage_number ?r = 1 then cycle_deps_from ?r = ''seed''
      else \<forall>d \<in> set (cycle_deps ?r). \<exists>ps qs r'. ?plan = ps @ qs \<and> ?r \<notin> set ps \<and> r' \<in> set ps
         \<and> stage_source r' = d \<and> stage_number r' = stage_number ?r - 1
         \<and> cycle_deps_from ?r = ''stage'' @ int_text (stage_number r')"
    using stage_cycle_buildable [OF plan dist r] by (elim conjE)
  then have "\<exists>ps qs r'. ?plan = ps @ qs \<and> r' \<in> set ps \<and> stage_source r' = ''b''
      \<and> stage_number r' = stage_number ?r - 1"
  proof -
    assume if_later: "if stage_number ?r = 1 then cycle_deps_from ?r = ''seed''
      else \<forall>d \<in> set (cycle_deps ?r). \<exists>ps qs r'. ?plan = ps @ qs \<and> ?r \<notin> set ps \<and> r' \<in> set ps
         \<and> stage_source r' = d \<and> stage_number r' = stage_number ?r - 1
         \<and> cycle_deps_from ?r = ''stage'' @ int_text (stage_number r')"
    have "stage_number ?r \<noteq> 1" using two by simp
    from if_later [unfolded if_not_P [OF this], rule_format, OF b] show ?thesis by blast
  qed
  then show ?thesis unfolding two by simp
qed

text \<open>
  The plan is refused exactly when there is a cycle to stage and fewer than one pass is asked
  for; an acyclic build set is planned whatever the number of passes.
\<close>

theorem plan_refused_iff:
  "(\<exists>e. plan_build_order deps source_of bs stages routes = Inl e) \<longleftrightarrow>
     stages < 1 \<and> (\<exists>p. (edge (project_to_source_graph deps source_of bs routes))\<^sup>+\<^sup>+ p p)"
  unfolding plan_error find_cycles_Nil by blast

text \<open>
  The bootstrap report counts the distinct binaries that some built source takes from the
  build set and those that some built source takes from the seed.
\<close>

theorem bootstrap_depth_counts:
  "built_from_source (bootstrap_depth deps source_of bs routes)
     = card (built_binaries deps source_of bs routes)
   \<and> from_seed (bootstrap_depth deps source_of bs routes)
     = card (seeded_binaries deps source_of bs routes)"
  by (rule depth_counts)

text \<open>
  A binary that one consumer routes to a built variant and another takes from the seed is in both
  counts, so the total is above the number of binaries.
\<close>

theorem routed_binary_counted_twice:
  "total_build_deps (bootstrap_depth [(''tar'', [''acl'']), (''sed'', [''acl''])] [(''acl'', ''acl'')]
     [''tar'', ''sed'', ''acl-compat''] [(''tar'', [(''acl'', ''acl-compat'')])]) = 2"
  by code_simp

end
