(* ===== verification/EmitLock.thy ===== *)
theory EmitLock
  imports Variants SourcePolicy BuildPlan "HOL-Library.Multiset"
begin

text \<open>
  The lock \<^verbatim>\<open>tools/solve.py\<close> writes: \<^verbatim>\<open>emit_lockfile\<close> with the
  pins it makes, \<^verbatim>\<open>_dedupe_pins\<close>, \<^verbatim>\<open>_count_pins_by_repo\<close> and
  \<^verbatim>\<open>rpm_source_policy_inputs\<close>. The lock is a record here; what turns it into JSON is
  the library's.
\<close>

section \<open>Python's repr\<close>

definition hex_digit :: "nat \<Rightarrow> char" where
  "hex_digit n = ''0123456789abcdef'' ! n"

definition hex_value :: "char \<Rightarrow> nat option" where
  "hex_value c =
     (let n = (of_char c :: nat) in
      if 48 \<le> n \<and> n \<le> 57 then Some (n - 48)
      else if 65 \<le> n \<and> n \<le> 70 then Some (n - 55)
      else if 97 \<le> n \<and> n \<le> 102 then Some (n - 87) else None)"

lemma hex_digits: "n < 16 \<Longrightarrow> hex_value (hex_digit n) = Some n \<and> \<not> ascii_space (hex_digit n)"
proof -
  have "list_all (\<lambda>n. hex_value (hex_digit n) = Some n \<and> \<not> ascii_space (hex_digit n)) [0..<16]" by code_simp
  then show "n < 16 \<Longrightarrow> hex_value (hex_digit n) = Some n \<and> \<not> ascii_space (hex_digit n)" by (auto simp: list_all_iff)
qed

definition repr_char :: "char \<Rightarrow> char \<Rightarrow> string" where
  "repr_char quote c =
     (let n = (of_char c :: nat) in
      if n = 92 \<or> c = quote then [CHR 0x5C, c]
      else if n = 10 then [CHR 0x5C, CHR ''n'']
      else if n = 13 then [CHR 0x5C, CHR ''r'']
      else if n = 9 then [CHR 0x5C, CHR ''t'']
      else if n < 32 \<or> (127 \<le> n \<and> n \<le> 160) \<or> n = 173
      then [CHR 0x5C, CHR ''x'', hex_digit (n div 16), hex_digit (n mod 16)]
      else [c])"

definition py_repr :: "string \<Rightarrow> string" where
  "py_repr s =
     (let quote = (if CHR 0x27 \<in> set s \<and> CHR 0x22 \<notin> set s then CHR 0x22 else CHR 0x27)
      in [quote] @ concat (map (repr_char quote) s) @ [quote])"

definition repr_opt :: "string option \<Rightarrow> string" where
  "repr_opt s = (case s of None \<Rightarrow> ''None'' | Some t \<Rightarrow> py_repr t)"

text \<open>\<open>repr\<close> of a JSON value.\<close>

function json_repr :: "json \<Rightarrow> string" where
  "json_repr JNull = ''None''"
| "json_repr (JBool b) = (if b then ''True'' else ''False'')"
| "json_repr (JInt n) = int_text n"
| "json_repr (JStr s) = py_repr s"
| "json_repr (JList xs) = ''['' @ py_join '', '' (map json_repr xs) @ '']''"
| "json_repr (JObj d) =
     ''{'' @ py_join '', '' (map (\<lambda>kv. py_repr (fst kv) @ '': '' @ json_repr (snd kv)) d) @ ''}''"
  by pat_completeness auto
termination
  by (relation "measure size") (auto intro: le_imp_less_Suc size_list_estimation' dest: size_dict_entry)

text \<open>\<open>str(value)\<close>: a text is itself.\<close>

definition json_str :: "json \<Rightarrow> string" where
  "json_str v = (case v of JStr s \<Rightarrow> s | _ \<Rightarrow> json_repr v)"

section \<open>Pins\<close>

text \<open>
  A pinned binary. One the index does not know has a name and the mark \<open>unresolved\<close> and no other
  field; \<open>variant\<close> is there on a routed dependency only.
\<close>

record pin =
  pin_name :: string
  pin_unresolved :: bool
  pin_evr :: string
  pin_arch :: string
  pin_location :: "string option"
  pin_sha256 :: "string option"
  pin_source :: "string option"
  pin_repo :: "string option"
  pin_variant :: "string option"

definition sha256_of :: "package \<Rightarrow> string option" where
  "sha256_of p = (if pkg_checksum_type p = Some ''sha256'' then pkg_checksum p else None)"

definition pin_binary :: "universe \<Rightarrow> string \<Rightarrow> pin" where
  "pin_binary u name =
     (case dget (u_binary_index u) name of
        None \<Rightarrow> \<lparr>pin_name = name, pin_unresolved = True, pin_evr = [], pin_arch = [], pin_location = None,
                 pin_sha256 = None, pin_source = None, pin_repo = None, pin_variant = None\<rparr>
      | Some p \<Rightarrow>
          \<lparr>pin_name = name, pin_unresolved = False, pin_evr = evr_string p, pin_arch = pkg_arch p,
           pin_location = pkg_location p, pin_sha256 = sha256_of p,
           pin_source = (if truthy (dget (u_source_of u) name) then dget (u_source_of u) name
                         else dget (u_foreign_source_of u) name),
           pin_repo = pkg_repo p, pin_variant = None\<rparr>)"

text \<open>
  A route names a declared variant, so its entry is there (in the source a missing one would raise
  \<open>KeyError\<close>).
\<close>

definition routed_binary ::
  "universe \<Rightarrow> routes \<Rightarrow> (string, variant) dict \<Rightarrow> superseded \<Rightarrow> string \<Rightarrow> string \<Rightarrow> pin" where
  "routed_binary u rs variants older src name =
     (case dget (dget_or rs src []) name of
        None \<Rightarrow> pin_binary u name
      | Some v \<Rightarrow>
          let entry = pin_binary u name;
              entry' = (case superseded_build older name (arch_of u name) (var_evr (the (dget variants v))) of
                          None \<Rightarrow> entry
                        | Some p \<Rightarrow> entry\<lparr>pin_evr := evr_string p, pin_arch := pkg_arch p,
                             pin_location := pkg_location p, pin_sha256 := sha256_of p, pin_repo := pkg_repo p\<rparr>)
          in entry'\<lparr>pin_variant := Some v\<rparr>)"

definition pin_text :: "pin \<Rightarrow> string" where
  "pin_text e =
     (let fields =
        [(''name'', py_repr (pin_name e))]
        @ (if pin_unresolved e then [(''unresolved'', ''True'')]
           else [(''evr'', py_repr (pin_evr e)), (''arch'', py_repr (pin_arch e)),
                 (''location'', repr_opt (pin_location e)), (''sha256'', repr_opt (pin_sha256 e)),
                 (''source'', repr_opt (pin_source e)), (''repo'', repr_opt (pin_repo e))])
        @ (case pin_variant e of None \<Rightarrow> [] | Some v \<Rightarrow> [(''variant'', py_repr v)])
      in ''{'' @ py_join '', '' (map (\<lambda>(k, v). py_repr k @ '': '' @ v) fields) @ ''}'')"

definition pin_key :: "pin \<Rightarrow> string" where
  "pin_key e = py_or (pin_sha256 e) (pin_text e)"

definition dedupe_pins :: "pin list \<Rightarrow> pin list" where
  "dedupe_pins entries =
     map snd (sorted_items (fold (\<lambda>e. dsetdefault (pin_key e) e) entries []))"

section \<open>The lock\<close>

text \<open>The command line the lock is written for; repositories in the order they were layered.\<close>

record repo =
  repo_name :: string
  repo_kind :: string
  repo_base :: string
  repo_primary :: string
  repo_path :: string

record arguments =
  arg_flavor :: string
  arg_release :: "string option"
  arg_dist_tag :: string
  arg_target_cpu :: string
  arg_repos :: "repo list"
  arg_explicit_build :: "string list"
  arg_source_image :: "string list"
  arg_prebuilt_source :: "string list"
  arg_override :: "string list"
  arg_implicit_group :: "string list"
  arg_seed_only :: bool
  arg_seed_package :: "string list"
  arg_source_variant :: "(string, variant) dict"
  arg_stages :: int
  arg_image :: "string list"
  arg_image_override :: "string list"
  arg_probe :: "string option"
  arg_source_exception :: "jobj list"

record source_pin =
  src_name :: string
  src_source_name :: string
  src_evr :: string
  src_location :: "string option"
  src_sha256 :: "string option"
  src_repo :: "string option"

record lock_package =
  lp_source :: source_pin
  lp_subpackages :: "string list"
  lp_variant_of :: "string option"
  lp_resolved :: "(string, string) dict"
  lp_deps_built :: "pin list"
  lp_deps_seed :: "pin list"
  lp_dynamic :: dynamic_info

record solve_inputs =
  in_build :: "string list"
  in_explicit_build :: "string list"
  in_source_image_sets :: "string list"
  in_prebuilt_sources :: "string list"
  in_overrides :: "string list"
  in_implicit_group :: "string list"
  in_seed_only :: bool
  in_seed_packages :: "string list"
  in_source_variants :: "string list"
  in_stages :: int
  in_images :: "string list"
  in_image_overrides :: "string list"
  in_probe :: "string option"
  in_source_exceptions :: "policy_exception list option"

record summary =
  sum_depth :: depth
  sum_cycles :: nat
  sum_staged_targets :: nat
  sum_problems :: nat
  sum_dynamic :: nat
  sum_unprobed :: nat
  sum_unmet :: nat
  sum_image_sets :: "(string, nat) dict"
  sum_superseded :: nat
  sum_pins_by_repo :: "(string, nat) dict"

record lock =
  lk_schema :: nat
  lk_flavor :: string
  lk_release :: "string option"
  lk_dist_tag :: string
  lk_target_cpu :: string
  lk_repos :: "(string \<times> string \<times> string \<times> string) list"
  lk_solve :: solve_inputs
  lk_summary :: summary
  lk_buildroot_seed :: "pin list"
  lk_variant_seed :: "pin list"
  lk_base_seed :: "string list"
  lk_image_sets :: "(string, pin list) dict"
  lk_build_order :: "string list"
  lk_cycles :: "string list list"
  lk_staged :: "stage list"
  lk_packages :: "(string, lock_package) dict"
  lk_problems :: "problem list"
  lk_source_policy :: "source_policy option"

definition LOCK_SCHEMA :: nat where
  "LOCK_SCHEMA = 2"

text \<open>\<open>os.path.basename\<close>\<close>

definition basename :: "string \<Rightarrow> string" where
  "basename path = rev (takeWhile (\<lambda>c. c \<noteq> CHR ''/'') (rev path))"

definition source_pin_of :: "universe \<Rightarrow> (string, variant) dict \<Rightarrow> string \<Rightarrow> source_pin" where
  "source_pin_of u variants src =
     (let r = dget (u_source_index u) src in
      \<lparr>src_name = src,
       src_source_name = (case dget variants src of None \<Rightarrow> src | Some v \<Rightarrow> if var_source v = [] then src else var_source v),
       src_evr = opt_text (Option.bind r pkg_version) @ ''-'' @ opt_text (Option.bind r pkg_release),
       src_location = Option.bind r pkg_location, src_sha256 = Option.bind r sha256_of,
       src_repo = Option.bind r pkg_repo\<rparr>)"

definition no_dynamic :: dynamic_info where
  "no_dynamic = \<lparr>dyn_source = ''repodata'', dyn_capabilities = [], dyn_suspected = [], dyn_unmet = False\<rparr>"

text \<open>Whether a dependency is built here: its usual source is on the build list.\<close>

definition built_here :: "universe \<Rightarrow> string list \<Rightarrow> string \<Rightarrow> bool" where
  "built_here u build_set dep =
     (case dget (u_source_of u) dep of None \<Rightarrow> False | Some s \<Rightarrow> s \<in> set build_set)"

definition lock_package_of ::
  "universe \<Rightarrow> string list \<Rightarrow> solution \<Rightarrow> variants_state \<Rightarrow> (string, variant) dict \<Rightarrow> superseded
   \<Rightarrow> string \<Rightarrow> lock_package" where
  "lock_package_of u build_set sol vs variants older src =
     (let deps = sort (dget_or (sol_deps sol) src []);
          sub = dget_or (vs_subpackages vs) src []
      in \<lparr>lp_source = source_pin_of u variants src,
          lp_subpackages = (if sub \<noteq> [] then sub else dget_or (u_subpackages u) src []),
          lp_variant_of = map_option var_source (dget variants src),
          lp_resolved = dget_or (sol_resolutions sol) src [],
          lp_deps_built = map (routed_binary u (vs_routes vs) variants older src)
                            (filter (built_here u build_set) deps),
          lp_deps_seed = map (pin_binary u) (filter (\<lambda>d. \<not> built_here u build_set d) deps),
          lp_dynamic = dget_or (sol_dynamic sol) src no_dynamic\<rparr>)"

definition seed_closure :: "solution \<Rightarrow> string list \<Rightarrow> string set \<Rightarrow> string list" where
  "seed_closure sol seed_packages base =
     sorted_set (concat (map snd (sol_deps sol)) @ seed_packages @ sorted_list_of_set base)"

definition variant_seed ::
  "universe \<Rightarrow> routes \<Rightarrow> (string, variant) dict \<Rightarrow> superseded \<Rightarrow> pin list" where
  "variant_seed u rs variants older =
     dedupe_pins (concat (map (\<lambda>src. map (routed_binary u rs variants older src)
        (sort (keys (dget_or rs src [])))) (sort (keys rs))))"

definition public_repo :: "repo \<Rightarrow> string \<times> string \<times> string \<times> string" where
  "public_repo r = (repo_name r, repo_kind r, repo_base r, repo_primary r)"

definition solve_inputs_of :: "arguments \<Rightarrow> string list \<Rightarrow> solve_inputs" where
  "solve_inputs_of args build_set =
     \<lparr>in_build = sorted_set build_set, in_explicit_build = sorted_set (arg_explicit_build args),
      in_source_image_sets = sorted_set (arg_source_image args),
      in_prebuilt_sources = sorted_set (arg_prebuilt_source args), in_overrides = sort (arg_override args),
      in_implicit_group = arg_implicit_group args, in_seed_only = arg_seed_only args,
      in_seed_packages = sort (arg_seed_package args),
      in_source_variants = map variant_text (sorted_items (arg_source_variant args)),
      in_stages = arg_stages args, in_images = sort (arg_image args),
      in_image_overrides = sort (arg_image_override args),
      in_probe = (if truthy (arg_probe args) then map_option basename (arg_probe args) else None),
      in_source_exceptions = None\<rparr>"

section \<open>Counting pins\<close>

definition bump :: "string option \<Rightarrow> (string, nat) dict \<Rightarrow> (string, nat) dict" where
  "bump origin counts =
     (let key = py_or origin ''unattributed'' in dset key (dget_or counts key 0 + 1) counts)"

definition pinned_repos :: "lock \<Rightarrow> string option list" where
  "pinned_repos l =
     map pin_repo (lk_buildroot_seed l)
     @ concat (map (\<lambda>(_, members). map pin_repo members) (lk_image_sets l))
     @ concat (map (\<lambda>(_, p). src_repo (lp_source p) # map pin_repo (lp_deps_built p @ lp_deps_seed p))
         (lk_packages l))"

definition count_pins_by_repo :: "lock \<Rightarrow> (string, nat) dict" where
  "count_pins_by_repo l = sorted_items (fold bump (pinned_repos l) [])"

section \<open>The source policy of the lock\<close>

definition policy_payload :: "pin \<Rightarrow> jobj" where
  "policy_payload e =
     [(''package'', JStr (pin_name e)),
      (''source'', case pin_source e of None \<Rightarrow> JNull | Some s \<Rightarrow> JStr s)]"

definition rpm_source_policy_inputs :: "lock \<Rightarrow> (string, jobj list) dict \<times> string set" where
  "rpm_source_policy_inputs l =
     (map (\<lambda>name. (name, map policy_payload (sort_key pin_name (dget_or (lk_image_sets l) name []))))
        (sorted_set (in_source_image_sets (lk_solve l))),
      set (map (\<lambda>(_, p). if src_source_name (lp_source p) = [] then src_name (lp_source p)
                         else src_source_name (lp_source p)) (lk_packages l))
      - set (in_prebuilt_sources (lk_solve l)))"

section \<open>Writing the lock\<close>

definition count_where :: "('a \<Rightarrow> bool) \<Rightarrow> (string, 'a) dict \<Rightarrow> nat" where
  "count_where p d = length (filter (\<lambda>kv. p (snd kv)) d)"

definition summary_of ::
  "depth \<Rightarrow> build_plan \<Rightarrow> solution \<Rightarrow> (string, string list) dict \<Rightarrow> replacement list \<Rightarrow> summary" where
  "summary_of dep plan sol image_sets replacements =
     \<lparr>sum_depth = dep, sum_cycles = length (plan_cycles plan), sum_staged_targets = length (plan_staged plan),
      sum_problems = length (sol_problems sol),
      sum_dynamic = count_where (\<lambda>d. dyn_capabilities d \<noteq> []) (sol_dynamic sol),
      sum_unprobed = count_where (\<lambda>d. dyn_suspected d \<noteq> []) (sol_dynamic sol),
      sum_unmet = count_where dyn_unmet (sol_dynamic sol),
      sum_image_sets = map (\<lambda>(k, v). (k, length v)) (sorted_items image_sets),
      sum_superseded = length replacements, sum_pins_by_repo = []\<rparr>"

definition draft_lock ::
  "universe \<Rightarrow> universe \<Rightarrow> string list \<Rightarrow> solution \<Rightarrow> variants_state \<Rightarrow> superseded \<Rightarrow> build_plan \<Rightarrow> depth
   \<Rightarrow> (string, string list) dict \<Rightarrow> string list \<Rightarrow> replacement list \<Rightarrow> string set \<Rightarrow> arguments \<Rightarrow> lock" where
  "draft_lock u image_u build_set sol vs older plan dep image_sets seed_packages replacements base args =
     \<lparr>lk_schema = LOCK_SCHEMA, lk_flavor = arg_flavor args, lk_release = arg_release args,
      lk_dist_tag = arg_dist_tag args, lk_target_cpu = arg_target_cpu args,
      lk_repos = map public_repo (arg_repos args),
      lk_solve = solve_inputs_of args build_set,
      lk_summary = summary_of dep plan sol image_sets replacements,
      lk_buildroot_seed = map (pin_binary u) (seed_closure sol seed_packages base),
      lk_variant_seed = variant_seed u (vs_routes vs) (arg_source_variant args) older,
      lk_base_seed = sorted_list_of_set base,
      lk_image_sets = map (\<lambda>(name, members). (name, map (pin_binary image_u) members)) (sorted_items image_sets),
      lk_build_order = plan_order plan, lk_cycles = plan_cycles plan, lk_staged = plan_staged plan,
      lk_packages = map (\<lambda>src. (src, lock_package_of u build_set sol vs (arg_source_variant args) older src))
                      (sorted_set build_set),
      lk_problems = sol_problems sol, lk_source_policy = None\<rparr>"

definition with_counts :: "lock \<Rightarrow> lock" where
  "with_counts l = l\<lparr>lk_summary := lk_summary l\<lparr>sum_pins_by_repo := count_pins_by_repo l\<rparr>\<rparr>"

definition with_policy :: "source_policy \<Rightarrow> lock \<Rightarrow> lock" where
  "with_policy pol l =
     l\<lparr>lk_source_policy := Some pol,
       lk_solve := lk_solve l\<lparr>in_source_exceptions := Some (pol_exceptions pol)\<rparr>\<rparr>"

definition emit_lockfile ::
  "universe \<Rightarrow> universe \<Rightarrow> string list \<Rightarrow> solution \<Rightarrow> variants_state \<Rightarrow> superseded \<Rightarrow> build_plan \<Rightarrow> depth
   \<Rightarrow> (string, string list) dict \<Rightarrow> string list \<Rightarrow> replacement list \<Rightarrow> string set \<Rightarrow> arguments
   \<Rightarrow> policy_error + lock" where
  "emit_lockfile u image_u build_set sol vs older plan dep image_sets seed_packages replacements base args =
     (let l = with_counts (draft_lock u image_u build_set sol vs older plan dep image_sets seed_packages
                             replacements base args)
      in if arg_source_image args = [] then Inr l
         else case rpm_source_policy_inputs l of (images, producers) \<Rightarrow>
           attempt (build_source_policy images producers (arg_source_exception args) (arg_source_image args))
             (\<lambda>pol. Inr (with_policy pol l)))"

section \<open>Every pin is counted\<close>

definition from_repo :: "string \<Rightarrow> string option list \<Rightarrow> nat" where
  "from_repo r origins = length (filter (\<lambda>o'. py_or o' ''unattributed'' = r) origins)"

lemma dget_fold_bump:
  "dget_or (fold bump origins counts) r 0 = dget_or counts r 0 + from_repo r origins"
  by (induction origins arbitrary: counts) (auto simp: from_repo_def bump_def Let_def dget_or_def)

lemma fold_bump_positive:
  "\<forall>r. dget counts r \<noteq> Some 0 \<Longrightarrow> dget (fold bump origins counts) r \<noteq> Some 0"
  by (induction origins arbitrary: counts) (auto simp: bump_def Let_def)

lemma distinct_fold_bump: "distinct (map fst counts) \<Longrightarrow> distinct (map fst (fold bump origins counts))"
  by (induction origins arbitrary: counts) (auto simp: bump_def Let_def)

lemma dget_sorted_items: "distinct (map fst d) \<Longrightarrow> dget (sorted_items d) = dget d"
  using sorted_items_facts(3) [of d]
  by (intro map_of_eqI ext) (auto simp: sorted_items_facts(1) map_of_eq_Some_iff fun_eq_iff)

lemma dget_count_pins:
  "dget (count_pins_by_repo l) r =
     (if from_repo r (pinned_repos l) = 0 then None else Some (from_repo r (pinned_repos l)))"
proof -
  let ?d = "fold bump (pinned_repos l) []"
  have "dget_or ?d r 0 = from_repo r (pinned_repos l)"
    unfolding dget_fold_bump by (simp add: dget_or_def)
  moreover have "dget ?d r \<noteq> Some 0" by (rule fold_bump_positive) simp
  ultimately have "dget ?d r = (if from_repo r (pinned_repos l) = 0 then None else Some (from_repo r (pinned_repos l)))"
    by (cases "dget ?d r") (auto simp: dget_or_def)
  then show ?thesis unfolding count_pins_by_repo_def by (simp add: dget_sorted_items distinct_fold_bump)
qed

lemma pinned_repos_frame [simp]:
  "pinned_repos (with_counts l) = pinned_repos l" "pinned_repos (with_policy pol l) = pinned_repos l"
  by (simp_all add: pinned_repos_def with_counts_def with_policy_def)

lemma emit_lockfile_cases:
  assumes "emit_lockfile u image_u build_set sol vs older plan dep image_sets seeds reps base args = Inr l"
  obtains "arg_source_image args = []"
      "l = with_counts (draft_lock u image_u build_set sol vs older plan dep image_sets seeds reps base args)"
  | pol where "arg_source_image args \<noteq> []"
      "build_source_policy (fst (rpm_source_policy_inputs (with_counts
          (draft_lock u image_u build_set sol vs older plan dep image_sets seeds reps base args))))
        (snd (rpm_source_policy_inputs (with_counts
          (draft_lock u image_u build_set sol vs older plan dep image_sets seeds reps base args))))
        (arg_source_exception args) (arg_source_image args) = Inr pol"
      "l = with_policy pol (with_counts
        (draft_lock u image_u build_set sol vs older plan dep image_sets seeds reps base args))"
  using assms
  by (auto simp: emit_lockfile_def Let_def attempt_Inr split: if_splits prod.splits)

text \<open>
  The pin counts of a lock are exact: a repository is listed with the number of entries of the
  lock, seeds, images, sources and dependencies together, that came from it, and is not listed
  when there is none.
\<close>
theorem pin_counts_exact:
  assumes "emit_lockfile u image_u build_set sol vs older plan dep image_sets seeds reps base args = Inr l"
  shows "dget (sum_pins_by_repo (lk_summary l)) r =
    (if from_repo r (pinned_repos l) = 0 then None else Some (from_repo r (pinned_repos l)))"
  using assms
proof (rule emit_lockfile_cases)
  let ?d = "draft_lock u image_u build_set sol vs older plan dep image_sets seeds reps base args"
  have counts: "sum_pins_by_repo (lk_summary (with_counts ?d)) = count_pins_by_repo ?d"
    by (simp add: with_counts_def)
  {
    assume "l = with_counts ?d"
    then show ?thesis using counts dget_count_pins by simp
  next
    fix pol assume "l = with_policy pol (with_counts ?d)"
    moreover have "lk_summary (with_policy pol (with_counts ?d)) = lk_summary (with_counts ?d)"
      by (simp add: with_policy_def)
    ultimately show ?thesis using counts dget_count_pins by simp
  }
qed

section \<open>The cut between built and seeded\<close>

lemma pin_name_routed [simp]: "pin_name (pin_binary u name) = name" "pin_name (routed_binary u rs vs older src name) = name"
  by (simp_all add: pin_binary_def routed_binary_def Let_def split: option.split)

lemma emitted_packages:
  assumes "emit_lockfile u image_u build_set sol vs older plan dep image_sets seeds reps base args = Inr l"
  shows "lk_packages l = map (\<lambda>src. (src, lock_package_of u build_set sol vs (arg_source_variant args) older src))
      (sorted_set build_set)"
    and "lk_buildroot_seed l = map (pin_binary u) (seed_closure sol seeds base)"
    and "lk_base_seed l = sorted_list_of_set base"
    and "lk_image_sets l = map (\<lambda>(name, members). (name, map (pin_binary image_u) members)) (sorted_items image_sets)"
  by (rule emit_lockfile_cases [OF assms]; simp add: with_counts_def with_policy_def draft_lock_def)+

lemma sort_partition_filter: "sort (filter P xs @ filter (\<lambda>x. \<not> P x) xs) = sort (xs :: 'a::linorder list)"
  by (rule properties_for_sort) (simp_all add: multiset_partition [symmetric])

text \<open>
  the lock cuts each buildroot in two without losing anything: the dependencies pinned as
  built and as seeded are together those the solve found, one is listed as built exactly when its
  usual source is on the build list, and all of them, with the shared base, can be fetched from
  the seed table.
\<close>
theorem lock_cut_exact:
  assumes "emit_lockfile u image_u build_set sol vs older plan dep image_sets seeds reps base args = Inr l"
    and "src \<in> set build_set" and "dget (sol_deps sol) src = Some deps" and "finite base"
  shows "\<exists>p. dget (lk_packages l) src = Some p
    \<and> sort (map pin_name (lp_deps_built p @ lp_deps_seed p)) = sort deps
    \<and> set (map pin_name (lp_deps_built p)) = {d \<in> set deps. built_here u build_set d}
    \<and> set deps \<union> set (lk_base_seed l) \<subseteq> set (map pin_name (lk_buildroot_seed l))"
proof -
  let ?p = "lock_package_of u build_set sol vs (arg_source_variant args) older src"
  note e = emitted_packages [OF assms(1)]
  have "dget (lk_packages l) src = Some ?p"
    using assms(2) by (simp add: e(1) map_of_map_restrict)
  moreover have built: "map pin_name (lp_deps_built ?p) = filter (built_here u build_set) (sort deps)"
    and seed: "map pin_name (lp_deps_seed ?p) = filter (\<lambda>d. \<not> built_here u build_set d) (sort deps)"
    using assms(3) by (simp_all add: lock_package_of_def Let_def dget_or_def comp_def)
  moreover have "sort (map pin_name (lp_deps_built ?p @ lp_deps_seed ?p)) = sort deps"
    unfolding map_append built seed sort_partition_filter by (simp add: sorted_sort_id)
  moreover have "set deps \<subseteq> set (seed_closure sol seeds base)"
    using dget_in_set [OF assms(3)] by (force simp: seed_closure_def)
  moreover have "set (sorted_list_of_set base) \<subseteq> set (seed_closure sol seeds base)"
    by (auto simp: seed_closure_def)
  ultimately show ?thesis by (intro exI [of _ ?p]) (auto simp: e(2,3) comp_def)
qed

section \<open>The recorded policy\<close>

lemma policy_inputs_frame:
  "rpm_source_policy_inputs (with_policy pol l) = rpm_source_policy_inputs l"
  by (simp add: rpm_source_policy_inputs_def with_policy_def)

text \<open>
  a lock whose sources follow from its images carries a policy that validates against the
  lock itself: reading the payloads and producers back out of the written lock and checking the
  recorded policy against them succeeds.
\<close>
theorem emitted_policy_validates:
  assumes "emit_lockfile u image_u build_set sol vs older plan dep image_sets seeds reps base args = Inr l"
    and "arg_source_image args \<noteq> []"
  shows "\<exists>pol. lk_source_policy l = Some pol
    \<and> validate_source_policy (policy_json pol) (fst (rpm_source_policy_inputs l))
        (snd (rpm_source_policy_inputs l)) = Inr ()"
  using assms(1)
proof (rule emit_lockfile_cases)
  assume "arg_source_image args = []"
  with assms(2) show ?thesis by simp
next
  let ?d = "with_counts (draft_lock u image_u build_set sol vs older plan dep image_sets seeds reps base args)"
  fix pol
  assume b: "build_source_policy (fst (rpm_source_policy_inputs ?d)) (snd (rpm_source_policy_inputs ?d))
      (arg_source_exception args) (arg_source_image args) = Inr pol" and l: "l = with_policy pol ?d"
  have "lk_source_policy l = Some pol" by (simp add: l with_policy_def)
  then show ?thesis using built_policy_validates [OF b] unfolding l policy_inputs_frame by blast
qed

section \<open>Instances\<close>

definition small_args :: arguments where
  "small_args =
     \<lparr>arg_flavor = ''fedora'', arg_release = Some ''43'', arg_dist_tag = [], arg_target_cpu = ''x86_64'',
      arg_repos = [], arg_explicit_build = [''zlib''], arg_source_image = [''live''],
      arg_prebuilt_source = [], arg_override = [], arg_implicit_group = [], arg_seed_only = False,
      arg_seed_package = [], arg_source_variant = [], arg_stages = 3, arg_image = [''live=glibc''],
      arg_image_override = [], arg_probe = None,
      arg_source_exception = [[(''package'', JStr ''glibc''), (''kind'', JStr ''firmware''), (''reason'', JStr ''pinned'')]]\<rparr>"

definition small_solution :: solution where
  "small_solution = \<lparr>sol_deps = [(''zlib'', [''glibc'', ''make''])], sol_resolutions = [(''zlib'', [(''make'', ''make'')])],
     sol_problems = [], sol_dynamic = [(''zlib'', no_dynamic)]\<rparr>"

definition small_plan :: build_plan where
  "small_plan = \<lparr>plan_order = [''zlib''], plan_cycles = [], plan_staged = [], plan_acyclic = True\<rparr>"

definition small_depth :: depth where
  "small_depth = \<lparr>built_from_source = 0, from_seed = 2, total_build_deps = 2, fraction_built = Some (0, 2),
     source_packages_built = 1\<rparr>"

definition small_emit :: "policy_error + lock" where
  "small_emit = emit_lockfile small_universe small_universe [''zlib''] small_solution
     (add_source_variants [] small_universe [] [] [''zlib'']) [] small_plan small_depth
     [(''live'', [''glibc''])] [] [] {} small_args"

definition small_lock :: lock where
  "small_lock = projr small_emit"

lemma small_emit_ok: "small_emit = Inr small_lock"
proof -
  have "\<not> isl small_emit" by code_simp
  then show ?thesis by (simp add: small_lock_def sum.collapse(2))
qed

theorem pin_counts_exact_witness:
  "dget (sum_pins_by_repo (lk_summary small_lock)) ''unattributed'' = Some 6"
proof -
  have "from_repo ''unattributed'' (pinned_repos small_lock) = 6" by code_simp
  then show ?thesis using pin_counts_exact [OF small_emit_ok [unfolded small_emit_def], of "''unattributed''"] by simp
qed

theorem lock_cut_exact_witness:
  "\<exists>p. dget (lk_packages small_lock) ''zlib'' = Some p
     \<and> sort (map pin_name (lp_deps_built p @ lp_deps_seed p)) = [''glibc'', ''make'']"
proof -
  have d: "dget (sol_deps small_solution) ''zlib'' = Some [''glibc'', ''make'']" by (simp add: small_solution_def)
  have "sort [''glibc'', ''make''] = [''glibc'', ''make'']" by code_simp
  then show ?thesis using lock_cut_exact [OF small_emit_ok [unfolded small_emit_def] _ d] by auto
qed

theorem emitted_policy_validates_witness:
  "\<exists>pol. lk_source_policy small_lock = Some pol
     \<and> validate_source_policy (policy_json pol) (fst (rpm_source_policy_inputs small_lock))
         (snd (rpm_source_policy_inputs small_lock)) = Inr ()"
  by (rule emitted_policy_validates [OF small_emit_ok [unfolded small_emit_def]]) (simp add: small_args_def)

text \<open>
  A dependency routed to a variant whose usual source is not on the build list: the graph has the
  edge to the variant, so it is built first, but the lock pins the current build of the binary for
  the consumer and names no variant.
\<close>

definition routed_universe :: universe where
  "routed_universe = build_universe
     [build_at ''libacl'' ''2.4.0'' ''x86_64'' None\<lparr>pkg_sourcerpm := Some ''acl-2.4.0-1.fc43.src.rpm''\<rparr>]
     [] ''x86_64'' [] []"

lemma seeded_route_ignored:
  "edge (project_to_source_graph [(''tar'', [''libacl''])] (u_source_of routed_universe) [''tar'', ''acl-compat'']
      [(''tar'', [(''libacl'', ''acl-compat'')])]) ''tar'' ''acl-compat''"
  "lp_deps_seed (lock_package_of routed_universe [''tar'', ''acl-compat'']
      (small_solution\<lparr>sol_deps := [(''tar'', [''libacl''])]\<rparr>)
      \<lparr>vs_universe = routed_universe, vs_build_set = [], vs_problems = [], vs_subpackages = [],
       vs_routes = [(''tar'', [(''libacl'', ''acl-compat'')])]\<rparr>
      [(''acl-compat'', \<lparr>var_source = ''acl'', var_evr = ''2.3.2-1.fc43'', var_consumers = [''tar'']\<rparr>)] [] ''tar'')
   = [pin_binary routed_universe ''libacl'']"
  by (simp_all add: project_edge dep_source_def dget_or_def truthy_def) code_simp

end
