(* ===== verification/PublicBase.thy ===== *)
theory PublicBase
  imports EmitLock
begin

text \<open>
  Which URLs a lock may name, and how repositories get their names: \<^verbatim>\<open>check_public_base\<close>,
  \<^verbatim>\<open>derive_repo_name\<close> and \<^verbatim>\<open>collect_repos\<close> of
  \<^verbatim>\<open>tools/solve.py\<close>, over the parts of \<^verbatim>\<open>urllib.parse.urlsplit\<close> they use.
\<close>

section \<open>Splitting a URL\<close>

text \<open>
  \<^verbatim>\<open>urlsplit\<close> on text below code point 256: leading control characters and spaces go, tabs
  and line ends go everywhere, then the scheme, then what follows \<open>//\<close> up to the first of
  \<open>/?#\<close>. A network location with a bracket stands for an IP literal, which is refused either by
  the library or by every caller here, and is refused at once.
\<close>

definition py_lower_char :: "char \<Rightarrow> char" where
  "py_lower_char c =
     (let n = (of_char c :: nat) in
      if (65 \<le> n \<and> n \<le> 90) \<or> (192 \<le> n \<and> n \<le> 222 \<and> n \<noteq> 215) then char_of (n + 32) else c)"

definition py_lower :: "string \<Rightarrow> string" where
  "py_lower s = map py_lower_char s"

definition url_clean :: "string \<Rightarrow> string" where
  "url_clean url =
     filter (\<lambda>c. (of_char c :: nat) \<notin> {9, 10, 13}) (dropWhile (\<lambda>c. (of_char c :: nat) \<le> 32) url)"

definition ascii_alpha :: "char \<Rightarrow> bool" where
  "ascii_alpha c = (let n = (of_char c :: nat) in (65 \<le> n \<and> n \<le> 90) \<or> (97 \<le> n \<and> n \<le> 122))"

definition scheme_char :: "char \<Rightarrow> bool" where
  "scheme_char c =
     (ascii_alpha c \<or> (let n = (of_char c :: nat) in 48 \<le> n \<and> n \<le> 57) \<or> c \<in> set ''+-.'')"

text \<open>The scheme in lower case and the rest, without a scheme where there is none.\<close>

definition split_scheme :: "string \<Rightarrow> string \<times> string" where
  "split_scheme url =
     (case py_partition CHR '':'' url of (before, found, after) \<Rightarrow>
        if found \<and> before \<noteq> [] \<and> ascii_alpha (hd before) \<and> list_all scheme_char before
        then (py_lower before, after) else ([], url))"

definition ends_netloc :: "char \<Rightarrow> bool" where
  "ends_netloc c = (c \<in> set ''/?#'')"

record url =
  url_scheme :: string
  url_netloc :: string
  url_path :: string

definition urlsplit :: "string \<Rightarrow> url" where
  "urlsplit raw =
     (case split_scheme (url_clean raw) of (scheme, rest) \<Rightarrow>
        let netloc = (if py_startswith rest ''//'' then takeWhile (\<lambda>c. \<not> ends_netloc c) (drop 2 rest) else []);
            remaining = (if py_startswith rest ''//'' then dropWhile (\<lambda>c. \<not> ends_netloc c) (drop 2 rest) else rest)
        in \<lparr>url_scheme = scheme, url_netloc = netloc,
            url_path = takeWhile (\<lambda>c. c \<noteq> CHR ''?'' \<and> c \<noteq> CHR ''#'') remaining\<rparr>)"

text \<open>\<open>netloc.rpartition('@')[2]\<close>, and the host and the port text in it.\<close>

definition host_info :: "string \<Rightarrow> string" where
  "host_info netloc = rev (takeWhile (\<lambda>c. c \<noteq> CHR ''@'') (rev netloc))"

definition url_hostname :: "url \<Rightarrow> string option" where
  "url_hostname u =
     (let host = fst (py_partition CHR '':'' (host_info (url_netloc u)))
      in if host = [] then None
         else case py_partition CHR ''%'' host of (h, found, zone) \<Rightarrow>
           Some (py_lower h @ (if found then CHR ''%'' # zone else [])))"

definition ascii_digit :: "char \<Rightarrow> bool" where
  "ascii_digit c = (let n = (of_char c :: nat) in 48 \<le> n \<and> n \<le> 57)"

text \<open>No port, a port, or the \<open>ValueError\<close> of a text that is not one.\<close>

definition url_port :: "url \<Rightarrow> unit + int option" where
  "url_port u =
     (let port = snd (snd (py_partition CHR '':'' (host_info (url_netloc u))))
      in if port = [] then Inr None
         else if list_all ascii_digit port then
           (case py_digits 0 port of
              Some n \<Rightarrow> if n \<le> 65535 then Inr (Some n) else Inl ()
            | None \<Rightarrow> Inl ())
         else Inl ())"

section \<open>Public bases\<close>

definition PUBLIC_BASE_HOSTS :: "string list" where
  "PUBLIC_BASE_HOSTS =
     [''dl.fedoraproject.org'', ''download.fedoraproject.org'', ''archives.fedoraproject.org'',
      ''kojipkgs.fedoraproject.org'', ''kojihub.stream.centos.org'', ''mirror.stream.centos.org'']"

datatype base_error =
    NotAbsolute string string
  | NotPublic string string "string option"
  | InvalidUrl string
  | BaseCount string nat nat
  | NameCount string nat nat
  | NameTwice string
  | CannotName string

definition strip_slashes :: "string \<Rightarrow> string" where
  "strip_slashes s = rdrop_while (\<lambda>c. c = CHR ''/'') s"

definition check_public_base :: "string \<Rightarrow> string \<Rightarrow> base_error + string" where
  "check_public_base flag raw =
     (if raw = [] then Inr raw
      else
        let parts = urlsplit raw in
        if CHR 0x5B \<in> set (url_netloc parts) \<or> CHR 0x5D \<in> set (url_netloc parts) then Inl (InvalidUrl raw)
        else if url_scheme parts \<notin> {''http'', ''https''} \<or> url_netloc parts = [] then Inl (NotAbsolute flag raw)
        else case url_port parts of
          Inl _ \<Rightarrow> Inl (InvalidUrl raw)
        | Inr port \<Rightarrow>
            let port_is_default = (port \<in> {None, Some 80, Some 443}) in
            case url_hostname parts of
              None \<Rightarrow> Inl (NotPublic flag raw None)
            | Some host \<Rightarrow>
                if host \<notin> set PUBLIC_BASE_HOSTS \<or> \<not> port_is_default then Inl (NotPublic flag raw (Some host))
                else Inr (strip_slashes raw))"

section \<open>Naming repositories\<close>

definition LAYOUT_WORDS :: "string list" where
  "LAYOUT_WORDS = [''releases'', ''updates'', ''development'', ''rawhide'', ''archive'']"

definition repo_stem :: "string \<Rightarrow> string \<Rightarrow> string" where
  "repo_stem kind base =
     (let words = filter (\<lambda>w. w \<noteq> []) (py_split CHR ''/'' (url_path (urlsplit base)))
      in case find (\<lambda>w. w \<in> set LAYOUT_WORDS) words of
           Some layout \<Rightarrow> kind @ ''-'' @ layout | None \<Rightarrow> kind)"

definition derive_repo_name :: "string \<Rightarrow> string \<Rightarrow> string list \<Rightarrow> base_error + string" where
  "derive_repo_name kind base taken =
     (let stem = repo_stem kind base in
      if stem \<notin> set taken then Inr stem
      else case find (\<lambda>name. name \<notin> set taken) (map (\<lambda>i. stem @ nat_text i) [2..<100]) of
             Some name \<Rightarrow> Inr name
           | None \<Rightarrow> Inl (CannotName base))"

text \<open>One kind of repositories: the Nth base and name go with the Nth primary.\<close>

fun collect_kind ::
  "string \<Rightarrow> string list \<Rightarrow> string list \<Rightarrow> string list \<Rightarrow> string list \<Rightarrow> base_error + repo list" where
  "collect_kind kind [] bases names taken = Inr []"
| "collect_kind kind (primary # primaries) bases names taken =
     attempt (check_public_base (''--'' @ kind @ ''-base'') (case bases of [] \<Rightarrow> [] | b # _ \<Rightarrow> b)) (\<lambda>base.
     attempt (case names of [] \<Rightarrow> derive_repo_name kind base taken | n # _ \<Rightarrow> Inr n) (\<lambda>name.
       if name \<in> set taken then Inl (NameTwice name)
       else
         attempt (collect_kind kind primaries (tl bases) (tl names) (name # taken)) (\<lambda>rs.
           Inr (\<lparr>repo_name = name, repo_kind = kind, repo_base = base, repo_primary = basename primary,
                 repo_path = primary\<rparr> # rs))))"

fun collect_kinds ::
  "(string \<times> string list \<times> string list \<times> string list) list \<Rightarrow> repo list \<Rightarrow> base_error + repo list" where
  "collect_kinds [] repos = Inr repos"
| "collect_kinds ((kind, primaries, bases, names) # kinds) repos =
     (if bases \<noteq> [] \<and> length bases \<noteq> length primaries
      then Inl (BaseCount kind (length bases) (length primaries))
      else if names \<noteq> [] \<and> length names \<noteq> length primaries
      then Inl (NameCount kind (length names) (length primaries))
      else
        attempt (collect_kind kind primaries bases names (map repo_name repos)) (\<lambda>rs.
          collect_kinds kinds (repos @ rs)))"

record repo_flags =
  binary_primary :: "string list"
  binary_base :: "string list"
  binary_repo :: "string list"
  buildroot_primary :: "string list"
  buildroot_base :: "string list"
  buildroot_repo :: "string list"
  source_primary :: "string list"
  source_base :: "string list"
  source_repo :: "string list"

definition collect_repos :: "repo_flags \<Rightarrow> base_error + repo list" where
  "collect_repos f =
     collect_kinds
       [(''binary'', binary_primary f, binary_base f, binary_repo f),
        (''buildroot'', buildroot_primary f, buildroot_base f, buildroot_repo f),
        (''source'', source_primary f, source_base f, source_repo f)] []"

section \<open>Only a public host\<close>

lemma takeWhile_rev_split:
  "s = rev (dropWhile P (rev s)) @ rev (takeWhile P (rev s))"
  by (metis rev_append rev_rev_ident takeWhile_dropWhile_id)

lemma host_info_split:
  obtains user where "netloc = user @ host_info netloc" and "user = [] \<or> last user = CHR ''@''"
proof -
  let ?P = "\<lambda>c. c \<noteq> CHR ''@''"
  let ?user = "rev (dropWhile ?P (rev netloc))"
  have "?user = [] \<or> last ?user = CHR ''@''"
    using hd_dropWhile [of ?P "rev netloc"] by (cases "dropWhile ?P (rev netloc)") (auto simp: last_rev)
  then show ?thesis using that takeWhile_rev_split [of netloc ?P] unfolding host_info_def by blast
qed

lemma host_info_no_at: "CHR ''@'' \<notin> set (host_info netloc)"
  unfolding host_info_def by (auto dest: set_takeWhileD)

definition default_port :: "string \<Rightarrow> bool" where
  "default_port port =
     (port = [] \<or> port = '':'' \<or>
      (\<exists>digits. port = CHR '':'' # digits \<and> list_all ascii_digit digits
         \<and> (py_digits 0 digits = Some 80 \<or> py_digits 0 digits = Some 443)))"

text \<open>An absolute http URL whose authority names one of the hosts, on a default port.\<close>

definition public_url :: "string \<Rightarrow> bool" where
  "public_url url =
     (\<exists>scheme user host port remaining.
        url = scheme @ ''://'' @ user @ host @ port @ remaining
        \<and> py_lower scheme \<in> {''http'', ''https''} \<and> py_lower host \<in> set PUBLIC_BASE_HOSTS
        \<and> default_port port \<and> (user = [] \<or> last user = CHR ''@'') \<and> CHR ''@'' \<notin> set (host @ port)
        \<and> (\<forall>c \<in> set (user @ host @ port). \<not> ends_netloc c)
        \<and> (remaining = [] \<or> ends_netloc (hd remaining)))"

lemma no_percent_host: "h @ CHR ''%'' # zone \<notin> set PUBLIC_BASE_HOSTS"
proof
  assume "h @ CHR ''%'' # zone \<in> set PUBLIC_BASE_HOSTS"
  then have "list_ex (\<lambda>x. CHR ''%'' \<in> set x) PUBLIC_BASE_HOSTS"
    unfolding list_ex_iff by (metis in_set_conv_decomp)
  moreover have "\<not> list_ex (\<lambda>x. CHR ''%'' \<in> set x) PUBLIC_BASE_HOSTS"
    by (simp add: PUBLIC_BASE_HOSTS_def)
  ultimately show False by blast
qed

lemma scheme_split:
  assumes "split_scheme url = (scheme, rest)" and "scheme \<noteq> []"
  obtains s where "url = s @ '':'' @ rest" and "scheme = py_lower s"
proof -
  obtain before found after where p: "py_partition CHR '':'' url = (before, found, after)" by (metis prod_cases3)
  then have "found" "scheme = py_lower before" "rest = after"
    using assms by (auto simp: split_scheme_def split: if_splits)
  then show ?thesis using that [of before] py_partition_whole [OF p] by simp
qed

lemma checked_base_is_public_lemma:
  assumes "check_public_base flag raw = Inr base" and "raw \<noteq> []"
  shows "public_url (url_clean raw) \<and> base = strip_slashes raw"
proof -
  let ?u = "urlsplit raw"
  obtain scheme rest where ss: "split_scheme (url_clean raw) = (scheme, rest)" by fastforce
  obtain host port where
    scheme: "url_scheme ?u \<in> {''http'', ''https''}" and net: "url_netloc ?u \<noteq> []"
    and port: "url_port ?u = Inr port" "port \<in> {None, Some 80, Some 443}"
    and host: "url_hostname ?u = Some host" "host \<in> set PUBLIC_BASE_HOSTS"
    and base: "base = strip_slashes raw"
    using assms by (auto simp: check_public_base_def Let_def split: if_splits sum.splits option.splits)
  have u: "url_scheme ?u = scheme" "py_startswith rest ''//''"
    "url_netloc ?u = takeWhile (\<lambda>c. \<not> ends_netloc c) (drop 2 rest)"
    using net by (auto simp: urlsplit_def ss Let_def split: if_splits)
  obtain s where s: "url_clean raw = s @ '':'' @ rest" "scheme = py_lower s"
    by (rule scheme_split [OF ss]) (use scheme u(1) in auto)
  let ?net = "url_netloc ?u" and ?rem = "dropWhile (\<lambda>c. \<not> ends_netloc c) (drop 2 rest)"
  have "take 2 rest = ''//''" using u(2) by (simp add: py_startswith_def numeral_2_eq_2)
  then have "rest = ''//'' @ drop 2 rest" by (metis append_take_drop_id)
  then have rest: "rest = ''//'' @ ?net @ ?rem" unfolding u(3) takeWhile_dropWhile_id .
  obtain user where user: "?net = user @ host_info ?net" "user = [] \<or> last user = CHR ''@''"
    by (rule host_info_split)
  obtain h f p where hp: "py_partition CHR '':'' (host_info ?net) = (h, f, p)" by (metis prod_cases3)
  let ?port = "if f then CHR '':'' # p else []"
  have info: "host_info ?net = h @ ?port" using py_partition_whole [OF hp] by simp
  have p0: "\<not> f \<Longrightarrow> p = []" using hp by (simp add: py_partition_def split: if_splits)
  have "py_lower h \<in> set PUBLIC_BASE_HOSTS"
  proof -
    obtain h' g zone where z: "py_partition CHR ''%'' h = (h', g, zone)" by (metis prod_cases3)
    have eq: "host = py_lower h' @ (if g then CHR ''%'' # zone else [])"
      using host(1) hp z by (simp add: url_hostname_def Let_def split: if_splits)
    then have "\<not> g" using host(2) no_percent_host by auto
    then show ?thesis using eq host(2) py_partition_whole [OF z] by simp
  qed
  moreover have "default_port ?port"
  proof (cases "p = []")
    case True
    then show ?thesis by (simp add: default_port_def)
  next
    case False
    then have "list_all ascii_digit p" "py_digits 0 p = Some 80 \<or> py_digits 0 p = Some 443"
      using port hp by (auto simp: url_port_def Let_def split: if_splits option.splits)
    then show ?thesis using False p0 by (auto simp: default_port_def)
  qed
  moreover have "?rem = [] \<or> ends_netloc (hd ?rem)" using hd_dropWhile by blast
  moreover have "\<forall>c \<in> set (user @ h @ ?port). \<not> ends_netloc c"
    using user(1) u(3) unfolding info by (metis set_takeWhileD)
  moreover have "CHR ''@'' \<notin> set (h @ ?port)" by (rule subst [OF info, of "\<lambda>x. CHR ''@'' \<notin> set x"]) (rule host_info_no_at)
  moreover have "url_clean raw = s @ ''://'' @ user @ h @ ?port @ ?rem"
  proof -
    have "?net = user @ h @ ?port" using user(1) by (simp only: info)
    then show ?thesis using s(1) rest by simp
  qed
  ultimately have "public_url (url_clean raw)"
    unfolding public_url_def using user(2) scheme u(1) s(2)
    by (intro exI [of _ s] exI [of _ user] exI [of _ h] exI [of _ ?port] exI [of _ ?rem]) simp
  then show ?thesis using base by blast
qed

text \<open>
  C17: a base URL that is not refused names a public mirror, whatever is in front of it: read as
  the library reads it, it is an http or https URL whose authority, after any user part, is one of
  the listed hosts with no port or port 80 or 443.
\<close>
theorem checked_base_is_public:
  assumes "check_public_base flag raw = Inr base" and "raw \<noteq> []"
  shows "public_url (url_clean raw) \<and> base = strip_slashes raw"
  by (rule checked_base_is_public_lemma [OF assms])

theorem checked_base_is_public_witness:
  "check_public_base ''--binary-base'' ''https://dl.fedoraproject.org/pub/fedora/'' = Inr ''https://dl.fedoraproject.org/pub/fedora''
   \<and> public_url (url_clean ''https://dl.fedoraproject.org/pub/fedora/'')
   \<and> check_public_base ''--binary-base'' ''https://dl.fedoraproject.org@mirror.example/pub''
     = Inl (NotPublic ''--binary-base'' ''https://dl.fedoraproject.org@mirror.example/pub'' (Some ''mirror.example''))"
proof -
  have c: "check_public_base ''--binary-base'' ''https://dl.fedoraproject.org/pub/fedora/''
      = Inr ''https://dl.fedoraproject.org/pub/fedora''" by code_simp
  have "check_public_base ''--binary-base'' ''https://dl.fedoraproject.org@mirror.example/pub''
     = Inl (NotPublic ''--binary-base'' ''https://dl.fedoraproject.org@mirror.example/pub'' (Some ''mirror.example''))"
    by code_simp
  then show ?thesis using c checked_base_is_public [OF c] by simp
qed

section \<open>Names\<close>

lemma derive_repo_name_fresh: "derive_repo_name kind base taken = Inr name \<Longrightarrow> name \<notin> set taken"
  by (auto simp: derive_repo_name_def Let_def find_Some_iff split: if_splits option.splits)

definition recorded_base :: "repo \<Rightarrow> bool" where
  "recorded_base r = (repo_base r = [] \<or> (\<exists>raw. public_url (url_clean raw) \<and> repo_base r = strip_slashes raw))"

lemma checked_recorded:
  assumes "check_public_base flag raw = Inr base"
  shows "base = [] \<or> (\<exists>raw. public_url (url_clean raw) \<and> base = strip_slashes raw)"
proof (cases "raw = []")
  case True
  then show ?thesis using assms by (simp add: check_public_base_def)
next
  case False
  then show ?thesis using checked_base_is_public_lemma [OF assms] by blast
qed

lemma collect_kind_sound:
  assumes "collect_kind kind primaries bases names taken = Inr rs"
  shows "distinct (map repo_name rs) \<and> set (map repo_name rs) \<inter> set taken = {}
    \<and> map repo_path rs = primaries \<and> (\<forall>r \<in> set rs. repo_kind r = kind \<and> recorded_base r)"
  using assms
proof (induction kind primaries bases names taken arbitrary: rs rule: collect_kind.induct)
  case (2 kind primary primaries bases names taken)
  let ?b = "case bases of [] \<Rightarrow> [] | b # _ \<Rightarrow> b"
  obtain base name rs' where base: "check_public_base (''--'' @ kind @ ''-base'') ?b = Inr base"
    and name: "(case names of [] \<Rightarrow> derive_repo_name kind base taken | n # _ \<Rightarrow> Inr n) = Inr name"
    and fresh: "name \<notin> set taken"
    and rest: "collect_kind kind primaries (tl bases) (tl names) (name # taken) = Inr rs'"
    and rs: "rs = \<lparr>repo_name = name, repo_kind = kind, repo_base = base, repo_primary = basename primary,
       repo_path = primary\<rparr> # rs'"
    using "2.prems" by (auto simp: attempt_Inr split: if_splits)
  have "recorded_base (hd rs)" using checked_recorded [OF base] by (simp add: rs recorded_base_def)
  then show ?case using "2.IH" [OF base name] fresh rest by (auto simp: rs)
qed simp


lemma collect_kinds_sound:
  assumes "collect_kinds kinds repos = Inr out" and "distinct (map repo_name repos)"
    and "\<forall>r \<in> set repos. recorded_base r"
  shows "distinct (map repo_name out) \<and> (\<forall>r \<in> set out. recorded_base r)
    \<and> map repo_path out = map repo_path repos @ concat (map (\<lambda>(_, primaries, _). primaries) kinds)"
  using assms
proof (induction kinds repos rule: collect_kinds.induct)
  case (2 kind primaries bases names kinds repos)
  obtain rs where rs: "collect_kind kind primaries bases names (map repo_name repos) = Inr rs"
    and rest: "collect_kinds kinds (repos @ rs) = Inr out"
    and lengths: "\<not> (bases \<noteq> [] \<and> length bases \<noteq> length primaries)" "\<not> (names \<noteq> [] \<and> length names \<noteq> length primaries)"
    using "2.prems"(1) by (auto simp: attempt_Inr split: if_splits)
  note one = collect_kind_sound [OF rs]
  have "distinct (map repo_name (repos @ rs))" using one "2.prems"(2) by auto
  moreover have "\<forall>r \<in> set (repos @ rs). recorded_base r" using one "2.prems"(3) by auto
  ultimately have "distinct (map repo_name out) \<and> (\<forall>r \<in> set out. recorded_base r)
      \<and> map repo_path out = map repo_path (repos @ rs) @ concat (map (\<lambda>(_, primaries, _). primaries) kinds)"
    by (rule "2.IH" [OF lengths rs rest])
  then show ?case using one by simp
qed simp

text \<open>
  the repository table pairs every primary file given, in order, with a name no other has and
  with a base that is empty or a public mirror; a lock never attributes two repositories to one
  name and never records another address.
\<close>
theorem collected_repos_sound:
  assumes "collect_repos f = Inr repos"
  shows "distinct (map repo_name repos) \<and> (\<forall>r \<in> set repos. recorded_base r)
    \<and> map repo_path repos = binary_primary f @ buildroot_primary f @ source_primary f"
  using collect_kinds_sound [OF assms [unfolded collect_repos_def]] by simp

definition two_layers :: repo_flags where
  "two_layers =
     \<lparr>binary_primary = [''a/releases.xml'', ''b/updates.xml''],
      binary_base = [''https://dl.fedoraproject.org/pub/fedora/linux/releases/43/'',
        ''https://dl.fedoraproject.org/pub/fedora/linux/updates/43/''], binary_repo = [],
      buildroot_primary = [], buildroot_base = [], buildroot_repo = [],
      source_primary = [''s.xml''], source_base = [], source_repo = []\<rparr>"

theorem collected_repos_sound_witness:
  "\<exists>repos. collect_repos two_layers = Inr repos \<and> distinct (map repo_name repos)
     \<and> map repo_name repos = [''binary-releases'', ''binary-updates'', ''source'']"
proof -
  let ?rs = "[\<lparr>repo_name = ''binary-releases'', repo_kind = ''binary'',
       repo_base = ''https://dl.fedoraproject.org/pub/fedora/linux/releases/43'', repo_primary = ''releases.xml'',
       repo_path = ''a/releases.xml''\<rparr>,
     \<lparr>repo_name = ''binary-updates'', repo_kind = ''binary'',
       repo_base = ''https://dl.fedoraproject.org/pub/fedora/linux/updates/43'', repo_primary = ''updates.xml'',
       repo_path = ''b/updates.xml''\<rparr>,
     \<lparr>repo_name = ''source'', repo_kind = ''source'', repo_base = [], repo_primary = ''s.xml'', repo_path = ''s.xml''\<rparr>]"
  have c: "collect_repos two_layers = Inr ?rs" by code_simp
  show ?thesis using c collected_repos_sound [OF c] by (intro exI [of _ ?rs]) simp
qed

end
