(* ===== verification/Command.thy ===== *)
theory Command
  imports PublicBase
begin

text \<open>
  The command line of the solver (\<^verbatim>\<open>parse_override\<close>, \<^verbatim>\<open>parse_source_exception\<close>, the checks in
  \<^verbatim>\<open>main\<close>), the probe file it reads, and \<^verbatim>\<open>main\<close> itself: every step from the repository metadata
  to the lock, with every exit. What is read from disk is an argument, and what is printed is not
  modelled.
\<close>

section \<open>What the run reads\<close>

text \<open>
  A probe file: its top-level fields, and its reports. \<open>inputs\<close> holds the files by path, and
  \<open>json.loads\<close> for the exceptions given on the command line.
\<close>

record probe_file =
  pf_fields :: jobj
  pf_packages :: probe

record inputs =
  read_repodata :: "string \<Rightarrow> xml"
  read_lines :: "string \<Rightarrow> string list"
  read_probe_file :: "string \<Rightarrow> probe_file"
  json_loads :: "string \<Rightarrow> json option"

record command =
  cmd_repos :: repo_flags
  cmd_build :: "string list"
  cmd_build_list :: "string option"
  cmd_source_image :: "string list"
  cmd_prebuilt_source :: "string list"
  cmd_source_exception :: "string list"
  cmd_flavor :: string
  cmd_seed_only :: bool
  cmd_seed_package :: "string list"
  cmd_override :: "string list"
  cmd_source_variant :: "string list"
  cmd_image :: "string list"
  cmd_image_override :: "string list"
  cmd_release :: "string option"
  cmd_dist_tag :: string
  cmd_target_cpu :: string
  cmd_stages :: int
  cmd_strict :: bool
  cmd_probe :: "string option"

datatype main_error =
    UnknownFlavor string
  | ExceptionNotJson string
  | ExceptionNotObject
  | BadRepository base_error
  | NothingToSolve
  | NoSourceRepository
  | BuiltAndPrebuilt "string list"
  | ExceptionWithoutImage
  | NotAnOverride string string
  | BadVariant variant_error
  | NotAnImage string
  | EmptyImage string
  | NotAnImageOverride string
  | NoSuchImage string "string list"
  | ProbeSchema string "json option"
  | ProbeIdentity string "(string \<times> json \<times> string) list"
  | ImageProblems "problem list"
  | BadSources source_error
  | SolveProblems "problem list"
  | PlanError string
  | SeedProblems "problem list"
  | BadPolicy policy_error

section \<open>Flags\<close>

definition parse_override :: "string \<Rightarrow> string \<Rightarrow> main_error + string \<times> string" where
  "parse_override item flag =
     (if CHR ''='' \<notin> set item then Inl (NotAnOverride flag item)
      else case py_rsplit CHR ''='' 1 item of
             [cap, pkg] \<Rightarrow> Inr (py_strip cap, py_strip pkg)
           | _ \<Rightarrow> Inl (NotAnOverride flag item))"

fun parse_overrides :: "string list \<Rightarrow> override_map \<Rightarrow> main_error + override_map" where
  "parse_overrides [] d = Inr d"
| "parse_overrides (item # items) d =
     attempt (parse_override item ''--override'') (\<lambda>(cap, pkg). parse_overrides items (dset cap pkg d))"

definition parse_source_exception :: "inputs \<Rightarrow> string \<Rightarrow> main_error + jobj" where
  "parse_source_exception w value =
     (case json_loads w value of
        None \<Rightarrow> Inl (ExceptionNotJson value)
      | Some (JObj d) \<Rightarrow> Inr d
      | Some _ \<Rightarrow> Inl ExceptionNotObject)"

fun parse_exceptions :: "inputs \<Rightarrow> string list \<Rightarrow> main_error + jobj list" where
  "parse_exceptions w [] = Inr []"
| "parse_exceptions w (v # vs) =
     attempt (parse_source_exception w v) (\<lambda>e. attempt (parse_exceptions w vs) (\<lambda>es. Inr (e # es)))"

definition image_members :: "string \<Rightarrow> string list" where
  "image_members members = filter (\<lambda>m. m \<noteq> []) (map py_strip (py_split CHR '','' members))"

fun parse_images :: "string list \<Rightarrow> (string, string list) dict \<Rightarrow> main_error + (string, string list) dict" where
  "parse_images [] roots = Inr roots"
| "parse_images (item # items) roots =
     (case py_partition CHR ''='' item of
        (name, found, members) \<Rightarrow>
          if \<not> found then Inl (NotAnImage item)
          else if image_members members = [] then Inl (EmptyImage name)
          else parse_images items
                 (dset (py_strip name) (dget_or roots (py_strip name) [] @ image_members members) roots))"

fun parse_image_overrides ::
  "(string, string list) dict \<Rightarrow> string list \<Rightarrow> (string, override_map) dict
   \<Rightarrow> main_error + (string, override_map) dict" where
  "parse_image_overrides roots [] d = Inr d"
| "parse_image_overrides roots (item # items) d =
     (case py_partition CHR '':'' item of
        (name, found, rest) \<Rightarrow>
          if \<not> found then Inl (NotAnImageOverride item)
          else attempt (parse_override rest ''--image-override'') (\<lambda>(cap, pkg).
            let n = py_strip name in
            if dget roots n = None then Inl (NoSuchImage n (sort (keys roots)))
            else parse_image_overrides roots items (dset n (dset cap pkg (dget_or d n [])) d)))"

definition build_list :: "inputs \<Rightarrow> command \<Rightarrow> string list" where
  "build_list w c =
     cmd_build c @ (if truthy (cmd_build_list c)
       then map py_strip (filter (\<lambda>l. py_strip l \<noteq> [] \<and> \<not> py_startswith l ''#'')
              (read_lines w (the (cmd_build_list c))))
       else [])"

record parsed =
  pr_args :: arguments
  pr_build :: "string list"
  pr_overrides :: override_map
  pr_images :: "(string, string list) dict"
  pr_image_overrides :: "(string, override_map) dict"

definition parse_command :: "inputs \<Rightarrow> command \<Rightarrow> main_error + parsed" where
  "parse_command w c =
     (case dget IMPLICIT_GROUPS (cmd_flavor c) of
        None \<Rightarrow> Inl (UnknownFlavor (cmd_flavor c))
      | Some implicit \<Rightarrow>
        attempt (parse_exceptions w (cmd_source_exception c)) (\<lambda>exceptions.
        attempt (map_error BadRepository (collect_repos (cmd_repos c))) (\<lambda>repos.
        let build = build_list w c;
            overlap = sorted_set (filter (\<lambda>s. s \<in> set (cmd_prebuilt_source c)) build)
        in if build = [] \<and> cmd_source_image c = [] \<and> \<not> cmd_seed_only c \<and> cmd_seed_package c = []
           then Inl NothingToSolve
           else if (build \<noteq> [] \<or> cmd_source_image c \<noteq> []) \<and> source_primary (cmd_repos c) = []
           then Inl NoSourceRepository
           else if overlap \<noteq> [] then Inl (BuiltAndPrebuilt overlap)
           else if exceptions \<noteq> [] \<and> cmd_source_image c = [] then Inl ExceptionWithoutImage
           else
             attempt (parse_overrides (cmd_override c) []) (\<lambda>overrides.
             attempt (map_error BadVariant (parse_source_variants (cmd_source_variant c))) (\<lambda>variants.
             attempt (parse_images (cmd_image c) []) (\<lambda>images.
             attempt (parse_image_overrides images (cmd_image_override c) []) (\<lambda>image_overrides.
               Inr \<lparr>pr_args =
                      \<lparr>arg_flavor = cmd_flavor c, arg_release = cmd_release c, arg_dist_tag = cmd_dist_tag c,
                       arg_target_cpu = cmd_target_cpu c, arg_repos = repos,
                       arg_explicit_build = sorted_set build, arg_source_image = cmd_source_image c,
                       arg_prebuilt_source = cmd_prebuilt_source c, arg_override = cmd_override c,
                       arg_implicit_group = implicit, arg_seed_only = cmd_seed_only c,
                       arg_seed_package = cmd_seed_package c, arg_source_variant = variants,
                       arg_stages = cmd_stages c, arg_image = cmd_image c,
                       arg_image_override = cmd_image_override c, arg_probe = cmd_probe c,
                       arg_source_exception = exceptions\<rparr>,
                    pr_build = remdups build, pr_overrides = overrides, pr_images = images,
                    pr_image_overrides = image_overrides\<rparr>)))))))"

section \<open>The probe file\<close>

definition probe_identity_errors ::
  "jobj \<Rightarrow> string option \<Rightarrow> string option \<Rightarrow> string option \<Rightarrow> (string \<times> json \<times> string) list" where
  "probe_identity_errors data flavor release target_cpu =
     concat (map (\<lambda>(field, wanted).
         case wanted of
           None \<Rightarrow> []
         | Some t \<Rightarrow>
             (let actual = dget_or data field JNull in
              if json_str actual = t then [] else [(field, actual, t)]))
       [(''flavor'', flavor), (''release'', release), (''target_cpu'', target_cpu)])"

definition PROBE_SCHEMA :: int where
  "PROBE_SCHEMA = 1"

definition read_probe ::
  "inputs \<Rightarrow> string option \<Rightarrow> string option \<Rightarrow> string option \<Rightarrow> string option \<Rightarrow> main_error + probe" where
  "read_probe w path flavor release target_cpu =
     (if \<not> truthy path then Inr []
      else
        let data = read_probe_file w (the path);
            errors = probe_identity_errors (pf_fields data) flavor release target_cpu
        in if \<not> json_eq (dget_or (pf_fields data) ''schema'' JNull) (JInt PROBE_SCHEMA)
           then Inl (ProbeSchema (the path) (dget (pf_fields data) ''schema''))
           else if errors \<noteq> [] then Inl (ProbeIdentity (the path) errors)
           else Inr (pf_packages data))"

definition load_probe ::
  "inputs \<Rightarrow> string option \<Rightarrow> string list \<Rightarrow> string option \<Rightarrow> string option \<Rightarrow> string option
   \<Rightarrow> main_error + probe" where
  "load_probe w path build_set flavor release target_cpu =
     attempt (read_probe w path flavor release target_cpu) (\<lambda>packages.
       Inr (filter (\<lambda>(src, _). src \<in> set build_set) packages))"

section \<open>The universes\<close>

text \<open>One group per kind of repository, each a list of named package lists in the order of the table.\<close>

definition group_of :: "inputs \<Rightarrow> repo list \<Rightarrow> string \<Rightarrow> (string \<times> package list) list" where
  "group_of w repos kind =
     map (\<lambda>r. (repo_name r, parse_primary (read_repodata w (repo_path r)) (Some (repo_name r))))
       (filter (\<lambda>r. repo_kind r = kind) repos)"

text \<open>\<open>d.update(e)\<close>\<close>

definition dict_update :: "('k, 'v) dict \<Rightarrow> ('k, 'v) dict \<Rightarrow> ('k, 'v) dict" where
  "dict_update d e = fold (\<lambda>(k, v). dset k v) e d"

record universes =
  un_all :: universe
  un_compose :: universe
  un_replacements :: "replacement list"
  un_source_superseded :: superseded
  un_superseded :: superseded

text \<open>
  Without buildroot repositories the two universes are one object in the source; the variants
  change its \<open>source_index\<close>, which nothing reads through the compose universe afterwards.
\<close>

definition load_universes :: "inputs \<Rightarrow> arguments \<Rightarrow> probe \<Rightarrow> universes" where
  "load_universes w args probed =
     (let buildroot = group_of w (arg_repos args) ''buildroot'';
          cpu = arg_target_cpu args
      in case merge_packages (group_of w (arg_repos args) ''binary'') of
           (binary_pkgs, binary_updates, binary_superseded) \<Rightarrow>
         case merge_fallback_packages binary_pkgs buildroot of
           (combined, added, shadowed, buildroot_superseded) \<Rightarrow>
         case merge_packages (group_of w (arg_repos args) ''source'') of
           (source_pkgs, source_updates, source_superseded) \<Rightarrow>
           let superseded = dict_update binary_superseded buildroot_superseded;
               u = apply_probed_producers
                     (build_universe combined source_pkgs cpu superseded
                        (map repo_name (filter (\<lambda>r. repo_kind r = ''buildroot'') (arg_repos args)))) probed
           in \<lparr>un_all = u,
               un_compose =
                 (if buildroot = [] then u
                  else apply_probed_producers
                         (build_universe binary_pkgs source_pkgs cpu binary_superseded []) probed),
               un_replacements = binary_updates @ source_updates,
               un_source_superseded = source_superseded, un_superseded = superseded\<rparr>)"

section \<open>The run\<close>

definition seed_roots :: "arguments \<Rightarrow> string list" where
  "seed_roots args =
     sorted_set (arg_seed_package args @ (if arg_seed_only args then arg_implicit_group args else []))"

text \<open>The build list: what was asked for, and the sources of the selected images.\<close>

definition build_set_of ::
  "parsed \<Rightarrow> universes \<Rightarrow> (string, string list) dict \<Rightarrow> main_error + string list" where
  "build_set_of p us image_sets =
     attempt (map_error BadSources
         (source_build_set image_sets (u_source_of (un_compose us)) (arg_source_image (pr_args p))
            (arg_prebuilt_source (pr_args p))))
       (\<lambda>sources. Inr (remdups (pr_build p @ sorted_list_of_set sources)))"

text \<open>The seed packages, the depth and the plan of a solve, and the lock with every problem in it.\<close>

definition finish_run ::
  "parsed \<Rightarrow> bool \<Rightarrow> universes \<Rightarrow> variants_state \<Rightarrow> (string, string list) dict \<Rightarrow> problem list
   \<Rightarrow> solution \<Rightarrow> string set \<Rightarrow> main_error + lock" where
  "finish_run p strict us vs image_sets image_problems sol base =
     (let args = pr_args p;
          u = vs_universe vs;
          build = vs_build_set vs
      in attempt (map_error PlanError
             (plan_build_order (sol_deps sol) (u_source_of u) build (arg_stages args) (vs_routes vs)))
           (\<lambda>plan.
         case solve_package_set u (seed_roots args) (pr_overrides p) ''buildroot'' of
           (seed_packages, seed_problems) \<Rightarrow>
             if strict \<and> seed_problems \<noteq> [] then Inl (SeedProblems seed_problems)
             else
               map_error BadPolicy
                 (emit_lockfile u (un_compose us) build
                    (sol\<lparr>sol_problems := sol_problems sol @ vs_problems vs @ image_problems @ seed_problems\<rparr>)
                    vs (un_superseded us) plan
                    (bootstrap_depth (sol_deps sol) (u_source_of u) build (vs_routes vs))
                    image_sets seed_packages (un_replacements us) base args)))"

definition variants_of :: "parsed \<Rightarrow> universes \<Rightarrow> string list \<Rightarrow> variants_state" where
  "variants_of p us build =
     add_source_variants (arg_source_variant (pr_args p)) (un_all us) (un_source_superseded us)
       (un_superseded us) build"

definition run :: "inputs \<Rightarrow> parsed \<Rightarrow> bool \<Rightarrow> universes \<Rightarrow> main_error + lock" where
  "run w p strict us =
     (let args = pr_args p in
      case solve_image_sets (un_compose us) (pr_images p) (pr_overrides p) (pr_image_overrides p) of
        (image_sets, image_problems) \<Rightarrow>
          if strict \<and> image_problems \<noteq> [] then Inl (ImageProblems image_problems)
          else
            attempt (build_set_of p us image_sets) (\<lambda>build.
            let vs = variants_of p us build in
            attempt (load_probe w (arg_probe args) (vs_build_set vs) (Some (arg_flavor args))
                       (arg_release args) (Some (arg_target_cpu args))) (\<lambda>probe.
            attempt (map_error SolveProblems
                       (solve (vs_universe vs) (vs_build_set vs) (pr_overrides p) strict probe
                          (arg_implicit_group args))) (\<lambda>(sol, base).
              finish_run p strict us vs image_sets image_problems sol base))))"

definition main :: "inputs \<Rightarrow> command \<Rightarrow> main_error + lock" where
  "main w c =
     attempt (parse_command w c) (\<lambda>p.
     attempt (read_probe w (arg_probe (pr_args p)) (Some (arg_flavor (pr_args p))) (arg_release (pr_args p))
                (Some (arg_target_cpu (pr_args p)))) (\<lambda>probed.
       run w p (cmd_strict c) (load_universes w (pr_args p) probed)))"

section \<open>A strict run leaves nothing open\<close>

lemma dget_filter_keys:
  "dget (filter (\<lambda>(k, _). k \<in> A) d) k = (if k \<in> A then dget d k else None)"
  by (induction d) auto

lemma load_probe_dget:
  assumes "load_probe w path build flavor release cpu = Inr probe"
    and "read_probe w path flavor release cpu = Inr probed" and "src \<in> set build"
  shows "dget probe src = dget probed src"
  using assms by (auto simp: load_probe_def dget_filter_keys)

lemma parse_images_distinct:
  "parse_images items roots = Inr roots' \<Longrightarrow> distinct (map fst roots) \<Longrightarrow> distinct (map fst roots')"
proof (induction items roots rule: parse_images.induct)
  case (2 item items roots)
  then show ?case by (auto simp: distinct_update split: prod.splits if_splits)
qed simp

lemma parse_command_images:
  "parse_command w c = Inr p \<Longrightarrow> distinct (map fst (pr_images p))"
  by (auto simp: parse_command_def Let_def attempt_Inr dest: parse_images_distinct split: option.splits if_splits)

lemma solve_strict: "solve u build overrides True probe implicit = Inr (sol, base) \<Longrightarrow> sol_problems sol = []"
  by (auto simp: solve_def Let_def split: prod.splits if_splits)

text \<open>Registering variants reports problems of its own kind only.\<close>

lemma variant_problems_kind:
  "\<forall>q \<in> set (vs_problems (add_source_variants variants u source_older older build)). fst q = ''variant''"
proof -
  have keep: "\<forall>q \<in> set (vs_problems (fold (add_variant source_older older) nvs st)). fst q = ''variant''"
    if "\<forall>q \<in> set (vs_problems st). fst q = ''variant''" for nvs st
    using that
  proof (induction nvs arbitrary: st)
    case (Cons nv nvs)
    have "\<forall>q \<in> set (vs_problems (add_variant source_older older nv st)). fst q = ''variant''"
      using Cons.prems by (auto simp: add_variant_def Let_def split: prod.split option.split)
    then show ?case using Cons.IH by simp
  qed simp
  show ?thesis unfolding add_source_variants_def by (rule keep) simp
qed

lemma emitted_problems:
  "emit_lockfile u image_u build sol vs older plan dep sets seeds reps base args = Inr l
   \<Longrightarrow> lk_problems l = sol_problems sol"
  by (erule emit_lockfile_cases) (simp_all add: with_counts_def with_policy_def draft_lock_def)

text \<open>What \<open>run\<close> went through when it returns a lock.\<close>

lemma run_Inr:
  assumes "run w p strict us = Inr l"
  obtains sets ips build probe sol base plan seeds sps where
    "solve_image_sets (un_compose us) (pr_images p) (pr_overrides p) (pr_image_overrides p) = (sets, ips)"
    "strict \<Longrightarrow> ips = []"
    "build_set_of p us sets = Inr build"
    "load_probe w (arg_probe (pr_args p)) (vs_build_set (variants_of p us build)) (Some (arg_flavor (pr_args p)))
       (arg_release (pr_args p)) (Some (arg_target_cpu (pr_args p))) = Inr probe"
    "solve (vs_universe (variants_of p us build)) (vs_build_set (variants_of p us build)) (pr_overrides p) strict
       probe (arg_implicit_group (pr_args p)) = Inr (sol, base)"
    "solve_package_set (vs_universe (variants_of p us build)) (seed_roots (pr_args p)) (pr_overrides p)
       ''buildroot'' = (seeds, sps)"
    "strict \<Longrightarrow> sps = []"
    "emit_lockfile (vs_universe (variants_of p us build)) (un_compose us) (vs_build_set (variants_of p us build))
       (sol\<lparr>sol_problems := sol_problems sol @ vs_problems (variants_of p us build) @ ips @ sps\<rparr>)
       (variants_of p us build) (un_superseded us) plan
       (bootstrap_depth (sol_deps sol) (u_source_of (vs_universe (variants_of p us build)))
          (vs_build_set (variants_of p us build)) (vs_routes (variants_of p us build)))
       sets seeds (un_replacements us) base (pr_args p) = Inr l"
proof -
  obtain sets ips where a: "solve_image_sets (un_compose us) (pr_images p) (pr_overrides p) (pr_image_overrides p)
      = (sets, ips)" "strict \<Longrightarrow> ips = []" and rest: "\<not> (strict \<and> ips \<noteq> [])"
    using assms by (auto simp: run_def Let_def split: prod.splits if_splits)
  obtain build probe sol base where b: "build_set_of p us sets = Inr build"
    "load_probe w (arg_probe (pr_args p)) (vs_build_set (variants_of p us build)) (Some (arg_flavor (pr_args p)))
       (arg_release (pr_args p)) (Some (arg_target_cpu (pr_args p))) = Inr probe"
    "solve (vs_universe (variants_of p us build)) (vs_build_set (variants_of p us build)) (pr_overrides p) strict
       probe (arg_implicit_group (pr_args p)) = Inr (sol, base)"
    and f: "finish_run p strict us (variants_of p us build) sets ips sol base = Inr l"
    using assms a(1) rest by (auto simp: run_def Let_def attempt_Inr)
  obtain seeds sps where s: "solve_package_set (vs_universe (variants_of p us build)) (seed_roots (pr_args p))
      (pr_overrides p) ''buildroot'' = (seeds, sps)" by fastforce
  then show ?thesis
    using that [OF a b s] f by (auto simp: finish_run_def Let_def attempt_Inr split: if_splits)
qed

text \<open>
  A recipe of the lock is complete when its pins are a closed tree and, where the source is not a
  second build, every BuildRequires of its record is answered in them. An image of the lock is
  complete when it holds what was asked for and is closed with its own overrides.
\<close>

definition pinned :: "lock_package \<Rightarrow> string set" where
  "pinned lp = set (map pin_name (lp_deps_built lp @ lp_deps_seed lp))"

definition recipe_complete ::
  "universe \<Rightarrow> parsed \<Rightarrow> probe \<Rightarrow> lock \<Rightarrow> string \<Rightarrow> bool" where
  "recipe_complete u p probe l src =
     (\<exists>lp. dget (lk_packages l) src = Some lp
        \<and> closed_tree (closure_env_of u (pr_overrides p)) (pinned lp)
        \<and> (dget (arg_source_variant (pr_args p)) src = None \<longrightarrow>
             (\<exists>r. dget (u_source_index u) src = Some r
                \<and> (\<forall>cap \<in> set (requirements_of r (dget probe src) (arg_implicit_group (pr_args p))).
                     \<not> is_rich_dep (strip_capability_version cap) \<longrightarrow>
                     strip_capability_version (strip_capability_version cap) = strip_capability_version cap \<longrightarrow>
                     met_build_require (closure_env_of u (pr_overrides p)) (pinned lp) src cap))))"

definition image_complete :: "universe \<Rightarrow> parsed \<Rightarrow> lock \<Rightarrow> string \<Rightarrow> bool" where
  "image_complete u p l name =
     (\<exists>pins. dget (lk_image_sets l) name = Some pins
        \<and> set (dget_or (pr_images p) name []) \<subseteq> set (map pin_name pins)
        \<and> closed_tree (closure_env_of u (layered (pr_overrides p) (dget_or (pr_image_overrides p) name [])))
            (set (map pin_name pins)))"

lemma image_sets_distinct:
  "solve_image_sets u roots ov iov = (sets, ips) \<Longrightarrow> distinct (map fst sets)"
proof -
  have keep: "distinct (map fst (fst (fold (solve_image u roots ov iov) names st)))"
    if "distinct (map fst (fst st))" for names st
    using that by (induction names arbitrary: st) (simp_all add: solve_image_facts(1) distinct_update)
  assume "solve_image_sets u roots ov iov = (sets, ips)"
  then show ?thesis using keep [of "([], [])"] unfolding solve_image_sets_def by (metis distinct.simps(1) fst_conv list.map(1))
qed

lemma pinned_package:
  "pinned (lock_package_of u build sol vs variants older src) = set (dget_or (sol_deps sol) src [])"
  unfolding pinned_def lock_package_of_def by (auto simp: Let_def pin_name_routed)

lemma closure_env_keeps: "keeps_maps u u' \<Longrightarrow> closure_env_of u' ov = closure_env_of u ov"
  by (simp add: keeps_maps_def closure_env_of_def)

lemma run_recipe_complete:
  assumes r: "run w p True us = Inr l"
    and probed: "read_probe w (arg_probe (pr_args p)) (Some (arg_flavor (pr_args p))) (arg_release (pr_args p))
      (Some (arg_target_cpu (pr_args p))) = Inr probed"
    and src: "src \<in> set (keys (lk_packages l))"
  shows "recipe_complete (un_all us) p probed l src"
proof (rule run_Inr [OF r])
  fix sets ips build probe sol base plan seeds sps
  let ?vs = "variants_of p us build"
  let ?u = "vs_universe ?vs" and ?ov = "pr_overrides p"
  assume probe: "load_probe w (arg_probe (pr_args p)) (vs_build_set ?vs) (Some (arg_flavor (pr_args p)))
       (arg_release (pr_args p)) (Some (arg_target_cpu (pr_args p))) = Inr probe"
    and sol: "solve ?u (vs_build_set ?vs) ?ov True probe (arg_implicit_group (pr_args p)) = Inr (sol, base)"
    and l: "emit_lockfile ?u (un_compose us) (vs_build_set ?vs)
       (sol\<lparr>sol_problems := sol_problems sol @ vs_problems ?vs @ ips @ sps\<rparr>) ?vs (un_superseded us) plan
       (bootstrap_depth (sol_deps sol) (u_source_of ?u) (vs_build_set ?vs) (vs_routes ?vs))
       sets seeds (un_replacements us) base (pr_args p) = Inr l"
  have packages: "lk_packages l = map (\<lambda>src. (src, lock_package_of ?u (vs_build_set ?vs)
      (sol\<lparr>sol_problems := sol_problems sol @ vs_problems ?vs @ ips @ sps\<rparr>) ?vs (arg_source_variant (pr_args p))
      (un_superseded us) src)) (sorted_set (vs_build_set ?vs))" (is "_ = map (\<lambda>src. (src, ?lp src)) _")
    by (rule emitted_packages(1) [OF l])
  have build: "src \<in> set (vs_build_set ?vs)" using src packages by (auto simp: keys_def)
  have lp: "dget (lk_packages l) src = Some (?lp src)"
    using build by (simp add: packages map_of_map_restrict)
  obtain r deps where r: "dget (u_source_index ?u) src = Some r" "dget (sol_deps sol) src = Some deps"
    "closed_tree (closure_env_of ?u ?ov) (set deps)"
    "\<forall>cap \<in> set (requirements_of r (dget probe src) (arg_implicit_group (pr_args p))).
       \<not> is_rich_dep (strip_capability_version cap) \<longrightarrow>
       strip_capability_version (strip_capability_version cap) = strip_capability_version cap \<longrightarrow>
       met_build_require (closure_env_of ?u ?ov) (set deps) src cap"
    using solve_clean_buildroot [OF sol solve_strict [OF sol] build] by blast
  have "pinned (?lp src) = set deps" by (simp add: pinned_package dget_or_def r(2))
  moreover have env: "closure_env_of ?u ?ov = closure_env_of (un_all us) ?ov"
    using add_source_variants_sound [of "un_all us"] by (intro closure_env_keeps) (auto simp: variants_of_def routes_sound_def)
  moreover have "dget (u_source_index (un_all us)) src = Some r"
    if "dget (arg_source_variant (pr_args p)) src = None"
    using r(1) add_source_variants_index [of src "arg_source_variant (pr_args p)"] that
    by (simp add: variants_of_def map_of_eq_None_iff)
  moreover have "dget probe src = dget probed src" by (rule load_probe_dget [OF probe probed build])
  ultimately show "recipe_complete (un_all us) p probed l src"
    using r lp unfolding recipe_complete_def by (intro exI [of _ "?lp src"]) simp
qed

lemma run_image_complete:
  assumes r: "run w p True us = Inr l" and d: "distinct (map fst (pr_images p))"
    and name: "name \<in> set (keys (pr_images p))"
  shows "image_complete (un_compose us) p l name"
proof (rule run_Inr [OF r])
  fix sets ips build probe sol base plan seeds sps
  assume sets: "solve_image_sets (un_compose us) (pr_images p) (pr_overrides p) (pr_image_overrides p) = (sets, ips)"
    and "True \<Longrightarrow> ips = []"
    and l: "emit_lockfile (vs_universe (variants_of p us build)) (un_compose us) (vs_build_set (variants_of p us build))
       (sol\<lparr>sol_problems := sol_problems sol @ vs_problems (variants_of p us build) @ ips @ sps\<rparr>)
       (variants_of p us build) (un_superseded us) plan
       (bootstrap_depth (sol_deps sol) (u_source_of (vs_universe (variants_of p us build)))
          (vs_build_set (variants_of p us build)) (vs_routes (variants_of p us build)))
       sets seeds (un_replacements us) base (pr_args p) = Inr l"
  then have clean: "solve_image_sets (un_compose us) (pr_images p) (pr_overrides p) (pr_image_overrides p) = (sets, [])"
    by simp
  obtain roots where roots: "dget (pr_images p) name = Some roots"
    using name by (cases "dget (pr_images p) name") (auto simp: keys_def map_of_eq_None_iff)
  obtain members where m: "dget sets name = Some members"
    "solve_package_set (un_compose us) roots (layered (pr_overrides p) (dget_or (pr_image_overrides p) name []))
       (''image:'' @ name) = (members, [])"
    by (rule solve_image_sets_clean [OF clean roots d])
  have "dget (lk_image_sets l) name = Some (map (pin_binary (un_compose us)) members)"
    by (simp add: emitted_packages(4) [OF l] map_of_map dget_sorted_items [OF image_sets_distinct [OF clean]] m(1))
  moreover have "set (map pin_name (map (pin_binary (un_compose us)) members)) = set members"
    by (simp add: image_image)
  ultimately show "image_complete (un_compose us) p l name"
    using package_set_clean [OF m(2)] roots unfolding image_complete_def
    by (intro exI [of _ "map (pin_binary (un_compose us)) members"]) (simp add: dget_or_def)
qed

lemma run_strict_problems:
  assumes r: "run w p True us = Inr l"
  shows "\<forall>q \<in> set (lk_problems l). fst q = ''variant''"
proof (rule run_Inr [OF r])
  fix sets ips build probe sol base plan seeds sps
  let ?vs = "variants_of p us build"
  assume "True \<Longrightarrow> ips = []" "True \<Longrightarrow> sps = []"
    and sol: "solve (vs_universe ?vs) (vs_build_set ?vs) (pr_overrides p) True probe (arg_implicit_group (pr_args p))
      = Inr (sol, base)"
    and l: "emit_lockfile (vs_universe ?vs) (un_compose us) (vs_build_set ?vs)
       (sol\<lparr>sol_problems := sol_problems sol @ vs_problems ?vs @ ips @ sps\<rparr>) ?vs (un_superseded us) plan
       (bootstrap_depth (sol_deps sol) (u_source_of (vs_universe ?vs)) (vs_build_set ?vs) (vs_routes ?vs))
       sets seeds (un_replacements us) base (pr_args p) = Inr l"
  then have "lk_problems l = vs_problems ?vs" using emitted_problems [OF l] solve_strict [OF sol] by simp
  then show "\<forall>q \<in> set (lk_problems l). fst q = ''variant''" unfolding variants_of_def using variant_problems_kind by simp
qed


text \<open>The same of the whole program: the command line gives \<open>run\<close> what it needs.\<close>

lemma main_lock_complete:
  assumes "main w c = Inr l" and "cmd_strict c"
  shows "\<exists>p probed us. parse_command w c = Inr p \<and> us = load_universes w (pr_args p) probed
    \<and> read_probe w (cmd_probe c) (Some (cmd_flavor c)) (cmd_release c) (Some (cmd_target_cpu c)) = Inr probed
    \<and> (\<forall>q \<in> set (lk_problems l). fst q = ''variant'')
    \<and> (\<forall>src \<in> set (keys (lk_packages l)). recipe_complete (un_all us) p probed l src)
    \<and> (\<forall>name \<in> set (keys (pr_images p)). image_complete (un_compose us) p l name)"
proof -
  obtain p probed where p: "parse_command w c = Inr p"
    and probed: "read_probe w (arg_probe (pr_args p)) (Some (arg_flavor (pr_args p))) (arg_release (pr_args p))
      (Some (arg_target_cpu (pr_args p))) = Inr probed"
    and r: "run w p True (load_universes w (pr_args p) probed) = Inr l"
    using assms by (auto simp: main_def attempt_Inr)
  have "arg_probe (pr_args p) = cmd_probe c" "arg_flavor (pr_args p) = cmd_flavor c"
    "arg_release (pr_args p) = cmd_release c" "arg_target_cpu (pr_args p) = cmd_target_cpu c"
    using p by (auto simp: parse_command_def Let_def attempt_Inr split: option.splits if_splits)
  then show ?thesis
    using p probed run_strict_problems [OF r] run_recipe_complete [OF r probed]
      run_image_complete [OF r parse_command_images [OF p]] by auto
qed

section \<open>One run\<close>

text \<open>
  A binary package with the group of the flavor, cut down to one capability, a source built from
  it, and an image that holds it.
\<close>

definition entry_elem :: "string \<Rightarrow> xml" where
  "entry_elem n = Elem (in_ns rpm_ns ''entry'') [(''name'', n)] None []"

definition package_elem :: "string \<Rightarrow> string \<Rightarrow> string \<Rightarrow> string list \<Rightarrow> string list \<Rightarrow> xml" where
  "package_elem name arch sourcerpm provides requires =
     Elem (in_ns common_ns ''package'') [(''type'', ''rpm'')] None
       [Elem (in_ns common_ns ''name'') [] (Some name) [],
        Elem (in_ns common_ns ''arch'') [] (Some arch) [],
        Elem (in_ns common_ns ''version'') [(''epoch'', ''0''), (''ver'', ''1''), (''rel'', ''1'')] None [],
        Elem (in_ns common_ns ''format'') [] None
          [Elem (in_ns rpm_ns ''sourcerpm'') [] (Some sourcerpm) [],
           Elem (in_ns rpm_ns ''provides'') [] None (map entry_elem provides),
           Elem (in_ns rpm_ns ''requires'') [] None (map entry_elem requires)]]"

definition demo_inputs :: inputs where
  "demo_inputs =
     \<lparr>read_repodata = (\<lambda>path. Elem ''metadata'' [] None
        [if path = ''bin'' then package_elem ''b'' ''x'' ''b-1-1.src.rpm'' [''sh''] []
         else package_elem ''h'' ''src'' [] [] [''sh'']]),
      read_lines = (\<lambda>_. []), read_probe_file = (\<lambda>_. \<lparr>pf_fields = [], pf_packages = []\<rparr>),
      json_loads = (\<lambda>_. None)\<rparr>"

definition demo_parsed :: parsed where
  "demo_parsed =
     \<lparr>pr_args = \<lparr>arg_flavor = ''fedora'', arg_release = Some ''43'', arg_dist_tag = [], arg_target_cpu = ''x'',
        arg_repos = [\<lparr>repo_name = ''r'', repo_kind = ''binary'', repo_base = [], repo_primary = ''bin'', repo_path = ''bin''\<rparr>,
          \<lparr>repo_name = ''s'', repo_kind = ''source'', repo_base = [], repo_primary = ''src'', repo_path = ''src''\<rparr>],
        arg_explicit_build = [''h''], arg_source_image = [], arg_prebuilt_source = [], arg_override = [],
        arg_implicit_group = [''sh''], arg_seed_only = False, arg_seed_package = [], arg_source_variant = [],
        arg_stages = 3, arg_image = [''i=b''], arg_image_override = [], arg_probe = None,
        arg_source_exception = []\<rparr>,
      pr_build = [''h''], pr_overrides = [], pr_images = [(''i'', [''b''])], pr_image_overrides = []\<rparr>"

definition demo_universes :: universes where
  "demo_universes = load_universes demo_inputs (pr_args demo_parsed) []"

definition demo_lock :: lock where
  "demo_lock = projr (run demo_inputs demo_parsed True demo_universes)"

lemma demo_run: "run demo_inputs demo_parsed True demo_universes = Inr demo_lock"
proof -
  have "isl (run demo_inputs demo_parsed True demo_universes) = False" by code_simp
  then show ?thesis unfolding demo_lock_def by (metis sum.collapse(2))
qed


section \<open>What the lock records can be given again\<close>

definition image_item :: "string \<Rightarrow> (string \<times> string list) option" where
  "image_item item =
     (case py_partition CHR ''='' item of (name, found, members) \<Rightarrow>
        if found \<and> image_members members \<noteq> [] then Some (py_strip name, image_members members) else None)"

definition asked_for :: "string list \<Rightarrow> string \<Rightarrow> string set" where
  "asked_for items name = {m. \<exists>item \<in> set items. \<exists>ms. image_item item = Some (name, ms) \<and> m \<in> set ms}"

lemma parse_images_step:
  "parse_images (item # items) roots = Inr roots' \<longleftrightarrow>
     (\<exists>n ms. image_item item = Some (n, ms) \<and> parse_images items (dset n (dget_or roots n [] @ ms) roots) = Inr roots')"
  by (auto simp: image_item_def split: prod.split)

lemma parse_images_result:
  "parse_images items roots = Inr roots'
   \<Longrightarrow> set (dget_or roots' n []) = set (dget_or roots n []) \<union> asked_for items n"
proof (induction items arbitrary: roots)
  case (Cons item items)
  then obtain k ms where i: "image_item item = Some (k, ms)"
    "parse_images items (dset k (dget_or roots k [] @ ms) roots) = Inr roots'"
    unfolding parse_images_step by blast
  have "asked_for (item # items) n = (if k = n then set ms else {}) \<union> asked_for items n"
    using i(1) by (auto simp: asked_for_def)
  then show ?case using Cons.IH [OF i(2)] by (auto simp: dget_or_def)
qed (simp add: asked_for_def)

lemma parse_images_accepts:
  "(\<exists>roots'. parse_images items roots = Inr roots') \<longleftrightarrow> (\<forall>item \<in> set items. image_item item \<noteq> None)"
proof (induction items arbitrary: roots)
  case (Cons item items)
  have "(\<exists>roots'. parse_images (item # items) roots = Inr roots') \<longleftrightarrow>
      (\<exists>n ms. image_item item = Some (n, ms) \<and> (\<forall>item \<in> set items. image_item item \<noteq> None))"
    unfolding parse_images_step using Cons.IH by metis
  then show ?case by auto
qed simp

text \<open>
  the image flags a lock records are accepted when they are given again, and ask for the same
  packages of the same images, though the lock lists them in sorted order.
\<close>
theorem recorded_images_replay:
  assumes "parse_images (arg_image args) [] = Inr roots"
  shows "\<exists>roots'. parse_images (in_images (solve_inputs_of args build)) [] = Inr roots'
    \<and> (\<forall>name. set (dget_or roots' name []) = set (dget_or roots name []))"
proof -
  have same: "set (in_images (solve_inputs_of args build)) = set (arg_image args)"
    by (simp add: solve_inputs_of_def)
  obtain roots' where r: "parse_images (in_images (solve_inputs_of args build)) [] = Inr roots'"
    using assms parse_images_accepts [of "in_images (solve_inputs_of args build)" "[]"]
      parse_images_accepts [of "arg_image args" "[]"] unfolding same by blast
  have "asked_for (in_images (solve_inputs_of args build)) = asked_for (arg_image args)"
    by (simp add: asked_for_def same fun_eq_iff)
  then show ?thesis using r parse_images_result [OF r] parse_images_result [OF assms] by auto
qed

theorem recorded_images_replay_witness:
  "\<exists>roots'. parse_images (in_images (solve_inputs_of
       ((pr_args demo_parsed)\<lparr>arg_image := [''live=kernel'', ''i=b,c'', ''live=bash'']\<rparr>) [])) [] = Inr roots'
     \<and> set (dget_or roots' ''live'' []) = {''kernel'', ''bash''}"
proof -
  let ?args = "(pr_args demo_parsed)\<lparr>arg_image := [''live=kernel'', ''i=b,c'', ''live=bash'']\<rparr>"
  have p: "parse_images (arg_image ?args) [] = Inr [(''live'', [''kernel'', ''bash'']), (''i'', [''b'', ''c''])]"
    by code_simp
  show ?thesis using recorded_images_replay [OF p, of "[]"] by (auto simp: dget_or_def)
qed

text \<open>
  For the override flags the order matters, since the last one of a capability counts, and the
  lock records them sorted: two flags for one capability can change sides when they are replayed.
\<close>

lemma recorded_overrides_reordered:
  "parse_overrides (arg_override ((pr_args demo_parsed)\<lparr>arg_override := [''c=z'', ''c=a'']\<rparr>)) []
     = Inr [(''c'', ''a'')]"
  "parse_overrides (in_overrides (solve_inputs_of
      ((pr_args demo_parsed)\<lparr>arg_override := [''c=z'', ''c=a'']\<rparr>) [])) [] = Inr [(''c'', ''z'')]"
  by code_simp+

end
