(* ===== verification/Lockfile.thy ===== *)
theory Lockfile
  imports EmitLock
begin

text \<open>
  \<^verbatim>\<open>tools/_lockfile.py\<close>: the names of lock files, the releases a directory holds, the identity of a
  lock's content, and the conversion of a lock between its two encodings. What a file holds is the
  document that reading it gives, with its encoding, and an unfinished write is a content of its
  own. The protocol of \<^verbatim>\<open>atomic_dump_lockfile\<close> is in \<open>AtomicDump\<close>.
\<close>

section \<open>Paths\<close>

text \<open>\<open>os.path.join\<close>, \<open>os.path.normpath\<close> and \<open>os.path.abspath\<close>\<close>

definition path_join :: "string \<Rightarrow> string \<Rightarrow> string" where
  "path_join a b =
     (if py_startswith b ''/'' then b
      else if a = [] \<or> py_endswith a ''/'' then a @ b
      else a @ ''/'' @ b)"

definition norm_step :: "bool \<Rightarrow> string \<Rightarrow> string list \<Rightarrow> string list" where
  "norm_step absolute part comps =
     (if part = [] \<or> part = ''.'' then comps
      else if part \<noteq> ''..'' \<or> (\<not> absolute \<and> comps = []) \<or> (comps \<noteq> [] \<and> last comps = ''..'')
      then comps @ [part]
      else if comps \<noteq> [] then butlast comps else comps)"

definition normpath :: "string \<Rightarrow> string" where
  "normpath path =
     (if path = [] then ''.''
      else
        let slashes = (if \<not> py_startswith path ''/'' then []
                       else if py_startswith path ''//'' \<and> \<not> py_startswith path ''///'' then ''//'' else ''/'');
            body = py_join ''/'' (fold (norm_step (slashes \<noteq> [])) (py_split CHR ''/'' path) [])
        in if slashes @ body = [] then ''.'' else slashes @ body)"

definition abspath :: "string \<Rightarrow> string \<Rightarrow> string" where
  "abspath cwd path = normpath (if py_startswith path ''/'' then path else path_join cwd path)"

section \<open>Documents\<close>

text \<open>What \<open>json.dump(sort_keys=True)\<close> keeps of a value: its keys come back sorted at every depth.\<close>

function canonical :: "json \<Rightarrow> json" where
  "canonical JNull = JNull"
| "canonical (JBool b) = JBool b"
| "canonical (JInt n) = JInt n"
| "canonical (JStr s) = JStr s"
| "canonical (JList xs) = JList (map canonical xs)"
| "canonical (JObj d) = JObj (sorted_items (map (\<lambda>kv. (fst kv, canonical (snd kv))) d))"
  by pat_completeness auto
termination
  by (relation "measure size") (auto intro: le_imp_less_Suc size_list_estimation' dest: size_dict_entry)

text \<open>A JSON string, control characters escaped and every other character as it is.\<close>

definition json_char :: "char \<Rightarrow> string" where
  "json_char c =
     (let n = (of_char c :: nat) in
      if c = CHR 0x22 \<or> n = 92 then [CHR 0x5C, c]
      else if n = 10 then [CHR 0x5C, CHR ''n'']
      else if n = 13 then [CHR 0x5C, CHR ''r'']
      else if n = 9 then [CHR 0x5C, CHR ''t'']
      else if n = 12 then [CHR 0x5C, CHR ''f'']
      else if n = 8 then [CHR 0x5C, CHR ''b'']
      else if n < 32 then [CHR 0x5C, CHR ''u'', CHR ''0'', CHR ''0'', hex_digit (n div 16), hex_digit (n mod 16)]
      else [c])"

definition json_quote :: "string \<Rightarrow> string" where
  "json_quote s = [CHR 0x22] @ concat (map json_char s) @ [CHR 0x22]"

function json_write :: "json \<Rightarrow> string" where
  "json_write JNull = ''null''"
| "json_write (JBool b) = (if b then ''true'' else ''false'')"
| "json_write (JInt n) = int_text n"
| "json_write (JStr s) = json_quote s"
| "json_write (JList xs) = ''['' @ py_join '','' (map json_write xs) @ '']''"
| "json_write (JObj d) =
     ''{'' @ py_join '','' (map (\<lambda>kv. json_quote (fst kv) @ '':'' @ json_write (snd kv)) d) @ ''}''"
  by pat_completeness auto
termination
  by (relation "measure size") (auto intro: le_imp_less_Suc size_list_estimation' dest: size_dict_entry)

text \<open>UTF-8 of code points below 256; \<open>sha256\<close> is the hash of the standard library.\<close>

definition utf8 :: "string \<Rightarrow> nat list" where
  "utf8 s = concat (map (\<lambda>c. let n = of_char c in if n < 128 then [n] else [192 + n div 64, 128 + n mod 64]) s)"

definition lockfile_digest :: "(nat list \<Rightarrow> string) \<Rightarrow> json \<Rightarrow> string" where
  "lockfile_digest sha256 value = sha256 (utf8 (json_write (canonical value)))"

section \<open>Names and configuration\<close>

definition PLAIN_SUFFIX :: string where
  "PLAIN_SUFFIX = ''.lock.json''"

definition GZIP_SUFFIX :: string where
  "GZIP_SUFFIX = PLAIN_SUFFIX @ ''.gz''"

definition LOCKFILE_SUFFIXES :: "string list" where
  "LOCKFILE_SUFFIXES = [GZIP_SUFFIX, PLAIN_SUFFIX]"

definition COMPRESSIONS :: "string list" where
  "COMPRESSIONS = [''none'', ''gzip'']"

definition DEFAULT_MAX_TRACKED_FILE_SIZE :: int where
  "DEFAULT_MAX_TRACKED_FILE_SIZE = 5000000"

datatype lockfile_error =
    BadCompression string
  | BadSize string
  | NotALockfile string
  | BothEncodings "string list"
  | ReleaseTwice string string string
  | DestinationExists string
  | Unreadable string
  | NoRoundTrip

text \<open>
  A parsed configuration is a map from section and key to text; later files win. \<open>root\<close> is the
  checkout, with its two files, if there is one.
\<close>

type_synonym config = "(string \<times> string, string) dict"

definition config_get :: "config list \<Rightarrow> string \<Rightarrow> string \<Rightarrow> string \<Rightarrow> string" where
  "config_get files sec key fallback =
     (case dget (fold (\<lambda>new old. fold (\<lambda>(k, v). dset k v) new old) files []) (sec, key) of
        None \<Rightarrow> fallback | Some v \<Rightarrow> v)"

definition configured_compression :: "(config \<times> config) option \<Rightarrow> lockfile_error + string" where
  "configured_compression root =
     (case root of
        None \<Rightarrow> Inr ''none''
      | Some (shared, own) \<Rightarrow>
          let v = py_strip (config_get [shared, own] ''buckos.lockfiles'' ''compression'' ''none'')
          in if v \<in> set COMPRESSIONS then Inr v else Inl (BadCompression v))"

definition configured_max_tracked_file_size :: "(config \<times> config) option \<Rightarrow> lockfile_error + int" where
  "configured_max_tracked_file_size root =
     (let raw = py_strip (config_get (case root of None \<Rightarrow> [] | Some (shared, _) \<Rightarrow> [shared])
                   ''buckos.lockfiles'' ''max_tracked_file_size'' (int_text DEFAULT_MAX_TRACKED_FILE_SIZE))
      in case py_int raw of
           None \<Rightarrow> Inl (BadSize raw)
         | Some n \<Rightarrow> if n \<le> 0 then Inl (BadSize raw) else Inr n)"

definition strip_lockfile_suffix :: "string \<Rightarrow> lockfile_error + string" where
  "strip_lockfile_suffix path =
     (case find (\<lambda>sfx. py_endswith path sfx) LOCKFILE_SUFFIXES of
        Some sfx \<Rightarrow> Inr (take (length path - length sfx) path)
      | None \<Rightarrow> Inl (NotALockfile path))"

definition suffix_of :: "string \<Rightarrow> string" where
  "suffix_of compression = (if compression = ''gzip'' then GZIP_SUFFIX else PLAIN_SUFFIX)"

definition lockfile_name ::
  "string \<Rightarrow> string \<Rightarrow> string \<Rightarrow> string option \<Rightarrow> (config \<times> config) option \<Rightarrow> lockfile_error + string" where
  "lockfile_name flavor release architecture compression root =
     attempt (if truthy compression then Inr (the compression) else configured_compression root) (\<lambda>c.
       if c \<notin> set COMPRESSIONS then Inl (BadCompression c)
       else Inr (flavor @ ''-'' @ release @ ''-'' @ architecture @ suffix_of c))"

text \<open>The one path of an identity, if any; \<open>is_file\<close> is \<open>os.path.isfile\<close>.\<close>

definition find_lockfile ::
  "(string \<Rightarrow> bool) \<Rightarrow> string \<Rightarrow> string \<Rightarrow> string \<Rightarrow> string \<Rightarrow> lockfile_error + string option" where
  "find_lockfile is_file directory flavor release architecture =
     (let found = filter is_file
            (map (\<lambda>c. path_join directory (flavor @ ''-'' @ release @ ''-'' @ architecture @ suffix_of c)) COMPRESSIONS)
      in case found of
           [] \<Rightarrow> Inr None
         | [path] \<Rightarrow> Inr (Some path)
         | _ \<Rightarrow> Inl (BothEncodings found))"

definition release_of :: "string \<Rightarrow> string \<Rightarrow> string \<Rightarrow> string option" where
  "release_of flavor architecture name =
     (let prefix = flavor @ ''-'' in
      if \<not> py_startswith name prefix then None
      else find (\<lambda>r. r \<noteq> [])
        (map (\<lambda>sfx. drop (length prefix) (take (length name - length (''-'' @ architecture @ sfx)) name))
          (filter (\<lambda>sfx. py_endswith name (''-'' @ architecture @ sfx)) LOCKFILE_SUFFIXES)))"

fun collect_releases ::
  "string \<Rightarrow> string \<Rightarrow> string list \<Rightarrow> (string, string) dict \<Rightarrow> lockfile_error + (string, string) dict" where
  "collect_releases flavor architecture [] by_release = Inr by_release"
| "collect_releases flavor architecture (name # names) by_release =
     (case release_of flavor architecture name of
        None \<Rightarrow> collect_releases flavor architecture names by_release
      | Some release \<Rightarrow>
          (case dget by_release release of
             Some previous \<Rightarrow> Inl (ReleaseTwice release previous name)
           | None \<Rightarrow> collect_releases flavor architecture names (dset release name by_release)))"

definition lockfile_releases :: "string list \<Rightarrow> string \<Rightarrow> string \<Rightarrow> lockfile_error + string list" where
  "lockfile_releases names flavor architecture =
     attempt (collect_releases flavor architecture names []) (\<lambda>by_release. Inr (sort (keys by_release)))"

section \<open>Files\<close>

datatype content = Plain json | Gzip json | Torn

record entry =
  ent_content :: content
  ent_mode :: nat

type_synonym fs = "(string, entry) dict"

definition encode :: "string \<Rightarrow> json \<Rightarrow> content" where
  "encode path value =
     (if py_endswith path GZIP_SUFFIX then Gzip (canonical value) else Plain (canonical value))"

text \<open>\<open>gzip.open\<close> refuses a plain file, and decoding the text of a compressed one fails.\<close>

definition decode :: "string \<Rightarrow> content \<Rightarrow> json option" where
  "decode path c =
     (case c of
        Gzip v \<Rightarrow> if py_endswith path GZIP_SUFFIX then Some v else None
      | Plain v \<Rightarrow> if py_endswith path GZIP_SUFFIX then None else Some v
      | Torn \<Rightarrow> None)"

definition load_lockfile :: "fs \<Rightarrow> string \<Rightarrow> lockfile_error + json" where
  "load_lockfile files path =
     (case Option.bind (dget files path) (\<lambda>f. decode path (ent_content f)) of
        None \<Rightarrow> Inl (Unreadable path) | Some v \<Rightarrow> Inr v)"

definition default_mode :: nat where
  "default_mode = 6 * 64 + 4 * 8 + 4"

text \<open>
  An undisturbed \<open>atomic_dump_lockfile\<close>: the file that replaces the destination has its mode, or
  the default one, and its encoding is that of the name of the temporary, which ends as the
  destination does.
\<close>

definition atomic_dump :: "json \<Rightarrow> string \<Rightarrow> fs \<Rightarrow> fs" where
  "atomic_dump value destination files =
     dset destination
       \<lparr>ent_content = encode (if py_endswith destination GZIP_SUFFIX then GZIP_SUFFIX else PLAIN_SUFFIX) value,
        ent_mode = (case dget files destination of Some f \<Rightarrow> ent_mode f | None \<Rightarrow> default_mode)\<rparr> files"

definition convert_lockfile ::
  "string \<Rightarrow> string \<Rightarrow> string \<Rightarrow> fs \<Rightarrow> lockfile_error + fs \<times> string" where
  "convert_lockfile cwd path compression files =
     (if compression \<notin> set COMPRESSIONS then Inl (BadCompression compression)
      else
        let source = abspath cwd path in
        attempt (strip_lockfile_suffix source) (\<lambda>stem.
        let destination = stem @ suffix_of compression in
        if source \<noteq> destination \<and> dget files destination \<noteq> None then Inl (DestinationExists destination)
        else
          attempt (load_lockfile files source) (\<lambda>value.
          let written = atomic_dump value (abspath cwd destination) files in
          attempt (load_lockfile written destination) (\<lambda>copy.
            if \<not> json_eq copy value then Inl NoRoundTrip
            else Inr (if source \<noteq> destination then AList.delete source written else written, destination)))))"

section \<open>Documents survive being written\<close>

lemma canonical_eq: "well_formed v \<Longrightarrow> json_eq (canonical v) v \<and> json_eq v (canonical v)"
proof (induction v rule: canonical.induct)
  case (5 xs)
  then show ?case by (auto simp: zip_map1 zip_map2 zip_same_conv_map)
next
  case (6 d)
  let ?e = "sorted_items (map (\<lambda>kv. (fst kv, canonical (snd kv))) d)"
  have d: "distinct (map fst d)" and w: "\<And>kv. kv \<in> set d \<Longrightarrow> well_formed (snd kv)" using "6.prems" by auto
  have e: "distinct (map fst ?e)" "set ?e = (\<lambda>kv. (fst kv, canonical (snd kv))) ` set d"
    using d by (simp_all add: sorted_items_facts(1) sorted_items_facts(3) comp_def)
  have there: "dget d k = Some x \<Longrightarrow> dget ?e k = Some (canonical x)" for k x
    using e by (force simp: map_of_eq_Some_iff d)
  have "dget d (fst kv) = Some (snd kv)" if "kv \<in> set d" for kv
    using that d by (simp add: map_of_eq_Some_iff)
  then have "json_eq (JObj d) (JObj ?e)"
    using "6.IH" w there by (auto simp: sorted_items_def)
  moreover have "json_eq (JObj ?e) (JObj d)"
    using "6.IH" w \<open>\<And>kv. kv \<in> set d \<Longrightarrow> dget d (fst kv) = Some (snd kv)\<close> e(2)
    by (auto simp: sorted_items_def)
  ultimately show ?case by simp
qed simp_all

lemma canonical_well_formed: "well_formed v \<Longrightarrow> well_formed (canonical v)"
proof (induction v rule: canonical.induct)
  case (6 d)
  then show ?case using sorted_items_facts(3) [of "map (\<lambda>kv. (fst kv, canonical (snd kv))) d"]
    by (auto simp: sorted_items_facts(1) comp_def)
qed auto

lemma sorted_items_id: "sorted (map fst d) \<Longrightarrow> sorted_items d = d"
  by (simp add: sorted_items_def sort_key_id_if_sorted)

lemma canonical_idem: "canonical (canonical v) = canonical v"
proof (induction v rule: canonical.induct)
  case (6 d)
  let ?f = "\<lambda>kv. (fst kv, canonical (snd kv))"
  have "sorted_items (map ?f (sorted_items (map ?f d))) = map ?f (sorted_items (map ?f d))"
    by (rule sorted_items_id) (simp add: sorted_items_facts(2) comp_def)
  also have "\<dots> = sorted_items (map ?f d)"
    using "6.IH" by (auto simp: sorted_items_facts(1) intro!: map_idI)
  finally show ?case by simp
qed simp_all

section \<open>Lock file names\<close>

lemma endswith_append [simp]: "py_endswith (x @ e) e"
  by (simp add: py_endswith_def)

lemma endswith_split: "py_endswith s e \<Longrightarrow> s = take (length s - length e) s @ e"
  unfolding py_endswith_def by (metis append_take_drop_id)

text \<open>No name has both endings.\<close>

lemma suffixes_differ: "\<not> py_endswith (x @ PLAIN_SUFFIX) GZIP_SUFFIX" "\<not> py_endswith (x @ GZIP_SUFFIX) PLAIN_SUFFIX"
proof -
  have l: "last (x @ PLAIN_SUFFIX) = CHR ''n''" "last (x @ GZIP_SUFFIX) = CHR ''z''"
    by (simp_all add: PLAIN_SUFFIX_def GZIP_SUFFIX_def)
  have "py_endswith s e \<Longrightarrow> e \<noteq> [] \<Longrightarrow> last s = last e" for s e
    using endswith_split by (metis last_appendR)
  then show "\<not> py_endswith (x @ PLAIN_SUFFIX) GZIP_SUFFIX" "\<not> py_endswith (x @ GZIP_SUFFIX) PLAIN_SUFFIX"
    using l by (force simp: PLAIN_SUFFIX_def GZIP_SUFFIX_def)+
qed

lemma strip_suffix_name [simp]:
  "strip_lockfile_suffix (stem @ suffix_of c) = Inr stem"
  using suffixes_differ [of stem]
  by (simp add: strip_lockfile_suffix_def LOCKFILE_SUFFIXES_def suffix_of_def)

lemma cut_middle:
  assumes "py_startswith s p" and "py_endswith s e" and "drop (length p) (take (length s - length e) s) \<noteq> []"
  shows "s = p @ drop (length p) (take (length s - length e) s) @ e"
proof -
  have "length p \<le> length s - length e" using assms(3) by simp
  then have "take (length p) (take (length s - length e) s) = p"
    using assms(1) by (simp add: py_startswith_def min_absorb1)
  then have "take (length s - length e) s = p @ drop (length p) (take (length s - length e) s)"
    by (metis append_take_drop_id)
  then show ?thesis using endswith_split [OF assms(2)] by (metis append.assoc)
qed

definition named_release :: "string \<Rightarrow> string \<Rightarrow> string \<Rightarrow> string \<Rightarrow> string" where
  "named_release flavor architecture r c = flavor @ ''-'' @ r @ ''-'' @ architecture @ suffix_of c"

lemma release_of_iff:
  "release_of flavor architecture name = Some r \<longleftrightarrow>
     r \<noteq> [] \<and> (\<exists>c \<in> set COMPRESSIONS. name = named_release flavor architecture r c)"
proof -
  let ?p = "flavor @ ''-''"
  let ?e = "\<lambda>sfx. ''-'' @ architecture @ sfx"
  let ?cut = "\<lambda>sfx. drop (length ?p) (take (length name - length (?e sfx)) name)"
  have one: "py_startswith name ?p \<and> py_endswith name (?e sfx) \<and> ?cut sfx = r \<and> r \<noteq> []
      \<longleftrightarrow> r \<noteq> [] \<and> name = ?p @ r @ ?e sfx" for sfx
  proof
    assume "py_startswith name ?p \<and> py_endswith name (?e sfx) \<and> ?cut sfx = r \<and> r \<noteq> []"
    then show "r \<noteq> [] \<and> name = ?p @ r @ ?e sfx" using cut_middle [of name ?p "?e sfx"] by simp
  qed (auto simp: py_startswith_def py_endswith_def)
  have apart: "\<not> (py_endswith name (?e GZIP_SUFFIX) \<and> py_endswith name (?e PLAIN_SUFFIX))"
  proof
    assume "py_endswith name (?e GZIP_SUFFIX) \<and> py_endswith name (?e PLAIN_SUFFIX)"
    then obtain x y where "name = (x @ ''-'' @ architecture) @ GZIP_SUFFIX" "name = (y @ ''-'' @ architecture) @ PLAIN_SUFFIX"
      by (metis append.assoc endswith_split)
    then show False using suffixes_differ(1) by (metis endswith_append)
  qed
  have "release_of flavor architecture name = Some r \<longleftrightarrow>
      (\<exists>sfx \<in> set LOCKFILE_SUFFIXES. py_startswith name ?p \<and> py_endswith name (?e sfx) \<and> ?cut sfx = r \<and> r \<noteq> [])"
    using apart unfolding release_of_def Let_def LOCKFILE_SUFFIXES_def
    by (cases "py_startswith name ?p"; cases "py_endswith name (?e GZIP_SUFFIX)"; cases "py_endswith name (?e PLAIN_SUFFIX)")
       auto
  also have "\<dots> \<longleftrightarrow> (\<exists>sfx \<in> set LOCKFILE_SUFFIXES. r \<noteq> [] \<and> name = ?p @ r @ ?e sfx)" by (simp only: one)
  also have "\<dots> \<longleftrightarrow> r \<noteq> [] \<and> (\<exists>c \<in> set COMPRESSIONS. name = named_release flavor architecture r c)"
    by (auto simp: LOCKFILE_SUFFIXES_def COMPRESSIONS_def named_release_def suffix_of_def)
  finally show ?thesis .
qed

lemma set_map_filter: "set (List.map_filter f xs) = {y. \<exists>x \<in> set xs. f x = Some y}"
  by (induction xs) (auto simp: map_filter_simps split: option.split)

lemma collect_releases_Inr:
  "collect_releases flavor architecture names d = Inr d' \<Longrightarrow>
     distinct (List.map_filter (release_of flavor architecture) names)
     \<and> set (List.map_filter (release_of flavor architecture) names) \<inter> set (keys d) = {}
     \<and> keys d' = keys d @ List.map_filter (release_of flavor architecture) names"
proof (induction names arbitrary: d)
  case (Cons name names)
  show ?case
  proof (cases "release_of flavor architecture name")
    case None
    then show ?thesis using Cons by (simp add: map_filter_simps)
  next
    case (Some r)
    then have none: "dget d r = None" using Cons.prems by (auto split: option.splits)
    then have "dset r name d = d @ [(r, name)]" by (simp add: update_fresh)
    then have "collect_releases flavor architecture names (d @ [(r, name)]) = Inr d'"
      using Cons.prems Some none by simp
    note Cons.IH [OF this]
    moreover have "r \<notin> set (keys d)" using none by (simp add: keys_def map_of_eq_None_iff)
    ultimately show ?thesis using Some by (auto simp: map_filter_simps keys_def)
  qed
qed (simp add: map_filter_simps)

lemma collect_releases_succeeds:
  "distinct (List.map_filter (release_of flavor architecture) names)
   \<Longrightarrow> set (List.map_filter (release_of flavor architecture) names) \<inter> set (keys d) = {}
   \<Longrightarrow> \<exists>d'. collect_releases flavor architecture names d = Inr d'"
proof (induction names arbitrary: d)
  case (Cons name names)
  show ?case
  proof (cases "release_of flavor architecture name")
    case None
    then show ?thesis using Cons by (simp add: map_filter_simps)
  next
    case (Some r)
    then have "dget d r = None" using Cons.prems by (auto simp: map_filter_simps keys_def map_of_eq_None_iff)
    moreover from this have "dset r name d = d @ [(r, name)]" by (simp add: update_fresh)
    ultimately show ?thesis using Some Cons.prems Cons.IH [of "dset r name d"]
      by (auto simp: map_filter_simps keys_def)
  qed
qed simp

lemma map_filter_distinct:
  assumes "distinct xs"
  shows "distinct (List.map_filter f xs) \<longleftrightarrow>
     (\<forall>x \<in> set xs. \<forall>y \<in> set xs. \<forall>r. f x = Some r \<longrightarrow> f y = Some r \<longrightarrow> x = y)"
proof -
  have "distinct (List.map_filter f xs) \<longleftrightarrow> inj_on (the \<circ> f) {x \<in> set xs. f x \<noteq> None}"
    using assms by (simp add: List.map_filter_def distinct_map)
  also have "\<dots> \<longleftrightarrow> (\<forall>x \<in> set xs. \<forall>y \<in> set xs. \<forall>r. f x = Some r \<longrightarrow> f y = Some r \<longrightarrow> x = y)"
    unfolding inj_on_def by force
  finally show ?thesis .
qed

text \<open>
  the releases of a directory are exactly those that a file of the flavor and architecture is
  named after, in either encoding, each once and in order; and they are refused exactly when some
  release is there in both encodings.
\<close>
theorem lockfile_releases_exact:
  assumes "distinct names"
  shows "lockfile_releases names flavor architecture = Inr rs \<longleftrightarrow>
    (\<nexists>r. r \<noteq> [] \<and> named_release flavor architecture r ''none'' \<in> set names
       \<and> named_release flavor architecture r ''gzip'' \<in> set names)
    \<and> sorted rs \<and> distinct rs
    \<and> set rs = {r. r \<noteq> [] \<and> (\<exists>c \<in> set COMPRESSIONS. named_release flavor architecture r c \<in> set names)}"
proof -
  let ?f = "release_of flavor architecture"
  let ?rs = "List.map_filter ?f names"
  have set_rs: "set ?rs = {r. r \<noteq> [] \<and> (\<exists>c \<in> set COMPRESSIONS. named_release flavor architecture r c \<in> set names)}"
    unfolding set_map_filter release_of_iff by blast
  have "named_release flavor architecture r ''none'' \<noteq> named_release flavor architecture r ''gzip''" for r
    by (simp add: named_release_def suffix_of_def PLAIN_SUFFIX_def GZIP_SUFFIX_def)
  then have apart: "distinct ?rs \<longleftrightarrow> (\<nexists>r. r \<noteq> [] \<and> named_release flavor architecture r ''none'' \<in> set names
       \<and> named_release flavor architecture r ''gzip'' \<in> set names)"
    unfolding map_filter_distinct [OF assms] release_of_iff by (auto simp: COMPRESSIONS_def; metis)
  have "lockfile_releases names flavor architecture = Inr rs \<longleftrightarrow> distinct ?rs \<and> rs = sort ?rs"
    using collect_releases_succeeds [of flavor architecture names "[]"] collect_releases_Inr [of flavor architecture names "[]"]
    by (auto simp: lockfile_releases_def attempt_Inr keys_def)
  also have "\<dots> \<longleftrightarrow> distinct ?rs \<and> sorted rs \<and> distinct rs \<and> set rs = set ?rs"
    by (metis distinct_sort set_sort sorted_distinct_set_unique sorted_sort)
  finally show ?thesis by (simp only: apart set_rs)
qed

theorem lockfile_releases_exact_witness:
  "lockfile_releases [''f-44-x.lock.json.gz'', ''f-43-x.lock.json'', ''f-x.lock.json'', ''README''] ''f'' ''x''
     = Inr [''43'', ''44'']
   \<and> {r. r \<noteq> [] \<and> (\<exists>c \<in> set COMPRESSIONS. named_release ''f'' ''x'' r c
        \<in> set [''f-44-x.lock.json.gz'', ''f-43-x.lock.json'', ''f-x.lock.json'', ''README''])} = {''43'', ''44''}"
proof -
  let ?names = "[''f-44-x.lock.json.gz'', ''f-43-x.lock.json'', ''f-x.lock.json'', ''README'']"
  have r: "lockfile_releases ?names ''f'' ''x'' = Inr [''43'', ''44'']" by code_simp
  have d: "distinct ?names" by simp
  show ?thesis using r lockfile_releases_exact [OF d, of "''f''" "''x''" "[''43'', ''44'']"] by simp
qed

text \<open>
  A flavor that is the start of another's name reads the other's files as releases of its own when
  they share a directory.
\<close>

lemma flavor_prefix_release:
  "lockfile_releases [''centos-hyperscale-10-x86_64.lock.json''] ''centos'' ''x86_64'' = Inr [''hyperscale-10'']"
  by code_simp

section \<open>Normal paths\<close>

definition good_part :: "string \<Rightarrow> bool" where
  "good_part w = (w \<noteq> [] \<and> w \<noteq> ''.'' \<and> w \<noteq> ''..'' \<and> CHR ''/'' \<notin> set w)"

lemma fold_norm_good:
  "\<forall>w \<in> set ws. CHR ''/'' \<notin> set w \<Longrightarrow> list_all good_part comps
   \<Longrightarrow> list_all good_part (fold (norm_step True) ws comps)"
proof (induction ws arbitrary: comps)
  case (Cons w ws)
  have "list_all good_part (norm_step True w comps)"
    using Cons.prems by (auto simp: norm_step_def good_part_def list_all_iff dest: in_set_butlastD)
  then show ?case using Cons by simp
qed simp

lemma fold_norm_id: "list_all good_part ws \<Longrightarrow> fold (norm_step True) ws acc = acc @ ws"
  by (induction ws arbitrary: acc) (auto simp: norm_step_def good_part_def)

lemma py_join_head: "list_all good_part comps \<Longrightarrow> \<not> py_startswith (py_join ''/'' comps) ''/''"
  by (induction "''/''" comps rule: py_join.induct)
     (auto simp: py_startswith_def good_part_def neq_Nil_conv)

lemma normpath_form:
  assumes "py_startswith path ''/''"
  obtains sl comps where "normpath path = sl @ py_join ''/'' comps" and "sl = ''/'' \<or> sl = ''//''"
    and "list_all good_part comps"
proof -
  let ?comps = "fold (norm_step True) (py_split CHR ''/'' path) []"
  have "list_all good_part ?comps"
    by (rule fold_norm_good) (auto dest: py_split_parts)
  moreover have "path \<noteq> []" using assms by (auto simp: py_startswith_def)
  ultimately show ?thesis
    using assms that [of "if py_startswith path ''//'' \<and> \<not> py_startswith path ''///'' then ''//'' else ''/''" ?comps]
    by (simp add: normpath_def Let_def)
qed

lemma normpath_normal:
  assumes "sl = ''/'' \<or> sl = ''//''" and "list_all good_part comps"
  shows "normpath (sl @ py_join ''/'' comps) = sl @ py_join ''/'' comps"
proof -
  let ?j = "py_join ''/'' comps"
  have j: "\<not> py_startswith ?j ''/''" by (rule py_join_head [OF assms(2)])
  then have j2: "\<not> py_startswith ?j ''//''" by (cases ?j) (auto simp: py_startswith_def)
  have "fold (norm_step True) (py_split CHR ''/'' ?j) [] = comps"
  proof (cases "comps = []")
    case False
    have "py_split CHR ''/'' ?j = comps"
      using py_split_join [OF False, of "CHR ''/''"] assms(2) by (simp add: list_all_iff good_part_def)
    then show ?thesis using fold_norm_id [OF assms(2), of "[]"] by simp
  qed (simp add: norm_step_def)
  then have "fold (norm_step True) (py_split CHR ''/'' (sl @ ?j)) [] = comps"
    using assms(1) by (auto simp: norm_step_def)
  moreover have "py_startswith (sl @ ?j) ''/''" "py_startswith (sl @ ?j) ''//'' \<longleftrightarrow> sl = ''//''"
    "\<not> py_startswith (sl @ ?j) ''///''"
    using assms(1) j j2 by (auto simp: py_startswith_def numeral_2_eq_2 numeral_3_eq_3)
  ultimately show ?thesis using assms(1) by (auto simp: normpath_def Let_def)
qed

lemma py_join_snoc: "py_join ''/'' (ws @ [w]) = (if ws = [] then w else py_join ''/'' ws @ CHR ''/'' # w)"
  by (induction "''/''" ws rule: py_join.induct) auto

lemma last_part:
  assumes "u @ CHR ''/'' # w = stem @ e" and "CHR ''/'' \<notin> set e"
  obtains b where "w = b @ e" and "stem = u @ CHR ''/'' # b"
proof -
  obtain us where "u = stem @ us \<and> us @ CHR ''/'' # w = e \<or> u @ us = stem \<and> CHR ''/'' # w = us @ e"
    using assms(1) unfolding append_eq_append_conv2 by blast
  then show ?thesis using assms(2) that by (cases us) auto
qed

lemma suffix_of_chars: "CHR ''/'' \<notin> set (suffix_of c)" "suffix_of c \<noteq> []"
  by (simp_all add: suffix_of_def PLAIN_SUFFIX_def GZIP_SUFFIX_def)

lemma good_part_suffix: "CHR ''/'' \<notin> set b \<Longrightarrow> good_part (b @ suffix_of c)"
  by (cases b) (auto simp: good_part_def suffix_of_def PLAIN_SUFFIX_def GZIP_SUFFIX_def)

lemma strip_suffix_Inr:
  assumes "strip_lockfile_suffix path = Inr stem"
  obtains c where "c \<in> set COMPRESSIONS" and "path = stem @ suffix_of c"
proof -
  obtain sfx where f: "find (\<lambda>sfx. py_endswith path sfx) LOCKFILE_SUFFIXES = Some sfx"
    and stem: "stem = take (length path - length sfx) path"
    using assms by (auto simp: strip_lockfile_suffix_def split: option.splits)
  have "py_endswith path sfx" "sfx \<in> set LOCKFILE_SUFFIXES" using f by (auto simp: find_Some_iff)
  then show ?thesis
    using endswith_split [of path sfx] that [of "''gzip''"] that [of "''none''"] stem
    by (auto simp: LOCKFILE_SUFFIXES_def COMPRESSIONS_def suffix_of_def)
qed

text \<open>The destination beside a normal path is a normal path.\<close>

lemma abspath_destination:
  assumes "py_startswith cwd ''/''" and "strip_lockfile_suffix (abspath cwd path) = Inr stem"
  shows "abspath cwd (stem @ suffix_of c) = stem @ suffix_of c"
proof -
  have "py_startswith (if py_startswith path ''/'' then path else path_join cwd path) ''/''"
    using assms(1) by (cases cwd) (auto simp: path_join_def py_startswith_def)
  then obtain sl comps where source: "abspath cwd path = sl @ py_join ''/'' comps" "sl = ''/'' \<or> sl = ''//''"
    "list_all good_part comps" unfolding abspath_def by (rule normpath_form)
  obtain d where d: "sl @ py_join ''/'' comps = stem @ suffix_of d"
    using strip_suffix_Inr [OF assms(2)] source(1) by metis
  obtain sl' where sl': "sl = sl' @ ''/''" "sl' = [] \<or> sl' = ''/''" using source(2) by auto
  have "comps \<noteq> []"
  proof
    assume "comps = []"
    then have "sl' @ CHR ''/'' # [] = stem @ suffix_of d" using d sl' by simp
    then show False using last_part suffix_of_chars by (metis append_is_Nil_conv)
  qed
  then obtain ws w where comps: "comps = ws @ [w]" by (metis rev_exhaust)
  define u where "u = (if ws = [] then sl' else sl @ py_join ''/'' ws)"
  have u: "u @ CHR ''/'' # v = sl @ py_join ''/'' (ws @ [v])" for v
    by (simp add: u_def sl'(1) py_join_snoc)
  obtain b where b: "w = b @ suffix_of d" "stem = u @ CHR ''/'' # b"
    by (rule last_part [of u w stem "suffix_of d"]) (use d comps u suffix_of_chars(1) in auto)
  have good: "list_all good_part (ws @ [b @ suffix_of c])"
    using source(3) good_part_suffix [of b c] by (auto simp: comps b(1) good_part_def)
  have "stem @ suffix_of c = sl @ py_join ''/'' (ws @ [b @ suffix_of c])" using u [of "b @ suffix_of c"] b(2) by simp
  moreover have "py_startswith (stem @ suffix_of c) ''/''"
    using calculation source(2) by (auto simp: py_startswith_def)
  ultimately show ?thesis using normpath_normal [OF source(2) good] by (simp add: abspath_def)
qed

section \<open>Conversion\<close>

lemma decode_encode [simp]:
  "decode path (encode (if py_endswith path GZIP_SUFFIX then GZIP_SUFFIX else PLAIN_SUFFIX) v) = Some (canonical v)"
  using suffixes_differ [of "[]"] endswith_append [of "[]" GZIP_SUFFIX] by (simp add: encode_def decode_def)

lemma load_written [simp]: "load_lockfile (atomic_dump v path files) path = Inr (canonical v)"
  by (simp add: load_lockfile_def atomic_dump_def)

lemma convert_cases:
  assumes "py_startswith cwd ''/''" and "strip_lockfile_suffix (abspath cwd path) = Inr stem"
    and "compression \<in> set COMPRESSIONS"
    and "stem @ suffix_of compression = abspath cwd path \<or> dget files (stem @ suffix_of compression) = None"
    and "load_lockfile files (abspath cwd path) = Inr v" and "well_formed v"
  shows "convert_lockfile cwd path compression files =
    (let source = abspath cwd path; destination = stem @ suffix_of compression in
     Inr (if source \<noteq> destination then AList.delete source (atomic_dump v destination files)
          else atomic_dump v destination files, destination))"
  using assms canonical_eq [of v]
  by (auto simp: convert_lockfile_def Let_def abspath_destination)

text \<open>
  C21: a conversion that returns has written the same document under the name of the new encoding,
  with the identity it had, and has removed the old file when its name is another; the mode of a
  file rewritten in place and every other file are as they were.
\<close>
theorem convert_lockfile_correct:
  assumes "convert_lockfile cwd path compression files = Inr (files', destination)" and "py_startswith cwd ''/''"
    and "\<And>v. load_lockfile files (abspath cwd path) = Inr v \<Longrightarrow> well_formed v"
  shows "\<exists>v w. load_lockfile files (abspath cwd path) = Inr v \<and> load_lockfile files' destination = Inr w
    \<and> json_eq w v \<and> lockfile_digest sha256 w = lockfile_digest sha256 v
    \<and> py_endswith destination (suffix_of compression)
    \<and> (abspath cwd path \<noteq> destination \<longrightarrow> dget files' (abspath cwd path) = None)
    \<and> (abspath cwd path = destination \<longrightarrow>
         map_option ent_mode (dget files' destination) = map_option ent_mode (dget files destination))
    \<and> (\<forall>p. p \<noteq> abspath cwd path \<longrightarrow> p \<noteq> destination \<longrightarrow> dget files' p = dget files p)"
proof -
  let ?source = "abspath cwd path"
  obtain stem v where stem: "strip_lockfile_suffix ?source = Inr stem" and c: "compression \<in> set COMPRESSIONS"
    and free: "stem @ suffix_of compression = ?source \<or> dget files (stem @ suffix_of compression) = None"
    and v: "load_lockfile files ?source = Inr v"
    using assms(1) by (auto simp: convert_lockfile_def Let_def attempt_Inr split: if_splits)
  have result: "destination = stem @ suffix_of compression"
    "files' = (if ?source \<noteq> destination then AList.delete ?source (atomic_dump v destination files)
       else atomic_dump v destination files)"
    using assms(1) convert_cases [OF assms(2) stem c free v assms(3) [OF v]] by (auto simp: Let_def)
  have "dget files ?source \<noteq> None"
    using v by (cases "dget files ?source") (auto simp: load_lockfile_def)
  then have mode: "?source = destination \<longrightarrow>
      map_option ent_mode (dget files' destination) = map_option ent_mode (dget files destination)"
    using result(2) by (auto simp: atomic_dump_def)
  have "load_lockfile files' destination = Inr (canonical v)"
    using result(2) load_written [of v destination files]
    by (auto simp: load_lockfile_def delete_conv')
  moreover have "lockfile_digest sha256 (canonical v) = lockfile_digest sha256 v"
    by (simp add: lockfile_digest_def canonical_idem)
  moreover have "json_eq (canonical v) v" using canonical_eq [OF assms(3) [OF v]] by blast
  ultimately show ?thesis using v mode result(1)
    by (intro exI [of _ v] exI [of _ "canonical v"]) (auto simp: result(2) atomic_dump_def delete_conv')
qed

text \<open>
  a conversion is refused exactly for an unknown encoding, a name that is no lock file's, a
  destination that exists beside the source, or a source that cannot be read; the round-trip check
  never fails.
\<close>
theorem convert_refused_iff:
  assumes "py_startswith cwd ''/''" and "\<And>v. load_lockfile files (abspath cwd path) = Inr v \<Longrightarrow> well_formed v"
  shows "(\<exists>e. convert_lockfile cwd path compression files = Inl e) \<longleftrightarrow>
    compression \<notin> set COMPRESSIONS
    \<or> \<not> (\<exists>stem v. strip_lockfile_suffix (abspath cwd path) = Inr stem
          \<and> (stem @ suffix_of compression = abspath cwd path \<or> dget files (stem @ suffix_of compression) = None)
          \<and> load_lockfile files (abspath cwd path) = Inr v)"
proof -
  have "(\<exists>r. convert_lockfile cwd path compression files = Inr r) \<longleftrightarrow>
    compression \<in> set COMPRESSIONS
    \<and> (\<exists>stem v. strip_lockfile_suffix (abspath cwd path) = Inr stem
          \<and> (stem @ suffix_of compression = abspath cwd path \<or> dget files (stem @ suffix_of compression) = None)
          \<and> load_lockfile files (abspath cwd path) = Inr v)" (is "?l \<longleftrightarrow> ?r")
  proof
    show ?l if ?r using that convert_cases [OF assms(1)] assms(2) by (auto simp: Let_def)
    show ?r if ?l using that by (auto simp: convert_lockfile_def Let_def attempt_Inr split: if_splits)
  qed
  then show ?thesis by (metis sum.exhaust sum.distinct(1))
qed

definition one_lock :: fs where
  "one_lock =
     [(''/l/f-44-x.lock.json'',
       \<lparr>ent_content = Plain (JObj [(''release'', JStr ''44''), (''flavor'', JStr ''f'')]), ent_mode = 420\<rparr>)]"

theorem convert_lockfile_correct_witness:
  "\<exists>files'. convert_lockfile ''/l'' ''f-44-x.lock.json'' ''gzip'' one_lock = Inr (files', ''/l/f-44-x.lock.json.gz'')
     \<and> dget files' ''/l/f-44-x.lock.json'' = None"
proof -
  let ?r = "convert_lockfile ''/l'' ''f-44-x.lock.json'' ''gzip'' one_lock"
  have r: "\<not> isl ?r \<and> snd (projr ?r) = ''/l/f-44-x.lock.json.gz''" by code_simp
  then have c: "?r = Inr (fst (projr ?r), ''/l/f-44-x.lock.json.gz'')" by (metis sum.collapse(2) prod.collapse)
  have source: "abspath ''/l'' ''f-44-x.lock.json'' = ''/l/f-44-x.lock.json''" by code_simp
  have "load_lockfile one_lock ''/l/f-44-x.lock.json'' = Inr (JObj [(''release'', JStr ''44''), (''flavor'', JStr ''f'')])"
    by code_simp
  then have "dget (fst (projr ?r)) ''/l/f-44-x.lock.json'' = None"
    using convert_lockfile_correct [OF c] unfolding source by (auto simp: py_startswith_def)
  then show ?thesis using c by blast
qed

theorem convert_refused_iff_witness:
  "(\<exists>e. convert_lockfile ''/l'' ''f-44-x.lock.json'' ''xz'' one_lock = Inl e)
   \<and> (\<nexists>e. convert_lockfile ''/l'' ''f-44-x.lock.json'' ''none'' one_lock = Inl e)"
proof -
  have source: "abspath ''/l'' ''f-44-x.lock.json'' = ''/l/f-44-x.lock.json''"
    "strip_lockfile_suffix ''/l/f-44-x.lock.json'' = Inr ''/l/f-44-x''" by code_simp+
  have load: "load_lockfile one_lock ''/l/f-44-x.lock.json''
      = Inr (JObj [(''release'', JStr ''44''), (''flavor'', JStr ''f'')])" by code_simp
  have iff: "(\<exists>e. convert_lockfile ''/l'' ''f-44-x.lock.json'' c one_lock = Inl e) \<longleftrightarrow>
      c \<notin> set COMPRESSIONS \<or> \<not> (\<exists>stem v. strip_lockfile_suffix (abspath ''/l'' ''f-44-x.lock.json'') = Inr stem
        \<and> (stem @ suffix_of c = abspath ''/l'' ''f-44-x.lock.json'' \<or> dget one_lock (stem @ suffix_of c) = None)
        \<and> load_lockfile one_lock (abspath ''/l'' ''f-44-x.lock.json'') = Inr v)" for c
    by (rule convert_refused_iff) (auto simp: py_startswith_def source load)
  show ?thesis unfolding iff source
    by (simp add: load) (simp add: COMPRESSIONS_def suffix_of_def PLAIN_SUFFIX_def)
qed

end
