(* ===== verification/AtomicDump.thy ===== *)
theory AtomicDump
  imports Lockfile
begin

text \<open>
  \<^verbatim>\<open>atomic_dump_lockfile\<close> of \<^verbatim>\<open>tools/_lockfile.py\<close> as a protocol: any number of jobs, numbered,
  write their document over one destination at the same time, each a step at a time, and any step
  can raise. \<open>Lockfile.atomic_dump\<close> is what one of them does as seen from outside: the reachable
  states show some sequence of whole dumps, whatever the interleaving.
\<close>

section \<open>The steps\<close>

text \<open>\<open>os.path.dirname\<close>\<close>

definition dirname :: "string \<Rightarrow> string" where
  "dirname path =
     (let head = rev (dropWhile (\<lambda>c. c \<noteq> CHR ''/'') (rev path));
          bare = rdrop_while (\<lambda>c. c = CHR ''/'') head
      in if bare = [] then head else bare)"

text \<open>The name \<open>mkstemp\<close> makes of its random part.\<close>

definition temp_suffix :: "string \<Rightarrow> string" where
  "temp_suffix destination = (if py_endswith destination GZIP_SUFFIX then GZIP_SUFFIX else PLAIN_SUFFIX)"

definition temp_name :: "string \<Rightarrow> string \<Rightarrow> string" where
  "temp_name destination r = path_join (dirname destination) (''.lockfile-'' @ r @ temp_suffix destination)"

definition dest_mode :: "string \<Rightarrow> fs \<Rightarrow> nat" where
  "dest_mode destination files = (case dget files destination of Some f \<Rightarrow> ent_mode f | None \<Rightarrow> default_mode)"

text \<open>
  Where a job is: before the mode is read, before the temporary exists, in the protected block with
  the file created, partly written, complete, or with its mode set, after the replacement, in the
  clean-up of an exception, and returned or raised.
\<close>

datatype phase = Begin | Statted | Opened | Writing | Complete | Ready | Placed | Unwinding | Done | Failed

record job =
  job_phase :: phase
  job_temp :: string
  job_mode :: nat

record sys =
  sys_files :: fs
  sys_jobs :: "nat \<Rightarrow> job"

definition start :: "fs \<Rightarrow> sys" where
  "start files = \<lparr>sys_files = files, sys_jobs = (\<lambda>_. \<lparr>job_phase = Begin, job_temp = [], job_mode = 0\<rparr>)\<rparr>"

abbreviation phase_of :: "sys \<Rightarrow> nat \<Rightarrow> phase" where
  "phase_of s i \<equiv> job_phase (sys_jobs s i)"

abbreviation temp_of :: "sys \<Rightarrow> nat \<Rightarrow> string" where
  "temp_of s i \<equiv> job_temp (sys_jobs s i)"

definition at_phase :: "nat \<Rightarrow> phase \<Rightarrow> sys \<Rightarrow> sys" where
  "at_phase i ph s = s\<lparr>sys_jobs := (sys_jobs s)(i := (sys_jobs s i)\<lparr>job_phase := ph\<rparr>)\<rparr>"

definition with_files :: "fs \<Rightarrow> sys \<Rightarrow> sys" where
  "with_files files s = s\<lparr>sys_files := files\<rparr>"

text \<open>
  The steps of job \<open>i\<close>. \<open>mkstemp\<close> makes a file that was not there, under a name no job has drawn.
  Writing truncates and fills the temporary; an unfinished write leaves it \<open>Torn\<close>. \<open>os.replace\<close> is
  one step.
\<close>

inductive dump_step :: "(nat \<Rightarrow> json) \<Rightarrow> string \<Rightarrow> nat \<Rightarrow> sys \<Rightarrow> sys \<Rightarrow> bool"
  for doc :: "nat \<Rightarrow> json" and destination :: string and i :: nat
where
  stat: "phase_of s i = Begin \<Longrightarrow>
    dump_step doc destination i s
      (s\<lparr>sys_jobs := (sys_jobs s)(i :=
         (sys_jobs s i)\<lparr>job_phase := Statted, job_mode := dest_mode destination (sys_files s)\<rparr>)\<rparr>)"
| create: "phase_of s i = Statted \<Longrightarrow> temp = temp_name destination r \<Longrightarrow> dget (sys_files s) temp = None \<Longrightarrow>
    \<forall>j. temp_of s j \<noteq> temp \<Longrightarrow>
    dump_step doc destination i s
      (s\<lparr>sys_files := dset temp \<lparr>ent_content = Torn, ent_mode = 384\<rparr> (sys_files s),
         sys_jobs := (sys_jobs s)(i := (sys_jobs s i)\<lparr>job_phase := Opened, job_temp := temp\<rparr>)\<rparr>)"
| write_some: "phase_of s i = Opened \<Longrightarrow> dump_step doc destination i s (at_phase i Writing s)"
| write_all: "phase_of s i \<in> {Opened, Writing} \<Longrightarrow> dget (sys_files s) (temp_of s i) = Some f \<Longrightarrow>
    dump_step doc destination i s
      (at_phase i Complete (with_files
         (dset (temp_of s i) (f\<lparr>ent_content := encode (temp_of s i) (doc i)\<rparr>) (sys_files s)) s))"
| chmod: "phase_of s i = Complete \<Longrightarrow> dget (sys_files s) (temp_of s i) = Some f \<Longrightarrow>
    dump_step doc destination i s
      (at_phase i Ready (with_files
         (dset (temp_of s i) (f\<lparr>ent_mode := job_mode (sys_jobs s i)\<rparr>) (sys_files s)) s))"
| replace: "phase_of s i = Ready \<Longrightarrow> dget (sys_files s) (temp_of s i) = Some f \<Longrightarrow>
    dump_step doc destination i s
      (at_phase i Placed (with_files (AList.delete (temp_of s i) (dset destination f (sys_files s))) s))"
| finish: "phase_of s i = Placed \<Longrightarrow>
    dump_step doc destination i s
      (at_phase i Done (with_files (AList.delete (temp_of s i) (sys_files s)) s))"
| raise_early: "phase_of s i \<in> {Begin, Statted} \<Longrightarrow> dump_step doc destination i s (at_phase i Failed s)"
| raise: "phase_of s i \<in> {Opened, Writing, Complete, Ready} \<Longrightarrow>
    dump_step doc destination i s (at_phase i Unwinding s)"
| clean_up: "phase_of s i = Unwinding \<Longrightarrow>
    dump_step doc destination i s
      (at_phase i Failed (with_files (AList.delete (temp_of s i) (sys_files s)) s))"

inductive reachable :: "fs \<Rightarrow> (nat \<Rightarrow> json) \<Rightarrow> string \<Rightarrow> sys \<Rightarrow> bool"
  for files :: fs and doc :: "nat \<Rightarrow> json" and destination :: string
where
  started: "reachable files doc destination (start files)"
| stepped: "reachable files doc destination s \<Longrightarrow> dump_step doc destination i s t
    \<Longrightarrow> reachable files doc destination t"

section \<open>What is seen from outside\<close>

definition live :: "phase \<Rightarrow> bool" where
  "live ph = (ph \<in> {Opened, Writing, Complete, Ready, Unwinding})"

definition placed :: "phase \<Rightarrow> bool" where
  "placed ph = (ph \<in> {Placed, Done})"

text \<open>The files, without the temporaries that are in use.\<close>

definition own :: "sys \<Rightarrow> nat \<Rightarrow> string set" where
  "own s i = (if live (phase_of s i) then {temp_of s i} else {})"

definition hidden :: "sys \<Rightarrow> string set" where
  "hidden s = (\<Union>i. own s i)"

definition view :: "sys \<Rightarrow> string \<Rightarrow> entry option" where
  "view s p = (if p \<in> hidden s then None else dget (sys_files s) p)"

text \<open>A dump, whole.\<close>

definition assign :: "string \<Rightarrow> json \<Rightarrow> (string \<Rightarrow> entry option) \<Rightarrow> string \<Rightarrow> entry option" where
  "assign destination v m =
     m(destination \<mapsto> \<lparr>ent_content = encode destination v,
         ent_mode = (case m destination of Some f \<Rightarrow> ent_mode f | None \<Rightarrow> default_mode)\<rparr>)"

lemma encode_temp_suffix [simp]: "encode (temp_suffix destination) v = encode destination v"
  using suffixes_differ [of "[]"] endswith_append [of "[]" GZIP_SUFFIX] by (simp add: encode_def temp_suffix_def)

lemma atomic_dump_assign: "dget (atomic_dump v destination files) = assign destination v (dget files)"
proof -
  have "encode (if py_endswith destination GZIP_SUFFIX then GZIP_SUFFIX else PLAIN_SUFFIX) v = encode destination v"
    using encode_temp_suffix [of destination v] unfolding temp_suffix_def .
  then show ?thesis by (auto simp: atomic_dump_def assign_def fun_eq_iff)
qed

section \<open>The invariant\<close>

definition is_temp :: "string \<Rightarrow> string \<Rightarrow> bool" where
  "is_temp destination p = (p \<in> range (temp_name destination))"

lemma is_temp_name [simp]: "is_temp destination (temp_name destination r)"
  by (simp add: is_temp_def)

text \<open>What is known of one job: its mode, and its temporary with what is in it.\<close>

definition job_ok :: "nat \<Rightarrow> (nat \<Rightarrow> json) \<Rightarrow> string \<Rightarrow> sys \<Rightarrow> nat \<Rightarrow> bool" where
  "job_ok mode doc destination s i =
     ((phase_of s i \<in> {Statted, Opened, Writing, Complete, Ready} \<longrightarrow> job_mode (sys_jobs s i) = mode)
      \<and> (live (phase_of s i) \<or> placed (phase_of s i) \<longrightarrow> is_temp destination (temp_of s i))
      \<and> (live (phase_of s i) \<longrightarrow> dget (sys_files s) (temp_of s i) \<noteq> None)
      \<and> (phase_of s i = Placed \<longrightarrow> dget (sys_files s) (temp_of s i) = None)
      \<and> (phase_of s i \<in> {Complete, Ready} \<longrightarrow>
           map_option ent_content (dget (sys_files s) (temp_of s i)) = Some (encode destination (doc i)))
      \<and> (phase_of s i = Ready \<longrightarrow> map_option ent_mode (dget (sys_files s) (temp_of s i)) = Some mode))"

definition apart :: "sys \<Rightarrow> bool" where
  "apart s = (\<forall>i j. i \<noteq> j \<longrightarrow> live (phase_of s i) \<or> phase_of s i = Placed \<longrightarrow> temp_of s i \<noteq> temp_of s j)"

lemma phase_simps [simp]:
  "live Opened" "live Writing" "live Complete" "live Ready" "live Unwinding" "\<not> live Begin" "\<not> live Statted"
  "\<not> live Placed" "\<not> live Done" "\<not> live Failed" "placed Placed" "placed Done" "\<not> placed Begin"
  "\<not> placed Statted" "\<not> placed Opened" "\<not> placed Writing" "\<not> placed Complete" "\<not> placed Ready"
  "\<not> placed Unwinding" "\<not> placed Failed"
  by (simp_all add: live_def placed_def)

lemma path_join_ends: "\<exists>x. path_join a (y @ e) = x @ e"
proof -
  have "path_join a (y @ e) = y @ e \<or> path_join a (y @ e) = (a @ y) @ e \<or> path_join a (y @ e) = (a @ ''/'' @ y) @ e"
    by (simp add: path_join_def)
  then show ?thesis by blast
qed

lemma temp_name_ends: "\<exists>x. temp_name destination r = x @ temp_suffix destination"
  using path_join_ends [of "dirname destination" "''.lockfile-'' @ r" "temp_suffix destination"]
  unfolding temp_name_def by (simp only: append_assoc)

lemma encode_temp [simp]: "encode (temp_name destination r) v = encode destination v"
proof -
  obtain x where "temp_name destination r = x @ temp_suffix destination" using temp_name_ends by blast
  then show ?thesis using suffixes_differ(1) [of x] by (simp add: encode_def temp_suffix_def)
qed

lemma at_phase_simps [simp]:
  "sys_files (at_phase i ph s) = sys_files s"
  "sys_jobs (at_phase i ph s) j = (if j = i then (sys_jobs s i)\<lparr>job_phase := ph\<rparr> else sys_jobs s j)"
  "sys_files (with_files fs s) = fs" "sys_jobs (with_files fs s) = sys_jobs s"
  by (simp_all add: at_phase_def with_files_def)

lemmas dget_delete [simp] = delete_conv'

lemma temp_not_destination:
  "job_ok mode doc destination s i \<Longrightarrow> live (phase_of s i) \<or> placed (phase_of s i)
   \<Longrightarrow> \<not> is_temp destination destination \<Longrightarrow> temp_of s i \<noteq> destination"
  unfolding job_ok_def by metis

lemma destination_seen:
  assumes "\<forall>i. job_ok mode doc destination s i" and "\<not> is_temp destination destination"
  shows "view s destination = dget (sys_files s) destination" and "destination \<notin> hidden s"
proof -
  show "destination \<notin> hidden s"
    using temp_not_destination [OF spec [OF assms(1)] _ assms(2)] by (fastforce simp: hidden_def own_def)
  then show "view s destination = dget (sys_files s) destination" by (simp add: view_def)
qed

lemma ready_file:
  "job_ok mode doc destination s i \<Longrightarrow> phase_of s i = Ready \<Longrightarrow> dget (sys_files s) (temp_of s i) = Some f
   \<Longrightarrow> f = \<lparr>ent_content = encode destination (doc i), ent_mode = mode\<rparr>"
  by (simp add: job_ok_def)

text \<open>A step of one job leaves the others as they are, and keeps all of this.\<close>

lemma step_other: "dump_step doc destination i s t \<Longrightarrow> j \<noteq> i \<Longrightarrow> sys_jobs t j = sys_jobs s j"
  by (erule dump_step.cases) simp_all

lemma step_apart: "dump_step doc destination i s t \<Longrightarrow> apart s \<Longrightarrow> apart t"
  by (erule dump_step.cases) (auto simp: apart_def split: if_splits)

lemma step_own_ok:
  assumes "dump_step doc destination i s t" and "job_ok mode doc destination s i"
    and "dest_mode destination (sys_files s) = mode" and "\<not> is_temp destination destination"
  shows "job_ok mode doc destination t i"
  using assms
proof (cases rule: dump_step.cases)
  case (write_all f)
  then have l: "live (phase_of s i)" by auto
  then have "is_temp destination (temp_of s i)" using assms(2) unfolding job_ok_def by blast
  then obtain r where "temp_of s i = temp_name destination r" unfolding is_temp_def by blast
  moreover have "job_mode (sys_jobs s i) = mode" using assms(2) write_all(2) unfolding job_ok_def by blast
  ultimately show ?thesis using assms(2) write_all l by (simp add: job_ok_def)
next
  case (chmod f)
  then show ?thesis using assms(2) by (auto simp: job_ok_def)
next
  case (replace f)
  then show ?thesis using assms(2,4) by (auto simp: job_ok_def)
next
  case raise
  then have "live (phase_of s i)" by auto
  then show ?thesis using assms(2) raise by (simp add: job_ok_def)
qed (use assms(2,3) in \<open>simp_all add: job_ok_def\<close>)

text \<open>The file of a temporary that is not the job's own is untouched.\<close>

lemma step_files:
  assumes "dump_step doc destination i s t" and "p \<noteq> destination" and "p \<noteq> temp_of s i" and "p \<noteq> temp_of t i"
  shows "dget (sys_files t) p = dget (sys_files s) p"
  using assms by (cases rule: dump_step.cases) auto

lemma step_temp_ok:
  assumes "dump_step doc destination i s t" and "apart s" and "live (phase_of s j) \<or> phase_of s j = Placed" and "j \<noteq> i"
  shows "temp_of s j \<noteq> temp_of s i" and "temp_of s j \<noteq> temp_of t i"
  using assms by (cases rule: dump_step.cases; force simp: apart_def)+

lemma step_ok:
  assumes "dump_step doc destination i s t" and "\<forall>j. job_ok mode doc destination s j" and "apart s"
    and "dest_mode destination (sys_files s) = mode" and "\<not> is_temp destination destination"
  shows "\<forall>j. job_ok mode doc destination t j"
proof
  fix j
  show "job_ok mode doc destination t j"
  proof (cases "j = i")
    case True
    then show ?thesis using step_own_ok [OF assms(1) _ assms(4,5)] assms(2) by simp
  next
    case False
    have j: "job_ok mode doc destination s j" using assms(2) by simp
    have same: "sys_jobs t j = sys_jobs s j" by (rule step_other [OF assms(1) False])
    show ?thesis
    proof (cases "live (phase_of s j) \<or> phase_of s j = Placed")
      case True
      have "dget (sys_files t) (temp_of s j) = dget (sys_files s) (temp_of s j)"
      proof (rule step_files [OF assms(1)])
        show "temp_of s j \<noteq> destination" by (rule temp_not_destination [OF j _ assms(5)]) (use True in auto)
      qed (rule step_temp_ok [OF assms(1,3) True False])+
      then show ?thesis using j unfolding job_ok_def same by simp
    next
      case False
      then have "\<not> live (phase_of s j)" "phase_of s j \<notin> {Placed, Complete, Ready}" by auto
      then show ?thesis using j unfolding job_ok_def same by simp
    qed
  qed
qed

section \<open>Linearization\<close>

text \<open>Seen from outside a step changes nothing, or is the whole dump of its job.\<close>

lemma own_step:
  assumes "dump_step doc destination i s t"
  obtains Q where "hidden s = own s i \<union> Q" and "hidden t = own t i \<union> Q"
proof -
  have "own t j = own s j" if "j \<noteq> i" for j using step_other [OF assms that] by (simp add: own_def)
  then have "(\<Union>j \<in> - {i}. own t j) = (\<Union>j \<in> - {i}. own s j)" by simp
  moreover have "hidden u = own u i \<union> (\<Union>j \<in> - {i}. own u j)" for u by (auto simp: hidden_def)
  ultimately show ?thesis using that by metis
qed

lemma step_quiet:
  assumes st: "dump_step doc destination i s t" and ok: "job_ok mode doc destination s i"
    and "phase_of s i \<noteq> Ready \<or> phase_of t i \<noteq> Placed"
  shows "view t = view s \<and> placed (phase_of t i) = placed (phase_of s i)"
proof (rule own_step [OF st])
  fix Q
  assume Q: "hidden s = own s i \<union> Q" "hidden t = own t i \<union> Q"
  have v: "view s = (\<lambda>p. if p \<in> own s i \<union> Q then None else dget (sys_files s) p)"
    "view t = (\<lambda>p. if p \<in> own t i \<union> Q then None else dget (sys_files t) p)"
    unfolding view_def Q by (rule refl)+
  show ?thesis using st
  proof (cases rule: dump_step.cases)
    case raise
    then have "live (phase_of s i)" "\<not> placed (phase_of s i)" by auto
    then show ?thesis unfolding v using raise by (auto simp: own_def fun_eq_iff)
  next
    case (write_all f)
    then have "live (phase_of s i)" "\<not> placed (phase_of s i)" by auto
    then show ?thesis unfolding v using write_all by (auto simp: own_def fun_eq_iff)
  next
    case raise_early
    then have "\<not> live (phase_of s i)" "\<not> placed (phase_of s i)" by auto
    then show ?thesis unfolding v using raise_early by (auto simp: own_def fun_eq_iff)
  next
    case finish
    then show ?thesis unfolding v using ok by (auto simp: own_def fun_eq_iff job_ok_def)
  next
    case replace
    then show ?thesis using assms(3) by simp
  next
    case (create temp r)
    then show ?thesis unfolding v by (auto simp: own_def fun_eq_iff)
  next
    case (chmod f)
    then show ?thesis unfolding v by (auto simp: own_def fun_eq_iff)
  next
    case clean_up
    then show ?thesis unfolding v by (auto simp: own_def fun_eq_iff)
  next
    case stat
    then show ?thesis unfolding v by (auto simp: own_def fun_eq_iff)
  next
    case write_some
    then show ?thesis unfolding v by (auto simp: own_def fun_eq_iff)
  qed
qed

lemma step_replace:
  assumes st: "dump_step doc destination i s t" and ok: "\<forall>j. job_ok mode doc destination s j"
    and mode: "dest_mode destination (sys_files s) = mode" and dest: "\<not> is_temp destination destination"
    and ph: "phase_of s i = Ready" "phase_of t i = Placed"
  shows "view t = assign destination (doc i) (view s)"
proof (rule own_step [OF st])
  fix Q
  assume Q: "hidden s = own s i \<union> Q" "hidden t = own t i \<union> Q"
  note h = destination_seen [OF ok dest]
  obtain f where f: "dget (sys_files s) (temp_of s i) = Some f"
    and t: "sys_files t = AList.delete (temp_of s i) (dset destination f (sys_files s))" "temp_of t i = temp_of s i"
    using st ph by (cases rule: dump_step.cases) auto
  have "f = \<lparr>ent_content = encode destination (doc i),
      ent_mode = (case view s destination of Some f \<Rightarrow> ent_mode f | None \<Rightarrow> default_mode)\<rparr>"
    using ready_file [OF spec [OF ok] ph(1) f] mode by (simp add: h(1) dest_mode_def)
  moreover have "temp_of s i \<noteq> destination" by (rule temp_not_destination [OF spec [OF ok] _ dest]) (simp add: ph(1))
  ultimately show ?thesis using h ph t unfolding fun_eq_iff view_def assign_def Q by (auto simp: own_def)
qed

text \<open>What a sequence of whole dumps leaves alone.\<close>

abbreviation dumps :: "(nat \<Rightarrow> json) \<Rightarrow> string \<Rightarrow> nat list \<Rightarrow> (string \<Rightarrow> entry option) \<Rightarrow> string \<Rightarrow> entry option" where
  "dumps doc destination \<equiv> fold (\<lambda>i. assign destination (doc i))"

definition mode_of :: "string \<Rightarrow> (string \<Rightarrow> entry option) \<Rightarrow> nat" where
  "mode_of destination m = (case m destination of Some f \<Rightarrow> ent_mode f | None \<Rightarrow> default_mode)"

lemma assign_mode [simp]: "mode_of destination (assign destination v m) = mode_of destination m"
  by (simp add: mode_of_def assign_def)

lemma dumps_mode: "mode_of destination (dumps doc destination is m) = mode_of destination m"
  by (induction "is" arbitrary: m) simp_all

lemma dumps_other: "p \<noteq> destination \<Longrightarrow> dumps doc destination is m p = m p"
  by (induction "is" arbitrary: m) (simp_all add: assign_def)

lemma dumps_at:
  "is \<noteq> [] \<Longrightarrow> dumps doc destination is m destination =
     Some \<lparr>ent_content = encode destination (doc (last is)), ent_mode = mode_of destination m\<rparr>"
  by (induction "is" arbitrary: m) (auto simp: assign_def mode_of_def)

definition linear :: "fs \<Rightarrow> (nat \<Rightarrow> json) \<Rightarrow> string \<Rightarrow> sys \<Rightarrow> bool" where
  "linear files doc destination s =
     (\<exists>order. distinct order \<and> set order = {i. placed (phase_of s i)}
        \<and> view s = dumps doc destination order (dget files))"

definition inv :: "fs \<Rightarrow> (nat \<Rightarrow> json) \<Rightarrow> string \<Rightarrow> sys \<Rightarrow> bool" where
  "inv files doc destination s =
     ((\<forall>i. job_ok (dest_mode destination files) doc destination s i) \<and> apart s \<and> linear files doc destination s)"

lemma inv_mode:
  assumes "inv files doc destination s" and "\<not> is_temp destination destination"
  shows "dest_mode destination (sys_files s) = dest_mode destination files"
proof -
  have "mode_of destination (view s) = dest_mode destination (sys_files s)"
    using destination_seen(1) [of _ doc destination s] assms by (auto simp: inv_def mode_of_def dest_mode_def)
  moreover have "mode_of destination (view s) = mode_of destination (dget files)"
    using assms(1) by (auto simp: inv_def linear_def dumps_mode)
  ultimately show ?thesis by (simp add: mode_of_def dest_mode_def)
qed

lemma inv_start: "inv files doc destination (start files)"
  by (auto simp: inv_def start_def job_ok_def apart_def linear_def view_def hidden_def own_def intro!: exI [of _ "[]"])

lemma step_linear:
  assumes st: "dump_step doc destination i s t" and i: "inv files doc destination s"
    and dest: "\<not> is_temp destination destination"
  shows "linear files doc destination t"
proof -
  obtain order where o: "distinct order" "set order = {j. placed (phase_of s j)}"
    "view s = dumps doc destination order (dget files)" using i unfolding inv_def linear_def by blast
  have other: "phase_of t j = phase_of s j" if "j \<noteq> i" for j using step_other [OF st that] by simp
  show ?thesis
  proof (cases "phase_of s i = Ready \<and> phase_of t i = Placed")
    case True
    then have "view t = assign destination (doc i) (view s)"
      using step_replace [OF st _ inv_mode [OF i dest] dest] i by (simp add: inv_def)
    moreover have "i \<notin> set order" using True o(2) by simp
    moreover have "{j. placed (phase_of t j)} = insert i (set order)" 
    proof -
      have "placed (phase_of t j) \<longleftrightarrow> j = i \<or> placed (phase_of s j)" for j
        using True other [of j] by (cases "j = i") simp_all
      then show ?thesis using o(2) by blast
    qed
    ultimately show ?thesis unfolding linear_def using o by (intro exI [of _ "order @ [i]"]) simp
  next
    case False
    then have q: "view t = view s \<and> placed (phase_of t i) = placed (phase_of s i)"
      using step_quiet [OF st] i by (auto simp: inv_def)
    then have "placed (phase_of t j) = placed (phase_of s j)" for j using other [of j] by (cases "j = i") simp_all
    then show ?thesis unfolding linear_def using o q by (intro exI [of _ order]) simp
  qed
qed

lemma reachable_inv:
  assumes "reachable files doc destination s" and "\<not> is_temp destination destination"
  shows "inv files doc destination s"
  using assms(1)
proof (induction rule: reachable.induct)
  case started
  show ?case by (rule inv_start)
next
  case (stepped s i t)
  have "\<forall>j. job_ok (dest_mode destination files) doc destination t j"
    by (rule step_ok [OF stepped.hyps(2) _ _ inv_mode [OF stepped.IH assms(2)] assms(2)])
       (use stepped.IH in \<open>simp_all add: inv_def\<close>)
  then show ?case
    using step_apart [OF stepped.hyps(2)] step_linear [OF stepped.hyps(2) stepped.IH assms(2)] stepped.IH
    by (simp add: inv_def)
qed


text \<open>
  C20: the destination is never seen partly written: in every reachable state it is as it was before
  the first dump, or the complete document of a job that has replaced it, with the mode it had.
\<close>
theorem destination_old_or_new:
  assumes "reachable files doc destination s" and "\<not> is_temp destination destination"
  shows "dget (sys_files s) destination = dget files destination
    \<or> (\<exists>i. placed (phase_of s i) \<and> dget (sys_files s) destination =
         Some \<lparr>ent_content = encode destination (doc i), ent_mode = dest_mode destination files\<rparr>)"
proof -
  have i: "inv files doc destination s" by (rule reachable_inv [OF assms])
  then obtain order where o: "set order = {i. placed (phase_of s i)}"
    "view s = dumps doc destination order (dget files)" unfolding inv_def linear_def by blast
  have seen: "dget (sys_files s) destination = dumps doc destination order (dget files) destination"
    using destination_seen(1) [OF _ assms(2)] i o(2) unfolding inv_def by metis
  show ?thesis
  proof (cases "order = []")
    case False
    then have "placed (phase_of s (last order))" using o(1) last_in_set by blast
    then show ?thesis using seen dumps_at [OF False] by (auto simp: mode_of_def dest_mode_def)
  qed (use seen in simp)
qed

section \<open>Every dump ends\<close>

text \<open>Steps a job has left at most.\<close>

fun rank :: "phase \<Rightarrow> nat" where
  "rank Begin = 7"
| "rank Statted = 6"
| "rank Opened = 5"
| "rank Writing = 4"
| "rank Complete = 3"
| "rank Ready = 2"
| "rank Placed = 1"
| "rank Unwinding = 1"
| "rank Done = 0"
| "rank Failed = 0"

lemma step_rank: "dump_step doc destination i s t \<Longrightarrow> rank (phase_of t i) < rank (phase_of s i)"
  by (erule dump_step.cases) auto

definition some_step :: "(nat \<Rightarrow> json) \<Rightarrow> string \<Rightarrow> nat \<Rightarrow> sys \<Rightarrow> sys \<Rightarrow> bool" where
  "some_step doc destination n s t = (\<exists>i < n. dump_step doc destination i s t)"

lemma some_step_rank:
  assumes "some_step doc destination n s t"
  shows "(\<Sum>i < n. rank (phase_of t i)) < (\<Sum>i < n. rank (phase_of s i))"
proof -
  obtain i where i: "i < n" "dump_step doc destination i s t" using assms by (auto simp: some_step_def)
  have "rank (phase_of t j) \<le> rank (phase_of s j)" for j
    using step_rank [OF i(2)] step_other [OF i(2), of j] by (cases "j = i") simp_all
  then show ?thesis using step_rank [OF i(2)] i(1) by (intro sum_strict_mono_ex1) auto
qed

lemma run_rank:
  "(some_step doc destination n ^^ k) s t \<Longrightarrow> k + (\<Sum>i < n. rank (phase_of t i)) \<le> (\<Sum>i < n. rank (phase_of s i))"
proof (induction k arbitrary: t)
  case (Suc k)
  then obtain u where "(some_step doc destination n ^^ k) s u" "some_step doc destination n u t" by auto
  then show ?case using Suc.IH [of u] some_step_rank [of doc destination n u t] by simp
qed simp

lemma step_progress:
  "phase_of s i \<noteq> Done \<Longrightarrow> phase_of s i \<noteq> Failed \<Longrightarrow> \<exists>t. dump_step doc destination i s t"
  by (cases "phase_of s i") (auto intro: dump_step.intros)


section \<open>An undisturbed dump succeeds\<close>

lemma inj_temp_name: "inj (temp_name destination)"
  by (auto simp: inj_def temp_name_def path_join_def py_startswith_def split: if_splits)

lemma finite_temps: "reachable files doc destination s \<Longrightarrow> finite (range (temp_of s))"
proof (induction rule: reachable.induct)
  case (stepped s i t)
  have "range (temp_of t) \<subseteq> insert (temp_of t i) (range (temp_of s))"
    using step_other [OF stepped.hyps(2)] by force
  then show ?case using stepped.IH by (meson finite.insertI finite_subset)
qed (simp add: start_def)

text \<open>\<open>mkstemp\<close> always finds a name.\<close>

lemma fresh_temp:
  assumes "reachable files doc destination s"
  obtains r where "dget (sys_files s) (temp_name destination r) = None" "\<forall>j. temp_of s j \<noteq> temp_name destination r"
proof -
  have "infinite (range (temp_name destination))"
    using inj_temp_name infinite_UNIV_listI by (metis finite_imageD)
  moreover have "finite (set (keys (sys_files s)) \<union> range (temp_of s))" using finite_temps [OF assms] by simp
  ultimately obtain p where "p \<in> range (temp_name destination)" "p \<notin> set (keys (sys_files s)) \<union> range (temp_of s)"
    by (meson finite_subset subsetI)
  then obtain r where "temp_name destination r \<notin> set (keys (sys_files s))" "temp_name destination r \<notin> range (temp_of s)"
    by blast
  moreover from this(2) have "\<forall>j. temp_of s j \<noteq> temp_name destination r" by (metis rangeI)
  ultimately show ?thesis using that [of r] by (simp add: keys_def map_of_eq_None_iff)
qed

lemma step_ahead:
  assumes r: "reachable files doc destination s" and dest: "\<not> is_temp destination destination"
    and ph: "phase_of s i \<notin> {Done, Failed, Unwinding}"
  shows "\<exists>t. dump_step doc destination i s t \<and> phase_of t i \<notin> {Failed, Unwinding}"
proof -
  have ok: "job_ok (dest_mode destination files) doc destination s i"
    using reachable_inv [OF r dest] by (simp add: inv_def)
  obtain u where u: "dget (sys_files s) (temp_name destination u) = None" "\<forall>j. temp_of s j \<noteq> temp_name destination u"
    by (rule fresh_temp [OF r])
  have present: "\<exists>f. dget (sys_files s) (temp_of s i) = Some f" if "live (phase_of s i)"
    using ok that unfolding job_ok_def by blast
  show ?thesis
  proof (cases "phase_of s i")
    case Begin
    then show ?thesis using dump_step.stat [of s i] by fastforce
  next
    case Statted
    then show ?thesis using dump_step.create [OF Statted refl u] by fastforce
  next
    case Opened
    then show ?thesis using dump_step.write_some [OF Opened] by fastforce
  next
    case Writing
    then show ?thesis using present dump_step.write_all [of s i] by fastforce
  next
    case Complete
    then show ?thesis using present dump_step.chmod [OF Complete] by fastforce
  next
    case Ready
    then show ?thesis using present dump_step.replace [OF Ready] by fastforce
  next
    case Placed
    then show ?thesis using dump_step.finish [OF Placed] by fastforce
  qed (use ph in auto)
qed

text \<open>
  C23: whatever has happened so far, a dump that has not met an exception can run to its end by its
  own steps, and then the destination holds its document, whole, in the mode it had before.
\<close>
theorem dump_can_finish:
  assumes "reachable files doc destination s" and "\<not> is_temp destination destination"
    and "phase_of s i \<notin> {Placed, Done, Failed, Unwinding}"
  shows "\<exists>t. (dump_step doc destination i)\<^sup>*\<^sup>* s t \<and> phase_of t i = Done
    \<and> dget (sys_files t) destination =
        Some \<lparr>ent_content = encode destination (doc i), ent_mode = dest_mode destination files\<rparr>"
  using assms(1,3)
proof (induction "rank (phase_of s i)" arbitrary: s rule: less_induct)
  case less
  have dest: "\<not> is_temp destination destination" by (rule assms(2))
  obtain t where t: "dump_step doc destination i s t" "phase_of t i \<notin> {Failed, Unwinding}"
    using step_ahead [OF less.prems(1) dest, of i] less.prems(2) by auto
  have rt: "reachable files doc destination t" by (rule reachable.stepped [OF less.prems(1) t(1)])
  show ?case
  proof (cases "phase_of t i \<in> {Placed, Done}")
    case False
    obtain u where "(dump_step doc destination i)\<^sup>*\<^sup>* t u" "phase_of u i = Done"
      "dget (sys_files u) destination = Some \<lparr>ent_content = encode destination (doc i), ent_mode = dest_mode destination files\<rparr>"
      using less.hyps [OF step_rank [OF t(1)] rt] False t(2) by auto
    then show ?thesis by (meson t(1) converse_rtranclp_into_rtranclp)
  next
    case True
    have inv: "inv files doc destination s" by (rule reachable_inv [OF less.prems(1) dest])
    have placed: "phase_of s i = Ready" "phase_of t i = Placed"
      using t(1) True less.prems(2) by (cases rule: dump_step.cases; auto)+
    have "view t = assign destination (doc i) (view s)"
      using step_replace [OF t(1) _ inv_mode [OF inv dest] dest placed] inv by (simp add: inv_def)
    moreover have "view t destination = dget (sys_files t) destination" "view s destination = dget (sys_files s) destination"
      using destination_seen(1) [OF _ dest] inv reachable_inv [OF rt dest] unfolding inv_def by metis+
    ultimately have at: "dget (sys_files t) destination = Some \<lparr>ent_content = encode destination (doc i), ent_mode = dest_mode destination files\<rparr>"
      using inv_mode [OF inv dest] by (simp add: assign_def dest_mode_def)
    let ?u = "at_phase i Done (with_files (AList.delete (temp_of t i) (sys_files t)) t)"
    have "job_ok (dest_mode destination files) doc destination t i"
      using reachable_inv [OF rt dest] by (simp add: inv_def)
    then have "temp_of t i \<noteq> destination" using temp_not_destination [OF _ _ dest] placed(2) by auto
    then have "dget (sys_files ?u) destination = dget (sys_files t) destination" by simp
    moreover have "(dump_step doc destination i)\<^sup>*\<^sup>* s ?u"
      using t(1) dump_step.finish [OF placed(2)] by (meson converse_rtranclp_into_rtranclp r_into_rtranclp)
    ultimately show ?thesis using at by (intro exI [of _ ?u]) simp
  qed
qed

section \<open>Two dumps at once\<close>

text \<open>
  Job 0 replaces the file while job 1 has its temporary open; job 1 then raises and cleans up.
\<close>

definition shared :: string where
  "shared = ''/l/f.lock.json''"

definition two_docs :: "nat \<Rightarrow> json" where
  "two_docs i = (if i = 0 then JInt 7 else JNull)"

definition before :: fs where
  "before = [(shared, \<lparr>ent_content = Plain JNull, ent_mode = 420\<rparr>)]"

lemma temp_name_shared: "temp_name shared r = ''/l/.lockfile-'' @ r @ ''.lock.json''"
proof -
  have d: "dirname shared = ''/l''" "temp_suffix shared = ''.lock.json''" by code_simp+
  show ?thesis by (simp add: temp_name_def d path_join_def py_startswith_def py_endswith_def)
qed

lemma temp_name_shared_simps [simp]:
  "temp_name shared r \<noteq> shared" "temp_name shared r \<noteq> []" "[] \<noteq> temp_name shared r"
  "temp_name shared r = temp_name shared q \<longleftrightarrow> r = q"
  unfolding temp_name_shared by (simp_all add: shared_def)

lemma shared_not_temp: "\<not> is_temp shared shared"
  unfolding is_temp_def using temp_name_shared_simps(1) by (metis rangeE)

definition created :: "nat \<Rightarrow> string \<Rightarrow> sys \<Rightarrow> sys" where
  "created i r s =
     s\<lparr>sys_files := dset (temp_name shared r) \<lparr>ent_content = Torn, ent_mode = 384\<rparr> (sys_files s),
       sys_jobs := (sys_jobs s)(i := (sys_jobs s i)\<lparr>job_phase := Opened, job_temp := temp_name shared r\<rparr>)\<rparr>"

definition statted :: "nat \<Rightarrow> sys \<Rightarrow> sys" where
  "statted i s = s\<lparr>sys_jobs := (sys_jobs s)(i :=
     (sys_jobs s i)\<lparr>job_phase := Statted, job_mode := dest_mode shared (sys_files s)\<rparr>)\<rparr>"

definition both_open :: sys where
  "both_open = created 1 ''b'' (created 0 ''a'' (statted 1 (statted 0 (start before))))"

lemma both_open_reachable: "reachable before two_docs shared both_open"
proof -
  have "reachable before two_docs shared (statted 1 (statted 0 (start before)))"
    unfolding statted_def
    by (intro reachable.stepped [OF reachable.stepped [OF reachable.started dump_step.stat] dump_step.stat])
       (simp_all add: start_def)
  then have "reachable before two_docs shared (created 0 ''a'' (statted 1 (statted 0 (start before))))"
    unfolding created_def
    by (rule reachable.stepped [OF _ dump_step.create [where r = "''a''"]])
       (simp_all add: statted_def start_def before_def)
  then show ?thesis unfolding both_open_def created_def
    by (rule reachable.stepped [OF _ dump_step.create [where r = "''b''"]])
       (simp_all add: statted_def start_def before_def)
qed


theorem destination_old_or_new_witness:
  "dget (sys_files both_open) shared = Some \<lparr>ent_content = Plain JNull, ent_mode = 420\<rparr>"
proof -
  have "\<not> placed (phase_of both_open i)" for i
    by (simp add: both_open_def created_def statted_def start_def)
  then show ?thesis
    using destination_old_or_new [OF both_open_reachable shared_not_temp] by (simp add: before_def)
qed

theorem dump_can_finish_witness:
  "\<exists>t. (dump_step two_docs shared 0)\<^sup>*\<^sup>* both_open t
     \<and> dget (sys_files t) shared = Some \<lparr>ent_content = Plain (JInt 7), ent_mode = 420\<rparr>"
proof -
  have "phase_of both_open 0 = Opened"
    by (simp add: both_open_def created_def statted_def start_def)
  moreover have "encode shared (two_docs 0) = Plain (JInt 7)" "dest_mode shared before = 420" by code_simp+
  ultimately show ?thesis using dump_can_finish [OF both_open_reachable shared_not_temp, of 0] by auto
qed


end
