(* ===== verification/DebControl.thy ===== *)
theory DebControl
  imports EmitLock
begin

text \<open>
  \<^verbatim>\<open>tools/_deb.py\<close>: Debian control files, the identity of a binary's source, the checksums of a
  \<^verbatim>\<open>.dsc\<close>, and the package database a build tree is given. What is proved is that control text
  survives being written and read, so registering packages loses nothing of the database.
\<close>

section \<open>Lines\<close>

text \<open>Where \<open>str.splitlines\<close> cuts, for code points below 256; \<open>\r\n\<close> is one break.\<close>

definition line_break :: "char \<Rightarrow> bool" where
  "line_break c = (let n = (of_char c :: nat) in (10 \<le> n \<and> n \<le> 13) \<or> (28 \<le> n \<and> n \<le> 30) \<or> n = 133)"

abbreviation newline :: char where
  "newline \<equiv> CHR 0x0A"

function splitlines :: "string \<Rightarrow> string list" where
  "splitlines [] = []"
| "splitlines (c # s) =
     (if line_break c
      then [] # splitlines (if of_char c = (13::nat) \<and> py_startswith s [newline] then tl s else s)
      else (case splitlines s of [] \<Rightarrow> [[c]] | w # ws \<Rightarrow> (c # w) # ws))"
  by pat_completeness auto
termination by (relation "measure length") auto

section \<open>Control files\<close>

type_synonym fields = "(string, string) dict"

datatype deb_error =
    MalformedSigned
  | ContinuationWithoutField
  | MalformedLine string
  | MissingField string
  | MalformedSource string
  | NoChecksums
  | MalformedChecksum string
  | UnsafeName string
  | DuplicateName string
  | InvalidDigest string
  | InvalidSize string

definition signed_marker :: string where
  "signed_marker = ''-----BEGIN PGP SIGNED MESSAGE-----''"

definition signature_marker :: string where
  "signature_marker = ''-----BEGIN PGP SIGNATURE-----''"

definition clear_signed_payload :: "string \<Rightarrow> deb_error + string" where
  "clear_signed_payload text =
     (if \<not> py_startswith text signed_marker then Inr text
      else
        let ls = splitlines text;
            body = tl (dropWhile (\<lambda>l. l \<noteq> []) ls)
        in if [] \<notin> set ls \<or> signature_marker \<notin> set body then Inl MalformedSigned
           else Inr (py_join [newline]
                  (map (\<lambda>l. if py_startswith l ''- '' then drop 2 l else l)
                    (takeWhile (\<lambda>l. l \<noteq> signature_marker) body)) @ [newline]))"

fun control_lines :: "string list \<Rightarrow> fields \<Rightarrow> string option \<Rightarrow> deb_error + fields" where
  "control_lines [] d current = Inr d"
| "control_lines (raw # raws) d current =
     (case raw of
        [] \<Rightarrow> if d \<noteq> [] then Inr d else control_lines raws d current
      | c # rest \<Rightarrow>
          if py_isspace c then
            (case current of
               None \<Rightarrow> Inl ContinuationWithoutField
             | Some k \<Rightarrow> control_lines raws (dset k (dget_or d k [] @ newline # rest) d) current)
          else
            (case py_partition CHR '':'' raw of (k, found, v) \<Rightarrow>
               if \<not> found then Inl (MalformedLine raw)
               else control_lines raws (dset (py_strip k) (py_lstrip v) d) (Some (py_strip k))))"

definition parse_control :: "string \<Rightarrow> deb_error + fields" where
  "parse_control text = attempt (clear_signed_payload text) (\<lambda>payload. control_lines (splitlines payload) [] None)"

fun paragraph_lines :: "string list \<Rightarrow> string list \<Rightarrow> string list list" where
  "paragraph_lines [] current = (if current = [] then [] else [current])"
| "paragraph_lines (l # ls) current =
     (if l \<noteq> [] then paragraph_lines ls (current @ [l])
      else if current \<noteq> [] then current # paragraph_lines ls []
      else paragraph_lines ls [])"

fun parse_all :: "string list list \<Rightarrow> deb_error + fields list" where
  "parse_all [] = Inr []"
| "parse_all (p # ps) =
     attempt (parse_control (py_join [newline] p @ [newline])) (\<lambda>d. attempt (parse_all ps) (\<lambda>ds. Inr (d # ds)))"

definition parse_control_paragraphs :: "string \<Rightarrow> deb_error + fields list" where
  "parse_control_paragraphs text = parse_all (paragraph_lines (splitlines text) [])"

section \<open>Writing\<close>

text \<open>\<open>value.replace("\n", "\n ")\<close>\<close>

definition indented :: "string \<Rightarrow> string" where
  "indented v = concat (map (\<lambda>c. if c = newline then [newline, CHR '' ''] else [c]) v)"

definition field_text :: "string \<times> string \<Rightarrow> string" where
  "field_text kv = fst kv @ '': '' @ indented (snd kv)"

definition paragraph_text :: "fields \<Rightarrow> string" where
  "paragraph_text d = py_join [newline] (map field_text d) @ [newline]"

definition STATUS_FIELDS :: "string list" where
  "STATUS_FIELDS =
     [''Package'', ''Essential'', ''Status'', ''Priority'', ''Section'', ''Installed-Size'', ''Maintainer'',
      ''Architecture'', ''Multi-Arch'', ''Source'', ''Version'', ''Replaces'', ''Provides'', ''Pre-Depends'',
      ''Depends'', ''Conflicts'', ''Breaks'', ''Description'']"

definition status_fields :: "fields \<Rightarrow> fields" where
  "status_fields d =
     (let e = dset ''Status'' ''install ok installed'' d in
      map (\<lambda>n. (n, dget_or e n [])) (filter (\<lambda>n. truthy (dget e n)) STATUS_FIELDS))"

definition status_paragraph :: "fields \<Rightarrow> string" where
  "status_paragraph d = paragraph_text (status_fields d)"

text \<open>The key of an installed paragraph, and of a package being registered, which needs its architecture.\<close>

definition database_key :: "fields \<Rightarrow> deb_error + string" where
  "database_key d =
     (case dget d ''Package'' of
        None \<Rightarrow> Inl (MissingField ''Package'')
      | Some p \<Rightarrow>
          if dget d ''Multi-Arch'' = Some ''same''
          then (case dget d ''Architecture'' of
                  None \<Rightarrow> Inl (MissingField ''Architecture'') | Some a \<Rightarrow> Inr (p @ '':'' @ a))
          else Inr p)"

definition package_key :: "fields \<Rightarrow> deb_error + string" where
  "package_key d =
     (case (dget d ''Package'', dget d ''Architecture'') of
        (None, _) \<Rightarrow> Inl (MissingField ''Package'')
      | (_, None) \<Rightarrow> Inl (MissingField ''Architecture'')
      | (Some p, Some a) \<Rightarrow> Inr (if dget d ''Multi-Arch'' = Some ''same'' then p @ '':'' @ a else p))"

fun enter_all ::
  "(fields \<Rightarrow> deb_error + string) \<Rightarrow> (fields \<Rightarrow> string) \<Rightarrow> fields list \<Rightarrow> (string, string) dict
   \<Rightarrow> deb_error + (string, string) dict" where
  "enter_all key text [] d = Inr d"
| "enter_all key text (f # fs) d = attempt (key f) (\<lambda>k. enter_all key text fs (dset k (text f) d))"

text \<open>
  The database text after registering packages, whose fields are given. Copying their control
  files beside it is not modelled.
\<close>

definition register_debs :: "string option \<Rightarrow> fields list \<Rightarrow> deb_error + string" where
  "register_debs status debs =
     attempt (case status of None \<Rightarrow> Inr [] | Some text \<Rightarrow> parse_control_paragraphs text) (\<lambda>existing.
     attempt (enter_all database_key paragraph_text existing []) (\<lambda>d.
     attempt (enter_all package_key status_paragraph debs d) (\<lambda>d.
       Inr (concat (map (\<lambda>(k, p). p @ [newline]) (sorted_items d))))))"

section \<open>Sources of binaries\<close>

definition dec_digit :: "char \<Rightarrow> bool" where
  "dec_digit c = (let n = (of_char c :: nat) in 48 \<le> n \<and> n \<le> 57)"

text \<open>\<open>\+b[0-9]+$\<close>, removed; \<open>$\<close> also matches before a final line break, which is kept.\<close>

definition strip_binary_nmu :: "string \<Rightarrow> string" where
  "strip_binary_nmu version =
     (let ended = (version \<noteq> [] \<and> last version = newline);
          body = (if ended then butlast version else version);
          front = rdrop_while dec_digit body
      in if front \<noteq> body \<and> py_endswith front ''+b''
         then take (length front - 2) front @ (if ended then [newline] else []) else version)"

text \<open>\<open>SOURCE_FIELD_RE.fullmatch\<close>: a name, and perhaps a version in parentheses.\<close>

definition source_field :: "string \<Rightarrow> (string \<times> string option) option" where
  "source_field v =
     (let plain = (\<lambda>c. \<not> py_isspace c \<and> c \<noteq> CHR ''('' \<and> c \<noteq> CHR '')'');
          name = takeWhile plain v;
          rest = dropWhile plain v;
          inner = dropWhile py_isspace rest
      in if name = [] then None
         else if rest = [] then Some (name, None)
         else if inner = rest then None
         else case inner of
                c # body \<Rightarrow>
                  if c = CHR ''('' \<and> body \<noteq> [] \<and> last body = CHR '')'' \<and> butlast body \<noteq> []
                     \<and> CHR ''('' \<notin> set (butlast body) \<and> CHR '')'' \<notin> set (butlast body)
                  then Some (name, Some (butlast body)) else None
              | [] \<Rightarrow> None)"

definition source_identity :: "fields \<Rightarrow> deb_error + string \<times> string" where
  "source_identity d =
     (if \<not> truthy (dget d ''Package'') \<or> \<not> truthy (dget d ''Version'') then Inl (MissingField ''Package and Version'')
      else
        let package = the (dget d ''Package''); version = the (dget d ''Version'');
            v = py_strip (dget_or d ''Source'' [])
        in if v = [] then Inr (package, strip_binary_nmu version)
           else case source_field v of
                  None \<Rightarrow> Inl (MalformedSource v)
                | Some (name, source_version) \<Rightarrow> Inr (name, py_or source_version (strip_binary_nmu version)))"

definition compatible_binary_version :: "string \<Rightarrow> string \<Rightarrow> bool" where
  "compatible_binary_version actual source_version = (strip_binary_nmu actual = source_version)"

section \<open>Checksums of a source\<close>

text \<open>\<open>str.split()\<close>: the maximal runs of characters that are not space.\<close>

fun words_from :: "string \<Rightarrow> string \<Rightarrow> string list" where
  "words_from cur [] = (if cur = [] then [] else [cur])"
| "words_from cur (c # s) =
     (if py_isspace c then (if cur = [] then words_from [] s else cur # words_from [] s)
      else words_from (cur @ [c]) s)"

definition py_words :: "string \<Rightarrow> string list" where
  "py_words s = words_from [] s"

definition hex_char :: "char \<Rightarrow> bool" where
  "hex_char c = (c \<in> set ''0123456789abcdefABCDEF'')"

definition lower_hex :: "char \<Rightarrow> char" where
  "lower_hex c = (let n = (of_char c :: nat) in if 65 \<le> n \<and> n \<le> 70 then char_of (n + 32) else c)"

type_synonym source_files = "(string, string \<times> int) dict"

definition dsc_line :: "string \<Rightarrow> source_files \<Rightarrow> deb_error + source_files" where
  "dsc_line line files =
     (if py_strip line = [] then Inr files
      else case py_words line of
        [digest, size_text, name] \<Rightarrow>
          if basename name \<noteq> name \<or> name = ''.'' \<or> name = ''..'' then Inl (UnsafeName name)
          else if dget files name \<noteq> None then Inl (DuplicateName name)
          else if length digest \<noteq> 64 \<or> list_ex (\<lambda>c. \<not> hex_char c) digest then Inl (InvalidDigest name)
          else (case py_int size_text of
                  None \<Rightarrow> Inl (InvalidSize name)
                | Some n \<Rightarrow> Inr (dset name (map lower_hex digest, n) files))
      | _ \<Rightarrow> Inl (MalformedChecksum line))"

fun dsc_lines :: "string list \<Rightarrow> source_files \<Rightarrow> deb_error + source_files" where
  "dsc_lines [] files = Inr files"
| "dsc_lines (l # ls) files = attempt (dsc_line l files) (dsc_lines ls)"

definition dsc_files :: "fields \<Rightarrow> deb_error + source_files" where
  "dsc_files d =
     (if \<not> truthy (dget d ''Checksums-Sha256'') then Inl NoChecksums
      else dsc_lines (splitlines (the (dget d ''Checksums-Sha256''))) [])"

section \<open>Accounts of a tree\<close>

text \<open>
  \<open>merge_base_passwd_database\<close>: the text of the account file after adding what is missing from the
  master file.
\<close>

definition account_name :: "string \<Rightarrow> string" where
  "account_name line = fst (py_partition CHR '':'' line)"

definition account_line :: "string \<Rightarrow> bool" where
  "account_line line = (line \<noteq> [] \<and> \<not> py_startswith line ''#'')"

definition missing_accounts :: "string \<Rightarrow> string \<Rightarrow> string list" where
  "missing_accounts existing master =
     (let names = map account_name (filter (\<lambda>l. account_line l \<and> CHR '':'' \<in> set l) (splitlines existing))
      in filter (\<lambda>l. account_line l \<and> account_name l \<notin> set names) (splitlines master))"

definition merge_base_passwd_database :: "string \<Rightarrow> string option \<Rightarrow> string" where
  "merge_base_passwd_database existing master =
     (case master of
        None \<Rightarrow> existing
      | Some m \<Rightarrow> existing @ concat (map (\<lambda>l. l @ [newline]) (missing_accounts existing m)))"

text \<open>\<open>fakeroot_command\<close>: the command behind the runtime's wrapper, if there is one.\<close>

record fakeroot =
  fr_fakeroot :: string
  fr_faked :: string
  fr_library :: string
  fr_state :: string

definition fakeroot_command :: "fakeroot option \<Rightarrow> string list \<Rightarrow> bool \<Rightarrow> string list" where
  "fakeroot_command runtime command load =
     (case runtime of
        None \<Rightarrow> command
      | Some r \<Rightarrow>
          [fr_fakeroot r, ''-f'', fr_faked r, ''-l'', fr_library r]
          @ (if load then [''-i'', fr_state r] else []) @ [''-s'', fr_state r, ''--''] @ command)"

section \<open>Lines of a written paragraph\<close>

definition no_break :: "string \<Rightarrow> bool" where
  "no_break w = list_all (\<lambda>c. \<not> line_break c) w"

lemma line_break_newline [simp]: "line_break newline"
  by (simp add: line_break_def)

lemma no_break_simps [simp]:
  "no_break []" "no_break (c # w) \<longleftrightarrow> \<not> line_break c \<and> no_break w" "no_break (v @ w) \<longleftrightarrow> no_break v \<and> no_break w"
  by (simp_all add: no_break_def)

lemma splitlines_line: "no_break w \<Longrightarrow> splitlines (w @ newline # s) = w # splitlines s"
  by (induction w) auto

lemma splitlines_lines:
  "list_all no_break ws \<Longrightarrow> splitlines (concat (map (\<lambda>w. w @ [newline]) ws) @ s) = ws @ splitlines s"
  by (induction ws) (simp_all add: splitlines_line)

lemma join_lines: "ws \<noteq> [] \<Longrightarrow> py_join [newline] ws @ [newline] = concat (map (\<lambda>w. w @ [newline]) ws)"
  by (induction "[newline]" ws rule: py_join.induct) simp_all

lemma splitlines_no_break: "list_all no_break (splitlines s)"
  by (induction s rule: splitlines.induct) (auto split: list.splits)

text \<open>The lines of one field: its name and first line, and the others indented.\<close>

definition value_lines :: "string \<Rightarrow> string list" where
  "value_lines v = py_split newline v"

definition field_lines :: "string \<times> string \<Rightarrow> string list" where
  "field_lines kv = (fst kv @ '': '' @ hd (value_lines (snd kv))) # map ((#) CHR '' '') (tl (value_lines (snd kv)))"

lemma py_split_not_Nil [simp]: "py_split c s \<noteq> []"
  by (cases s) (auto split: list.split)

lemma indented_lines: "indented v = py_join [newline] (hd (value_lines v) # map ((#) CHR '' '') (tl (value_lines v)))"
proof (induction v)
  case (Cons c v)
  obtain w ws where "py_split newline v = w # ws" using py_split_not_Nil [of newline v] by (metis neq_Nil_conv)
  then show ?case using Cons by (cases ws) (auto simp: indented_def value_lines_def)
qed (simp add: indented_def value_lines_def)

lemma join_value_lines: "py_join [newline] (value_lines v) = v"
proof (induction v)
  case (Cons c v)
  obtain w ws where "py_split newline v = w # ws" using py_split_not_Nil [of newline v] by (metis neq_Nil_conv)
  then show ?case using Cons by (cases ws) (auto simp: value_lines_def)
qed (simp add: value_lines_def)

lemma field_text_lines: "field_text kv = py_join [newline] (field_lines kv)"
  by (cases "tl (value_lines (snd kv))") (simp_all add: field_text_def field_lines_def indented_lines)

lemma join_concat: "\<forall>ws \<in> set wss. ws \<noteq> [] \<Longrightarrow> py_join sep (map (py_join sep) wss) = py_join sep (concat wss)"
proof (induction wss)
  case (Cons ws wss)
  have append: "py_join sep (us @ vs) = py_join sep us @ sep @ py_join sep vs" if "us \<noteq> []" "vs \<noteq> []" for us vs
    using that by (induction sep us rule: py_join.induct) (auto simp: neq_Nil_conv)
  show ?case
  proof (cases wss)
    case (Cons vs vss)
    then have "concat wss \<noteq> []" using Cons.prems by simp
    then show ?thesis using Cons.IH Cons.prems append [of ws "concat wss"] Cons by simp
  qed simp
qed simp

lemma paragraph_text_lines:
  "paragraph_text d = py_join [newline] (concat (map field_lines d)) @ [newline]"
proof -
  have "map field_text d = map (py_join [newline]) (map field_lines d)" by (simp add: field_text_lines)
  then show ?thesis unfolding paragraph_text_def by (simp add: join_concat field_lines_def del: map_map)
qed

section \<open>What is written is read back\<close>

text \<open>
  A field as reading leaves it: a stripped name without a colon, and a value whose lines break only
  at line ends, the first without leading space.
\<close>

definition clean_field :: "string \<times> string \<Rightarrow> bool" where
  "clean_field kv =
     (CHR '':'' \<notin> set (fst kv) \<and> py_strip (fst kv) = fst kv \<and> no_break (fst kv)
      \<and> list_all no_break (value_lines (snd kv)) \<and> py_lstrip (hd (value_lines (snd kv))) = hd (value_lines (snd kv)))"

definition clean_paragraph :: "fields \<Rightarrow> bool" where
  "clean_paragraph d = (distinct (map fst d) \<and> list_all clean_field d)"

lemma strip_head: "py_strip k = k \<Longrightarrow> k = c # k' \<Longrightarrow> \<not> py_isspace c"
proof
  assume k: "py_strip k = k" "k = c # k'" and "py_isspace c"
  then have "length (dropWhile py_isspace k) \<le> length k'" by (simp add: length_dropWhile_le)
  moreover have "length (py_strip k) \<le> length (dropWhile py_isspace k)"
    by (simp add: py_strip_def rdrop_while_def length_dropWhile_le [of py_isspace "rev _", simplified])
  ultimately show False using k by simp
qed

lemma control_first:
  assumes "clean_field (k, v)"
  shows "control_lines ((k @ '': '' @ hd (value_lines v)) # raws) d current
    = control_lines raws (dset k (hd (value_lines v)) d) (Some k)"
proof -
  let ?w = "hd (value_lines v)"
  let ?raw = "k @ '': '' @ ?w"
  have k: "CHR '':'' \<notin> set k" "py_strip k = k" and w: "py_lstrip ?w = ?w" using assms by (simp_all add: clean_field_def)
  obtain c rest where raw: "?raw = c # rest" by (cases k) auto
  have "\<not> py_isspace c"
  proof (cases k)
    case Nil
    then show ?thesis using raw by (auto simp: py_isspace_def)
  next
    case (Cons a k')
    then show ?thesis using raw strip_head [OF k(2)] by auto
  qed
  moreover have "py_partition CHR '':'' ?raw = (k, True, CHR '' '' # ?w)"
    using k(1) py_partition_append [of "CHR '':''" k "CHR '' '' # ?w"] by simp
  moreover have "py_lstrip (CHR '' '' # ?w) = ?w" using w by (simp add: py_lstrip_def py_isspace_def)
  ultimately show ?thesis using k(2) raw by simp
qed

lemma control_rest:
  "dget d k = Some v \<Longrightarrow> control_lines (map ((#) CHR '' '') ls @ raws) d (Some k)
     = control_lines raws (if ls = [] then d else dset k (v @ newline # py_join [newline] ls) d) (Some k)"
proof (induction ls arbitrary: d v)
  case (Cons l ls)
  have "py_isspace CHR '' ''" by (simp add: py_isspace_def)
  then have "control_lines (map ((#) CHR '' '') (l # ls) @ raws) d (Some k)
      = control_lines (map ((#) CHR '' '') ls @ raws) (dset k (v @ newline # l) d) (Some k)"
    using Cons.prems by (simp add: dget_or_def)
  also have "\<dots> = control_lines raws (if ls = [] then dset k (v @ newline # l) d
      else dset k ((v @ newline # l) @ newline # py_join [newline] ls) (dset k (v @ newline # l) d)) (Some k)"
    by (rule Cons.IH) simp
  also have "dset k y (dset k x d) = dset k y d" for x y by (induction d) auto
  finally show ?case by (cases ls) simp_all
qed simp

lemma control_field:
  assumes "clean_field kv"
  shows "control_lines (field_lines kv @ raws) d current = control_lines raws (dset (fst kv) (snd kv) d) (Some (fst kv))"
proof -
  obtain k v where kv: "kv = (k, v)" by fastforce
  have v: "v = py_join [newline] (hd (value_lines v) # tl (value_lines v))"
    using join_value_lines [of v] by (simp add: value_lines_def)
  have twice: "dset k y (dset k x d) = dset k y d" for x y by (induction d) auto
  have "control_lines (field_lines kv @ raws) d current
      = control_lines (map ((#) CHR '' '') (tl (value_lines v)) @ raws) (dset k (hd (value_lines v)) d) (Some k)"
    using control_first [OF assms [unfolded kv], of "map ((#) CHR '' '') (tl (value_lines v)) @ raws"]
    by (simp only: field_lines_def kv fst_conv snd_conv append_Cons append_Nil)
  also have "\<dots> = control_lines raws (dset k v d) (Some k)"
  proof -
    have "dget (dset k (hd (value_lines v)) d) k = Some (hd (value_lines v))" by simp
    note control_rest [OF this, of "tl (value_lines v)" raws, unfolded twice]
    then show ?thesis using v by (cases "tl (value_lines v)") (simp_all del: control_lines.simps list.map)
  qed
  finally show ?thesis by (simp add: kv)
qed

lemma control_fields:
  "list_all clean_field e \<Longrightarrow> distinct (map fst (d @ e)) \<Longrightarrow>
   control_lines (concat (map field_lines e)) d current = Inr (d @ e)"
proof (induction e arbitrary: d current)
  case (Cons kv e)
  have "dset (fst kv) (snd kv) d = d @ [kv]" using Cons.prems(2) by (simp add: update_fresh map_of_eq_None_iff)
  then show ?case using Cons by (simp add: control_field)
qed simp

lemma field_lines_no_break: "clean_field kv \<Longrightarrow> list_all no_break (field_lines kv)"
proof -
  assume c: "clean_field kv"
  have "value_lines (snd kv) \<noteq> []" by (simp add: value_lines_def)
  then show ?thesis
    using c by (cases "value_lines (snd kv)") (auto simp: field_lines_def clean_field_def list_all_iff line_break_def)
qed

lemma paragraph_splitlines:
  assumes "list_all clean_field d" and "d \<noteq> []"
  shows "splitlines (paragraph_text d @ s) = concat (map field_lines d) @ splitlines s"
proof -
  have "list_all no_break (concat (map field_lines d))"
    using assms(1) field_lines_no_break by (auto simp: list_all_iff)
  moreover have some: "concat (map field_lines d) \<noteq> []" using assms(2) by (cases d) (simp_all add: field_lines_def)
  ultimately show ?thesis using splitlines_lines unfolding paragraph_text_lines join_lines [OF some] by simp
qed

text \<open>A paragraph that is not taken for a signed message.\<close>

definition unsigned :: "fields \<Rightarrow> bool" where
  "unsigned d = (d \<noteq> [] \<and> \<not> py_startswith (fst (hd d)) signed_marker)"

lemma paragraph_not_signed:
  assumes "unsigned d"
  shows "\<not> py_startswith (paragraph_text d) signed_marker"
proof
  assume st: "py_startswith (paragraph_text d) signed_marker"
  let ?k = "fst (hd d)"
  obtain s where s: "paragraph_text d = ?k @ CHR '':'' # s"
    using assms by (cases d; cases "tl d") (auto simp: unsigned_def paragraph_text_def field_text_def)
  have m: "CHR '':'' \<notin> set signed_marker" by (simp add: signed_marker_def)
  show False
  proof (cases "length signed_marker \<le> length ?k")
    case True
    then show ?thesis using st assms unfolding s by (simp add: py_startswith_def unsigned_def)
  next
    case False
    then have "CHR '':'' \<in> set (take (length signed_marker) (?k @ CHR '':'' # s))"
      by (cases "length signed_marker - length ?k") simp_all
    then show ?thesis using st m unfolding s py_startswith_def by metis
  qed
qed

lemma parse_paragraph:
  assumes "clean_paragraph d" and "unsigned d"
  shows "parse_control (paragraph_text d) = Inr d"
  using assms paragraph_splitlines [of d "[]"] paragraph_not_signed [OF assms(2)] control_fields [of d "[]" None]
  by (simp add: parse_control_def clear_signed_payload_def clean_paragraph_def unsigned_def)

section \<open>What is read is clean\<close>

lemma no_break_set: "no_break w \<longleftrightarrow> (\<forall>c \<in> set w. \<not> line_break c)"
  by (simp add: no_break_def list_all_iff)

lemma py_split_snoc: "c \<notin> set r \<Longrightarrow> py_split c (v @ c # r) = py_split c v @ [r]"
  by (induction v) (auto simp: py_split_plain split: list.split)

lemma no_newline: "no_break w \<Longrightarrow> newline \<notin> set w"
  by (auto simp: no_break_set line_break_def)

lemma clean_continued:
  "clean_field (k, v) \<Longrightarrow> no_break rest \<Longrightarrow> clean_field (k, v @ newline # rest)"
  using no_newline [of rest] by (simp add: clean_field_def value_lines_def py_split_snoc hd_append)

lemma clean_new:
  assumes "no_break raw" and "py_partition CHR '':'' raw = (k, True, v)"
  shows "clean_field (py_strip k, py_lstrip v)"
proof -
  have raw: "raw = k @ CHR '':'' # v" "CHR '':'' \<notin> set k"
    using py_partition_parts [OF assms(2)] py_partition_whole [OF assms(2)] by auto
  have k: "set (py_strip k) \<subseteq> set k" by (rule set_py_strip)
  have v: "set (py_lstrip v) \<subseteq> set v" by (auto simp: py_lstrip_def dest: set_dropWhileD)
  have "no_break (py_strip k)" "no_break (py_lstrip v)" using assms(1) k v unfolding raw no_break_set by auto
  moreover from this(2) have "value_lines (py_lstrip v) = [py_lstrip v]"
    using no_newline by (simp add: value_lines_def py_split_plain)
  moreover have "py_lstrip (py_lstrip v) = py_lstrip v" by (simp add: py_lstrip_def dropWhile_idem)
  ultimately show ?thesis using raw(2) k by (auto simp: clean_field_def)
qed

lemma clean_dset: "clean_paragraph d \<Longrightarrow> clean_field (k, v) \<Longrightarrow> clean_paragraph (dset k v d)"
  by (auto simp: clean_paragraph_def list_all_iff distinct_update dest!: set_dset)

lemma control_lines_clean:
  "control_lines raws d current = Inr d' \<Longrightarrow> list_all no_break raws \<Longrightarrow> clean_paragraph d
   \<Longrightarrow> (\<And>k. current = Some k \<Longrightarrow> dget d k \<noteq> None) \<Longrightarrow> clean_paragraph d'"
proof (induction raws arbitrary: d current)
  case (Cons raw raws)
  show ?case
  proof (cases raw)
    case Nil
    then show ?thesis using Cons by (auto split: if_splits)
  next
    case (Cons c rest)
    have b: "no_break raw" "no_break rest" using \<open>list_all no_break (raw # raws)\<close> Cons by simp_all
    show ?thesis
    proof (cases "py_isspace c")
      case True
      then obtain k v where k: "current = Some k" "dget d k = Some v"
        using Cons.prems(1,4) Cons by (auto split: option.splits)
      have "control_lines raws (dset k (v @ newline # rest) d) current = Inr d'"
        using Cons.prems(1) Cons True k by (simp add: dget_or_def)
      moreover have "clean_field (k, v)"
        using Cons.prems(3) dget_in_set [OF k(2)] by (auto simp: clean_paragraph_def list_all_iff)
      ultimately show ?thesis
        using Cons.IH [of "dset k (v @ newline # rest) d" current] Cons.prems(2,3) clean_dset clean_continued b k
        by auto
    next
      case False
      obtain k f v where p: "py_partition CHR '':'' raw = (k, f, v)" by (metis prod_cases3)
      then have "f" "control_lines raws (dset (py_strip k) (py_lstrip v) d) (Some (py_strip k)) = Inr d'"
        using Cons.prems(1) Cons False by (auto split: if_splits)
      then show ?thesis
        using Cons.IH [of "dset (py_strip k) (py_lstrip v) d" "Some (py_strip k)"] Cons.prems(2,3) clean_dset
          clean_new [OF b(1)] p by auto
    qed
  qed
qed simp

lemma parse_clean: "parse_control text = Inr d \<Longrightarrow> clean_paragraph d"
proof -
  assume "parse_control text = Inr d"
  then obtain payload where "control_lines (splitlines payload) [] None = Inr d"
    by (auto simp: parse_control_def attempt_Inr)
  from control_lines_clean [OF this splitlines_no_break] show ?thesis by (simp add: clean_paragraph_def)
qed

section \<open>The files of a source\<close>

text \<open>What one accepted line of checksums says, and what every accepted entry satisfies.\<close>

definition dsc_entry :: "string \<Rightarrow> string \<times> string \<times> int \<Rightarrow> bool" where
  "dsc_entry line e =
     (case e of (name, digest, n) \<Rightarrow>
        (case py_words line of
           [raw, size_text, label] \<Rightarrow> label = name \<and> digest = map lower_hex raw \<and> py_int size_text = Some n
         | _ \<Rightarrow> False))"

definition safe_source_entry :: "string \<times> string \<times> int \<Rightarrow> bool" where
  "safe_source_entry e =
     (case e of (name, digest, n) \<Rightarrow>
        CHR ''/'' \<notin> set name \<and> name \<noteq> ''.'' \<and> name \<noteq> ''..'' \<and> length digest = 64 \<and> set digest \<subseteq> set ''0123456789abcdef'')"

lemma lower_hex_digits: "hex_char c \<Longrightarrow> lower_hex c \<in> set ''0123456789abcdef''"
proof -
  have "\<forall>c \<in> set ''0123456789abcdefABCDEF''. lower_hex c \<in> set ''0123456789abcdef''" by code_simp
  then show "hex_char c \<Longrightarrow> lower_hex c \<in> set ''0123456789abcdef''" unfolding hex_char_def by blast
qed

lemma dsc_line_accepted:
  assumes "dsc_line line files = Inr files'" and "py_strip line \<noteq> []"
  obtains e where "files' = files @ [e]" "dget files (fst e) = None" "dsc_entry line e" "safe_source_entry e"
proof -
  obtain raw size_text name where w: "py_words line = [raw, size_text, name]"
    using assms by (auto simp: dsc_line_def split: list.splits)
  then have g: "basename name = name" "name \<noteq> ''.''" "name \<noteq> ''..''" "length raw = 64"
      "\<forall>c \<in> set raw. hex_char c"
    using assms by (auto simp: dsc_line_def list_ex_iff split: if_splits)
  have fresh: "dget files name = None"
    using assms w by (cases "dget files name") (auto simp: dsc_line_def split: if_splits)
  obtain n where n: "py_int size_text = Some n" "files' = dset name (map lower_hex raw, n) files"
    using assms w g fresh by (auto simp: dsc_line_def list_ex_iff split: option.splits if_splits)
  have "CHR ''/'' \<notin> set name" 
    using g(1) unfolding basename_def by (metis set_rev set_takeWhileD)
  then have "safe_source_entry (name, map lower_hex raw, n)"
    using g lower_hex_digits by (auto simp: safe_source_entry_def)
  then show ?thesis
    using that [of "(name, map lower_hex raw, n)"] n w g fresh by (simp add: dsc_entry_def update_fresh)
qed

lemma dsc_lines_accepted:
  "dsc_lines ls files = Inr files' \<Longrightarrow> \<exists>new. files' = files @ new \<and> list_all2 dsc_entry (filter (\<lambda>l. py_strip l \<noteq> []) ls) new
     \<and> list_all safe_source_entry new \<and> distinct (map fst new) \<and> set (map fst new) \<inter> set (map fst files) = {}"
proof (induction ls arbitrary: files)
  case (Cons l ls)
  then obtain mid where mid: "dsc_line l files = Inr mid" "dsc_lines ls mid = Inr files'" by (auto simp: attempt_Inr)
  then obtain new where new: "files' = mid @ new" "list_all2 dsc_entry (filter (\<lambda>l. py_strip l \<noteq> []) ls) new"
      "list_all safe_source_entry new" "distinct (map fst new)" "set (map fst new) \<inter> set (map fst mid) = {}"
    using Cons.IH by blast
  show ?case
  proof (cases "py_strip l = []")
    case True
    then have "mid = files" using mid(1) by (simp add: dsc_line_def)
    then show ?thesis using True new by auto
  next
    case False
    then obtain e where e: "mid = files @ [e]" "dget files (fst e) = None" "dsc_entry l e" "safe_source_entry e"
      using dsc_line_accepted [OF mid(1)] by blast
    then have "files' = files @ (e # new)" "list_all2 dsc_entry (filter (\<lambda>l. py_strip l \<noteq> []) (l # ls)) (e # new)"
        "list_all safe_source_entry (e # new)"
      using new False by simp_all
    moreover have "distinct (map fst (e # new))" "set (map fst (e # new)) \<inter> set (map fst files) = {}"
      using new(4,5) e(1,2) by (auto simp: map_of_eq_None_iff)
    ultimately show ?thesis by blast
  qed
qed simp

text \<open>
  The checksums of a source are accepted whole or not at all. What \<^verbatim>\<open>dsc_files\<close> returns is one entry for each
  line of the field that is not blank, in order, carrying the name, the digest in lower case and the size the line
  gives; no name comes twice, leaves its directory or names the directory itself, and every digest is 64
  hexadecimal digits.
\<close>

theorem dsc_files_exact:
  assumes "dsc_files d = Inr files"
  shows "list_all2 dsc_entry (filter (\<lambda>l. py_strip l \<noteq> []) (splitlines (dget_or d ''Checksums-Sha256'' []))) files
    \<and> distinct (map fst files) \<and> list_all safe_source_entry files"
  using assms dsc_lines_accepted [of "splitlines (the (dget d ''Checksums-Sha256''))" "[]" files]
  by (auto simp: dsc_files_def truthy_def dget_or_def split: if_splits option.splits)

definition demo_digest :: string where
  "demo_digest = concat (replicate 16 ''aB3f'')"

definition demo_dsc :: fields where
  "demo_dsc = [(''Format'', ''3.0 (quilt)''),
     (''Checksums-Sha256'', newline # demo_digest @ '' 1024 hello_2.10.orig.tar.gz'' @ newline # demo_digest @ ''  37 hello_2.10-3.debian.tar.xz'')]"

lemma dsc_files_exact_witness:
  "dsc_files demo_dsc = Inr [(''hello_2.10.orig.tar.gz'', map lower_hex demo_digest, 1024), (''hello_2.10-3.debian.tar.xz'', map lower_hex demo_digest, 37)]
   \<and> list_all safe_source_entry [(''hello_2.10.orig.tar.gz'', map lower_hex demo_digest, 1024), (''hello_2.10-3.debian.tar.xz'', map lower_hex demo_digest, 37)]"
proof -
  have "dsc_files demo_dsc = Inr [(''hello_2.10.orig.tar.gz'', map lower_hex demo_digest, 1024), (''hello_2.10-3.debian.tar.xz'', map lower_hex demo_digest, 37)]"
    by code_simp
  then show ?thesis using dsc_files_exact by blast
qed

section \<open>The accounts of a tree\<close>

lemma splitlines_ended: "splitlines (s @ newline # t) = splitlines (s @ [newline]) @ splitlines t"
proof (induction s rule: splitlines.induct)
  case (2 c s)
  let ?crlf = "of_char c = (13::nat) \<and> py_startswith s [newline]"
  consider (plain) "\<not> line_break c" | (crlf) "line_break c" "?crlf" | (cr) "line_break c" "of_char c = (13::nat)" "s = []"
    | (other) "line_break c" "\<not> ?crlf" "of_char c \<noteq> (13::nat) \<or> s \<noteq> []" by blast
  then show ?case
  proof cases
    case plain
    have "splitlines (s @ [newline]) \<noteq> []" by (cases s) (auto split: list.split)
    then show ?thesis using plain 2(2) by (cases "splitlines (s @ [newline])") simp_all
  next
    case crlf
    then obtain r where "s = newline # r" by (cases s) (auto simp: py_startswith_def)
    then show ?thesis using crlf 2(1) by (simp add: py_startswith_def)
  next
    case cr
    then show ?thesis by (simp add: py_startswith_def)
  next
    case other
    have no: "\<not> (of_char c = (13::nat) \<and> py_startswith (s @ newline # u) [newline])" for u
      using other(2,3) by (cases s) (auto simp: py_startswith_def)
    have "splitlines (s @ newline # t) = splitlines (s @ [newline]) @ splitlines t"
      using 2(1) [OF other(1)] by (simp only: if_not_P [OF other(2)])
    then show ?thesis
      by (simp only: append_Cons splitlines.simps if_P [OF other(1)] if_not_P [OF no] append_Nil)
  qed
qed simp

lemma splitlines_text: "list_all no_break ws \<Longrightarrow> splitlines (concat (map (\<lambda>w. w @ [newline]) ws)) = ws"
  using splitlines_lines [of ws "[]"] by simp

text \<open>Where the account file ends its last line, the accounts it lacks become lines of their own.\<close>

lemma merged_accounts:
  assumes "existing = [] \<or> last existing = newline"
  shows "splitlines (merge_base_passwd_database existing (Some master)) = splitlines existing @ missing_accounts existing master"
proof -
  have "list_all no_break (missing_accounts existing master)"
    using splitlines_no_break [of master] by (auto simp: missing_accounts_def Let_def list_all_iff)
  note new = splitlines_text [OF this]
  show ?thesis
  proof (cases "existing = []")
    case False
    then obtain s where "existing = s @ [newline]" using assms by (metis append_butlast_last_id)
    then have "splitlines (existing @ t) = splitlines existing @ splitlines t" for t
      using splitlines_ended [of s t] by (simp only: append_assoc append_Cons append_Nil)
    then show ?thesis unfolding merge_base_passwd_database_def option.case using new by simp
  qed (use new in \<open>simp add: merge_base_passwd_database_def\<close>)
qed

text \<open>Where it does not, the first of them is glued to the last account.\<close>

lemma merged_accounts_glued:
  "splitlines (merge_base_passwd_database ''root:x:0'' (Some (''daemon:x:1'' @ [newline]))) = [''root:x:0daemon:x:1'']"
  by code_simp

end
