(* ===== verification/DebDatabase.thy ===== *)
theory DebDatabase
  imports DebControl
begin

text \<open>
  The package database that \<^verbatim>\<open>register_debs\<close> of \<^verbatim>\<open>tools/_deb.py\<close> keeps: it is specified as a
  dictionary of paragraphs, and the text it writes is shown to be that dictionary, so that packages may be registered
  in one call or in several.
\<close>

section \<open>Reading several paragraphs\<close>

lemma paragraph_lines_block:
  "[] \<notin> set ls \<Longrightarrow> ls \<noteq> [] \<or> cur \<noteq> [] \<Longrightarrow> paragraph_lines (ls @ [] # rest) cur = (cur @ ls) # paragraph_lines rest []"
  by (induction ls arbitrary: cur) auto

lemma field_lines_facts: "[] \<notin> set (field_lines kv)" "field_lines kv \<noteq> []"
  by (auto simp: field_lines_def)

definition readable :: "fields \<Rightarrow> bool" where
  "readable d = (clean_paragraph d \<and> unsigned d)"

lemma parse_paragraphs:
  assumes "list_all readable ds"
  shows "parse_control_paragraphs (concat (map (\<lambda>d. paragraph_text d @ [newline]) ds)) = Inr ds"
  using assms
proof (induction ds)
  case (Cons d ds)
  then have d: "clean_paragraph d" "unsigned d" by (simp_all add: readable_def)
  let ?ls = "concat (map field_lines d)" and ?rest = "concat (map (\<lambda>d. paragraph_text d @ [newline]) ds)"
  have ls: "[] \<notin> set ?ls" "?ls \<noteq> []"
    using field_lines_facts d(2) by (cases d; auto simp: unsigned_def)+
  have "splitlines (paragraph_text d @ newline # ?rest) = ?ls @ splitlines (newline # ?rest)"
    using d by (intro paragraph_splitlines) (simp_all add: clean_paragraph_def unsigned_def)
  also have "splitlines (newline # ?rest) = [] # splitlines ?rest" by simp
  finally have "paragraph_lines (splitlines (paragraph_text d @ newline # ?rest)) [] = ?ls # paragraph_lines (splitlines ?rest) []"
    using paragraph_lines_block [of ?ls "[]"] ls by simp
  moreover have "parse_control (py_join [newline] ?ls @ [newline]) = Inr d"
    using parse_paragraph [OF d] by (simp add: paragraph_text_lines)
  ultimately show ?case using Cons by (simp add: parse_control_paragraphs_def attempt_def)
qed (simp add: parse_control_paragraphs_def)

lemma parse_all_clean: "parse_all ps = Inr ds \<Longrightarrow> list_all clean_paragraph ds"
  by (induction ps arbitrary: ds) (auto simp: attempt_Inr dest: parse_clean)

section \<open>The paragraph of a registered package\<close>

lemma dget_in: "dget d k = Some v \<Longrightarrow> (k, v) \<in> set d"
  by (rule map_of_SomeD)

lemma status_names_ok: "list_all (\<lambda>n. \<not> py_startswith n signed_marker) STATUS_FIELDS" "distinct STATUS_FIELDS"
  by code_simp+

lemma status_fields_keys: "map fst (status_fields d) = filter (\<lambda>n. truthy (dget (dset ''Status'' ''install ok installed'' d) n)) STATUS_FIELDS"
  by (simp add: status_fields_def Let_def comp_def)

lemma status_value_clean: "clean_field (''Status'', ''install ok installed'')"
  by code_simp

lemma status_fields_readable:
  assumes "clean_paragraph d"
  shows "readable (status_fields d)"
proof -
  let ?e = "dset ''Status'' ''install ok installed'' d"
  have e: "list_all clean_field ?e"
    using clean_dset [OF assms status_value_clean] by (simp add: clean_paragraph_def)
  have "clean_field kv" if m: "kv \<in> set (status_fields d)" for kv
  proof -
    obtain n where n: "kv = (n, dget_or ?e n [])" "truthy (dget ?e n)" 
      using m by (auto simp: status_fields_def Let_def simp del: dget_dset)
    then obtain v where "dget ?e n = Some v" by (auto simp: truthy_def split: option.splits)
    with n dget_in [of ?e n v] e show ?thesis by (simp add: dget_or_def list_all_iff)
  qed
  moreover have keys: "distinct (map fst (status_fields d))" "set (map fst (status_fields d)) \<subseteq> set STATUS_FIELDS"
    unfolding status_fields_keys using status_names_ok(2) by auto
  moreover have "''Status'' \<in> set (map fst (status_fields d))"
    unfolding status_fields_keys by (simp add: STATUS_FIELDS_def truthy_def)
  then have ne: "status_fields d \<noteq> []" by auto
  with keys(2) have "fst (hd (status_fields d)) \<in> set STATUS_FIELDS" by (metis hd_in_set hd_map list.map_disc_iff subsetD)
  then have "unsigned (status_fields d)" using ne status_names_ok(1) by (simp add: unsigned_def list_all_iff)
  ultimately show ?thesis by (simp add: readable_def clean_paragraph_def list_all_iff)
qed

section \<open>The database as a dictionary\<close>

text \<open>
  The specification: paragraphs are entered one after the other under their keys, and a later one replaces the
  earlier one of the same key.
\<close>

definition keyed :: "(fields \<Rightarrow> deb_error + string) \<Rightarrow> (fields \<Rightarrow> fields) \<Rightarrow> fields list \<Rightarrow> (string, fields) dict \<Rightarrow> (string, fields) dict" where
  "keyed key g fs d = fold (\<lambda>f. dset (projr (key f)) (g f)) fs d"

definition database :: "fields list \<Rightarrow> fields list \<Rightarrow> (string, fields) dict" where
  "database existing debs = keyed package_key status_fields debs (keyed database_key id existing [])"

definition texts :: "(string, fields) dict \<Rightarrow> (string, string) dict" where
  "texts d = map (\<lambda>kf. (fst kf, paragraph_text (snd kf))) d"

lemma texts_dset: "dset k (paragraph_text f) (texts d) = texts (dset k f d)"
  by (induction d) (auto simp: texts_def)

lemma enter_all_keyed:
  "enter_all key (paragraph_text \<circ> g) fs (texts d) = Inr d' \<longleftrightarrow> list_all (\<lambda>f. key f = Inr (projr (key f))) fs \<and> d' = texts (keyed key g fs d)"
proof (induction fs arbitrary: d)
  case (Cons f fs)
  show ?case using Cons.IH by (cases "key f") (auto simp: attempt_def texts_dset keyed_def)
qed (auto simp: keyed_def)

lemma insort_texts: "insort_key fst (k, paragraph_text f) (texts d) = texts (insort_key fst (k, f) d)"
  by (induction d) (auto simp: texts_def)

lemma sorted_items_texts: "sorted_items (texts d) = texts (sorted_items d)"
proof (induction d)
  case (Cons kf d)
  then show ?case using insort_texts [of "fst kf" "snd kf" "sorted_items d"] by (simp add: sorted_items_def texts_def)
qed (simp add: sorted_items_def texts_def)

lemma register_debs_keyed:
  assumes "(case status of None \<Rightarrow> Inr [] | Some text \<Rightarrow> parse_control_paragraphs text) = Inr existing"
  shows "register_debs status debs = Inr text' \<longleftrightarrow>
    list_all (\<lambda>f. database_key f = Inr (projr (database_key f))) existing
    \<and> list_all (\<lambda>f. package_key f = Inr (projr (package_key f))) debs
    \<and> text' = concat (map (\<lambda>f. paragraph_text f @ [newline]) (map snd (sorted_items (database existing debs))))"
proof -
  let ?d1 = "keyed database_key id existing []"
  have 1: "enter_all database_key paragraph_text existing [] = Inr d \<longleftrightarrow>
      list_all (\<lambda>f. database_key f = Inr (projr (database_key f))) existing \<and> d = texts ?d1" for d
    using enter_all_keyed [of database_key id existing "[]" d] by (simp add: texts_def [of "[]"])
  have 2: "enter_all package_key status_paragraph debs (texts ?d1) = Inr d \<longleftrightarrow>
      list_all (\<lambda>f. package_key f = Inr (projr (package_key f))) debs \<and> d = texts (database existing debs)" for d
    using enter_all_keyed [of package_key status_fields debs ?d1 d] unfolding database_def
    by (simp add: status_paragraph_def [abs_def] comp_def)
  have 3: "concat (map (\<lambda>(k, p). p @ [newline]) (sorted_items (texts d)))
      = concat (map (\<lambda>f. paragraph_text f @ [newline]) (map snd (sorted_items d)))" for d
    unfolding sorted_items_texts by (simp add: texts_def comp_def)
  show ?thesis unfolding register_debs_def assms attempt_Inr by (auto simp: 1 2 3 simp del: map_map)
qed

lemma keyed_facts:
  "distinct (map fst d) \<Longrightarrow> distinct (map fst (keyed key g fs d))"
  "kf \<in> set (keyed key g fs d) \<Longrightarrow> kf \<in> set d \<or> (\<exists>f \<in> set fs. kf = (projr (key f), g f))"
proof -
  show "distinct (map fst d) \<Longrightarrow> distinct (map fst (keyed key g fs d))"
    unfolding keyed_def by (induction fs arbitrary: d) simp_all
  show "kf \<in> set (keyed key g fs d) \<Longrightarrow> kf \<in> set d \<or> (\<exists>f \<in> set fs. kf = (projr (key f), g f))"
    unfolding keyed_def by (induction fs arbitrary: d) (auto dest!: set_dset)
qed

lemma distinct_database: "distinct (map fst (database existing debs))"
  unfolding database_def by (intro keyed_facts(1)) simp

lemma database_entry:
  assumes "kf \<in> set (database existing debs)"
  shows "(\<exists>f \<in> set existing. kf = (projr (database_key f), f)) \<or> (\<exists>f \<in> set debs. kf = (projr (package_key f), status_fields f))"
  using assms keyed_facts(2) [of kf package_key status_fields debs "keyed database_key id existing []"]
    keyed_facts(2) [of kf database_key id existing "[]"]
  unfolding database_def by auto

lemma database_readable:
  assumes "list_all readable existing" and "list_all clean_paragraph debs"
  shows "list_all readable (map snd (sorted_items (database existing debs)))"
proof -
  have "readable (snd kf)" if "kf \<in> set (database existing debs)" for kf
    using database_entry [OF that] assms status_fields_readable by (auto simp: list_all_iff)
  then show ?thesis by (simp add: list_all_iff sorted_items_facts(1))
qed

lemma existing_clean:
  assumes "(case status of None \<Rightarrow> Inr [] | Some text \<Rightarrow> parse_control_paragraphs text) = Inr existing"
    and "list_all unsigned existing"
  shows "list_all readable existing"
proof -
  have "list_all clean_paragraph existing"
    using assms(1) by (auto simp: parse_control_paragraphs_def parse_all_clean split: option.splits)
  then show ?thesis using assms(2) by (simp add: list_all_iff readable_def)
qed

lemma read_clean: "list_all (\<lambda>f. \<exists>out. parse_control out = Inr f) debs \<Longrightarrow> list_all clean_paragraph debs"
  by (auto simp: list_all_iff parse_clean)

text \<open>
  C24: Registering packages writes the database it is meant to write. Where the database at hand (empty where there is
  none) reads as some paragraphs, none of them under a field that looks like a signature header, and the packages'
  fields are what \<^verbatim>\<open>parse_control\<close> makes of the output of \<^verbatim>\<open>dpkg-deb\<close>, the text written reads back as one
  paragraph per key, in the order of the keys: the last package registered under the key with its status fields, or
  the paragraph that was there before with every field and every line of it.
\<close>

theorem register_debs_exact:
  assumes "register_debs status debs = Inr written"
    and "(case status of None \<Rightarrow> Inr [] | Some text \<Rightarrow> parse_control_paragraphs text) = Inr existing"
    and "list_all unsigned existing"
    and "list_all (\<lambda>f. \<exists>out. parse_control out = Inr f) debs"
  shows "parse_control_paragraphs written = Inr (map snd (sorted_items (database existing debs)))"
  using assms(1) parse_paragraphs [OF database_readable [OF existing_clean [OF assms(2,3)] read_clean [OF assms(4)]]]
  by (simp add: register_debs_keyed [OF assms(2)])

section \<open>Registering in several calls\<close>

text \<open>A package whose name and architecture are not empty has the same key before and after it is written.\<close>

definition named :: "fields \<Rightarrow> bool" where
  "named d = (truthy (dget d ''Package'') \<and> truthy (dget d ''Architecture''))"

lemma dget_map_filter: "dget (map (\<lambda>n. (n, f n)) (filter P ns)) n = (if P n \<and> n \<in> set ns then Some (f n) else None)"
  by (induction ns) auto

lemma dget_status_fields:
  assumes "n \<in> set STATUS_FIELDS" and "n \<noteq> ''Status''"
  shows "dget (status_fields d) n = (if truthy (dget d n) then dget d n else None)"
  using assms unfolding status_fields_def Let_def dget_map_filter by (auto simp: dget_or_def truthy_def split: option.splits)

lemma status_fields_key: "named d \<Longrightarrow> database_key (status_fields d) = package_key d"
proof -
  assume d: "named d"
  have "{''Package'', ''Architecture'', ''Multi-Arch''} \<subseteq> set STATUS_FIELDS" by (simp add: STATUS_FIELDS_def)
  then have "dget (status_fields d) ''Package'' = dget d ''Package''"
    "dget (status_fields d) ''Architecture'' = dget d ''Architecture''"
    "dget (status_fields d) ''Multi-Arch'' = Some ''same'' \<longleftrightarrow> dget d ''Multi-Arch'' = Some ''same''"
    using d by (auto simp: dget_status_fields named_def truthy_def)
  then show ?thesis
    using d by (auto simp: database_key_def package_key_def named_def truthy_def split: option.splits)
qed

lemma enter_all_split:
  "enter_all key t fs d = (case enter_all key t fs [] of Inl e \<Rightarrow> Inl e | Inr _ \<Rightarrow> Inr (fold (\<lambda>f. dset (projr (key f)) (t f)) fs d))"
proof (induction fs arbitrary: d)
  case (Cons f fs)
  show ?case
  proof (cases "key f")
    case (Inr k)
    then show ?thesis
      using Cons.IH [of "dset k (t f) d"] Cons.IH [of "dset k (t f) []"] by (simp add: attempt_def split: sum.splits)
  qed (simp add: attempt_def)
qed simp

lemma enter_all_append:
  "enter_all key t (fs @ gs) d = attempt (enter_all key t fs d) (enter_all key t gs)"
  by (induction fs arbitrary: d) (auto simp: attempt_def split: sum.splits)

lemma sorted_items_eq:
  assumes "distinct (map fst d)" and "distinct (map fst e)" and "dget d = dget e"
  shows "sorted_items d = sorted_items e"
proof -
  have "set d = set e" using assms by (metis map_of_eq_Some_iff subrelI subset_antisym)
  moreover have "inj_on fst (set d)" using assms(1) by (simp add: distinct_map)
  ultimately show ?thesis
    using assms sorted_items_facts [of d] sorted_items_facts [of e]
    by (intro map_sorted_distinct_set_unique [of fst]) simp_all
qed

lemma fold_dset_same:
  "dget d = dget e \<Longrightarrow> dget (fold (\<lambda>f. dset (k f) (t f)) fs d) = dget (fold (\<lambda>f. dset (k f) (t f)) fs e)"
  by (induction fs arbitrary: d e) (simp_all add: fun_eq_iff)

lemma fold_dset_distinct: "distinct (map fst d) \<Longrightarrow> distinct (map fst (fold (\<lambda>f. dset (k f) (t f)) fs d))"
  by (induction fs arbitrary: d) simp_all

lemma written_keys:
  assumes "list_all (\<lambda>f. database_key f = Inr (projr (database_key f))) existing"
    and "list_all (\<lambda>f. package_key f = Inr (projr (package_key f))) debs" and "list_all named debs"
    and "kf \<in> set (database existing debs)"
  shows "database_key (snd kf) = Inr (fst kf)"
  using database_entry [OF assms(4)] assms(1-3) by (auto simp: list_all_iff status_fields_key)

lemma enter_written:
  "distinct (map fst (e @ d)) \<Longrightarrow> \<forall>kf \<in> set d. database_key (snd kf) = Inr (fst kf)
   \<Longrightarrow> enter_all database_key paragraph_text (map snd d) (texts e) = Inr (texts (e @ d))"
proof (induction d arbitrary: e)
  case (Cons kf d)
  have "dset (fst kf) (snd kf) e = e @ [kf]" using Cons.prems(1) by (simp add: update_fresh map_of_eq_None_iff)
  then show ?case using Cons.IH [of "e @ [kf]"] Cons.prems by (simp add: attempt_def texts_dset)
qed simp

lemma texts_facts: "map fst (texts d) = map fst d" "dget (texts d) = map_option paragraph_text \<circ> dget d"
proof -
  show "map fst (texts d) = map fst d" by (simp add: texts_def)
  show "dget (texts d) = map_option paragraph_text \<circ> dget d"
    unfolding texts_def by (induction d) (auto simp: fun_eq_iff)
qed

lemma enter_sorted:
  assumes "distinct (map fst d)"
  shows "attempt (enter_all key t fs (texts (sorted_items d))) (\<lambda>d. Inr (h (sorted_items d)))
    = attempt (enter_all key t fs (texts d)) (\<lambda>d. Inr (h (sorted_items d)))"
proof -
  let ?fold = "fold (\<lambda>f. dset (projr (key f)) (t f)) fs"
  have "sorted_items (?fold (texts (sorted_items d))) = sorted_items (?fold (texts d))"
    by (intro sorted_items_eq fold_dset_distinct fold_dset_same)
      (simp_all add: assms texts_facts sorted_items_facts(3) dget_sorted_items)
  then show ?thesis
    unfolding enter_all_split [of key t fs "texts _"] by (simp add: attempt_def split: sum.split)
qed

text \<open>
  Packages may be registered in one call or in several. Where a first call has written its database, a second call
  on what it wrote does exactly what one call with all the packages does, its errors included. In particular a
  database that the code wrote is left as it is by a call that registers nothing.
\<close>

theorem register_in_batches:
  assumes "register_debs status debs1 = Inr written"
    and "(case status of None \<Rightarrow> Inr [] | Some text \<Rightarrow> parse_control_paragraphs text) = Inr existing"
    and "list_all unsigned existing"
    and "list_all (\<lambda>f. \<exists>out. parse_control out = Inr f) debs1" and "list_all named debs1"
  shows "register_debs (Some written) debs2 = register_debs status (debs1 @ debs2)"
proof -
  let ?d = "database existing debs1" and ?h = "\<lambda>d. concat (map (\<lambda>(k, p). p @ [newline]) d)"
  note ok = register_debs_keyed [OF assms(2), THEN iffD1, OF assms(1)]
  have read: "parse_control_paragraphs written = Inr (map snd (sorted_items ?d))"
    using ok parse_paragraphs [OF database_readable [OF existing_clean [OF assms(2,3)] read_clean [OF assms(4)]]] by simp
  have "\<forall>kf \<in> set (sorted_items ?d). database_key (snd kf) = Inr (fst kf)"
    unfolding sorted_items_facts(1) using ok written_keys [OF _ _ assms(5)] by blast
  then have again: "enter_all database_key paragraph_text (map snd (sorted_items ?d)) [] = Inr (texts (sorted_items ?d))"
    using enter_written [of "[]" "sorted_items ?d"] by (simp add: texts_def [of "[]"] sorted_items_facts(3) distinct_database)
  have "enter_all database_key paragraph_text existing [] = Inr (texts (keyed database_key id existing []))"
    using ok enter_all_keyed [of database_key id existing "[]"] by (simp add: texts_def [of "[]"])
  moreover have "enter_all package_key status_paragraph debs1 (texts (keyed database_key id existing [])) = Inr (texts ?d)"
    using ok enter_all_keyed [of package_key status_fields debs1 "keyed database_key id existing []"] unfolding database_def
    by (simp add: status_paragraph_def [abs_def] comp_def)
  ultimately have "register_debs status (debs1 @ debs2)
      = attempt (enter_all package_key status_paragraph debs2 (texts ?d)) (\<lambda>d. Inr (?h (sorted_items d)))"
    by (simp add: register_debs_def assms(2) enter_all_append attempt_def)
  also have "\<dots> = attempt (enter_all package_key status_paragraph debs2 (texts (sorted_items ?d))) (\<lambda>d. Inr (?h (sorted_items d)))"
    by (rule enter_sorted [symmetric, OF distinct_database])
  also have "\<dots> = register_debs (Some written) debs2"
    by (simp add: register_debs_def read again attempt_def)
  finally show ?thesis ..
qed

section \<open>A database\<close>

definition demo_text :: "string list \<Rightarrow> string" where
  "demo_text ls = concat (map (\<lambda>l. l @ [newline]) ls)"

definition demo_status :: string where
  "demo_status = demo_text
     [''Package: mawk'', ''Status: install ok installed'', ''Architecture: amd64'', ''Version: 1.3'',
      ''Description: a pattern scanner'', '' for text'', [], ''Package: libc6'', ''Multi-Arch: same'',
      ''Architecture: amd64'', ''Conffiles:'', '' /etc/ld.so.conf'', []]"

definition demo_debs :: "fields list" where
  "demo_debs =
     [[(''Package'', ''libc6''), (''Version'', ''2.41''), (''Architecture'', ''i386''), (''Multi-Arch'', ''same'')],
      [(''Package'', ''mawk''), (''Version'', ''1.4''), (''Architecture'', ''amd64''), (''Source'', [])]]"

definition demo_written :: string where
  "demo_written = demo_text
     [''Package: libc6'', ''Multi-Arch: same'', ''Architecture: amd64'', ''Conffiles: '', '' /etc/ld.so.conf'', [],
      ''Package: libc6'', ''Status: install ok installed'', ''Architecture: i386'', ''Multi-Arch: same'', ''Version: 2.41'', [],
      ''Package: mawk'', ''Status: install ok installed'', ''Architecture: amd64'', ''Version: 1.4'', []]"

definition demo_existing :: "fields list" where
  "demo_existing =
     [[(''Package'', ''mawk''), (''Status'', ''install ok installed''), (''Architecture'', ''amd64''), (''Version'', ''1.3''),
       (''Description'', ''a pattern scanner'' @ newline # ''for text'')],
      [(''Package'', ''libc6''), (''Multi-Arch'', ''same''), (''Architecture'', ''amd64''),
       (''Conffiles'', newline # ''/etc/ld.so.conf'')]]"

lemma demo_facts:
  "parse_control_paragraphs demo_status = Inr demo_existing"
  "register_debs (Some demo_status) demo_debs = Inr demo_written"
  "list_all unsigned demo_existing" "list_all named demo_debs"
  by code_simp+

lemma demo_read: "list_all (\<lambda>f. \<exists>out. parse_control out = Inr f) demo_debs"
proof -
  have "list_all readable demo_debs" by code_simp
  then show ?thesis using parse_paragraph by (auto simp: list_all_iff readable_def)
qed

lemma register_debs_exact_witness:
  "parse_control_paragraphs demo_written = Inr (map snd (sorted_items (database demo_existing demo_debs)))
   \<and> map fst (sorted_items (database demo_existing demo_debs)) = [''libc6:amd64'', ''libc6:i386'', ''mawk'']"
proof
  show "parse_control_paragraphs demo_written = Inr (map snd (sorted_items (database demo_existing demo_debs)))"
    using register_debs_exact [of "Some demo_status" demo_debs demo_written demo_existing] demo_facts demo_read by simp
  show "map fst (sorted_items (database demo_existing demo_debs)) = [''libc6:amd64'', ''libc6:i386'', ''mawk'']"
    by code_simp
qed

lemma register_in_batches_witness:
  "register_debs (Some demo_written) demo_debs = register_debs (Some demo_status) (demo_debs @ demo_debs)"
  using register_in_batches [of "Some demo_status" demo_debs demo_written demo_existing demo_debs] demo_facts demo_read
  by simp

end
