(* ===== verification/DebLock.thy ===== *)
theory DebLock
  imports DebControl PublicBase
begin

text \<open>
  \<^verbatim>\<open>tools/deb_lock.py\<close>: the lock of a Debian-family release. APT resolves; the tool asks it
  questions, reads its answers, binds them to the metadata's checksums and decides which source packages are to be
  built. APT is a parameter \<open>apt\<close>: what a command line prints, or nothing where it fails. Its state is prepared by
  the first command and not changed by the later ones, which only ask. A percent-encoded text that is not ASCII is
  decoded by a parameter \<open>utf8\<close>.
\<close>

datatype lock_error =
    CommandFailed "string list"
  | Unterminated string
  | MalformedUri string
  | NotANumber string
  | NoUris
  | BadControl deb_error
  | NoField string
  | BadFilename string
  | RecordCount string nat
  | NoSha256 string
  | BadChecksums deb_error
  | DuplicateUri string
  | NotInMetadata string
  | SizeMismatch string int int
  | DigestMismatch string string string
  | NoUriFor "string list"
  | DscCount string nat
  | ConflictingPins string
  | MissingSet string
  | ConflictingSources string "string \<times> string" "string \<times> string"
  | NotHashable json
  | UnmatchedExceptions "json list"
  | UnsupportedArchitecture string
  | DuplicateImageSet string
  | TwoVersions string string string
  | Undeclared string string "string list"
  | BadPolicy policy_error

section \<open>Asking APT\<close>

type_synonym program = "string list \<Rightarrow> string option"

definition run_output :: "program \<Rightarrow> string list \<Rightarrow> lock_error + string" where
  "run_output apt command = (case apt command of None \<Rightarrow> Inl (CommandFailed command) | Some out \<Rightarrow> Inr out)"

definition apt_output :: "program \<Rightarrow> string list \<Rightarrow> string list \<Rightarrow> lock_error + string" where
  "apt_output apt config command = run_output apt (take 1 command @ config @ drop 1 command)"

text \<open>
  \<open>shlex.split\<close>: the state is the quotation the reader is in, if any, and whether the last character was a backslash;
  \<open>quoted\<close> remembers that the token had a quotation, which makes an empty token count.
\<close>

datatype quoting = Between | InWord | InQuotes char

fun shlex :: "quoting \<Rightarrow> bool \<Rightarrow> string \<Rightarrow> bool \<Rightarrow> string \<Rightarrow> string list option" where
  "shlex q escaped tok quoted [] =
     (if escaped then None
      else case q of
        InQuotes _ \<Rightarrow> None
      | _ \<Rightarrow> Some (if tok \<noteq> [] \<or> quoted then [tok] else []))"
| "shlex q escaped tok quoted (c # s) =
     (if escaped then
        (case q of
           InQuotes d \<Rightarrow> shlex q False (tok @ (if c \<noteq> CHR 0x5C \<and> c \<noteq> d then [CHR 0x5C, c] else [c])) quoted s
         | _ \<Rightarrow> shlex InWord False (tok @ [c]) quoted s)
      else
        case q of
          InQuotes d \<Rightarrow>
            if c = d then shlex InWord False tok True s
            else if c = CHR 0x5C \<and> d = CHR 0x22 then shlex q True tok True s
            else shlex q False (tok @ [c]) True s
        | _ \<Rightarrow>
            if c \<in> {CHR 0x20, CHR 0x09, CHR 0x0D, CHR 0x0A} then
              (if tok \<noteq> [] \<or> quoted then map_option ((#) tok) (shlex Between False [] False s)
               else shlex Between False [] False s)
            else if c = CHR 0x22 \<or> c = CHR 0x27 then shlex (InQuotes c) False tok quoted s
            else if c = CHR 0x5C then shlex q True tok quoted s
            else shlex InWord False (tok @ [c]) quoted s)"

definition shlex_split :: "string \<Rightarrow> string list option" where
  "shlex_split s = shlex Between False [] False s"

text \<open>\<open>urllib.parse.unquote\<close>: runs of ASCII text are percent-decoded to bytes and read as UTF-8.\<close>

definition is_ascii :: "char \<Rightarrow> bool" where
  "is_ascii c = ((of_char c :: nat) < 128)"

fun percent_bytes :: "string \<Rightarrow> string" where
  "percent_bytes [] = []"
| "percent_bytes (c # a # b # s) =
     (case (hex_value a, hex_value b) of
        (Some h, Some l) \<Rightarrow>
          if c = CHR ''%'' then char_of (16 * h + l) # percent_bytes s else c # percent_bytes (a # b # s)
      | _ \<Rightarrow> c # percent_bytes (a # b # s))"
| "percent_bytes (c # s) = c # percent_bytes s"

definition decoded :: "(string \<Rightarrow> string) \<Rightarrow> string \<Rightarrow> string" where
  "decoded utf8 bytes = (if list_all is_ascii bytes then bytes else utf8 bytes)"

function unquote :: "(string \<Rightarrow> string) \<Rightarrow> string \<Rightarrow> string" where
  "unquote utf8 [] = []"
| "unquote utf8 (c # s) =
     (if is_ascii c
      then decoded utf8 (percent_bytes (c # takeWhile is_ascii s)) @ unquote utf8 (dropWhile is_ascii s)
      else c # unquote utf8 s)"
  by pat_completeness auto
termination
  by (relation "measure (\<lambda>(_, s). length s)") (auto simp: less_Suc_eq_le length_dropWhile_le)

record uri =
  uri_url :: string
  uri_filename :: string
  uri_size :: int
  uri_kind :: string
  uri_digest :: string

definition uri_line :: "(string \<Rightarrow> string) \<Rightarrow> string \<Rightarrow> lock_error + uri" where
  "uri_line utf8 line =
     (case shlex_split line of
        None \<Rightarrow> Inl (Unterminated line)
      | Some parts \<Rightarrow>
          if length parts < 3 then Inl (MalformedUri line)
          else
            (case (if 4 \<le> length parts then py_partition CHR '':'' (parts ! 3) else ([], False, [])) of
               (kind, found, digest) \<Rightarrow>
                 (case py_int (parts ! 2) of
                    None \<Rightarrow> Inl (NotANumber (parts ! 2))
                  | Some n \<Rightarrow>
                      Inr \<lparr>uri_url = parts ! 0, uri_filename = unquote utf8 (parts ! 1), uri_size = n,
                           uri_kind = py_lower kind, uri_digest = py_lower digest\<rparr>)))"

fun uri_lines :: "(string \<Rightarrow> string) \<Rightarrow> string list \<Rightarrow> lock_error + uri list" where
  "uri_lines utf8 [] = Inr []"
| "uri_lines utf8 (l # ls) =
     (if py_startswith l [CHR 0x27]
      then attempt (uri_line utf8 l) (\<lambda>u. attempt (uri_lines utf8 ls) (\<lambda>us. Inr (u # us)))
      else uri_lines utf8 ls)"

definition apt_uri_lines :: "(string \<Rightarrow> string) \<Rightarrow> string \<Rightarrow> lock_error + uri list" where
  "apt_uri_lines utf8 output =
     attempt (uri_lines utf8 (splitlines output)) (\<lambda>us. if us = [] then Inl NoUris else Inr us)"

definition optional :: "string option \<Rightarrow> (string \<Rightarrow> string list) \<Rightarrow> string list" where
  "optional v f = (if truthy v then f (the v) else [])"

definition apt_options :: "string \<Rightarrow> string \<Rightarrow> string option \<Rightarrow> string option \<Rightarrow> string option \<Rightarrow> string list" where
  "apt_options status archives architecture listdir sources =
     [''-o'', ''Dir::State::status='' @ status, ''-o'', ''Dir::Cache::archives='' @ archives,
      ''-o'', ''APT::Install-Recommends=false'', ''-o'', ''APT::Install-Suggests=false'']
     @ optional architecture (\<lambda>a. [''-o'', ''APT::Architecture='' @ a, ''-o'', ''APT::Architectures::='' @ a])
     @ optional listdir (\<lambda>l. [''-o'', ''Dir::State::lists='' @ l])
     @ optional sources (\<lambda>s. [''-o'', ''Dir::Etc::sourcelist='' @ s, ''-o'', ''Dir::Etc::sourceparts=-''])
     @ [''--print-uris'', ''--yes'', ''--download-only'']"

definition apt_source_selector :: "string \<Rightarrow> string option \<Rightarrow> string" where
  "apt_source_selector package version = ''src:'' @ package @ (if truthy version then ''='' @ the version else [])"

definition apt_source_command :: "string \<Rightarrow> string option \<Rightarrow> string list" where
  "apt_source_command package version =
     [''apt-get'', ''source'', ''--print-uris'', ''--download-only'', apt_source_selector package version]"

definition apt_build_dep_command :: "string \<Rightarrow> string option \<Rightarrow> string list" where
  "apt_build_dep_command package version =
     [''apt-get'', ''-Pnocheck'', ''build-dep'', apt_source_selector package version]"

section \<open>Records of packages\<close>

definition target_char :: "char \<Rightarrow> bool" where
  "target_char c = (ascii_alpha c \<or> dec_digit c \<or> c = CHR ''_'' \<or> c = CHR ''-'')"

function target_sub :: "string \<Rightarrow> string" where
  "target_sub [] = []"
| "target_sub (c # s) =
     (if target_char c then c # target_sub s else CHR ''-'' # target_sub (dropWhile (\<lambda>d. \<not> target_char d) s))"
  by pat_completeness auto
termination
  by (relation "measure length") (auto simp: less_Suc_eq_le length_dropWhile_le)

definition target_name :: "string list \<Rightarrow> string" where
  "target_name parts =
     (let dash = (\<lambda>c. c = CHR ''-'') in rdrop_while dash (dropWhile dash (target_sub (py_join ''-'' parts))))"

record binary =
  bin_architecture :: string
  bin_filename :: string
  bin_package :: string
  bin_sha256 :: string
  bin_size :: int
  bin_source_name :: string
  bin_source_version :: string
  bin_target :: string
  bin_url :: string
  bin_version :: string

definition source_label :: "string \<Rightarrow> string \<Rightarrow> string" where
  "source_label name version = name @ ''@'' @ version"

text \<open>The records that agree on name, version and checksums, once each; the last one is kept.\<close>

definition record_key :: "fields \<Rightarrow> string option \<times> string option \<times> string option" where
  "record_key f = (dget f ''Package'', dget f ''Version'', dget f ''Checksums-Sha256'')"

definition unique_records :: "fields list \<Rightarrow> fields list" where
  "unique_records fs = map snd (fold (\<lambda>f. dset (record_key f) f) fs [])"

text \<open>The available packages by the name of their file, as \<open>AVAILABLE_BY_FILENAME\<close> holds them.\<close>

definition available_by_filename :: "fields list \<Rightarrow> (string, fields) dict" where
  "available_by_filename fs =
     fold (\<lambda>f. dset (the (dget f ''Filename'')) f) (filter (\<lambda>f. truthy (dget f ''Filename'')) fs) []"

definition read_records :: "program \<Rightarrow> string list \<Rightarrow> string list \<Rightarrow> lock_error + fields list" where
  "read_records apt config command =
     attempt (apt_output apt config command) (\<lambda>out. map_error BadControl (parse_control_paragraphs out))"

definition field_of :: "fields \<Rightarrow> string \<Rightarrow> lock_error + string" where
  "field_of f name = (case dget f name of None \<Rightarrow> Inl (NoField name) | Some v \<Rightarrow> Inr v)"

definition show_records :: "program \<Rightarrow> string list \<Rightarrow> string \<Rightarrow> uri \<Rightarrow> lock_error + fields list" where
  "show_records apt config path u =
     (case py_rsplit CHR ''_'' 2 (take (length (uri_filename u) - 4) (uri_filename u)) of
        [package, version, architecture] \<Rightarrow>
          attempt (read_records apt config [''apt-cache'', ''show'', package @ '':'' @ architecture @ ''='' @ version])
            (\<lambda>fs. Inr (filter (\<lambda>f. py_endswith path (''/'' @ dget_or f ''Filename'' [])) fs))
      | _ \<Rightarrow> Inl (BadFilename (uri_filename u)))"

definition binary_of_fields :: "uri \<Rightarrow> fields \<Rightarrow> lock_error + binary" where
  "binary_of_fields u f =
     (if \<not> truthy (dget f ''SHA256'') then attempt (field_of f ''Package'') (\<lambda>p. Inl (NoSha256 p))
      else
        attempt (map_error BadControl (source_identity f)) (\<lambda>(source_name, source_version).
        attempt (field_of f ''Architecture'') (\<lambda>architecture.
        attempt (field_of f ''Filename'') (\<lambda>filename.
        attempt (field_of f ''Package'') (\<lambda>package.
        attempt (field_of f ''Size'') (\<lambda>size_text.
          case py_int size_text of
            None \<Rightarrow> Inl (NotANumber size_text)
          | Some n \<Rightarrow>
              attempt (field_of f ''Version'') (\<lambda>version.
                Inr \<lparr>bin_architecture = architecture, bin_filename = basename filename, bin_package = package,
                     bin_sha256 = the (dget f ''SHA256''), bin_size = n, bin_source_name = source_name,
                     bin_source_version = source_version,
                     bin_target = target_name [''deb'', package, version, architecture],
                     bin_url = uri_url u, bin_version = version\<rparr>)))))))"

text \<open>The only element of a list, or the error its length stands for.\<close>

definition the_only :: "(nat \<Rightarrow> 'e) \<Rightarrow> 'a list \<Rightarrow> 'e + 'a" where
  "the_only e xs = (case xs of [x] \<Rightarrow> Inr x | _ \<Rightarrow> Inl (e (length xs)))"

definition binary_record ::
  "program \<Rightarrow> (string \<Rightarrow> string) \<Rightarrow> string list \<Rightarrow> (string, fields) dict \<Rightarrow> uri \<Rightarrow> lock_error + binary" where
  "binary_record apt utf8 config available u =
     (let path = unquote utf8 (url_path (urlsplit (uri_url u)));
          known = map snd (filter (\<lambda>(name, f). py_endswith path (''/'' @ name)) available)
      in attempt (if known = [] then show_records apt config path u else Inr known) (\<lambda>matches.
           attempt (the_only (RecordCount (uri_filename u)) (unique_records matches)) (binary_of_fields u)))"

text \<open>One record for each target; two records of a target have to agree on the content.\<close>

definition enter_record :: "binary \<Rightarrow> (string, binary) dict \<Rightarrow> lock_error + (string, binary) dict" where
  "enter_record b records =
     (case dget records (bin_target b) of
        None \<Rightarrow> Inr (dset (bin_target b) b records)
      | Some p \<Rightarrow>
          if bin_sha256 p \<noteq> bin_sha256 b then Inl (ConflictingPins (bin_target b))
          else Inr (dset (bin_target b) b records))"

fun enter_records ::
  "(uri \<Rightarrow> lock_error + binary) \<Rightarrow> uri list \<Rightarrow> (string, binary) dict \<Rightarrow> lock_error + (string, binary) dict" where
  "enter_records rec [] records = Inr records"
| "enter_records rec (u # us) records =
     attempt (rec u) (\<lambda>b. attempt (enter_record b records) (enter_records rec us))"

definition records_by_target :: "(uri \<Rightarrow> lock_error + binary) \<Rightarrow> uri list \<Rightarrow> lock_error + (string, binary) dict" where
  "records_by_target rec us = enter_records rec us []"

definition dependency_overlay :: "(string, binary) dict \<Rightarrow> (string, binary) dict \<Rightarrow> binary list" where
  "dependency_overlay base dependencies =
     sort_key bin_target (map snd (filter (\<lambda>(target, b). dget base target = None) dependencies))"

section \<open>Records of sources\<close>

record source_file =
  sf_filename :: string
  sf_sha256 :: string
  sf_size :: int
  sf_target :: string
  sf_url :: string

definition source_file :: "source_files \<Rightarrow> string list \<Rightarrow> uri \<Rightarrow> lock_error + source_file" where
  "source_file metadata met u =
     (let filename = basename (uri_filename u) in
      if filename \<in> set met then Inl (DuplicateUri filename)
      else case dget metadata filename of
        None \<Rightarrow> Inl (NotInMetadata filename)
      | Some (sha256, n) \<Rightarrow>
          if uri_size u \<noteq> n then Inl (SizeMismatch filename (uri_size u) n)
          else if uri_kind u = ''sha256'' \<and> uri_digest u \<noteq> sha256 then Inl (DigestMismatch filename (uri_digest u) sha256)
          else Inr \<lparr>sf_filename = filename, sf_sha256 = sha256, sf_size = n,
                    sf_target = target_name [''source'', filename], sf_url = uri_url u\<rparr>)"

fun source_file_loop :: "source_files \<Rightarrow> string list \<Rightarrow> uri list \<Rightarrow> lock_error + source_file list" where
  "source_file_loop metadata met [] =
     (let missing = sort (filter (\<lambda>n. n \<notin> set met) (keys metadata))
      in if missing \<noteq> [] then Inl (NoUriFor missing) else Inr [])"
| "source_file_loop metadata met (u # us) =
     attempt (source_file metadata met u) (\<lambda>entry.
     attempt (source_file_loop metadata (sf_filename entry # met) us) (\<lambda>files. Inr (entry # files)))"

definition source_files_from_metadata :: "uri list \<Rightarrow> fields \<Rightarrow> lock_error + source_file list" where
  "source_files_from_metadata us f =
     attempt (map_error BadChecksums (dsc_files f)) (\<lambda>metadata. source_file_loop metadata [] us)"

record source =
  src_architecture :: string
  src_binaries :: "string list"
  src_build_depends :: string
  src_files :: "source_file list"
  src_homepage :: "string option"
  src_name :: string
  src_release :: string
  src_version :: string
  src_version_full :: string
  src_metadata :: "binary list"
  src_build_deps :: "binary list"

text \<open>\<open>full_version.rpartition("-")\<close>, with an empty revision where there is no dash.\<close>

definition split_revision :: "string \<Rightarrow> string \<times> string" where
  "split_revision v =
     (case py_rsplit CHR ''-'' 1 v of [upstream, revision] \<Rightarrow> (upstream, revision) | _ \<Rightarrow> (v, []))"

definition mentions :: "string \<Rightarrow> fields \<Rightarrow> bool" where
  "mentions dsc f =
     list_ex (\<lambda>l. py_words l \<noteq> [] \<and> last (py_words l) = dsc) (splitlines (dget_or f ''Checksums-Sha256'' []))"

definition source_matches :: "string \<Rightarrow> string option \<Rightarrow> string \<Rightarrow> fields \<Rightarrow> bool" where
  "source_matches package version dsc f =
     (dget f ''Package'' = Some package \<and> (truthy version \<longrightarrow> dget f ''Version'' = version) \<and> mentions dsc f)"

definition source_of_fields :: "string \<Rightarrow> string option \<Rightarrow> uri list \<Rightarrow> fields \<Rightarrow> lock_error + source" where
  "source_of_fields package version us f =
     attempt (field_of f ''Version'') (\<lambda>full.
       if truthy version \<and> version \<noteq> Some full then Inl (TwoVersions package full (the version))
       else
         attempt (source_files_from_metadata us f) (\<lambda>files.
         attempt (field_of f ''Package'') (\<lambda>name.
           Inr \<lparr>src_architecture = dget_or f ''Architecture'' ''any'',
                src_binaries = map py_strip (py_split CHR '','' (dget_or f ''Binary'' package)),
                src_build_depends = py_join '', ''
                  (filter (\<lambda>v. v \<noteq> []) (map (\<lambda>k. dget_or f k []) [''Build-Depends'', ''Build-Depends-Arch'', ''Build-Depends-Indep''])),
                src_files = files, src_homepage = dget f ''Homepage'', src_name = name,
                src_release = snd (split_revision full), src_version = fst (split_revision full),
                src_version_full = full, src_metadata = [], src_build_deps = []\<rparr>)))"

definition source_record ::
  "program \<Rightarrow> (string \<Rightarrow> string) \<Rightarrow> string list \<Rightarrow> string \<Rightarrow> string option \<Rightarrow> lock_error + source" where
  "source_record apt utf8 config package version =
     attempt (apt_output apt config (apt_source_command package version)) (\<lambda>out.
     attempt (apt_uri_lines utf8 out) (\<lambda>us.
     attempt (the_only (DscCount package) (filter (\<lambda>u. py_endswith (uri_filename u) ''.dsc'') us)) (\<lambda>d.
     attempt (read_records apt config [''apt-cache'', ''showsrc'', package]) (\<lambda>fs.
       let dsc = basename (uri_filename d) in
       attempt (the_only (RecordCount dsc) (unique_records (filter (source_matches package version dsc) fs)))
         (source_of_fields package version us)))))"

section \<open>Which sources are built\<close>

definition identity_of :: "binary \<Rightarrow> string \<times> string" where
  "identity_of b = (bin_source_name b, bin_source_version b)"

text \<open>The set \<open>{entry["package"] for entry in exceptions}\<close>; a list or an object cannot be in a set.\<close>

fun exception_names :: "jobj list \<Rightarrow> lock_error + json list" where
  "exception_names [] = Inr []"
| "exception_names (e # es) =
     (case dget e ''package'' of
        None \<Rightarrow> Inl (NoField ''package'')
      | Some v \<Rightarrow>
          (case v of
             JList _ \<Rightarrow> Inl (NotHashable v)
           | JObj _ \<Rightarrow> Inl (NotHashable v)
           | _ \<Rightarrow> attempt (exception_names es) (\<lambda>ns. Inr (v # ns))))"

record requests =
  rq_requests :: "(string \<times> string, binary list) dict"
  rq_selected :: "(string, string \<times> string) dict"

definition request_binary :: "json list \<Rightarrow> binary \<Rightarrow> requests \<Rightarrow> lock_error + requests" where
  "request_binary excepted b r =
     (let name = bin_package b; identity = identity_of b;
          chosen = r\<lparr>rq_selected := dset name identity (rq_selected r)\<rparr>;
          next_r = (if JStr name \<in> set excepted then chosen
                    else chosen\<lparr>rq_requests := dappend identity b (rq_requests r)\<rparr>)
      in case dget (rq_selected r) name of
           None \<Rightarrow> Inr next_r
         | Some previous \<Rightarrow> if previous \<noteq> identity then Inl (ConflictingSources name previous identity) else Inr next_r)"

fun request_binaries :: "json list \<Rightarrow> binary list \<Rightarrow> requests \<Rightarrow> lock_error + requests" where
  "request_binaries excepted [] r = Inr r"
| "request_binaries excepted (b # bs) r = attempt (request_binary excepted b r) (request_binaries excepted bs)"

fun request_sets ::
  "(string, binary list) dict \<Rightarrow> json list \<Rightarrow> string list \<Rightarrow> requests \<Rightarrow> lock_error + requests" where
  "request_sets image_sets excepted [] r = Inr r"
| "request_sets image_sets excepted (n # ns) r =
     (case dget image_sets n of
        None \<Rightarrow> Inl (MissingSet n)
      | Some bs \<Rightarrow> attempt (request_binaries excepted bs r) (request_sets image_sets excepted ns))"

definition source_requests ::
  "(string, binary list) dict \<Rightarrow> string list \<Rightarrow> jobj list \<Rightarrow> lock_error + requests" where
  "source_requests image_sets source_sets exceptions =
     attempt (exception_names exceptions) (\<lambda>excepted.
     attempt (request_sets image_sets excepted source_sets \<lparr>rq_requests = [], rq_selected = []\<rparr>) (\<lambda>r.
       let unused = filter (\<lambda>n. n \<notin> set (map JStr (keys (rq_selected r)))) excepted
       in if unused \<noteq> [] then Inl (UnmatchedExceptions unused) else Inr r))"

section \<open>The command\<close>

text \<open>\<open>parse_named_packages\<close>, or nothing where argparse refuses the flag.\<close>

definition parse_named_packages :: "string \<Rightarrow> (string \<times> string list) option" where
  "parse_named_packages v =
     (case py_partition CHR ''='' v of (name, found, packages) \<Rightarrow>
        let roots = filter (\<lambda>w. w \<noteq> []) (map py_strip (py_split CHR '','' packages))
        in if \<not> found \<or> name = [] \<or> roots = [] then None else Some (name, roots))"

definition default_repositories :: "string \<Rightarrow> string \<Rightarrow> string \<Rightarrow> string list" where
  "default_repositories distro codename architecture =
     (if distro = ''debian'' then
        let by = ''[signed-by=/usr/share/keyrings/debian-archive-keyring.gpg]'';
            line = (\<lambda>kind rest. kind @ '' '' @ by @ '' '' @ rest @ '' main'');
            main = ''https://deb.debian.org/debian '' @ codename;
            updates = ''https://deb.debian.org/debian '' @ codename @ ''-updates'';
            security = ''https://security.debian.org/debian-security '' @ codename @ ''-security''
        in [line ''deb'' main, line ''deb-src'' main, line ''deb'' updates, line ''deb-src'' updates,
            line ''deb'' security, line ''deb-src'' security]
      else
        let ports = (architecture = ''arm64'');
            archive = (if ports then ''http://ports.ubuntu.com/ubuntu-ports'' else ''http://archive.ubuntu.com/ubuntu'');
            security = (if ports then archive else ''http://security.ubuntu.com/ubuntu'');
            line = (\<lambda>kind base pocket. kind @ '' '' @ base @ '' '' @ codename @ pocket @ '' main universe'')
        in [line ''deb'' archive [], line ''deb-src'' archive [], line ''deb'' archive ''-updates'',
            line ''deb-src'' archive ''-updates'', line ''deb'' security ''-security'', line ''deb-src'' security ''-security''])"

definition lock_target_cpu :: "string \<Rightarrow> string option" where
  "lock_target_cpu architecture =
     (if architecture = ''amd64'' then Some ''x86_64'' else if architecture = ''arm64'' then Some ''aarch64'' else None)"

record deb_args =
  da_distro :: string
  da_release :: string
  da_codename :: string
  da_architecture :: string
  da_source :: "string list"
  da_source_set :: "string list"
  da_source_exception :: "jobj list"
  da_image :: "(string \<times> string list) list"
  da_repository :: "string list"

record deb_lock =
  dl_architecture :: string
  dl_codename :: string
  dl_distro :: string
  dl_release :: string
  dl_image_sets :: "(string, binary list) dict"
  dl_repositories :: "string list"
  dl_base_debs :: "binary list"
  dl_source_policy :: source_policy
  dl_sources :: "source list"
  dl_target_cpu :: string

definition essential_packages :: "program \<Rightarrow> string list \<Rightarrow> lock_error + string list" where
  "essential_packages apt config =
     attempt (read_records apt config [''apt-cache'', ''dumpavail'']) (\<lambda>fs.
       let essential = filter (\<lambda>f. dget f ''Essential'' = Some ''yes'') fs
       in if list_all (\<lambda>f. dget f ''Package'' \<noteq> None) essential
          then Inr (sorted_set (map (\<lambda>f. the (dget f ''Package'')) essential)) else Inl (NoField ''Package''))"

fun image_outputs ::
  "program \<Rightarrow> string list \<Rightarrow> string list \<Rightarrow> (string \<times> string list) list \<Rightarrow> (string, string) dict
   \<Rightarrow> lock_error + (string, string) dict" where
  "image_outputs apt options essential [] outs = Inr outs"
| "image_outputs apt options essential ((name, roots) # images) outs =
     (if dget outs name \<noteq> None then Inl (DuplicateImageSet name)
      else attempt (run_output apt (''apt-get'' # options @ [''install''] @ essential @ roots)) (\<lambda>out.
             image_outputs apt options essential images (dset name out outs)))"

definition uri_records ::
  "(string \<Rightarrow> string) \<Rightarrow> (uri \<Rightarrow> lock_error + binary) \<Rightarrow> string \<Rightarrow> lock_error + (string, binary) dict" where
  "uri_records utf8 rec out = attempt (apt_uri_lines utf8 out) (records_by_target rec)"

fun image_records ::
  "(string \<Rightarrow> string) \<Rightarrow> (uri \<Rightarrow> lock_error + binary) \<Rightarrow> (string, string) dict
   \<Rightarrow> lock_error + (string, binary list) dict" where
  "image_records utf8 rec [] = Inr []"
| "image_records utf8 rec ((name, out) # outs) =
     attempt (uri_records utf8 rec out) (\<lambda>records.
     attempt (image_records utf8 rec outs) (\<lambda>images.
       Inr ((name, sort_key bin_target (map snd records)) # images)))"

text \<open>The packages a build of the source needs beside the base.\<close>

definition build_overlay ::
  "program \<Rightarrow> (string \<Rightarrow> string) \<Rightarrow> string list \<Rightarrow> (uri \<Rightarrow> lock_error + binary) \<Rightarrow> (string, binary) dict
   \<Rightarrow> string \<Rightarrow> string \<Rightarrow> lock_error + binary list" where
  "build_overlay apt utf8 options rec base name version =
     attempt (run_output apt (''apt-get'' # options @ tl (apt_build_dep_command name (Some version)))) (\<lambda>out.
     attempt (uri_records utf8 rec out) (\<lambda>deps. Inr (dependency_overlay base deps)))"

definition by_package :: "binary \<Rightarrow> string \<times> string" where
  "by_package b = (bin_package b, bin_architecture b)"

fun requested_sources ::
  "(string \<Rightarrow> string option \<Rightarrow> lock_error + source) \<Rightarrow> (string \<Rightarrow> string \<Rightarrow> lock_error + binary list)
   \<Rightarrow> ((string \<times> string) \<times> binary list) list \<Rightarrow> (string, string) dict \<Rightarrow> lock_error + source list \<times> (string, string) dict"
where
  "requested_sources src overlay [] names = Inr ([], names)"
| "requested_sources src overlay (((name, version), bs) # rs) names =
     (if truthy (dget names name) \<and> dget names name \<noteq> Some version
      then Inl (TwoVersions name (the (dget names name)) version)
      else
        attempt (src name (Some version)) (\<lambda>s.
          let missing = sorted_set (filter (\<lambda>p. p \<notin> set (src_binaries s)) (map bin_package bs)) in
          if missing \<noteq> [] then Inl (Undeclared name version missing)
          else
            attempt (overlay name version) (\<lambda>deps.
            attempt (requested_sources src overlay rs (dset name version names)) (\<lambda>(ss, names).
              Inr (s\<lparr>src_metadata := sort_key by_package bs, src_build_deps := deps\<rparr> # ss, names)))))"

fun extra_sources ::
  "(string \<Rightarrow> string option \<Rightarrow> lock_error + source) \<Rightarrow> (string \<Rightarrow> string \<Rightarrow> lock_error + binary list)
   \<Rightarrow> (string, string) dict \<Rightarrow> string list \<Rightarrow> lock_error + source list" where
  "extra_sources src overlay names [] = Inr []"
| "extra_sources src overlay names (n # ns) =
     (if dget names n \<noteq> None then extra_sources src overlay names ns
      else
        attempt (src n None) (\<lambda>s.
        attempt (overlay n (src_version_full s)) (\<lambda>deps.
        attempt (extra_sources src overlay names ns) (\<lambda>ss.
          Inr (s\<lparr>src_metadata := [], src_build_deps := deps\<rparr> # ss)))))"

section \<open>The lock as JSON\<close>

definition binary_json :: "binary \<Rightarrow> jobj" where
  "binary_json b =
     [(''architecture'', JStr (bin_architecture b)), (''filename'', JStr (bin_filename b)),
      (''package'', JStr (bin_package b)), (''sha256'', JStr (bin_sha256 b)), (''size'', JInt (bin_size b)),
      (''source'', JStr (source_label (bin_source_name b) (bin_source_version b))),
      (''source_name'', JStr (bin_source_name b)), (''source_version'', JStr (bin_source_version b)),
      (''target'', JStr (bin_target b)), (''url'', JStr (bin_url b)), (''version'', JStr (bin_version b))]"

definition payload_sets :: "(string, binary list) dict \<Rightarrow> (string, jobj list) dict" where
  "payload_sets image_sets = map (\<lambda>(n, bs). (n, map binary_json bs)) image_sets"

definition producers_of :: "source list \<Rightarrow> string set" where
  "producers_of ss = set (map (\<lambda>s. source_label (src_name s) (src_version_full s)) ss)"

definition source_file_json :: "source_file \<Rightarrow> jobj" where
  "source_file_json f =
     [(''filename'', JStr (sf_filename f)), (''sha256'', JStr (sf_sha256 f)), (''size'', JInt (sf_size f)),
      (''target'', JStr (sf_target f)), (''url'', JStr (sf_url f))]"

definition source_json :: "source \<Rightarrow> jobj" where
  "source_json s =
     [(''architecture'', JStr (src_architecture s)), (''binaries'', JList (map JStr (src_binaries s))),
      (''build_depends'', JStr (src_build_depends s)), (''files'', JList (map (JObj \<circ> source_file_json) (src_files s))),
      (''homepage'', case src_homepage s of None \<Rightarrow> JNull | Some h \<Rightarrow> JStr h), (''name'', JStr (src_name s)),
      (''release'', JStr (src_release s)), (''version'', JStr (src_version s)),
      (''version_full'', JStr (src_version_full s)),
      (''binary_metadata'', JList (map (JObj \<circ> binary_json) (src_metadata s))),
      (''build_deps'', JList (map (JObj \<circ> binary_json) (src_build_deps s)))]"

definition deb_lock_json :: "deb_lock \<Rightarrow> jobj" where
  "deb_lock_json l =
     [(''architecture'', JStr (dl_architecture l)), (''codename'', JStr (dl_codename l)),
      (''distro'', JStr (dl_distro l)), (''release'', JStr (dl_release l)),
      (''image_sets'', JObj (map (\<lambda>(n, bs). (n, JList (map JObj bs))) (payload_sets (dl_image_sets l)))),
      (''repositories'', JList (map JStr (dl_repositories l))), (''schema'', JInt 3),
      (''base_debs'', JList (map (JObj \<circ> binary_json) (dl_base_debs l))),
      (''source_policy'', JObj (policy_json (dl_source_policy l))),
      (''sources'', JList (map (JObj \<circ> source_json) (dl_sources l))), (''target_cpu'', JStr (dl_target_cpu l))]"

section \<open>Making the lock\<close>

definition source_sets_of :: "deb_args \<Rightarrow> string list" where
  "source_sets_of args = (if da_source_set args = [] then [''live''] else da_source_set args)"

definition command_options :: "string \<Rightarrow> deb_args \<Rightarrow> string list" where
  "command_options state args =
     apt_options (state @ ''/status'') (state @ ''/archives'') (Some (da_architecture args)) (Some (state @ ''/lists''))
       (Some (state @ ''/sources.list''))"

definition make_lock :: "program \<Rightarrow> (string \<Rightarrow> string) \<Rightarrow> string \<Rightarrow> deb_args \<Rightarrow> lock_error + deb_lock" where
  "make_lock apt utf8 state args =
     (case lock_target_cpu (da_architecture args) of
        None \<Rightarrow> Inl (UnsupportedArchitecture (da_architecture args))
      | Some cpu \<Rightarrow>
          let options = command_options state args; config = take (length options - 3) options in
          attempt (apt_output apt config [''apt-get'', ''update'']) (\<lambda>_.
          attempt (essential_packages apt config) (\<lambda>essential.
          attempt (run_output apt (''apt-get'' # options @ [''install''] @ essential @ [''build-essential'', ''fakeroot''])) (\<lambda>base_output.
          attempt (image_outputs apt options essential (da_image args) []) (\<lambda>image_output.
          attempt (read_records apt config [''apt-cache'', ''dumpavail'']) (\<lambda>fs.
          let rec = binary_record apt utf8 config (available_by_filename fs) in
          attempt (uri_records utf8 rec base_output) (\<lambda>base.
          attempt (image_records utf8 rec image_output) (\<lambda>image_sets.
          attempt (source_requests image_sets (source_sets_of args) (da_source_exception args)) (\<lambda>r.
          let src = source_record apt utf8 config; overlay = build_overlay apt utf8 options rec base in
          attempt (requested_sources src overlay (sorted_items (rq_requests r)) []) (\<lambda>(requested, names).
          attempt (extra_sources src overlay names (da_source args)) (\<lambda>extra.
          attempt (map_error BadPolicy
              (build_source_policy (payload_sets image_sets) (producers_of (requested @ extra)) (da_source_exception args)
                (source_sets_of args))) (\<lambda>policy.
            Inr \<lparr>dl_architecture = da_architecture args, dl_codename = da_codename args, dl_distro = da_distro args,
                 dl_release = da_release args, dl_image_sets = image_sets,
                 dl_repositories =
                   (if da_repository args = []
                    then default_repositories (da_distro args) (da_codename args) (da_architecture args)
                    else da_repository args),
                 dl_base_debs = sort_key bin_target (map snd base), dl_source_policy = policy,
                 dl_sources = sort_key src_name (requested @ extra), dl_target_cpu = cpu\<rparr>))))))))))))"

text \<open>
  \<open>main\<close>: the lock that is written, and whether the message that follows, which reads the summary of the set
  \<^verbatim>\<open>live\<close>, can be printed.
\<close>

definition deb_lock_main :: "program \<Rightarrow> (string \<Rightarrow> string) \<Rightarrow> string \<Rightarrow> deb_args \<Rightarrow> lock_error + deb_lock \<times> bool" where
  "deb_lock_main apt utf8 state args =
     attempt (make_lock apt utf8 state args) (\<lambda>l. Inr (l, dget (pol_summary (dl_source_policy l)) ''live'' \<noteq> None))"

end
