(* ===== verification/DebLockSound.thy ===== *)
theory DebLockSound
  imports DebLock
begin

text \<open>
  What a Debian-family lock holds: the files of a source are those of its signed metadata, the requests are the
  selected binaries grouped by source, and the lock that is written accounts for every binary it selects.
\<close>

section \<open>Files of a source\<close>

text \<open>The specification: the file a URI names, what the metadata has to say of it, and the pin made of both.\<close>

definition uri_file :: "uri \<Rightarrow> string" where
  "uri_file u = basename (uri_filename u)"

definition uri_agrees :: "source_files \<Rightarrow> uri \<Rightarrow> bool" where
  "uri_agrees metadata u =
     (case dget metadata (uri_file u) of
        None \<Rightarrow> False
      | Some (sha256, n) \<Rightarrow> uri_size u = n \<and> (uri_kind u = ''sha256'' \<longrightarrow> uri_digest u = sha256))"

definition pinned_file :: "source_files \<Rightarrow> uri \<Rightarrow> source_file" where
  "pinned_file metadata u =
     (let file_name = uri_file u; entry = the (dget metadata file_name) in
      \<lparr>sf_filename = file_name, sf_sha256 = fst entry, sf_size = snd entry,
       sf_target = target_name [''source'', file_name], sf_url = uri_url u\<rparr>)"

lemma source_file_Inr:
  "source_file metadata met u = Inr f \<longleftrightarrow> uri_file u \<notin> set met \<and> uri_agrees metadata u \<and> f = pinned_file metadata u"
  by (auto simp: source_file_def uri_file_def [symmetric] uri_agrees_def pinned_file_def Let_def split: option.splits prod.splits if_splits)

lemma source_file_loop_Inr:
  "source_file_loop metadata met us = Inr files \<longleftrightarrow>
     list_all (uri_agrees metadata) us \<and> distinct (map uri_file us) \<and> set (map uri_file us) \<inter> set met = {}
     \<and> set (keys metadata) \<subseteq> set met \<union> set (map uri_file us) \<and> files = map (pinned_file metadata) us"
proof (induction us arbitrary: met files)
  case Nil
  have "filter (\<lambda>n. n \<notin> set met) (keys metadata) = [] \<longleftrightarrow> set (keys metadata) \<subseteq> set met"
    by (auto simp: filter_empty_conv)
  then show ?case by (auto simp: Let_def)
next
  case (Cons u us)
  have name: "sf_filename (pinned_file metadata u) = uri_file u" by (simp add: pinned_file_def Let_def)
  have "source_file_loop metadata met (u # us) = Inr files \<longleftrightarrow>
      (\<exists>rest. uri_file u \<notin> set met \<and> uri_agrees metadata u
        \<and> source_file_loop metadata (uri_file u # met) us = Inr rest \<and> files = pinned_file metadata u # rest)"
    by (auto simp: attempt_Inr source_file_Inr name)
  also have "\<dots> \<longleftrightarrow> list_all (uri_agrees metadata) (u # us) \<and> distinct (map uri_file (u # us))
      \<and> set (map uri_file (u # us)) \<inter> set met = {} \<and> set (keys metadata) \<subseteq> set met \<union> set (map uri_file (u # us))
      \<and> files = map (pinned_file metadata) (u # us)"
    unfolding Cons.IH by auto
  finally show ?case .
qed

text \<open>
  C26: The files of a source are bound to its metadata exactly. The URIs that APT prints are accepted if and only if
  the metadata's checksums are well formed and the URIs name each of the listed files once and nothing else, with the
  size listed and, where APT gives a SHA-256, that digest; the pins then carry the metadata's digests and sizes.
\<close>

theorem source_files_exact:
  "source_files_from_metadata us f = Inr files \<longleftrightarrow>
     (\<exists>metadata. dsc_files f = Inr metadata \<and> list_all (uri_agrees metadata) us \<and> distinct (map uri_file us)
        \<and> set (map uri_file us) = set (keys metadata) \<and> files = map (pinned_file metadata) us)"
proof -
  have "uri_file u \<in> set (keys metadata)" if "uri_agrees metadata u" for metadata u
    using that by (auto simp: uri_agrees_def keys_def split: option.splits dest!: map_of_SomeD intro: rev_image_eqI)
  then have "list_all (uri_agrees metadata) us \<Longrightarrow> set (map uri_file us) \<subseteq> set (keys metadata)" for metadata
    by (auto simp: list_all_iff)
  then show ?thesis
    unfolding source_files_from_metadata_def attempt_Inr map_error_Inr source_file_loop_Inr by auto
qed

section \<open>Requests\<close>

text \<open>The specification: the selected binaries, one after the other, and what is kept of them.\<close>

definition chosen_binaries :: "(string, binary list) dict \<Rightarrow> string list \<Rightarrow> binary list" where
  "chosen_binaries image_sets source_sets = concat (map (\<lambda>n. dget_or image_sets n []) source_sets)"

definition one_source :: "binary list \<Rightarrow> bool" where
  "one_source bs = (\<forall>b \<in> set bs. \<forall>c \<in> set bs. bin_package b = bin_package c \<longrightarrow> identity_of b = identity_of c)"

definition requests_of :: "json list \<Rightarrow> binary list \<Rightarrow> requests" where
  "requests_of excepted bs =
     \<lparr>rq_requests = fold (\<lambda>b. dappend (identity_of b) b) (filter (\<lambda>b. JStr (bin_package b) \<notin> set excepted) bs) [],
      rq_selected = fold (\<lambda>b. dset (bin_package b) (identity_of b)) bs []\<rparr>"

lemma selected_of:
  "dget (rq_selected (requests_of ex bs)) p = map_option identity_of (find (\<lambda>b. bin_package b = p) (rev bs))"
proof (induction bs rule: rev_induct)
  case (snoc b bs)
  then show ?case by (simp add: requests_of_def)
qed (simp add: requests_of_def)

lemma find_member: "find P (rev xs) = Some x \<Longrightarrow> x \<in> set xs \<and> P x"
  by (metis find_Some_iff nth_mem set_rev)

lemma selected_agree:
  assumes "one_source bs"
  shows "(\<forall>i. dget (rq_selected (requests_of ex bs)) p = Some i \<longrightarrow> i = j)
    \<longleftrightarrow> (\<forall>c \<in> set bs. bin_package c = p \<longrightarrow> identity_of c = j)"
proof (cases "find (\<lambda>b. bin_package b = p) (rev bs)")
  case None
  then have "\<forall>c \<in> set bs. bin_package c \<noteq> p" by (auto simp: find_None_iff)
  then show ?thesis using None by (simp add: selected_of)
next
  case (Some d)
  have d: "d \<in> set bs" "bin_package d = p" using find_member [OF Some] by simp_all
  have "identity_of c = identity_of d" if "c \<in> set bs" "bin_package c = p" for c
    using assms [unfolded one_source_def, rule_format, OF that(1) d(1)] that d by simp
  then have "(\<forall>c \<in> set bs. bin_package c = p \<longrightarrow> identity_of c = j) \<longleftrightarrow> identity_of d = j"
    using d by metis
  then show ?thesis unfolding selected_of Some option.map by (simp only: option.inject) blast
qed

lemma one_source_snoc:
  "one_source (bs @ [b]) \<longleftrightarrow> one_source bs
     \<and> (\<forall>i. dget (rq_selected (requests_of ex bs)) (bin_package b) = Some i \<longrightarrow> i = identity_of b)"
proof -
  have "one_source (bs @ [b]) \<longleftrightarrow> one_source bs \<and> (\<forall>c \<in> set bs. bin_package c = bin_package b \<longrightarrow> identity_of c = identity_of b)"
    unfolding one_source_def by (simp only: set_append list.set Un_insert_right Un_empty_right ball_simps) (auto dest: sym)
  then show ?thesis using selected_agree by blast
qed

lemma one_source_append: "one_source (as @ bs) \<Longrightarrow> one_source as"
  by (auto simp: one_source_def)

lemma request_binary_Inr:
  assumes "one_source as"
  shows "request_binary ex b (requests_of ex as) = Inr r \<longleftrightarrow> one_source (as @ [b]) \<and> r = requests_of ex (as @ [b])"
  using assms unfolding one_source_snoc [of as b ex] request_binary_def Let_def
  by (auto simp: requests_of_def split: option.splits if_splits)

lemma request_binaries_Inr:
  "one_source as \<Longrightarrow> request_binaries ex bs (requests_of ex as) = Inr r \<longleftrightarrow> one_source (as @ bs) \<and> r = requests_of ex (as @ bs)"
proof (induction bs arbitrary: as)
  case (Cons b bs)
  have "request_binaries ex (b # bs) (requests_of ex as) = Inr r
      \<longleftrightarrow> one_source (as @ [b]) \<and> request_binaries ex bs (requests_of ex (as @ [b])) = Inr r"
    by (auto simp: attempt_Inr request_binary_Inr [OF Cons.prems])
  also have "\<dots> \<longleftrightarrow> one_source (as @ b # bs) \<and> r = requests_of ex (as @ b # bs)"
    using Cons.IH [of "as @ [b]"] one_source_append [of "as @ [b]" bs] by auto
  finally show ?case .
qed auto

lemma request_sets_Inr:
  "one_source as \<Longrightarrow> request_sets image_sets ex ns (requests_of ex as) = Inr r \<longleftrightarrow>
     (\<forall>n \<in> set ns. dget image_sets n \<noteq> None) \<and> one_source (as @ chosen_binaries image_sets ns)
     \<and> r = requests_of ex (as @ chosen_binaries image_sets ns)"
proof (induction ns arbitrary: as)
  case (Cons n ns)
  show ?case
  proof (cases "dget image_sets n")
    case (Some bs)
    then have split: "as @ chosen_binaries image_sets (n # ns) = (as @ bs) @ chosen_binaries image_sets ns"
      by (simp add: chosen_binaries_def dget_or_def)
    have "request_sets image_sets ex (n # ns) (requests_of ex as) = Inr r
        \<longleftrightarrow> one_source (as @ bs) \<and> request_sets image_sets ex ns (requests_of ex (as @ bs)) = Inr r"
      using Some by (auto simp: attempt_Inr request_binaries_Inr [OF Cons.prems])
    also have "\<dots> \<longleftrightarrow> (\<forall>m \<in> set ns. dget image_sets m \<noteq> None)
        \<and> one_source ((as @ bs) @ chosen_binaries image_sets ns) \<and> r = requests_of ex ((as @ bs) @ chosen_binaries image_sets ns)"
      using Cons.IH [of "as @ bs"] one_source_append [of "as @ bs"] by blast
    finally show ?thesis unfolding split using Some by simp
  qed simp
qed (auto simp: chosen_binaries_def)

lemma selected_keys: "set (keys (rq_selected (requests_of ex bs))) = bin_package ` set bs"
proof -
  have "set (map fst (fold (\<lambda>b. dset (bin_package b) (identity_of b)) bs d)) = set (map fst d) \<union> bin_package ` set bs" for d
    by (induction bs arbitrary: d) (simp_all add: dom_update)
  from this [of "[]"] show ?thesis by (simp add: requests_of_def keys_def)
qed

lemma source_requests_iff:
  "source_requests image_sets source_sets exceptions = Inr r \<longleftrightarrow>
     (\<exists>ex. exception_names exceptions = Inr ex \<and> (\<forall>n \<in> set source_sets. dget image_sets n \<noteq> None)
        \<and> one_source (chosen_binaries image_sets source_sets)
        \<and> set ex \<subseteq> (JStr \<circ> bin_package) ` set (chosen_binaries image_sets source_sets)
        \<and> r = requests_of ex (chosen_binaries image_sets source_sets))"
proof -
  let ?bs = "chosen_binaries image_sets source_sets"
  have "request_sets image_sets ex source_sets \<lparr>rq_requests = [], rq_selected = []\<rparr> = Inr q \<longleftrightarrow>
      (\<forall>n \<in> set source_sets. dget image_sets n \<noteq> None) \<and> one_source ?bs \<and> q = requests_of ex ?bs" for ex q
    using request_sets_Inr [of "[]" image_sets ex source_sets q] by (simp add: requests_of_def [of ex "[]"] one_source_def [of "[]"])
  moreover have "filter (\<lambda>n. n \<notin> set (map JStr (keys (rq_selected (requests_of ex ?bs))))) ex = []
      \<longleftrightarrow> set ex \<subseteq> (JStr \<circ> bin_package) ` set ?bs" for ex
    using selected_keys [of ex ?bs] by (auto simp: filter_empty_conv)
  ultimately show ?thesis
    unfolding source_requests_def attempt_Inr Let_def by (auto simp del: set_map split: if_splits)
qed

text \<open>
  The sources a lock builds are requested exactly. The request succeeds if and only if every source set names an
  image set, no binary package is selected with two different sources, and every exception names a selected package;
  what comes out is then the selected binaries in order, grouped by the name and version of their source, the
  excepted ones left out, with the source of every selected package beside.
\<close>

theorem source_requests_exact:
  "source_requests image_sets source_sets exceptions = Inr r \<longleftrightarrow>
     (\<exists>ex. exception_names exceptions = Inr ex \<and> list_all (\<lambda>n. dget image_sets n \<noteq> None) source_sets
        \<and> one_source (chosen_binaries image_sets source_sets)
        \<and> set ex \<subseteq> (JStr \<circ> bin_package) ` set (chosen_binaries image_sets source_sets)
        \<and> r = requests_of ex (chosen_binaries image_sets source_sets))"
  unfolding list_all_iff by (rule source_requests_iff)

section \<open>The lock\<close>

text \<open>The passes over the requests and the further sources, as relations between what goes in and what comes out.\<close>

definition answers_request :: "((string \<times> string) \<times> binary list) \<Rightarrow> source \<Rightarrow> bool" where
  "answers_request rq s =
     (case rq of ((name, version), bs) \<Rightarrow>
        src_name s = name \<and> (version \<noteq> [] \<longrightarrow> src_version_full s = version)
        \<and> bin_package ` set bs \<subseteq> set (src_binaries s) \<and> set (src_metadata s) = set bs)"

definition beside_base :: "(string, binary) dict \<Rightarrow> source \<Rightarrow> bool" where
  "beside_base base s =
     (sorted (map bin_target (src_build_deps s)) \<and> (\<forall>d \<in> set (src_build_deps s). dget base (bin_target d) = None))"

lemma the_only_Inr: "the_only e xs = Inr x \<longleftrightarrow> xs = [x]"
  by (cases xs; cases "tl xs") (auto simp: the_only_def)

lemma unique_records_subset: "set (unique_records fs) \<subseteq> set fs"
proof -
  have "snd ` set (fold (\<lambda>f. dset (record_key f) f) fs d) \<subseteq> set fs \<union> snd ` set d" for d
  proof (induction fs arbitrary: d)
    case (Cons f fs)
    have "snd ` set (dset (record_key f) f d) \<subseteq> insert f (snd ` set d)" by (auto dest!: set_dset)
    then show ?case using Cons.IH [of "dset (record_key f) f d"] by (simp only: fold_simps list.set Un_insert_left) blast
  qed simp
  from this [of "[]"] show ?thesis by (auto simp: unique_records_def)
qed

lemma source_of_fields_name:
  assumes "source_of_fields package version us f = Inr s" and "dget f ''Package'' = Some package"
  shows "src_name s = package" and "truthy version \<Longrightarrow> src_version_full s = the version"
  using assms by (auto simp: source_of_fields_def attempt_Inr field_of_def truthy_def split: if_splits option.splits)

lemma source_record_name:
  assumes "source_record apt utf8 config package version = Inr s"
  shows "src_name s = package \<and> (truthy version \<longrightarrow> src_version_full s = the version)"
proof -
  from assms obtain us and d :: uri and fs f where
    f: "unique_records (filter (source_matches package version (basename (uri_filename d))) fs) = [f]"
      "source_of_fields package version us f = Inr s"
    unfolding source_record_def attempt_Inr the_only_Inr Let_def by (elim exE conjE) (rule that)
  then have "source_matches package version (basename (uri_filename d)) f"
    using unique_records_subset [of "filter (source_matches package version (basename (uri_filename d))) fs"] by auto
  then show ?thesis using source_of_fields_name [OF f(2)] by (auto simp: source_matches_def)
qed

text \<open>A table of records has every record under its target.\<close>

definition by_target :: "(string, binary) dict \<Rightarrow> bool" where
  "by_target d = (distinct (map fst d) \<and> (\<forall>kb \<in> set d. fst kb = bin_target (snd kb)))"

lemma enter_records_by_target: "enter_records rec us d = Inr d' \<Longrightarrow> by_target d \<Longrightarrow> by_target d'"
proof (induction us arbitrary: d)
  case (Cons u us)
  then obtain b e where e: "enter_record b d = Inr e" "enter_records rec us e = Inr d'" by (auto simp: attempt_Inr)
  then have "e = dset (bin_target b) b d" by (auto simp: enter_record_def split: option.splits if_splits)
  then have "by_target e" using Cons.prems(2) by (auto simp: by_target_def dest!: set_dset)
  then show ?case using Cons.IH e(2) by blast
qed simp

lemma uri_records_by_target: "uri_records utf8 rec out = Inr d \<Longrightarrow> by_target d"
  using enter_records_by_target [of rec _ "[]" d] by (auto simp: uri_records_def attempt_Inr records_by_target_def by_target_def [of "[]"])

lemma overlay_beside:
  "by_target deps \<Longrightarrow> d \<in> set (dependency_overlay base deps) \<Longrightarrow> dget base (bin_target d) = None"
  by (auto simp: dependency_overlay_def by_target_def)

lemma requested_sources_Inr:
  assumes "requested_sources src overlay rs names = Inr (ss, names')"
    and "\<And>n v s. src n (Some v) = Inr s \<Longrightarrow> src_name s = n \<and> (v \<noteq> [] \<longrightarrow> src_version_full s = v)"
    and "\<And>n v deps. overlay n v = Inr deps \<Longrightarrow> P deps"
  shows "list_all2 answers_request rs ss \<and> list_all (P \<circ> src_build_deps) ss"
  using assms(1)
proof (induction rs arbitrary: ss names names')
  case (Cons r rs)
  obtain n v bs where r: "r = ((n, v), bs)" by (metis prod_cases3 prod.collapse)
  then obtain s deps rest names2 where s: "src n (Some v) = Inr s"
      "sorted_set (filter (\<lambda>p. p \<notin> set (src_binaries s)) (map bin_package bs)) = []" "overlay n v = Inr deps"
      "requested_sources src overlay rs (dset n v names) = Inr (rest, names2)"
      "ss = s\<lparr>src_metadata := sort_key by_package bs, src_build_deps := deps\<rparr> # rest"
    using Cons.prems by (auto simp: attempt_Inr Let_def split: if_splits)
  have "bin_package ` set bs \<subseteq> set (src_binaries s)" using s(2) by (auto simp: filter_empty_conv)
  then show ?case
    using Cons.IH [OF s(4)] assms(2) [OF s(1)] assms(3) [OF s(3)] r s(5) by (simp add: answers_request_def)
qed simp

lemma extra_sources_Inr:
  assumes "extra_sources src overlay names ns = Inr ss" and "\<And>n v deps. overlay n v = Inr deps \<Longrightarrow> P deps"
  shows "list_all (P \<circ> src_build_deps) ss"
  using assms(1)
proof (induction ns arbitrary: ss)
  case (Cons n ns)
  then show ?case using assms(2) by (auto simp: attempt_Inr split: if_splits)
qed simp

lemma requested_group:
  assumes "b \<in> set bs" and "JStr (bin_package b) \<notin> set ex"
  obtains group where "(identity_of b, group) \<in> set (rq_requests (requests_of ex bs))" and "b \<in> set group"
proof -
  have "dget_or (fold (\<lambda>b. dappend (identity_of b) b) cs d) i [] = dget_or d i [] @ filter (\<lambda>b. identity_of b = i) cs"
    for cs d i by (induction cs arbitrary: d) (simp_all add: dget_or_dappend)
  from this [of _ "[]" "identity_of b"]
  have "b \<in> set (dget_or (rq_requests (requests_of ex bs)) (identity_of b) [])"
    using assms by (simp add: requests_of_def dget_or_def [of "[]"])
  then obtain group where "dget (rq_requests (requests_of ex bs)) (identity_of b) = Some group" "b \<in> set group"
    by (cases "dget (rq_requests (requests_of ex bs)) (identity_of b)") (auto simp: dget_or_def)
  then show thesis using that map_of_SomeD by fast
qed

lemma make_lock_Inr:
  assumes "make_lock apt utf8 state args = Inr l"
  obtains base r requested names extra options config rec where
    "source_requests (dl_image_sets l) (source_sets_of args) (da_source_exception args) = Inr r"
    "by_target base" "dl_base_debs l = sort_key bin_target (map snd base)"
    "requested_sources (source_record apt utf8 config) (build_overlay apt utf8 options rec base) (sorted_items (rq_requests r)) []
      = Inr (requested, names)"
    "extra_sources (source_record apt utf8 config) (build_overlay apt utf8 options rec base) names (da_source args) = Inr extra"
    "dl_sources l = sort_key src_name (requested @ extra)"
    "build_source_policy (payload_sets (dl_image_sets l)) (producers_of (dl_sources l)) (da_source_exception args)
      (source_sets_of args) = Inr (dl_source_policy l)"
proof -
  have producers: "producers_of (sort_key src_name ss) = producers_of ss" for ss by (simp add: producers_of_def)
  show thesis
    using assms unfolding make_lock_def
    by (auto simp: attempt_Inr Let_def producers split: option.splits intro!: that uri_records_by_target)
qed

definition excepted_in :: "jobj list \<Rightarrow> binary \<Rightarrow> bool" where
  "excepted_in exceptions b = (\<exists>raw \<in> set exceptions. dget raw ''package'' = Some (JStr (bin_package b)))"

lemma exception_names_set: "exception_names es = Inr ex \<Longrightarrow> JStr p \<in> set ex \<longleftrightarrow> (\<exists>raw \<in> set es. dget raw ''package'' = Some (JStr p))"
proof (induction es arbitrary: ex)
  case (Cons e es)
  then obtain v where v: "dget e ''package'' = Some v" by (auto split: option.splits)
  then show ?case using Cons by (cases v) (auto simp: attempt_Inr)
qed simp

lemma list_all2_member: "list_all2 P xs ys \<Longrightarrow> x \<in> set xs \<Longrightarrow> \<exists>y \<in> set ys. P x y"
  by (induction rule: list_all2_induct) auto

lemma built_binary:
  assumes lock: "make_lock apt utf8 state args = Inr l" and n: "n \<in> set (source_sets_of args)"
    and bs: "dget (dl_image_sets l) n = Some bs" "b \<in> set bs" and free: "\<not> excepted_in (da_source_exception args) b"
  shows "\<exists>s \<in> set (dl_sources l). answers_request (identity_of b, src_metadata s) s \<and> b \<in> set (src_metadata s)"
proof -
  obtain base r requested names extra options config rec where
    r: "source_requests (dl_image_sets l) (source_sets_of args) (da_source_exception args) = Inr r"
    and req: "requested_sources (source_record apt utf8 config) (build_overlay apt utf8 options rec base) (sorted_items (rq_requests r)) []
      = Inr (requested, names)"
    and src: "dl_sources l = sort_key src_name (requested @ extra)"
    by (rule make_lock_Inr [OF lock])
  obtain ex where ex: "exception_names (da_source_exception args) = Inr ex"
      "r = requests_of ex (chosen_binaries (dl_image_sets l) (source_sets_of args))"
    using r unfolding source_requests_iff by blast
  have "b \<in> set (chosen_binaries (dl_image_sets l) (source_sets_of args))"
    using n bs by (force simp: chosen_binaries_def dget_or_def)
  moreover have "JStr (bin_package b) \<notin> set ex"
    using free exception_names_set [OF ex(1)] by (simp add: excepted_in_def)
  ultimately obtain g where g: "(identity_of b, g) \<in> set (rq_requests r)" "b \<in> set g"
    using requested_group ex(2) by blast
  have "list_all2 answers_request (sorted_items (rq_requests r)) requested"
    using requested_sources_Inr [OF req, of "\<lambda>_. True"] source_record_name by (fastforce simp: truthy_def)
  from list_all2_member [OF this, of "(identity_of b, g)"]
  obtain s where "s \<in> set requested" "answers_request (identity_of b, g) s"
    using g(1) by (auto simp: sorted_items_facts(1))
  then show ?thesis using g(2) src by (auto simp: answers_request_def intro!: bexI [of _ s] split: prod.splits)
qed

lemma lock_beside_base:
  assumes "make_lock apt utf8 state args = Inr l" and "s \<in> set (dl_sources l)" and "d \<in> set (src_build_deps s)"
  shows "bin_target d \<notin> bin_target ` set (dl_base_debs l)"
proof -
  obtain base and r :: requests and requested names extra options config rec where
    base: "by_target base" "dl_base_debs l = sort_key bin_target (map snd base)"
    and req: "requested_sources (source_record apt utf8 config) (build_overlay apt utf8 options rec base) (sorted_items (rq_requests r)) []
      = Inr (requested, names)"
    and extra: "extra_sources (source_record apt utf8 config) (build_overlay apt utf8 options rec base) names (da_source args) = Inr extra"
    and src: "dl_sources l = sort_key src_name (requested @ extra)"
    by (rule make_lock_Inr [OF assms(1)])
  let ?P = "\<lambda>deps. \<forall>d \<in> set deps. dget base (bin_target d) = None"
  have overlay: "?P deps" if made: "build_overlay apt utf8 options rec base n v = Inr deps" for n v deps
  proof -
    obtain out ds where "uri_records utf8 rec out = Inr ds" "deps = dependency_overlay base ds"
      using made by (auto simp: build_overlay_def attempt_Inr)
    then show ?thesis using overlay_beside uri_records_by_target by blast
  qed
  have "list_all (?P \<circ> src_build_deps) requested"
    using requested_sources_Inr [OF req, of ?P] source_record_name overlay by (fastforce simp: truthy_def)
  moreover have "list_all (?P \<circ> src_build_deps) extra" using extra_sources_Inr [OF extra, of ?P] overlay by blast
  ultimately have "dget base (bin_target d) = None" using assms(2,3) src by (auto simp: list_all_iff)
  then have "bin_target d \<notin> fst ` set base" by (simp add: map_of_eq_None_iff)
  moreover have "bin_target ` set (dl_base_debs l) = fst ` set base"
    using base by (force simp: by_target_def image_iff)
  ultimately show ?thesis by simp
qed

lemma entry_package: "entry_of raw = Some e \<Longrightarrow> text_of raw ''package'' = Some (exc_package e)"
  by (auto simp: entry_of_def split: option.splits sum.splits if_splits)

text \<open>
  C25: The lock accounts for every binary it selects. In a lock that is made, every source set is an image set of the
  lock, and of every binary in it one of two things holds. Either no exception names it; then its source is among
  those the lock builds, which declares it, lists it with its metadata and has the name and, where there is one, the
  version the binary gives, and the lock's producers produce it. Or an exception names it; then no producer does, and
  an exception of a reviewed kind covers it. No source lists a build dependency that is in the base already.
\<close>

theorem lock_accounts_for_binaries:
  assumes "make_lock apt utf8 state args = Inr l" and "n \<in> set (source_sets_of args)"
  shows "\<exists>bs. dget (dl_image_sets l) n = Some bs
    \<and> (\<forall>b \<in> set bs.
         if excepted_in (da_source_exception args) b
         then source_label (bin_source_name b) (bin_source_version b) \<notin> producers_of (dl_sources l)
           \<and> (\<exists>raw \<in> set (da_source_exception args). \<exists>e. entry_of raw = Some e \<and> exc_package e = bin_package b \<and> matches e (binary_json b))
         else source_label (bin_source_name b) (bin_source_version b) \<in> producers_of (dl_sources l)
           \<and> (\<exists>s \<in> set (dl_sources l). src_name s = bin_source_name b
                \<and> (bin_source_version b \<noteq> [] \<longrightarrow> src_version_full s = bin_source_version b)
                \<and> bin_package b \<in> set (src_binaries s) \<and> b \<in> set (src_metadata s)))
    \<and> (\<forall>s \<in> set (dl_sources l). \<forall>d \<in> set (src_build_deps s). bin_target d \<notin> bin_target ` set (dl_base_debs l))"
proof -
  obtain r where r: "source_requests (dl_image_sets l) (source_sets_of args) (da_source_exception args) = Inr r"
    and pol: "build_source_policy (payload_sets (dl_image_sets l)) (producers_of (dl_sources l)) (da_source_exception args)
      (source_sets_of args) = Inr (dl_source_policy l)"
    by (rule make_lock_Inr [OF assms(1)])
  obtain bs where bs: "dget (dl_image_sets l) n = Some bs"
    using r assms(2) unfolding source_requests_iff by fast
  obtain es where es: "map entry_of (da_source_exception args) = map Some es"
      "admissible (payload_sets (dl_image_sets l)) (producers_of (dl_sources l)) es (source_sets_of args)"
    by (rule build_sound [OF pol])
  have payloads: "payloads_of (payload_sets (dl_image_sets l)) n = map binary_json bs"
    using bs by (simp add: payloads_of_def payload_sets_def dget_or_def map_of_map)
  have cov: "covered (producers_of (dl_sources l)) es (binary_json b)" if "b \<in> set bs" for b
    using es(2) assms(2) that payloads unfolding admissible_def by auto
  have named: "text_of raw ''package'' = Some p \<Longrightarrow> dget raw ''package'' = Some (JStr p)" for raw p
    by (auto simp: text_of_def split: option.splits json.splits if_splits)
  have raws: "e \<in> set es \<longleftrightarrow> (\<exists>raw \<in> set (da_source_exception args). entry_of raw = Some e)" for e
  proof -
    have "Some e \<in> set (map entry_of (da_source_exception args)) \<longleftrightarrow> e \<in> set es" unfolding es(1) by auto
    then show ?thesis unfolding set_map image_iff by metis
  qed
  have "if excepted_in (da_source_exception args) b
      then source_label (bin_source_name b) (bin_source_version b) \<notin> producers_of (dl_sources l)
        \<and> (\<exists>raw \<in> set (da_source_exception args). \<exists>e. entry_of raw = Some e \<and> exc_package e = bin_package b \<and> matches e (binary_json b))
      else source_label (bin_source_name b) (bin_source_version b) \<in> producers_of (dl_sources l)
        \<and> (\<exists>s \<in> set (dl_sources l). src_name s = bin_source_name b
             \<and> (bin_source_version b \<noteq> [] \<longrightarrow> src_version_full s = bin_source_version b)
             \<and> bin_package b \<in> set (src_binaries s) \<and> b \<in> set (src_metadata s))" if b: "b \<in> set bs" for b
  proof -
    have pkg: "text_of (binary_json b) ''package'' = Some (bin_package b)" "name_of (binary_json b) = bin_package b"
      using cov [OF b] by (auto simp: covered_def name_of_def text_of_def binary_json_def split: if_splits)
    have produced: "produced P (binary_json b) \<longleftrightarrow> source_label (bin_source_name b) (bin_source_version b) \<in> P" for P
      by (simp add: produced_def payload_source_def dget_or_def binary_json_def)
    have excepted: "excepted_in (da_source_exception args) b \<longleftrightarrow> (\<exists>e \<in> set es. exc_package e = bin_package b)"
    proof
      assume "excepted_in (da_source_exception args) b"
      then obtain raw where raw: "raw \<in> set (da_source_exception args)" "dget raw ''package'' = Some (JStr (bin_package b))"
        by (auto simp: excepted_in_def)
      then have "entry_of raw \<in> Some ` set es" using es(1) by (metis imageI set_map)
      then obtain e where e: "entry_of raw = Some e" "e \<in> set es" by auto
      then show "\<exists>e \<in> set es. exc_package e = bin_package b" using raw(2) named [OF entry_package [OF e(1)]] by auto
    next
      assume "\<exists>e \<in> set es. exc_package e = bin_package b"
      then obtain e where e: "e \<in> set es" "exc_package e = bin_package b" by blast
      then obtain raw where raw: "raw \<in> set (da_source_exception args)" "entry_of raw = Some e" using raws by blast
      then have "dget raw ''package'' = Some (JStr (bin_package b))" using named [OF entry_package] e(2) by simp
      then show "excepted_in (da_source_exception args) b" using raw(1) unfolding excepted_in_def by blast
    qed
    show ?thesis
    proof (cases "excepted_in (da_source_exception args) b")
      case True
      then have "\<exists>e \<in> set es. exc_package e = bin_package b" using excepted by blast
      with cov [OF b] have "source_label (bin_source_name b) (bin_source_version b) \<notin> producers_of (dl_sources l)"
        "\<exists>e \<in> set es. exc_package e = bin_package b \<and> matches e (binary_json b)"
        unfolding covered_def pkg produced by (auto split: if_splits)
      then show ?thesis using True raws by (simp only: if_True) blast
    next
      case False
      then have "\<forall>e \<in> set es. exc_package e \<noteq> bin_package b" using excepted by blast
      with cov [OF b] have "source_label (bin_source_name b) (bin_source_version b) \<in> producers_of (dl_sources l)"
        unfolding covered_def pkg produced by (auto split: if_splits)
      then show ?thesis
        using False built_binary [OF assms bs b False] by (auto simp: answers_request_def identity_of_def)
    qed
  qed
  then show ?thesis using bs lock_beside_base [OF assms(1)] by blast
qed

section \<open>A lock\<close>

definition demo_avail :: string where
  "demo_avail = concat (map (\<lambda>l. l @ [newline])
     [''Package: sh'', ''Version: 5+b1'', ''Architecture: any'', ''Filename: sh.deb'', ''Size: 10'', ''SHA256: aa'', [],
      ''Package: fw'', ''Version: 1'', ''Architecture: all'', ''Filename: fw.deb'', ''Size: 9'', ''SHA256: bb'', [],
      ''Package: m4'', ''Version: 2'', ''Architecture: any'', ''Filename: m4.deb'', ''Size: 8'', ''SHA256: cc''])"

definition demo_source :: string where
  "demo_source = concat (map (\<lambda>l. l @ [newline])
     [''Package: sh'', ''Version: 5'', ''Binary: sh, sh-doc'', ''Checksums-Sha256:'',
      '' '' @ demo_digest @ '' 7 sh.dsc''])"

definition demo_uri :: "string \<Rightarrow> string \<Rightarrow> string" where
  "demo_uri name rest = CHR 0x27 # ''http://d/'' @ name @ CHR 0x27 # '' '' @ name @ '' '' @ rest @ [newline]"

definition demo_apt :: program where
  "demo_apt command =
     (if ''update'' \<in> set command then Some []
      else if ''dumpavail'' \<in> set command then Some demo_avail
      else if ''showsrc'' \<in> set command then Some demo_source
      else if ''source'' \<in> set command then Some (demo_uri ''sh.dsc'' ''7 MD5Sum:00'')
      else if ''build-dep'' \<in> set command then Some (demo_uri ''sh.deb'' ''10 SHA256:aa'' @ demo_uri ''m4.deb'' ''8 SHA256:cc'')
      else if ''linux'' \<in> set command then Some (''Reading'' @ newline # demo_uri ''sh.deb'' ''10 SHA256:aa'' @ demo_uri ''fw.deb'' ''9 SHA256:bb'')
      else Some (demo_uri ''sh.deb'' ''10 SHA256:aa''))"

definition demo_deb_args :: deb_args where
  "demo_deb_args =
     \<lparr>da_distro = ''debian'', da_release = ''13'', da_codename = ''trixie'', da_architecture = ''amd64'', da_source = [],
      da_source_set = [],
      da_source_exception =
        [[(''package'', JStr ''fw''), (''kind'', JStr ''firmware''), (''reason'', JStr ''blob''), (''source'', JStr ''fw@1'')]],
      da_image = [(''live'', [''linux''])], da_repository = []\<rparr>"

lemma demo_lock_made:
  "case make_lock demo_apt id ''/t'' demo_deb_args of
     Inl _ \<Rightarrow> False
   | Inr l \<Rightarrow>
       map_option (map bin_package) (dget (dl_image_sets l) ''live'') = Some [''fw'', ''sh'']
       \<and> map src_name (dl_sources l) = [''sh''] \<and> map (map bin_package \<circ> src_build_deps) (dl_sources l) = [[''m4'']]
       \<and> map bin_package (dl_base_debs l) = [''sh'']"
  by code_simp

lemma lock_accounts_for_binaries_witness:
  "\<exists>l bs. make_lock demo_apt id ''/t'' demo_deb_args = Inr l \<and> dget (dl_image_sets l) ''live'' = Some bs
     \<and> map bin_package bs = [''fw'', ''sh'']
     \<and> list_all (\<lambda>b. excepted_in (da_source_exception demo_deb_args) b \<or> list_ex (\<lambda>s. b \<in> set (src_metadata s)) (dl_sources l)) bs
     \<and> list_all (\<lambda>s. list_all (\<lambda>d. bin_target d \<notin> bin_target ` set (dl_base_debs l)) (src_build_deps s)) (dl_sources l)"
proof -
  obtain l where l: "make_lock demo_apt id ''/t'' demo_deb_args = Inr l"
      "map_option (map bin_package) (dget (dl_image_sets l) ''live'') = Some [''fw'', ''sh'']"
    using demo_lock_made by (cases "make_lock demo_apt id ''/t'' demo_deb_args") auto
  have "''live'' \<in> set (source_sets_of demo_deb_args)" by (simp add: source_sets_of_def demo_deb_args_def)
  note accounts = lock_accounts_for_binaries [OF l(1) this]
  obtain bs where bs: "dget (dl_image_sets l) ''live'' = Some bs" "map bin_package bs = [''fw'', ''sh'']" using l(2) by auto
  have "\<exists>s \<in> set (dl_sources l). b \<in> set (src_metadata s)"
    if "b \<in> set bs" "\<not> excepted_in (da_source_exception demo_deb_args) b" for b
    using accounts bs(1) that by fastforce
  moreover have "bin_target d \<notin> bin_target ` set (dl_base_debs l)" if "s \<in> set (dl_sources l)" "d \<in> set (src_build_deps s)" for s d
    using accounts that by blast
  ultimately show ?thesis using l(1) bs unfolding list_all_iff list_ex_iff by (intro exI [of _ l] exI [of _ bs]) blast
qed

text \<open>After the lock is written, the message that \<^verbatim>\<open>main\<close> prints fails unless \<^verbatim>\<open>live\<close> is a source set.\<close>

lemma main_needs_live:
  assumes "deb_lock_main apt utf8 state args = Inr (l, printed)"
  shows "printed \<longleftrightarrow> ''live'' \<in> set (source_sets_of args)"
proof -
  have l: "make_lock apt utf8 state args = Inr l" "printed \<longleftrightarrow> dget (pol_summary (dl_source_policy l)) ''live'' \<noteq> None"
    using assms by (auto simp: deb_lock_main_def attempt_Inr)
  obtain es where "dl_source_policy l = policy_for (payload_sets (dl_image_sets l)) (producers_of (dl_sources l)) es (source_sets_of args)"
    by (rule make_lock_Inr [OF l(1)]) (auto elim!: build_sound)
  then show ?thesis using l(2) by (auto simp: policy_for_def map_of_eq_None_iff image_image)
qed

end
