(* ===== verification/Verity.thy ===== *)
theory Verity
  imports Lockfile "HOL-Library.Word"
begin

unbundle bit_operations_syntax

text \<open>
  \<^verbatim>\<open>tools/_verity.py\<close>: the hash tree of an image in the kernel's version-1 dm-verity format
  without a superblock, its metadata, and the arguments the boot hook is given. The hash functions of the standard
  library are a parameter \<open>hash\<close>, of the algorithm and the bytes; files are their contents.
\<close>

type_synonym bytes = "8 word list"
type_synonym hasher = "string \<Rightarrow> bytes \<Rightarrow> bytes"

definition SCHEMA :: string where
  "SCHEMA = ''buckos.dm-verity.v1''"

definition ALGORITHMS :: "string list" where
  "ALGORITHMS = [''sha256'', ''sha512'']"

definition CORRUPTION_POLICIES :: "string list" where
  "CORRUPTION_POLICIES = [''eio'', ''panic'', ''restart'']"

definition digest_size :: "string \<Rightarrow> nat" where
  "digest_size algorithm = (if algorithm = ''sha256'' then 32 else 64)"

datatype verity_error =
    BadAlgorithm
  | BadBlockSize string
  | BadHashesPerBlock
  | NoSalt
  | LongSalt
  | BadSalt
  | EmptyImage
  | PartialBlock
  | BadPolicyName
  | BadSchema
  | MissingKeys "string list"
  | BadVersion
  | NotHexadecimal
  | BadRootHash
  | BadBlockCount
  | NotComparable
  | DivisionByZero

section \<open>Parameters\<close>

definition validate_block_size :: "int \<Rightarrow> string \<Rightarrow> verity_error + unit" where
  "validate_block_size n name =
     (if n < 512 \<or> n > 65536 \<or> n AND (n - 1) \<noteq> 0 then Inl (BadBlockSize name) else Inr ())"

definition validate_parameters :: "string \<Rightarrow> int \<Rightarrow> int \<Rightarrow> bytes \<Rightarrow> verity_error + int" where
  "validate_parameters algorithm data_block_size hash_block_size salt =
     (if algorithm \<notin> set ALGORITHMS then Inl BadAlgorithm
      else
        attempt (validate_block_size data_block_size ''data block size'') (\<lambda>_.
        attempt (validate_block_size hash_block_size ''hash block size'') (\<lambda>_.
          let hashes_per_block = hash_block_size div int (digest_size algorithm) in
          if hashes_per_block = 0 \<or> hashes_per_block AND (hashes_per_block - 1) \<noteq> 0 then Inl BadHashesPerBlock
          else if salt = [] then Inl NoSalt
          else if length salt > 256 then Inl LongSalt
          else Inr hashes_per_block)))"

text \<open>\<open>bytes.fromhex\<close>, which skips white space between bytes, and \<open>bytes.hex\<close>.\<close>

fun fromhex :: "string \<Rightarrow> bytes option" where
  "fromhex [] = Some []"
| "fromhex (c # s) =
     (if ascii_space c then fromhex s
      else case s of
        [] \<Rightarrow> None
      | d # r \<Rightarrow>
          (case (hex_value c, hex_value d) of
             (Some h, Some l) \<Rightarrow> map_option ((#) (word_of_nat (16 * h + l))) (fromhex r)
           | _ \<Rightarrow> None))"

definition tohex :: "bytes \<Rightarrow> string" where
  "tohex bs = concat (map (\<lambda>b. [hex_digit (unat b div 16), hex_digit (unat b mod 16)]) bs)"

definition parse_salt :: "string \<Rightarrow> verity_error + bytes option" where
  "parse_salt v =
     (if v = ''auto'' then Inr None
      else case fromhex v of
        None \<Rightarrow> Inl BadSalt
      | Some salt \<Rightarrow> if salt = [] then Inl NoSalt else Inr (Some salt))"

section \<open>The tree\<close>

text \<open>The data as it is copied: its size, and zeros up to the next block.\<close>

definition padded :: "bytes \<Rightarrow> int \<Rightarrow> bytes" where
  "padded data block_size = data @ replicate (nat ((- int (length data)) mod block_size)) 0"

function chunks :: "nat \<Rightarrow> 'a list \<Rightarrow> 'a list list" where
  "chunks n xs = (if xs = [] \<or> n = 0 then [] else take n xs # chunks n (drop n xs))"
  by pat_completeness auto
termination
  by (relation "measure (\<lambda>(_, xs). length xs)") auto

declare chunks.simps [simp del]

definition block_digest :: "hasher \<Rightarrow> string \<Rightarrow> bytes \<Rightarrow> bytes \<Rightarrow> bytes" where
  "block_digest hash algorithm salt block = hash algorithm (salt @ block)"

definition hash_data :: "hasher \<Rightarrow> string \<Rightarrow> bytes \<Rightarrow> nat \<Rightarrow> bytes \<Rightarrow> verity_error + bytes list" where
  "hash_data hash algorithm salt block_size data =
     (if list_ex (\<lambda>b. length b \<noteq> block_size) (chunks block_size data) then Inl PartialBlock
      else Inr (map (block_digest hash algorithm salt) (chunks block_size data)))"

definition hash_level :: "nat \<Rightarrow> nat \<Rightarrow> bytes list \<Rightarrow> bytes list" where
  "hash_level hash_block_size hashes_per_block digests =
     map (\<lambda>ds. concat ds @ replicate (hash_block_size - length (concat ds)) 0) (chunks hashes_per_block digests)"

text \<open>The levels from the leaves upward, and the digest of the last one's only block. The loop need not end.\<close>

partial_function (option) hash_levels ::
  "hasher \<Rightarrow> string \<Rightarrow> bytes \<Rightarrow> nat \<Rightarrow> nat \<Rightarrow> bytes list \<Rightarrow> (bytes list list \<times> bytes) option" where
  "hash_levels hash algorithm salt hash_block_size hashes_per_block digests =
     (let blocks = hash_level hash_block_size hashes_per_block digests in
      if length blocks = 1 then Some ([blocks], block_digest hash algorithm salt (hd blocks))
      else
        Option.bind
          (hash_levels hash algorithm salt hash_block_size hashes_per_block (map (block_digest hash algorithm salt) blocks))
          (\<lambda>(levels, root). Some (blocks # levels, root)))"

declare hash_levels.simps [code]

record tree =
  tree_file :: bytes
  tree_root :: bytes
  tree_blocks :: nat

definition build_hash_tree ::
  "hasher \<Rightarrow> bytes \<Rightarrow> string \<Rightarrow> bytes \<Rightarrow> int \<Rightarrow> int \<Rightarrow> (verity_error + tree) option" where
  "build_hash_tree hash data algorithm salt data_block_size hash_block_size =
     (case validate_parameters algorithm data_block_size hash_block_size salt of
        Inl e \<Rightarrow> Some (Inl e)
      | Inr hashes_per_block \<Rightarrow>
          (case hash_data hash algorithm salt (nat data_block_size) data of
             Inl e \<Rightarrow> Some (Inl e)
           | Inr digests \<Rightarrow>
               if digests = [] then Some (Inl EmptyImage)
               else if length digests = 1
               then Some (Inr \<lparr>tree_file = [], tree_root = hd digests, tree_blocks = 1\<rparr>)
               else
                 map_option
                   (\<lambda>(levels, root). Inr \<lparr>tree_file = concat (concat (rev levels)), tree_root = root, tree_blocks = length digests\<rparr>)
                   (hash_levels hash algorithm salt (nat hash_block_size) (nat hashes_per_block) digests)))"

section \<open>The image\<close>

record image =
  img_data :: bytes
  img_tree :: bytes
  img_metadata :: jobj
  img_root_hash :: string

definition domain_prefix :: bytes where
  "domain_prefix = map (\<lambda>c. word_of_nat (of_char c)) SCHEMA @ [0]"

definition verity_metadata ::
  "string \<Rightarrow> string \<Rightarrow> int \<Rightarrow> int \<Rightarrow> nat \<Rightarrow> nat \<Rightarrow> bytes \<Rightarrow> tree \<Rightarrow> jobj" where
  "verity_metadata algorithm policy data_block_size hash_block_size data_size padded_size salt t =
     [(''algorithm'', JStr algorithm), (''corruption_policy'', JStr policy), (''data_block_size'', JInt data_block_size),
      (''data_blocks'', JInt (int (tree_blocks t))), (''data_size'', JInt (int data_size)),
      (''hash_block_size'', JInt hash_block_size), (''hash_start_block'', JInt 0),
      (''hash_tree_size'', JInt (int (length (tree_file t)))), (''padded_data_size'', JInt (int padded_size)),
      (''root_hash'', JStr (tohex (tree_root t))), (''salt'', JStr (tohex salt)), (''schema'', JStr SCHEMA),
      (''version'', JInt 1)]"

definition format_image ::
  "hasher \<Rightarrow> bytes \<Rightarrow> string \<Rightarrow> string \<Rightarrow> int \<Rightarrow> int \<Rightarrow> string \<Rightarrow> (verity_error + image) option" where
  "format_image hash source algorithm salt_value data_block_size hash_block_size policy =
     (case parse_salt salt_value of
        Inl e \<Rightarrow> Some (Inl e)
      | Inr explicit_salt \<Rightarrow>
          if source = [] then Some (Inl EmptyImage)
          else if data_block_size = 0 then Some (Inl DivisionByZero)
          else if policy \<notin> set CORRUPTION_POLICIES then Some (Inl BadPolicyName)
          else
            let data = padded source data_block_size;
                salt = (case explicit_salt of
                          None \<Rightarrow> hash ''sha256'' (domain_prefix @ hash ''sha256'' source) | Some s \<Rightarrow> s)
            in map_option
                 (\<lambda>r. attempt r (\<lambda>t. Inr \<lparr>img_data = data, img_tree = tree_file t,
                    img_metadata = verity_metadata algorithm policy data_block_size hash_block_size (length source) (length data) salt t,
                    img_root_hash = tohex (tree_root t)\<rparr>))
                 (build_hash_tree hash data algorithm salt data_block_size hash_block_size))"

section \<open>Reading metadata\<close>

definition REQUIRED :: "string list" where
  "REQUIRED =
     [''algorithm'', ''corruption_policy'', ''data_block_size'', ''data_blocks'', ''hash_block_size'', ''hash_start_block'',
      ''root_hash'', ''salt'', ''version'']"

text \<open>What arithmetic sees of a value: a truth value is a number, and any other value is not comparable.\<close>

definition number_of :: "json \<Rightarrow> verity_error + int" where
  "number_of v = (case v of JInt n \<Rightarrow> Inr n | JBool b \<Rightarrow> Inr (truth_int b) | _ \<Rightarrow> Inl NotComparable)"

definition hex_of :: "json \<Rightarrow> verity_error + bytes" where
  "hex_of v =
     (case v of
        JStr s \<Rightarrow> (case fromhex s of None \<Rightarrow> Inl NotHexadecimal | Some b \<Rightarrow> Inr b)
      | _ \<Rightarrow> Inl NotHexadecimal)"

definition text_in :: "string list \<Rightarrow> json \<Rightarrow> bool" where
  "text_in names v = (case v of JStr s \<Rightarrow> s \<in> set names | _ \<Rightarrow> False)"

definition load_metadata :: "jobj \<Rightarrow> verity_error + jobj" where
  "load_metadata md =
     (let field = (\<lambda>k. dget_or md k JNull);
          missing = sort (filter (\<lambda>k. dget md k = None) REQUIRED)
      in if \<not> json_eq (field ''schema'') (JStr SCHEMA) then Inl BadSchema
         else if missing \<noteq> [] then Inl (MissingKeys missing)
         else if \<not> json_eq (field ''version'') (JInt 1) \<or> \<not> json_eq (field ''hash_start_block'') (JInt 0) then Inl BadVersion
         else
           attempt (hex_of (field ''salt'')) (\<lambda>salt.
           attempt (hex_of (field ''root_hash'')) (\<lambda>root.
             if \<not> text_in ALGORITHMS (field ''algorithm'') then Inl BadAlgorithm
             else
               let algorithm = (case field ''algorithm'' of JStr a \<Rightarrow> a | _ \<Rightarrow> []) in
               attempt (number_of (field ''data_block_size'')) (\<lambda>data_block_size.
               attempt (validate_block_size data_block_size ''data block size'') (\<lambda>_.
               attempt (number_of (field ''hash_block_size'')) (\<lambda>hash_block_size.
               attempt (validate_parameters algorithm data_block_size hash_block_size salt) (\<lambda>_.
                 if length root \<noteq> digest_size algorithm then Inl BadRootHash
                 else
                   attempt (number_of (field ''data_blocks'')) (\<lambda>n.
                     if n \<le> 0 then Inl BadBlockCount
                     else if \<not> text_in CORRUPTION_POLICIES (field ''corruption_policy'') then Inl BadPolicyName
                     else Inr md))))))))"

text \<open>\<open>"{}".format(v)\<close> for the values that are not containers.\<close>

definition formatted :: "json \<Rightarrow> string option" where
  "formatted v =
     (case v of
        JStr s \<Rightarrow> Some s
      | JInt n \<Rightarrow> Some (int_text n)
      | JBool b \<Rightarrow> Some (if b then ''True'' else ''False'')
      | JNull \<Rightarrow> Some ''None''
      | _ \<Rightarrow> None)"

definition argument :: "jobj \<Rightarrow> string \<times> string \<Rightarrow> string option" where
  "argument md a =
     (case dget md (snd a) of
        None \<Rightarrow> None
      | Some v \<Rightarrow> map_option (\<lambda>w. ''rd.buckos.verity.'' @ fst a @ ''='' @ w) (formatted v))"

definition kernel_arguments :: "jobj \<Rightarrow> string \<Rightarrow> string \<Rightarrow> string \<Rightarrow> string \<Rightarrow> string list option" where
  "kernel_arguments md media data_path hash_path mapper =
     (let slashes = dropWhile (\<lambda>c. c = CHR ''/'')
      in map_option
        (\<lambda>fields.
          [''rd.buckos.verity=1'', ''rd.buckos.verity.media='' @ media, ''rd.buckos.verity.data='' @ slashes data_path,
           ''rd.buckos.verity.hash='' @ slashes hash_path] @ fields @ [''rd.buckos.verity.mapper='' @ mapper])
        (those (map (argument md)
          [(''root_hash'', ''root_hash''), (''salt'', ''salt''), (''algorithm'', ''algorithm''), (''data_blocks'', ''data_blocks''),
           (''data_block_size'', ''data_block_size''), (''hash_block_size'', ''hash_block_size''),
           (''hash_start_block'', ''hash_start_block''), (''corruption'', ''corruption_policy'')])))"

section \<open>Blocks\<close>

lemma concat_chunks: "0 < n \<Longrightarrow> concat (chunks n xs) = xs"
  by (induction n xs rule: chunks.induct) (subst chunks.simps, auto)

lemma length_chunks: "0 < n \<Longrightarrow> length (chunks n xs) = (length xs + n - 1) div n"
proof (induction n xs rule: chunks.induct)
  case (1 n xs)
  consider (none) "xs = []" | (short) "xs \<noteq> []" "length xs \<le> n" | (long) "n < length xs" by fastforce
  then show ?case
  proof cases
    case none
    then show ?thesis using 1(2) by (simp add: chunks.simps)
  next
    case short
    have "chunks n (drop n xs) = []" using short(2) by (simp add: chunks.simps)
    then have "length (chunks n xs) = 1" using short 1(2) by (simp add: chunks.simps [of n xs])
    moreover have "(length xs + n - 1) div n = 1"
      using short 1(2) by (cases xs) (auto intro!: div_nat_eqI)
    ultimately show ?thesis by simp
  next
    case long
    then have "length (chunks n xs) = Suc ((length xs - n + n - 1) div n)"
      using 1 by (subst chunks.simps) auto
    also have "\<dots> = (length xs + n - 1) div n"
      using long 1(2) le_div_geq [of n "length xs + n - 1"] by simp
    finally show ?thesis .
  qed
qed

lemma nth_chunks: "0 < n \<Longrightarrow> b < length (chunks n xs) \<Longrightarrow> chunks n xs ! b = take n (drop (b * n) xs)"
proof (induction n xs arbitrary: b rule: chunks.induct)
  case (1 n xs)
  then have c: "chunks n xs = take n xs # chunks n (drop n xs)" by (subst chunks.simps) (auto simp: chunks.simps [of n xs] split: if_splits)
  show ?case
  proof (cases b)
    case (Suc b')
    then show ?thesis using 1 c by (auto simp: add.commute chunks.simps [of n xs] split: if_splits)
  qed (simp add: c)
qed

end
