(* ===== verification/VerityTree.thy ===== *)
theory VerityTree
  imports Verity
begin

text \<open>
  What the tree of \<^verbatim>\<open>tools/_verity.py\<close> is for. The reader of the format walks from a data block to the root; it
  accepts every block of the data the tree was built for, and accepting any other block at its place, from whatever
  tree, takes two different texts with the same digest, which the two walks exhibit.
\<close>

section \<open>The reader of the format\<close>

text \<open>How many hash blocks each level has, from the leaves upward; a single digest needs none.\<close>

function level_sizes :: "nat \<Rightarrow> nat \<Rightarrow> nat list" where
  "level_sizes k n = (if n \<le> 1 \<or> k \<le> 1 then [] else let c = (n + k - 1) div k in c # level_sizes k c)"
  by pat_completeness auto
termination
proof (relation "measure snd")
  show "((k, c), k, n) \<in> measure snd" if "\<not> (n \<le> 1 \<or> k \<le> 1)" "c = (n + k - 1) div k" for k n c :: nat
  proof -
    have "n + k - 1 < n * k" using that(1) by (cases n; cases k) auto
    then show ?thesis using that(2) by (simp add: less_mult_imp_div_less)
  qed
qed simp

declare level_sizes.simps [simp del]

definition file_block :: "nat \<Rightarrow> bytes \<Rightarrow> nat \<Rightarrow> bytes" where
  "file_block hash_block_size content j = take hash_block_size (drop (j * hash_block_size) content)"

text \<open>
  The walk of the block with index \<open>i\<close>, whose digest is \<open>d\<close>: levels are stored from the root to the leaves, so a level
  starts after all those above it, and each hash block holds \<open>k\<close> digests of \<open>z\<close> bytes.
\<close>

fun walk_blocks :: "nat \<Rightarrow> nat \<Rightarrow> bytes \<Rightarrow> nat list \<Rightarrow> nat \<Rightarrow> bytes list" where
  "walk_blocks b k content [] i = []"
| "walk_blocks b k content (c # cs) i = file_block b content (sum_list cs + i div k) # walk_blocks b k content cs (i div k)"

fun walk_accepts :: "(bytes \<Rightarrow> bytes) \<Rightarrow> nat \<Rightarrow> nat \<Rightarrow> bytes \<Rightarrow> bytes list \<Rightarrow> nat \<Rightarrow> bytes \<Rightarrow> bool" where
  "walk_accepts dig k z d [] i root = (d = root)"
| "walk_accepts dig k z d (w # ws) i root =
     (take z (drop ((i mod k) * z) w) = d \<and> walk_accepts dig k z (dig w) ws (i div k) root)"

section \<open>The blocks of a level\<close>

lemma slice: "\<forall>x \<in> set xs. length x = b \<Longrightarrow> j < length xs \<Longrightarrow> take b (drop (j * b) (concat xs @ r)) = xs ! j"
proof (induction xs arbitrary: j)
  case (Cons x xs)
  then show ?case by (cases j) auto
qed simp

lemma length_concat_sized: "\<forall>x \<in> set xs. length x = b \<Longrightarrow> length (concat xs) = b * length xs"
  by (induction xs) auto

lemma level_count: "0 < k \<Longrightarrow> length (hash_level b k ds) = (length ds + k - 1) div k"
  by (simp add: hash_level_def length_chunks)

lemma level_count_bounds:
  fixes k n :: nat
  assumes "1 < k" and "1 < n"
  shows "(n + k - 1) div k < n" and "0 < (n + k - 1) div k"
proof -
  have "n + k - 1 < n * k" using assms by (cases n; cases k) auto
  then show "(n + k - 1) div k < n" by (simp add: less_mult_imp_div_less)
  show "0 < (n + k - 1) div k" using assms by (simp add: div_greater_zero_iff)
qed

lemma level_slot:
  assumes "0 < k" and "k * z \<le> b" and "\<forall>d \<in> set ds. length d = z" and "i < length ds"
  shows "length (hash_level b k ds ! (i div k)) = b"
    and "take z (drop ((i mod k) * z) (hash_level b k ds ! (i div k))) = ds ! i"
    and "i div k < length (hash_level b k ds)"
proof -
  let ?c = "take k (drop (i div k * k) ds)"
  have "i < (length ds + k - 1) div k * k"
  proof -
    have "length ds + k - 1 < Suc ((length ds + k - 1) div k) * k" 
      using assms(1) dividend_less_div_times [of k "length ds + k - 1"] by simp
    then show ?thesis using assms(4) by simp
  qed
  then show j: "i div k < length (hash_level b k ds)"
    using assms(1) by (simp add: level_count less_mult_imp_div_less)
  then have w: "hash_level b k ds ! (i div k) = concat ?c @ replicate (b - length (concat ?c)) 0"
    using assms(1) by (simp add: hash_level_def nth_chunks)
  have c: "\<forall>x \<in> set ?c. length x = z" using assms(3) by (meson in_set_dropD in_set_takeD)
  have start: "i div k * k \<le> i" by (rule div_times_less_eq_dividend)
  then have "i div k * k \<le> length ds" using assms(4) by linarith
  then have "drop (i div k * k) ds ! (i mod k) = ds ! i" by (simp add: nth_drop)
  moreover have "i mod k < length (drop (i div k * k) ds)"
    using assms(4) start by (simp add: less_diff_conv mod_div_mult_eq)
  ultimately have slot: "i mod k < length ?c" "?c ! (i mod k) = ds ! i" using assms(1) by simp_all
  have "length (concat ?c) \<le> b"
  proof -
    have "length (concat ?c) \<le> z * k" using length_concat_sized [OF c] by simp
    then show ?thesis using assms(2) by (simp add: mult.commute)
  qed
  then show "length (hash_level b k ds ! (i div k)) = b" using w by simp
  show "take z (drop ((i mod k) * z) (hash_level b k ds ! (i div k))) = ds ! i"
    unfolding w slice [OF c slot(1)] by (rule slot(2))
qed

lemma level_lengths:
  assumes "0 < k" and "k * z \<le> b" and "\<forall>d \<in> set ds. length d = z"
  shows "\<forall>w \<in> set (hash_level b k ds). length w = b"
proof
  fix w assume "w \<in> set (hash_level b k ds)"
  then obtain c where c: "c \<in> set (chunks k ds)" "w = concat c @ replicate (b - length (concat c)) 0"
    by (auto simp: hash_level_def)
  then obtain j where "j < length (chunks k ds)" "c = chunks k ds ! j" by (metis in_set_conv_nth)
  then have "c = take k (drop (j * k) ds)" using assms(1) nth_chunks by blast
  then have "\<forall>x \<in> set c. length x = z" "length c \<le> k" using assms(3) by (auto dest: in_set_takeD in_set_dropD)
  then have "length (concat c) \<le> b" using length_concat_sized [of c z] assms(2) by (metis le_trans mult.commute mult_le_mono1)
  then show "length w = b" using c(2) by simp
qed

section \<open>The walk through a tree that was built\<close>

lemma built_levels:
  fixes hash algorithm salt
  defines "dig \<equiv> block_digest hash algorithm salt"
  assumes "1 < k" and "k * z \<le> b" and "\<And>x. length (dig x) = z"
  shows "\<forall>d \<in> set ds. length d = z \<Longrightarrow> ds \<noteq> [] \<Longrightarrow>
    \<exists>levels root.
      (if length ds = 1 then levels = [] \<and> root = hd ds else hash_levels hash algorithm salt b k ds = Some (levels, root))
      \<and> length (concat (concat (rev levels))) = b * sum_list (level_sizes k (length ds))
      \<and> (\<forall>i rest. i < length ds \<longrightarrow> walk_accepts dig k z (ds ! i)
            (walk_blocks b k (concat (concat (rev levels)) @ rest) (level_sizes k (length ds)) i) i root)"
proof (induction "length ds" arbitrary: ds rule: less_induct)
  case less
  show ?case
  proof (cases "length ds = 1")
    case True
    then show ?thesis by (intro exI [of _ "[]"] exI [of _ "hd ds"]) (auto simp: level_sizes.simps length_Suc_conv)
  next
    case False
    then have n: "1 < length ds" using less.prems(2) by (cases ds) auto
    let ?blocks = "hash_level b k ds" and ?n = "length ds"
    let ?m = "length ?blocks"
    have m: "?m = (?n + k - 1) div k" using assms(2) by (simp add: level_count)
    then have bounds: "?m < ?n" "0 < ?m" using level_count_bounds [OF assms(2) n] by simp_all
    have sizes: "level_sizes k ?n = ?m # level_sizes k ?m"
      using n assms(2) m by (subst level_sizes.simps) (simp add: Let_def)
    have "\<forall>d \<in> set (map dig ?blocks). length d = z" "map dig ?blocks \<noteq> []" using assms(4) bounds(2) by auto
    from less.hyps [OF _ this] bounds(1) obtain levels root where up:
      "if ?m = 1 then levels = [] \<and> root = hd (map dig ?blocks)
       else hash_levels hash algorithm salt b k (map dig ?blocks) = Some (levels, root)"
      "length (concat (concat (rev levels))) = b * sum_list (level_sizes k ?m)"
      "\<And>j rest. j < ?m \<Longrightarrow> walk_accepts dig k z (map dig ?blocks ! j)
          (walk_blocks b k (concat (concat (rev levels)) @ rest) (level_sizes k ?m) j) j root"
      by (auto simp only: length_map)
    have built: "hash_levels hash algorithm salt b k ds = Some (?blocks # levels, root)"
    proof -
      have "hd (map dig ?blocks) = dig (hd ?blocks)" using bounds(2) by (intro hd_map) auto
      then show ?thesis using up(1) by (subst hash_levels.simps) (cases "?m = 1", auto simp: Let_def dig_def)
    qed
    have lens: "\<forall>w \<in> set ?blocks. length w = b" using level_lengths [OF _ assms(3) less.prems(1)] assms(2) by simp
    let ?up = "concat (concat (rev levels))"
    have all: "concat (concat (rev (?blocks # levels))) = ?up @ concat ?blocks" by simp
    have "walk_accepts dig k z (ds ! i) (walk_blocks b k ((?up @ concat ?blocks) @ rest) (level_sizes k ?n) i) i root"
      if i: "i < ?n" for i rest
    proof -
      note slot = level_slot [OF _ assms(3) less.prems(1) i]
      have j: "i div k < ?m" using slot(3) assms(2) by simp
      have "(sum_list (level_sizes k ?m) + i div k) * b = length ?up + i div k * b"
        using up(2) by (simp add: algebra_simps)
      then have "drop ((sum_list (level_sizes k ?m) + i div k) * b) ((?up @ concat ?blocks) @ rest) = drop (i div k * b) (concat ?blocks @ rest)"
        by (simp only: append_assoc) simp
      then have "file_block b ((?up @ concat ?blocks) @ rest) (sum_list (level_sizes k ?m) + i div k) = ?blocks ! (i div k)"
        using slice [OF lens j, of rest] by (simp add: file_block_def)
      then show ?thesis
        using up(3) [OF j, of "concat ?blocks @ rest"] slot(2) assms(2) j by (simp add: sizes)
    qed
    moreover have "length (?up @ concat ?blocks) = b * sum_list (level_sizes k ?n)"
      using up(2) length_concat_sized [OF lens] by (simp add: sizes add_mult_distrib2)
    ultimately show ?thesis
      unfolding if_not_P [OF False] using built all by (intro exI [of _ "?blocks # levels"] exI [of _ root]) simp
  qed
qed

section \<open>Validated parameters\<close>

lemma validated_parameters:
  assumes "validate_parameters algorithm data_block_size hash_block_size salt = Inr k"
  shows "1 < nat k" and "nat k * digest_size algorithm \<le> nat hash_block_size" and "512 \<le> data_block_size"
    and "algorithm \<in> set ALGORITHMS" and "k = hash_block_size div int (digest_size algorithm)"
proof -
  have h: "512 \<le> hash_block_size" "algorithm \<in> set ALGORITHMS" "512 \<le> data_block_size"
    and k: "k = hash_block_size div int (digest_size algorithm)"
    using assms by (auto simp: validate_parameters_def attempt_Inr validate_block_size_def Let_def split: if_splits)
  show "512 \<le> data_block_size" "algorithm \<in> set ALGORITHMS" "k = hash_block_size div int (digest_size algorithm)" using h k by auto
  have z: "digest_size algorithm = 32 \<or> digest_size algorithm = 64" by (simp add: digest_size_def)
  then have "8 \<le> k" using h(1) k by auto
  then show "1 < nat k" by simp
  have "k * int (digest_size algorithm) \<le> hash_block_size" using z k by auto
  then have "nat (k * int (digest_size algorithm)) \<le> nat hash_block_size" by (rule nat_mono)
  then show "nat k * digest_size algorithm \<le> nat hash_block_size" using \<open>8 \<le> k\<close> by (simp add: nat_mult_distrib)
qed

lemma block_digest_length:
  "(\<And>x. length (hash algorithm x) = n) \<Longrightarrow> length (block_digest hash algorithm salt x) = n"
  by (simp add: block_digest_def)

lemma hash_data_Inr:
  "hash_data hash algorithm salt n data = Inr ds \<longleftrightarrow>
     list_all (\<lambda>b. length b = n) (chunks n data) \<and> ds = map (block_digest hash algorithm salt) (chunks n data)"
  by (auto simp: hash_data_def list_ex_iff list_all_iff)

text \<open>
  C28: Building a hash tree always ends. With any hash function whose digests have the size of the algorithm, any data
  and any parameters, valid or not, the loop over the levels stops: a tree or an error comes out.
\<close>

theorem hash_tree_terminates:
  assumes "\<And>x. length (hash algorithm x) = digest_size algorithm"
  shows "\<exists>r. build_hash_tree hash data algorithm salt data_block_size hash_block_size = Some r"
proof (cases "validate_parameters algorithm data_block_size hash_block_size salt")
  case (Inr k)
  note v = validated_parameters [OF Inr]
  have "\<exists>r. hash_levels hash algorithm salt (nat hash_block_size) (nat k) ds = Some r"
    if "hash_data hash algorithm salt (nat data_block_size) data = Inr ds" "ds \<noteq> []" "length ds \<noteq> 1" for ds
  proof -
    have "\<forall>d \<in> set ds. length d = digest_size algorithm"
      using that(1) block_digest_length assms by (auto simp: hash_data_Inr)
    from built_levels [OF v(1,2) block_digest_length [of hash algorithm "digest_size algorithm" salt, OF assms] this that(2)] that(3) show ?thesis by auto
  qed
  then show ?thesis by (auto simp: build_hash_tree_def Inr split: sum.split)
qed (simp add: build_hash_tree_def)

section \<open>Every block is accepted, and no other\<close>

definition digests_per_block :: "string \<Rightarrow> int \<Rightarrow> nat" where
  "digests_per_block algorithm hash_block_size = nat (hash_block_size div int (digest_size algorithm))"

text \<open>A reader that has the parameters, the number of blocks and the root accepts a block at place \<open>i\<close>.\<close>

definition accepts_block ::
  "hasher \<Rightarrow> string \<Rightarrow> bytes \<Rightarrow> int \<Rightarrow> nat \<Rightarrow> bytes \<Rightarrow> bytes \<Rightarrow> nat \<Rightarrow> bytes \<Rightarrow> bool" where
  "accepts_block hash algorithm salt hash_block_size n root content i block =
     (let dig = block_digest hash algorithm salt; k = digests_per_block algorithm hash_block_size
      in walk_accepts dig k (digest_size algorithm) (dig block)
           (walk_blocks (nat hash_block_size) k content (level_sizes k n) i) i root)"

definition texts_read :: "string \<Rightarrow> int \<Rightarrow> nat \<Rightarrow> bytes \<Rightarrow> nat \<Rightarrow> bytes \<Rightarrow> bytes list" where
  "texts_read algorithm hash_block_size n content i block =
     block # walk_blocks (nat hash_block_size) (digests_per_block algorithm hash_block_size) content
       (level_sizes (digests_per_block algorithm hash_block_size) n) i"

lemma walk_collision:
  "walk_accepts dig k z (dig w) ws i root \<Longrightarrow> walk_accepts dig k z (dig v) vs i root \<Longrightarrow> length ws = length vs \<Longrightarrow>
   w \<noteq> v \<Longrightarrow> \<exists>(x, y) \<in> set (zip (w # ws) (v # vs)). x \<noteq> y \<and> dig x = dig y"
proof (induction ws arbitrary: w v vs i)
  case (Cons w' ws)
  then obtain v' vs' where vs: "vs = v' # vs'" by (cases vs) auto
  show ?case
  proof (cases "w' = v'")
    case True
    then have "dig w = dig v" using Cons.prems vs by auto
    then show ?thesis using Cons.prems(4) by auto
  next
    case False
    then have "\<exists>(x, y) \<in> set (zip (w' # ws) (v' # vs')). x \<noteq> y \<and> dig x = dig y"
      using Cons.IH [of w' "i div k" v' vs'] Cons.prems vs by auto
    then show ?thesis using vs by auto
  qed
qed auto

lemma length_walk_blocks: "length (walk_blocks b k content cs i) = length cs"
  by (induction cs arbitrary: i) simp_all

lemma built_tree_accepts:
  assumes sized: "\<And>x. length (hash algorithm x) = digest_size algorithm"
    and built: "build_hash_tree hash data algorithm salt data_block_size hash_block_size = Some (Inr t)"
    and i: "i < tree_blocks t"
  shows "accepts_block hash algorithm salt hash_block_size (tree_blocks t) (tree_root t) (tree_file t) i
      (chunks (nat data_block_size) data ! i)"
    and "tree_blocks t = length (chunks (nat data_block_size) data)"
proof -
  obtain k where k: "validate_parameters algorithm data_block_size hash_block_size salt = Inr k"
    using built by (auto simp: build_hash_tree_def split: sum.splits)
  note v = validated_parameters [OF k]
  let ?dig = "block_digest hash algorithm salt"
  obtain ds where ds: "ds = map ?dig (chunks (nat data_block_size) data)" "ds \<noteq> []" "tree_blocks t = length ds"
    and t: "if length ds = 1 then tree_file t = [] \<and> tree_root t = hd ds
      else \<exists>levels. hash_levels hash algorithm salt (nat hash_block_size) (nat k) ds = Some (levels, tree_root t)
        \<and> tree_file t = concat (concat (rev levels))"
    using built by (auto simp: build_hash_tree_def k hash_data_Inr split: sum.splits if_splits)
  show "tree_blocks t = length (chunks (nat data_block_size) data)" using ds by simp
  have len: "\<forall>d \<in> set ds. length d = digest_size algorithm" using ds(1) block_digest_length sized by auto
  obtain levels root where up:
    "if length ds = 1 then levels = [] \<and> root = hd ds
     else hash_levels hash algorithm salt (nat hash_block_size) (nat k) ds = Some (levels, root)"
    "\<forall>i rest. i < length ds \<longrightarrow> walk_accepts ?dig (nat k) (digest_size algorithm) (ds ! i)
        (walk_blocks (nat hash_block_size) (nat k) (concat (concat (rev levels)) @ rest) (level_sizes (nat k) (length ds)) i) i root"
    using built_levels [OF v(1,2) block_digest_length [of hash algorithm "digest_size algorithm" salt, OF sized] len ds(2)] by blast
  have "tree_root t = root" "tree_file t = concat (concat (rev levels))" using t up(1) by (auto split: if_splits)
  then show "accepts_block hash algorithm salt hash_block_size (tree_blocks t) (tree_root t) (tree_file t) i
      (chunks (nat data_block_size) data ! i)"
    using up(2) [rule_format, of i "[]"] i ds by (simp add: accepts_block_def Let_def digests_per_block_def v(5))
qed

text \<open>
  C27: A hash tree binds its image block by block. Take any tree the tool built over an image with digests of the right
  size. A reader of the format that is given the root and the number of blocks accepts every block of the image at its
  place. And if, with the same root, it accepts another block there, reading whatever tree file, then of the texts it
  reads on the two walks, from the block to the root, two at the same step differ and have the same digest.
\<close>

theorem hash_tree_tamper_evident:
  assumes "\<And>x. length (hash algorithm x) = digest_size algorithm"
    and "build_hash_tree hash data algorithm salt data_block_size hash_block_size = Some (Inr t)"
    and "i < tree_blocks t"
  shows "accepts_block hash algorithm salt hash_block_size (tree_blocks t) (tree_root t) (tree_file t) i
      (chunks (nat data_block_size) data ! i)
    \<and> (accepts_block hash algorithm salt hash_block_size (tree_blocks t) (tree_root t) content i block
        \<longrightarrow> block = chunks (nat data_block_size) data ! i
          \<or> (\<exists>(x, y) \<in> set (zip (texts_read algorithm hash_block_size (tree_blocks t) (tree_file t) i (chunks (nat data_block_size) data ! i))
                              (texts_read algorithm hash_block_size (tree_blocks t) content i block)).
               x \<noteq> y \<and> hash algorithm (salt @ x) = hash algorithm (salt @ y)))"
proof (intro conjI impI)
  show good: "accepts_block hash algorithm salt hash_block_size (tree_blocks t) (tree_root t) (tree_file t) i
      (chunks (nat data_block_size) data ! i)"
    by (rule built_tree_accepts [OF assms])
  assume other: "accepts_block hash algorithm salt hash_block_size (tree_blocks t) (tree_root t) content i block"
  show "block = chunks (nat data_block_size) data ! i
      \<or> (\<exists>(x, y) \<in> set (zip (texts_read algorithm hash_block_size (tree_blocks t) (tree_file t) i (chunks (nat data_block_size) data ! i))
                          (texts_read algorithm hash_block_size (tree_blocks t) content i block)).
           x \<noteq> y \<and> hash algorithm (salt @ x) = hash algorithm (salt @ y))"
    using walk_collision [OF good [unfolded accepts_block_def Let_def] other [unfolded accepts_block_def Let_def]]
    by (auto simp: length_walk_blocks texts_read_def block_digest_def)
qed

end
