(* ===== verification/VerityMeta.thy ===== *)
theory VerityMeta
  imports VerityTree
begin

text \<open>
  The metadata of \<^verbatim>\<open>tools/_verity.py\<close>: what an image is formatted with is read back, and whatever is
  read back has the types the boot arguments are made of.
\<close>

section \<open>Hexadecimal text\<close>

lemma fromhex_tohex: "fromhex (tohex bs) = Some bs"
proof (induction bs)
  case (Cons b bs)
  have u: "unat b < 256" using unsigned_less [of b] by simp
  then have "unat b div 16 < 16" "unat b mod 16 < 16" by auto
  moreover have "word_of_nat (16 * (unat b div 16) + unat b mod 16) = b" by simp
  ultimately show ?case using Cons hex_digits by (simp add: tohex_def)
qed (simp add: tohex_def)

section \<open>Reading what was written\<close>

lemma built_tree_facts:
  assumes sized: "\<And>x. length (hash algorithm x) = digest_size algorithm"
    and built: "build_hash_tree hash data algorithm salt data_block_size hash_block_size = Some (Inr t)"
  shows "length (tree_root t) = digest_size algorithm" and "0 < tree_blocks t"
    and "\<exists>k. validate_parameters algorithm data_block_size hash_block_size salt = Inr k"
proof -
  obtain k where k: "validate_parameters algorithm data_block_size hash_block_size salt = Inr k"
    using built by (auto simp: build_hash_tree_def split: sum.splits)
  then show "\<exists>k. validate_parameters algorithm data_block_size hash_block_size salt = Inr k" by blast
  note v = validated_parameters [OF k]
  let ?dig = "block_digest hash algorithm salt"
  note dig = block_digest_length [of hash algorithm "digest_size algorithm" salt, OF sized]
  obtain ds where ds: "ds = map ?dig (chunks (nat data_block_size) data)" "ds \<noteq> []" "tree_blocks t = length ds"
    and t: "if length ds = 1 then tree_root t = hd ds
      else \<exists>levels. hash_levels hash algorithm salt (nat hash_block_size) (nat k) ds = Some (levels, tree_root t)"
    using built by (auto simp: build_hash_tree_def k hash_data_Inr split: sum.splits if_splits)
  show "0 < tree_blocks t" using ds by simp
  have root: "hash_levels hash algorithm salt b m ds = Some (levels, r) \<Longrightarrow> \<exists>x. r = ?dig x" for b m ds levels r
    by (rule hash_levels.raw_induct [of "\<lambda>hash algorithm salt b m ds (levels, r). \<exists>x. r = block_digest hash algorithm salt x",
          of hash algorithm salt b m ds "(levels, r)", simplified])
      (auto split: if_splits simp: Let_def bind_eq_Some_conv)
  show "length (tree_root t) = digest_size algorithm"
  proof (cases "length ds = 1")
    case True
    then show ?thesis using t ds(1,2) dig by (cases ds) auto
  next
    case False
    then obtain levels where "hash_levels hash algorithm salt (nat hash_block_size) (nat k) ds = Some (levels, tree_root t)"
      using t by auto
    from root [OF this] show ?thesis using dig by auto
  qed
qed

lemma format_image_Inr:
  assumes "format_image hash source algorithm salt_value data_block_size hash_block_size policy = Some (Inr img)"
  obtains salt t where
    "build_hash_tree hash (img_data img) algorithm salt data_block_size hash_block_size = Some (Inr t)"
    "policy \<in> set CORRUPTION_POLICIES" "img_tree img = tree_file t"
    "img_metadata img = verity_metadata algorithm policy data_block_size hash_block_size (length source) (length (img_data img)) salt t"
    "img_data img = padded source data_block_size" "img_root_hash img = tohex (tree_root t)"
proof (cases "parse_salt salt_value")
  case (Inr explicit_salt)
  let ?salt = "case explicit_salt of None \<Rightarrow> hash ''sha256'' (domain_prefix @ hash ''sha256'' source) | Some s \<Rightarrow> s"
  obtain r where "build_hash_tree hash (padded source data_block_size) algorithm ?salt data_block_size hash_block_size = Some r"
      "policy \<in> set CORRUPTION_POLICIES"
      "attempt r (\<lambda>t. Inr \<lparr>img_data = padded source data_block_size, img_tree = tree_file t,
         img_metadata = verity_metadata algorithm policy data_block_size hash_block_size (length source)
           (length (padded source data_block_size)) ?salt t, img_root_hash = tohex (tree_root t)\<rparr>) = Inr img"
    using assms by (auto simp: format_image_def Inr Let_def split: if_splits)
  then show thesis using that [of ?salt] by (cases r) auto
qed (use assms in \<open>simp add: format_image_def\<close>)

text \<open>
  C29: What an image is formatted with is read back. With digests of the right size, the metadata the tool writes for
  an image passes its own checks when it is loaded, and states the parameters, the number of blocks of the padded
  image, and the root and the salt the tree was built with.
\<close>

theorem verity_metadata_loads:
  assumes "\<And>x. length (hash algorithm x) = digest_size algorithm"
    and "format_image hash source algorithm salt_value data_block_size hash_block_size policy = Some (Inr img)"
  shows "load_metadata (img_metadata img) = Inr (img_metadata img)
    \<and> (\<exists>salt t. build_hash_tree hash (img_data img) algorithm salt data_block_size hash_block_size = Some (Inr t)
        \<and> img_tree img = tree_file t
        \<and> hex_of (dget_or (img_metadata img) ''salt'' JNull) = Inr salt
        \<and> hex_of (dget_or (img_metadata img) ''root_hash'' JNull) = Inr (tree_root t)
        \<and> dget (img_metadata img) ''data_blocks'' = Some (JInt (int (length (chunks (nat data_block_size) (img_data img))))))"
proof -
  obtain salt t where t: "build_hash_tree hash (img_data img) algorithm salt data_block_size hash_block_size = Some (Inr t)"
    and policy: "policy \<in> set CORRUPTION_POLICIES" and tree: "img_tree img = tree_file t"
    and md: "img_metadata img = verity_metadata algorithm policy data_block_size hash_block_size (length source) (length (img_data img)) salt t"
    by (rule format_image_Inr [OF assms(2)])
  note facts = built_tree_facts [OF assms(1) t]
  obtain k where k: "validate_parameters algorithm data_block_size hash_block_size salt = Inr k" using facts(3) by blast
  have field: "dget (img_metadata img) ''salt'' = Some (JStr (tohex salt))" "dget (img_metadata img) ''root_hash'' = Some (JStr (tohex (tree_root t)))"
    "dget (img_metadata img) ''data_blocks'' = Some (JInt (int (tree_blocks t)))"
    "dget (img_metadata img) ''algorithm'' = Some (JStr algorithm)" "dget (img_metadata img) ''data_block_size'' = Some (JInt data_block_size)"
    "dget (img_metadata img) ''hash_block_size'' = Some (JInt hash_block_size)" "dget (img_metadata img) ''corruption_policy'' = Some (JStr policy)"
    "dget (img_metadata img) ''schema'' = Some (JStr SCHEMA)" "dget (img_metadata img) ''version'' = Some (JInt 1)"
    "dget (img_metadata img) ''hash_start_block'' = Some (JInt 0)"
    by (simp_all add: md verity_metadata_def)
  have "filter (\<lambda>k. dget (img_metadata img) k = None) REQUIRED = []" by (simp add: REQUIRED_def field)
  moreover have "validate_block_size data_block_size ''data block size'' = Inr ()" "algorithm \<in> set ALGORITHMS"
    using k by (auto simp: validate_parameters_def attempt_Inr split: if_splits)
  ultimately have "load_metadata (img_metadata img) = Inr (img_metadata img)"
    using k facts(1,2) policy
    by (simp add: load_metadata_def Let_def dget_or_def field hex_of_def fromhex_tohex text_in_def number_of_def)
  moreover have "tree_blocks t = length (chunks (nat data_block_size) (img_data img))"
    using built_tree_accepts(2) [OF assms(1) t facts(2)] .
  ultimately show ?thesis
    using t tree by (intro conjI exI [of _ salt] exI [of _ t]) (simp_all add: dget_or_def field hex_of_def fromhex_tohex)
qed


section \<open>An image\<close>

text \<open>A function of the right sizes, for the sake of an example: the sum of the bytes, repeated.\<close>

definition demo_hash :: hasher where
  "demo_hash algorithm bs = replicate (digest_size algorithm) (sum_list bs)"

definition demo_image :: bytes where
  "demo_image = 7 # replicate 600 0"

lemma demo_image_made:
  "case format_image demo_hash demo_image ''sha256'' ''0a 0B'' 512 512 ''panic'' of
     Some (Inr img) \<Rightarrow> length (img_data img) = 1024 \<and> length (img_tree img) = 512
   | _ \<Rightarrow> False"
  by code_simp

lemma demo_hash_sized: "length (demo_hash algorithm x) = digest_size algorithm"
  by (simp add: demo_hash_def)

lemma demo_image_obtain:
  obtains img where "format_image demo_hash demo_image ''sha256'' ''0a 0B'' 512 512 ''panic'' = Some (Inr img)"
    "length (img_data img) = 1024"
  using demo_image_made by (auto split: option.splits sum.splits)

lemma hash_tree_terminates_witness:
  "\<exists>r. build_hash_tree demo_hash demo_image ''sha256'' [10] 512 512 = Some r"
  using hash_tree_terminates [of demo_hash "''sha256''"] demo_hash_sized by blast

lemma hash_tree_tamper_evident_witness:
  "\<exists>data salt t. length data = 1024 \<and> build_hash_tree demo_hash data ''sha256'' salt 512 512 = Some (Inr t) \<and> tree_blocks t = 2
     \<and> accepts_block demo_hash ''sha256'' salt 512 2 (tree_root t) (tree_file t) 1 (chunks 512 data ! 1)"
proof -
  obtain img where img: "format_image demo_hash demo_image ''sha256'' ''0a 0B'' 512 512 ''panic'' = Some (Inr img)"
      "length (img_data img) = 1024"
    by (rule demo_image_obtain)
  obtain salt t where t: "build_hash_tree demo_hash (img_data img) ''sha256'' salt 512 512 = Some (Inr t)"
    by (rule format_image_Inr [OF img(1)])
  have "tree_blocks t = 2"
    using built_tree_accepts(2) [of demo_hash "''sha256''", OF demo_hash_sized t, of 0]
      built_tree_facts(2) [of demo_hash "''sha256''", OF demo_hash_sized t] img(2)
    by (simp add: length_chunks)
  then show ?thesis
    using hash_tree_tamper_evident [of demo_hash "''sha256''", OF demo_hash_sized t, of 1] t img(2)
    by (intro exI [of _ "img_data img"] exI [of _ salt] exI [of _ t]) simp
qed

lemma verity_metadata_loads_witness:
  "\<exists>img. format_image demo_hash demo_image ''sha256'' ''0a 0B'' 512 512 ''panic'' = Some (Inr img)
     \<and> load_metadata (img_metadata img) = Inr (img_metadata img)"
proof -
  obtain img where "format_image demo_hash demo_image ''sha256'' ''0a 0B'' 512 512 ''panic'' = Some (Inr img)"
    by (rule demo_image_obtain)
  then show ?thesis using verity_metadata_loads [of demo_hash "''sha256''", OF demo_hash_sized] by blast
qed

definition demo_metadata :: jobj where
  "demo_metadata =
     [(''algorithm'', JStr ''sha256''), (''corruption_policy'', JStr ''eio''), (''data_block_size'', JInt 4096), (''data_blocks'', JBool True),
      (''hash_block_size'', JInt 4096), (''hash_start_block'', JInt 0), (''root_hash'', JStr (concat (replicate 32 ''aF''))),
      (''salt'', JStr ''01 02''), (''schema'', JStr SCHEMA), (''version'', JInt 1)]"


text \<open>A block size of zero is not refused with a message: the padding is computed before the sizes are checked.\<close>

lemma zero_block_size_not_refused:
  "format_image hash demo_image ''sha256'' ''auto'' 0 512 ''eio'' = Some (Inl DivisionByZero)"
  by (simp add: format_image_def parse_salt_def demo_image_def CORRUPTION_POLICIES_def)

end
