(* ===== verification/Starlark.thy ===== *)
theory Starlark
  imports Lockfile
begin

text \<open>
  The Buck data files the generators write: Python's JSON text, the Starlark literals of
  \<^verbatim>\<open>tools/generate.py\<close> and \<^verbatim>\<open>tools/deb_generate.py\<close>, and the reader they are
  written for. The reader is the part of the Starlark language that data files use (assignments of
  literals, comments, \<open>load\<close> and the sum of lists), as a machine that takes the file character by
  character; it refuses what Starlark refuses: an undefined name such as \<open>null\<close> or \<open>false\<close>, a key
  or a name given twice, a missing comma. What a generator writes is read back as the value it was
  written from, with the keys of its objects sorted.
\<close>

section \<open>JSON text\<close>

text \<open>\<open>json.dumps\<close> with its defaults: what is not ASCII is escaped, and separators have a space.\<close>

definition unicode_escape :: "nat \<Rightarrow> string" where
  "unicode_escape n = [CHR 0x5C, CHR ''u'', CHR ''0'', CHR ''0'', hex_digit (n div 16), hex_digit (n mod 16)]"

definition ascii_char :: "char \<Rightarrow> string" where
  "ascii_char c = (let n = (of_char c :: nat) in if n < 127 then json_char c else unicode_escape n)"

definition json_text :: "string \<Rightarrow> string" where
  "json_text s = [CHR 0x22] @ concat (map ascii_char s) @ [CHR 0x22]"

function json_dumps :: "json \<Rightarrow> string" where
  "json_dumps JNull = ''null''"
| "json_dumps (JBool b) = (if b then ''true'' else ''false'')"
| "json_dumps (JInt n) = int_text n"
| "json_dumps (JStr s) = json_text s"
| "json_dumps (JList xs) = ''['' @ py_join '', '' (map json_dumps xs) @ '']''"
| "json_dumps (JObj d) =
     ''{'' @ py_join '', '' (map (\<lambda>kv. json_text (fst kv) @ '': '' @ json_dumps (snd kv)) d) @ ''}''"
  by pat_completeness auto
termination
  by (relation "measure size") (auto intro: le_imp_less_Suc size_list_estimation' dest: size_dict_entry)

section \<open>Starlark literals\<close>

text \<open>\<open>_bzl_literal\<close> of \<^verbatim>\<open>generate.py\<close>, on one line\<close>

lemma set_sorted_items [simp]: "set (sorted_items d) = set d"
  by (rule sorted_items_facts)

function bzl_literal :: "json \<Rightarrow> string" where
  "bzl_literal (JBool b) = (if b then ''True'' else ''False'')"
| "bzl_literal JNull = ''None''"
| "bzl_literal (JObj d) =
     ''{'' @ py_join '', '' (map (\<lambda>kv. json_text (fst kv) @ '': '' @ bzl_literal (snd kv)) (sorted_items d)) @ ''}''"
| "bzl_literal (JList xs) = ''['' @ py_join '', '' (map bzl_literal xs) @ '']''"
| "bzl_literal (JInt n) = json_dumps (JInt n)"
| "bzl_literal (JStr s) = json_dumps (JStr s)"
  by pat_completeness auto
termination
  by (relation "measure size") (auto intro: le_imp_less_Suc size_list_estimation' dest: size_dict_entry)

text \<open>\<open>bzl_literal\<close> of \<^verbatim>\<open>deb_generate.py\<close>, an element to a line\<close>

abbreviation spaces :: "nat \<Rightarrow> string" where
  "spaces n \<equiv> replicate n CHR '' ''"

abbreviation newline_text :: string where
  "newline_text \<equiv> [CHR 0x0A]"

function deb_bzl_literal :: "json \<Rightarrow> nat \<Rightarrow> string" where
  "deb_bzl_literal (JBool b) indent = (if b then ''True'' else ''False'')"
| "deb_bzl_literal JNull indent = ''None''"
| "deb_bzl_literal (JObj d) indent =
     (if d = [] then ''{}''
      else ''{'' @ newline_text
        @ py_join newline_text (map (\<lambda>kv. spaces (indent + 4) @ json_text (fst kv) @ '': ''
            @ deb_bzl_literal (snd kv) (indent + 4) @ '','') (sorted_items d))
        @ newline_text @ spaces indent @ ''}'')"
| "deb_bzl_literal (JList xs) indent =
     (if xs = [] then ''[]''
      else ''['' @ newline_text
        @ py_join newline_text (map (\<lambda>x. spaces (indent + 4) @ deb_bzl_literal x (indent + 4) @ '','') xs)
        @ newline_text @ spaces indent @ '']'')"
| "deb_bzl_literal (JInt n) indent = json_dumps (JInt n)"
| "deb_bzl_literal (JStr s) indent = json_dumps (JStr s)"
  by pat_completeness auto
termination
  by (relation "measure (size \<circ> fst)") (auto intro: le_imp_less_Suc size_list_estimation' dest: size_dict_entry)

section \<open>Reading a data file\<close>

datatype token = Word string | Text string | Punct char | Line

text \<open>Where the machine is in an expression: open lists, objects (with the key awaiting its value), a sum.\<close>

datatype frame = ListFrame "json list" | ObjFrame jobj "string option" | SumFrame "json list"

datatype statement =
    Fresh
  | Named string
  | Reading string "frame list" "json option"
  | Load nat string string

type_synonym module = jobj
type_synonym machine = "module \<times> statement"

fun decimal :: "nat \<Rightarrow> string \<Rightarrow> nat option" where
  "decimal acc [] = Some acc"
| "decimal acc (c # s) =
     (case digit_value c of None \<Rightarrow> None | Some v \<Rightarrow> decimal (10 * acc + nat v) s)"

definition natural :: "string \<Rightarrow> nat option" where
  "natural s = (if s = [] \<or> (hd s = CHR ''0'' \<and> 1 < length s) then None else decimal 0 s)"

definition word_value :: "module \<Rightarrow> string \<Rightarrow> json option" where
  "word_value env w =
     (if w = ''None'' then Some JNull
      else if w = ''True'' then Some (JBool True)
      else if w = ''False'' then Some (JBool False)
      else case natural w of
        Some n \<Rightarrow> Some (JInt (int n))
      | None \<Rightarrow>
          (case w of
             [] \<Rightarrow> None
           | c # s \<Rightarrow> if c = CHR ''-'' then map_option (\<lambda>n. JInt (- int n)) (natural s) else dget env w))"

definition give :: "json \<Rightarrow> frame list \<Rightarrow> (frame list \<times> json option) option" where
  "give v fs =
     (case fs of
        SumFrame xs # fs' \<Rightarrow> (case v of JList ys \<Rightarrow> Some (fs', Some (JList (xs @ ys))) | _ \<Rightarrow> None)
      | _ \<Rightarrow> Some (fs, Some v))"

definition add_entry :: "jobj \<Rightarrow> string \<Rightarrow> json \<Rightarrow> jobj option" where
  "add_entry d k v = (if dget d k = None then Some (d @ [(k, v)]) else None)"

fun expression :: "module \<Rightarrow> token \<Rightarrow> frame list \<Rightarrow> json option \<Rightarrow> (frame list \<times> json option) option" where
  "expression env (Text s) fs None = give (JStr s) fs"
| "expression env (Word w) fs None = Option.bind (word_value env w) (\<lambda>v. give v fs)"
| "expression env (Punct c) fs None =
     (if c = CHR ''['' then Some (ListFrame [] # fs, None)
      else if c = CHR ''{'' then Some (ObjFrame [] None # fs, None)
      else case fs of
        ListFrame vs # fs' \<Rightarrow> if c = CHR '']'' then give (JList vs) fs' else None
      | ObjFrame d None # fs' \<Rightarrow> if c = CHR ''}'' then give (JObj d) fs' else None
      | _ \<Rightarrow> None)"
| "expression env (Punct c) fs (Some v) =
     (case fs of
        ListFrame vs # fs' \<Rightarrow>
          if c = CHR '','' then Some (ListFrame (vs @ [v]) # fs', None)
          else if c = CHR '']'' then give (JList (vs @ [v])) fs'
          else None
      | ObjFrame d None # fs' \<Rightarrow>
          (case v of JStr k \<Rightarrow> if c = CHR '':'' then Some (ObjFrame d (Some k) # fs', None) else None | _ \<Rightarrow> None)
      | ObjFrame d (Some k) # fs' \<Rightarrow>
          Option.bind (add_entry d k v) (\<lambda>d'.
            if c = CHR '','' then Some (ObjFrame d' None # fs', None)
            else if c = CHR ''}'' then give (JObj d') fs'
            else None)
      | [] \<Rightarrow>
          if c = CHR ''+'' then (case v of JList xs \<Rightarrow> Some ([SumFrame xs], None) | _ \<Rightarrow> None) else None
      | _ \<Rightarrow> None)"
| "expression env t fs cur = None"

text \<open>
  A whole statement; \<open>files\<close> are the modules \<open>load\<close> can name. The steps of a \<open>load\<close> are counted: the
  opening, the file, then for each symbol its alias, the sign, and the name it has in that file.
\<close>

definition bind_name :: "string \<Rightarrow> json \<Rightarrow> module \<Rightarrow> machine option" where
  "bind_name name v env = map_option (\<lambda>env'. (env', Fresh)) (add_entry env name v)"

fun load_step :: "(string, module) dict \<Rightarrow> module \<Rightarrow> nat \<Rightarrow> string \<Rightarrow> string \<Rightarrow> token \<Rightarrow> machine option" where
  "load_step files env 0 f a (Punct c) = (if c = CHR ''('' then Some (env, Load 1 f a) else None)"
| "load_step files env (Suc 0) f a (Text s) = Some (env, Load 2 s a)"
| "load_step files env (Suc (Suc 0)) f a (Punct c) =
     (if c = CHR '','' then Some (env, Load 3 f a)
      else if c = CHR '')'' then Some (env, Load 6 f a) else None)"
| "load_step files env (Suc (Suc (Suc 0))) f a (Word w) = Some (env, Load 4 f w)"
| "load_step files env (Suc (Suc (Suc 0))) f a (Punct c) =
     (if c = CHR '')'' then Some (env, Load 6 f a) else None)"
| "load_step files env (Suc (Suc (Suc (Suc 0)))) f a (Punct c) =
     (if c = CHR ''='' then Some (env, Load 5 f a) else None)"
| "load_step files env (Suc (Suc (Suc (Suc (Suc 0))))) f a (Text s) =
     Option.bind (dget files f) (\<lambda>m. Option.bind (dget m s) (\<lambda>v.
       map_option (\<lambda>env'. (env', Load 2 f a)) (add_entry env a v)))"
| "load_step files env (Suc (Suc (Suc (Suc (Suc (Suc 0)))))) f a Line = Some (env, Fresh)"
| "load_step files env n f a Line = (if n = 0 then None else Some (env, Load n f a))"
| "load_step files env n f a t = None"

fun read_token :: "(string, module) dict \<Rightarrow> token \<Rightarrow> machine \<Rightarrow> machine option" where
  "read_token files Line (env, Fresh) = Some (env, Fresh)"
| "read_token files (Word w) (env, Fresh) = Some (env, if w = ''load'' then Load 0 [] [] else Named w)"
| "read_token files (Punct c) (env, Named n) = (if c = CHR ''='' then Some (env, Reading n [] None) else None)"
| "read_token files Line (env, Reading n fs cur) =
     (case (fs, cur) of
        ([], Some v) \<Rightarrow> bind_name n v env
      | ([], None) \<Rightarrow> None
      | (SumFrame _ # _, _) \<Rightarrow> None
      | _ \<Rightarrow> Some (env, Reading n fs cur))"
| "read_token files t (env, Reading n fs cur) =
     map_option (\<lambda>(fs', cur'). (env, Reading n fs' cur')) (expression env t fs cur)"
| "read_token files t (env, Load n f a) = load_step files env n f a t"
| "read_token files t m = None"

definition push_token :: "(string, module) dict \<Rightarrow> token \<Rightarrow> machine option \<Rightarrow> machine option" where
  "push_token files t m = Option.bind m (read_token files t)"

text \<open>The characters: words, texts with their escapes, comments, and one-character signs.\<close>

datatype lexing = Gap | Name string | Quoted string | Escaped string | Hexed string nat nat | Remark

definition word_char :: "char \<Rightarrow> bool" where
  "word_char c =
     (let n = (of_char c :: nat) in
      48 \<le> n \<and> n \<le> 57 \<or> 65 \<le> n \<and> n \<le> 90 \<or> 97 \<le> n \<and> n \<le> 122 \<or> n = 95 \<or> n = 45)"

definition gap_char ::
  "(string, module) dict \<Rightarrow> char \<Rightarrow> machine option \<Rightarrow> lexing \<times> machine option" where
  "gap_char files c m =
     (if c = CHR 0x22 then (Quoted [], m)
      else if c = CHR ''#'' then (Remark, m)
      else if c = CHR '' '' then (Gap, m)
      else if c = CHR 0x0A then (Gap, push_token files Line m)
      else if word_char c then (Name [c], m)
      else (Gap, push_token files (Punct c) m))"

definition escaped_char :: "char \<Rightarrow> char option" where
  "escaped_char c =
     (if c = CHR 0x22 \<or> c = CHR 0x5C then Some c
      else if c = CHR ''n'' then Some CHR 0x0A
      else if c = CHR ''r'' then Some CHR 0x0D
      else if c = CHR ''t'' then Some CHR 0x09
      else if c = CHR ''f'' then Some CHR 0x0C
      else if c = CHR ''b'' then Some CHR 0x08
      else None)"

fun read_char ::
  "(string, module) dict \<Rightarrow> char \<Rightarrow> lexing \<times> machine option \<Rightarrow> lexing \<times> machine option" where
  "read_char files c (Gap, m) = gap_char files c m"
| "read_char files c (Name w, m) =
     (if word_char c then (Name (w @ [c]), m) else gap_char files c (push_token files (Word w) m))"
| "read_char files c (Quoted s, m) =
     (if c = CHR 0x22 then (Gap, push_token files (Text s) m)
      else if c = CHR 0x5C then (Escaped s, m)
      else if c = CHR 0x0A then (Gap, None)
      else (Quoted (s @ [c]), m))"
| "read_char files c (Escaped s, m) =
     (case escaped_char c of
        Some d \<Rightarrow> (Quoted (s @ [d]), m)
      | None \<Rightarrow> if c = CHR ''u'' then (Hexed s 0 0, m) else (Gap, None))"
| "read_char files c (Hexed s k n, m) =
     (case hex_value c of
        None \<Rightarrow> (Gap, None)
      | Some d \<Rightarrow>
          if k < 3 then (Hexed s (Suc k) (16 * n + d), m)
          else if 16 * n + d < 256 then (Quoted (s @ [char_of (16 * n + d)]), m)
          else (Gap, None))"
| "read_char files c (Remark, m) = (if c = CHR 0x0A then (Gap, push_token files Line m) else (Remark, m))"

abbreviation feed ::
  "(string, module) dict \<Rightarrow> string \<Rightarrow> lexing \<times> machine option \<Rightarrow> lexing \<times> machine option" where
  "feed files s st \<equiv> fold (read_char files) s st"

definition read_module :: "(string, module) dict \<Rightarrow> string \<Rightarrow> module option" where
  "read_module files s =
     (case read_char files CHR 0x0A (feed files s (Gap, Some ([], Fresh))) of
        (Gap, Some (env, Fresh)) \<Rightarrow> Some env
      | _ \<Rightarrow> None)"

section \<open>Texts and words\<close>

definition settled :: "(string, module) dict \<Rightarrow> lexing \<times> machine option \<Rightarrow> lexing \<times> machine option" where
  "settled files st = (case st of (Name w, m) \<Rightarrow> (Gap, push_token files (Word w) m) | _ \<Rightarrow> st)"

lemma settle_gap [simp]: "settled files (Gap, m) = (Gap, m)"
  by (simp add: settled_def)

lemma read_settled: "\<not> word_char c \<Longrightarrow> read_char files c (settled files st) = read_char files c st"
  by (cases st; cases "fst st") (auto simp: settled_def)

lemma feed_unicode:
  assumes "n < 256"
  shows "feed files (unicode_escape n) (Quoted s, m) = (Quoted (s @ [char_of n]), m)"
proof -
  have "n div 16 < 16" "n mod 16 < 16" using assms by (auto simp: less_mult_imp_div_less)
  moreover have "hex_value CHR ''0'' = Some 0" by code_simp
  moreover have "escaped_char CHR ''u'' = None" by (simp add: escaped_char_def)
  ultimately show ?thesis using assms by (simp add: unicode_escape_def hex_digits)
qed

lemma feed_ascii_char: "feed files (ascii_char c) (Quoted s, m) = (Quoted (s @ [c]), m)"
proof -
  let ?n = "of_char c :: nat"
  have u: "feed files (unicode_escape ?n) (Quoted s, m) = (Quoted (s @ [c]), m)"
    using feed_unicode [OF nat_of_char_less_256] by simp
  consider "?n \<in> {8, 9, 10, 12, 13, 34, 92}" | "?n < 32" "?n \<notin> {8, 9, 10, 12, 13}"
    | "127 \<le> ?n" | "32 \<le> ?n" "?n < 127" "?n \<notin> {34, 92}"
    by force
  then show ?thesis
  proof cases
    case 1
    let ?special = "[CHR 0x08, CHR 0x09, CHR 0x0A, CHR 0x0C, CHR 0x0D, CHR 0x22, CHR 0x5C]"
    have "of_char c \<in> set (map of_char ?special :: nat list)" using 1 by simp
    then have "c \<in> set ?special" by (simp only: set_map inj_image_mem_iff [OF inj_of_char])
    moreover have "list_all (\<lambda>c. ascii_char c = [CHR 0x5C, ascii_char c ! 1]
        \<and> escaped_char (ascii_char c ! 1) = Some c) ?special"
      by code_simp
    ultimately obtain e where e: "ascii_char c = [CHR 0x5C, e]" "escaped_char e = Some c"
      unfolding list_all_iff by blast
    moreover from e(2) have "e \<noteq> CHR ''u''" by (auto simp: escaped_char_def)
    ultimately show ?thesis by simp
  next
    case 2
    then have "c \<noteq> CHR 0x22" by auto
    with 2 have "ascii_char c = unicode_escape ?n"
      by (auto simp: ascii_char_def json_char_def unicode_escape_def Let_def)
    then show ?thesis using u by simp
  next
    case 3
    then have "ascii_char c = unicode_escape ?n" by (simp add: ascii_char_def Let_def)
    then show ?thesis using u by simp
  next
    case 4
    then have "c \<noteq> CHR 0x22" "c \<noteq> CHR 0x5C" "c \<noteq> CHR 0x0A" by auto
    with 4 show ?thesis by (simp add: ascii_char_def json_char_def Let_def)
  qed
qed

lemma feed_ascii_chars:
  "feed files (concat (map ascii_char t)) (Quoted s, m) = (Quoted (s @ t), m)"
  by (induction t arbitrary: s) (simp_all add: feed_ascii_char)

lemma feed_text: "feed files (json_text s) (Gap, m) = (Gap, push_token files (Text s) m)"
  by (simp add: json_text_def gap_char_def feed_ascii_chars)

lemma feed_name: "list_all word_char w \<Longrightarrow> feed files w (Name v, m) = (Name (v @ w), m)"
  by (induction w arbitrary: v) simp_all

lemma word_char_plain: "word_char c \<Longrightarrow> c \<notin> {CHR 0x22, CHR ''#'', CHR '' '', CHR 0x0A}"
  by (auto simp: word_char_def)

lemma settle_word:
  assumes "list_all word_char w" "w \<noteq> []"
  shows "settled files (feed files w (Gap, m)) = (Gap, push_token files (Word w) m)"
proof -
  obtain c v where w: "w = c # v" using assms(2) by (cases w) auto
  with assms(1) show ?thesis
    by (simp add: gap_char_def settled_def feed_name word_char_plain [of c, simplified])
qed

lemma feed_spaces [simp]: "feed files (spaces n) (Gap, m) = (Gap, m)"
  by (induction n) (simp_all add: gap_char_def)

section \<open>Numbers\<close>

lemma digit_char_value: "n < 10 \<Longrightarrow> digit_value (digit_char n) = Some (int n) \<and> word_char (digit_char n)"
proof -
  have "list_all (\<lambda>n. digit_value (digit_char n) = Some (int n) \<and> word_char (digit_char n)) [0..<10]" by code_simp
  then show "n < 10 \<Longrightarrow> ?thesis" by (auto simp: list_all_iff)
qed

lemma digit_char_zero: "n < 10 \<Longrightarrow> digit_char n = CHR ''0'' \<longleftrightarrow> n = 0"
proof -
  have "list_all (\<lambda>n. digit_char n = CHR ''0'' \<longleftrightarrow> n = 0) [0..<10]" by code_simp
  then show "n < 10 \<Longrightarrow> ?thesis" by (auto simp: list_all_iff)
qed

lemma nat_text_nonempty [simp]: "nat_text n \<noteq> []"
  by (subst nat_text.simps) simp

lemma nat_text_word: "list_all word_char (nat_text n)"
proof (induction n rule: nat_text.induct)
  case (1 n)
  then show ?case by (subst nat_text.simps) (simp add: digit_char_value)
qed

lemma decimal_append:
  "decimal acc (s @ [c]) = Option.bind (decimal acc s) (\<lambda>n. map_option (\<lambda>v. 10 * n + nat v) (digit_value c))"
  by (induction s arbitrary: acc) (auto split: option.split)

lemma decimal_nat_text: "decimal 0 (nat_text n) = Some n"
proof (induction n rule: nat_text.induct)
  case (1 n)
  then show ?case by (subst nat_text.simps) (simp add: decimal_append digit_char_value)
qed

lemma nat_text_leading: "0 < n \<Longrightarrow> hd (nat_text n) \<noteq> CHR ''0''"
proof (induction n rule: nat_text.induct)
  case (1 n)
  then show ?case
    by (subst nat_text.simps) (auto simp: digit_char_zero nat_text_word hd_append div_greater_zero_iff)
qed

lemma natural_nat_text: "natural (nat_text n) = Some n"
proof (cases "n = 0")
  case True
  then show ?thesis by (simp add: natural_def nat_text.simps digit_char_def digit_value_def)
next
  case False
  then show ?thesis using nat_text_leading [of n] by (simp add: natural_def nat_text_word decimal_nat_text)
qed

lemma nat_text_head: "\<exists>d s. nat_text n = d # s \<and> digit_value d \<noteq> None"
proof (induction n rule: nat_text.induct)
  case (1 n)
  then show ?case by (subst nat_text.simps) (auto simp: digit_char_value)
qed

lemma int_text_word: "list_all word_char (int_text n)" "int_text n \<noteq> []"
  by (auto simp: int_text_def nat_text_word word_char_def)

lemma word_value_int: "word_value env (int_text n) = Some (JInt n)"
proof (cases "n < 0")
  case True
  then have "natural (CHR ''-'' # nat_text (nat (- n))) = None"
    by (simp add: natural_def digit_value_def)
  with True show ?thesis by (simp add: word_value_def int_text_def natural_nat_text)
next
  case False
  have "nat_text (nat n) \<notin> {''None'', ''True'', ''False''}"
    using nat_text_head [of "nat n"] by (auto simp: digit_value_def)
  with False show ?thesis by (simp add: word_value_def int_text_def natural_nat_text)
qed

section \<open>Texts that read as a value\<close>

text \<open>
  A text reads as a value when the machine, wherever it expects an expression, takes the text and
  has that value in its place.
\<close>

abbreviation reading :: "module \<Rightarrow> string \<Rightarrow> frame list \<Rightarrow> json option \<Rightarrow> machine option" where
  "reading env n fs cur \<equiv> Some (env, Reading n fs cur)"

definition given :: "module \<Rightarrow> string \<Rightarrow> frame list \<Rightarrow> json \<Rightarrow> machine option" where
  "given env n fs v = map_option (\<lambda>(fs', cur'). (env, Reading n fs' cur')) (give v fs)"

definition reads_as :: "(string, module) dict \<Rightarrow> module \<Rightarrow> string \<Rightarrow> json \<Rightarrow> bool" where
  "reads_as files env s v \<longleftrightarrow>
     (\<forall>n fs. settled files (feed files s (Gap, reading env n fs None)) = (Gap, given env n fs v))"

lemma given_fold [simp]:
  "map_option (\<lambda>(fs', cur'). (env, Reading n fs' cur')) (give v fs) = given env n fs v"
  by (simp add: given_def)

lemma reads_asD:
  "reads_as files env s v \<Longrightarrow> settled files (feed files s (Gap, reading env n fs None)) = (Gap, given env n fs v)"
  by (simp add: reads_as_def)

lemma given_simps [simp]:
  "given env n (ListFrame vs # fs) v = reading env n (ListFrame vs # fs) (Some v)"
  "given env n (ObjFrame d k # fs) v = reading env n (ObjFrame d k # fs) (Some v)"
  "given env n [] v = reading env n [] (Some v)"
  unfolding given_def by (simp_all add: give_def)

lemma reads_text: "reads_as files env (json_text s) (JStr s)"
  by (simp add: reads_as_def feed_text push_token_def)

lemma reads_word:
  assumes "list_all word_char w" "w \<noteq> []" "word_value env w = Some v"
  shows "reads_as files env w v"
  using assms by (simp add: reads_as_def settle_word push_token_def)

lemma reads_int: "reads_as files env (int_text n) (JInt n)"
  by (rule reads_word [OF int_text_word word_value_int])

lemma reads_constants:
  "reads_as files env ''True'' (JBool True)" "reads_as files env ''False'' (JBool False)"
  "reads_as files env ''None'' JNull"
  by (auto intro!: reads_word simp: word_value_def word_char_def)

text \<open>After a value a sign that is no word character, and spaces, are read as such.\<close>

lemma feed_then:
  assumes "reads_as files env s v" and "\<not> word_char c"
  shows "read_char files c (feed files s (Gap, reading env n fs None)) = read_char files c (Gap, given env n fs v)"
  using read_settled [OF assms(2), of files "feed files s (Gap, reading env n fs None)"] reads_asD [OF assms(1)]
  by simp

definition sign :: "char \<Rightarrow> bool" where
  "sign c \<longleftrightarrow> c \<in> set '',:[]{}=+()''"

lemma sign_char [simp]: "sign c \<Longrightarrow> \<not> word_char c" "sign c \<Longrightarrow> gap_char files c m = (Gap, push_token files (Punct c) m)"
  by (auto simp: sign_def word_char_def gap_char_def)

lemma signs [simp]: "list_all sign '',:[]{}=+()''"
  by (simp add: sign_def)

definition layout :: "string \<Rightarrow> bool" where
  "layout s \<longleftrightarrow> list_all (\<lambda>c. c = CHR '' '' \<or> c = CHR 0x0A) s"

lemma layout_simps [simp]:
  "layout []" "layout (c # s) \<longleftrightarrow> (c = CHR '' '' \<or> c = CHR 0x0A) \<and> layout s"
  "layout (s @ t) \<longleftrightarrow> layout s \<and> layout t" "layout (spaces k)"
  by (auto simp: layout_def list_all_iff)

lemma feed_layout:
  assumes "layout s" and "\<And>e. fs \<noteq> SumFrame e # tl fs" and "fs \<noteq> []"
  shows "feed files s (Gap, reading env n fs cur) = (Gap, reading env n fs cur)"
proof -
  have "push_token files Line (reading env n fs cur) = reading env n fs cur"
    using assms(2,3) by (cases fs) (auto simp: push_token_def split: frame.split)
  with assms(1) show ?thesis by (induction s) (auto simp: gap_char_def)
qed

lemma feed_layout_frames [simp]:
  "layout s \<Longrightarrow> feed files s (Gap, reading env n (ListFrame vs # fs) cur) = (Gap, reading env n (ListFrame vs # fs) cur)"
  "layout s \<Longrightarrow> feed files s (Gap, reading env n (ObjFrame d k # fs) cur) = (Gap, reading env n (ObjFrame d k # fs) cur)"
  by (rule feed_layout; simp)+

section \<open>Lists and objects\<close>

lemma push_punct [simp]:
  "push_token files (Punct c) (reading env n fs cur)
   = map_option (\<lambda>(fs', cur'). (env, Reading n fs' cur')) (expression env (Punct c) fs cur)"
  by (simp add: push_token_def)

lemma feed_sign:
  "sign c \<Longrightarrow> reads_as files env s v
   \<Longrightarrow> read_char files c (feed files s (Gap, reading env n fs None)) = (Gap, push_token files (Punct c) (given env n fs v))"
  by (simp add: feed_then )

lemma sign_simps [simp]:
  "sign CHR '',''" "sign CHR '':''" "sign CHR ''[''" "sign CHR '']''" "sign CHR ''{''" "sign CHR ''}''" "sign CHR ''=''"
  "sign CHR ''+''" "sign CHR ''(''" "sign CHR '')''"
  by (simp_all add: sign_def)

lemma feed_elements:
  assumes "layout pre" "layout post" "list_all2 (reads_as files env) ts ws"
  shows "feed files (concat (map (\<lambda>t. pre @ t @ '','' @ post) ts)) (Gap, reading env n (ListFrame vs # fs) None)
    = (Gap, reading env n (ListFrame (vs @ ws) # fs) None)"
  using assms(3)
proof (induction arbitrary: vs)
  case (Cons t ts w ws)
  then show ?case using assms(1,2) by (simp add: feed_sign)
qed simp

lemma reads_lines:
  assumes "layout pre" "layout post" "layout lead" "layout trail" "list_all2 (reads_as files env) ts ws"
  shows "reads_as files env (''['' @ lead @ concat (map (\<lambda>t. pre @ t @ '','' @ post) ts) @ trail @ '']'') (JList ws)"
  using assms by (simp add: reads_as_def feed_elements [simplified])

lemma py_join_last: "py_join sep (us @ [t]) = concat (map (\<lambda>u. u @ sep) us) @ t"
proof (induction us)
  case (Cons u us)
  then show ?case by (cases us) simp_all
qed simp

lemma py_join_lines: "us \<noteq> [] \<Longrightarrow> py_join sep us @ sep = concat (map (\<lambda>u. u @ sep) us)"
  by (cases us rule: rev_cases) (simp_all add: py_join_last)

lemma reads_list:
  assumes "list_all2 (reads_as files env) ts ws"
  shows "reads_as files env (''['' @ py_join '', '' ts @ '']'') (JList ws)"
proof (cases ts rule: rev_cases)
  case Nil
  with assms show ?thesis using reads_lines [of "[]" "[]" "[]" "[]" files env "[]" "[]"] by simp
next
  case (snoc us t)
  with assms obtain vs v where w: "ws = vs @ [v]" "list_all2 (reads_as files env) us vs" "reads_as files env t v"
    by (auto simp: list_all2_append1 list_all2_Cons1)
  show ?thesis unfolding reads_as_def
    using feed_elements [of "[]" "'' ''" files env us vs _ "[]", OF _ _ w(2)] w(3)
    by (simp add: snoc w(1) py_join_last feed_sign)
qed

lemma feed_entries:
  assumes "layout pre" "layout post" "list_all2 (\<lambda>e. reads_as files env (snd e)) es ws"
    and "distinct (map fst d @ map fst es)"
  shows "feed files (concat (map (\<lambda>e. pre @ json_text (fst e) @ '': '' @ snd e @ '','' @ post) es))
      (Gap, reading env n (ObjFrame d None # fs) None)
    = (Gap, reading env n (ObjFrame (d @ zip (map fst es) ws) None # fs) None)"
  using assms(3,4)
proof (induction arbitrary: d)
  case (Cons e es w ws)
  have "dget d (fst e) = None" using Cons.prems by (auto simp: map_of_eq_None_iff)
  with Cons show ?case using assms(1,2)
    by (simp add: feed_sign feed_then [OF reads_text] gap_char_def add_entry_def)
qed simp

lemma reads_entry_lines:
  assumes "layout pre" "layout post" "layout lead" "layout trail"
    and "list_all2 (\<lambda>e. reads_as files env (snd e)) es ws" "distinct (map fst es)"
  shows "reads_as files env
    (''{'' @ lead @ concat (map (\<lambda>e. pre @ json_text (fst e) @ '': '' @ snd e @ '','' @ post) es) @ trail @ ''}'')
    (JObj (zip (map fst es) ws))"
  using assms by (simp add: reads_as_def feed_entries [where d = "[]", simplified])

lemma reads_obj:
  assumes "list_all2 (\<lambda>e. reads_as files env (snd e)) es ws" "distinct (map fst es)"
  shows "reads_as files env (''{'' @ py_join '', '' (map (\<lambda>e. json_text (fst e) @ '': '' @ snd e) es) @ ''}'')
    (JObj (zip (map fst es) ws))"
proof (cases es rule: rev_cases)
  case Nil
  with assms show ?thesis using reads_entry_lines [of "[]" "[]" "[]" "[]" files env "[]" "[]"] by simp
next
  case (snoc us e)
  with assms obtain vs v where w: "ws = vs @ [v]" "list_all2 (\<lambda>e. reads_as files env (snd e)) us vs"
      "reads_as files env (snd e) v"
    by (auto simp: list_all2_append1 list_all2_Cons1)
  have len: "length us = length vs" by (rule list_all2_lengthD [OF w(2)])
  have d: "distinct (map fst us)" "fst e \<notin> set (map fst us)" using assms(2) by (simp_all add: snoc)
  have "dget (zip (map fst us) vs) (fst e) = None" using d(2) len by (simp add: map_of_zip_is_None)
  then show ?thesis unfolding reads_as_def
    using feed_entries [of "[]" "'' ''" files env us vs "[]", OF _ _ w(2)] w(3) d(1) len
    by (simp add: snoc w(1) py_join_last feed_sign feed_then [OF reads_text] gap_char_def
        comp_def add_entry_def)
qed

section \<open>Round trips\<close>

lemma reads_empty: "reads_as files env ''[]'' (JList [])" "reads_as files env ''{}'' (JObj [])"
  using reads_list [of files env "[]" "[]"] reads_obj [of files env "[]" "[]"] by simp_all

lemma sorted_items_Nil [simp]: "sorted_items [] = []"
  by (simp add: sorted_items_def)

lemma map_sorted_items:
  "map (\<lambda>kv. (fst kv, f (snd kv))) (sorted_items d) = sorted_items (map (\<lambda>kv. (fst kv, f (snd kv))) d)"
proof -
  have i: "insort_key fst (k, f v) (map (\<lambda>kv. (fst kv, f (snd kv))) xs)
      = map (\<lambda>kv. (fst kv, f (snd kv))) (insort_key fst (k, v) xs)" for k v and xs
    by (induction xs) auto
  show ?thesis unfolding sorted_items_def by (induction d) (auto simp: i [symmetric])
qed

lemma list_all2_maps: "(\<And>x. x \<in> set xs \<Longrightarrow> P (f x) (g x)) \<Longrightarrow> list_all2 P (map f xs) (map g xs)"
  by (induction xs) auto

lemma reads_literal: "well_formed v \<Longrightarrow> reads_as files env (bzl_literal v) (canonical v)"
proof (induction v rule: bzl_literal.induct)
  case (3 d)
  let ?es = "map (\<lambda>kv. (fst kv, bzl_literal (snd kv))) (sorted_items d)"
  let ?ws = "map (\<lambda>kv. canonical (snd kv)) (sorted_items d)"
  have "list_all2 (\<lambda>e. reads_as files env (snd e)) ?es ?ws"
    by (rule list_all2_maps) (use 3 in force)
  moreover have "distinct (map fst ?es)" using 3(2) sorted_items_facts(3) [of d] by (simp add: comp_def)
  moreover have "zip (map fst ?es) ?ws = sorted_items (map (\<lambda>kv. (fst kv, canonical (snd kv))) d)"
    unfolding map_sorted_items [symmetric] by (simp add: comp_def zip_map_map) (simp add: zip_same_conv_map)
  ultimately show ?case using reads_obj [of files env ?es ?ws] by (simp add: comp_def)
next
  case (4 xs)
  then have "list_all2 (reads_as files env) (map bzl_literal xs) (map canonical xs)"
    by (auto intro!: list_all2_maps)
  then show ?case using reads_list by simp
qed (simp_all add: reads_constants reads_text reads_int)

lemma py_join_block:
  "us \<noteq> [] \<Longrightarrow> py_join newline_text us @ CHR 0x0A # rest = concat (map (\<lambda>u. u @ newline_text) us) @ rest"
  using py_join_lines [of us newline_text] by (metis append.assoc append_Cons append_Nil)

lemma reads_deb_literal: "well_formed v \<Longrightarrow> reads_as files env (deb_bzl_literal v k) (canonical v)"
proof (induction v k rule: deb_bzl_literal.induct)
  case (3 d k)
  let ?es = "map (\<lambda>kv. (fst kv, deb_bzl_literal (snd kv) (k + 4))) (sorted_items d)"
  let ?ws = "map (\<lambda>kv. canonical (snd kv)) (sorted_items d)"
  have "list_all2 (\<lambda>e. reads_as files env (snd e)) ?es ?ws"
    by (rule list_all2_maps) (use 3 in force)
  moreover have "distinct (map fst ?es)" using 3(2) sorted_items_facts(3) [of d] by (simp add: comp_def)
  moreover have "zip (map fst ?es) ?ws = sorted_items (map (\<lambda>kv. (fst kv, canonical (snd kv))) d)"
    unfolding map_sorted_items [symmetric] by (simp add: comp_def zip_map_map) (simp add: zip_same_conv_map)
  moreover have "sorted_items d \<noteq> []" if "d \<noteq> []" using that set_sorted_items [of d] by force
  ultimately show ?case
    using reads_entry_lines [of "spaces (k + 4)" newline_text newline_text "spaces k" files env ?es ?ws]
    by (auto simp: comp_def py_join_block reads_empty)
next
  case (4 xs k)
  then have "list_all2 (reads_as files env) (map (\<lambda>x. deb_bzl_literal x (k + 4)) xs) (map canonical xs)"
    by (intro list_all2_maps) force
  then show ?case
    using reads_lines [of "spaces (k + 4)" newline_text newline_text "spaces k" files env
        "map (\<lambda>x. deb_bzl_literal x (k + 4)) xs" "map canonical xs"]
    by (auto simp: comp_def py_join_block reads_empty)
qed (simp_all add: reads_constants reads_text reads_int)

section \<open>Statements\<close>

definition data_name :: "string \<Rightarrow> bool" where
  "data_name n \<longleftrightarrow> n \<noteq> [] \<and> list_all word_char n \<and> n \<noteq> ''load''"

abbreviation between :: "module \<Rightarrow> lexing \<times> machine option" where
  "between env \<equiv> (Gap, Some (env, Fresh))"

lemma read_line: "read_char files CHR 0x0A (settled files st) = read_char files CHR 0x0A st"
  by (rule read_settled) (simp add: word_char_def)

lemma feed_word_then:
  assumes "list_all word_char w" "w \<noteq> []" "\<not> word_char c"
  shows "read_char files c (feed files w (Gap, m)) = read_char files c (Gap, push_token files (Word w) m)"
  using read_settled [OF assms(3), of files "feed files w (Gap, m)"] settle_word [OF assms(1,2)] by simp

definition evaluates :: "(string, module) dict \<Rightarrow> module \<Rightarrow> string \<Rightarrow> string \<Rightarrow> json \<Rightarrow> bool" where
  "evaluates files env n s v \<longleftrightarrow>
     settled files (feed files s (Gap, reading env n [] None)) = (Gap, reading env n [] (Some v))"

lemma reads_evaluates: "reads_as files env s v \<Longrightarrow> evaluates files env n s v"
  by (simp add: evaluates_def reads_asD)

lemma feed_assignment:
  assumes "data_name n" "evaluates files env n s v" "dget env n = None"
  shows "feed files (n @ '' = '' @ s @ newline_text) (between env) = between (env @ [(n, v)])"
proof -
  have n: "list_all word_char n" "n \<noteq> []" "n \<noteq> ''load''" using assms(1) by (simp_all add: data_name_def)
  have "\<not> word_char CHR '' ''" by (simp add: word_char_def)
  note name = feed_word_then [OF n(1,2) this]
  have got: "read_char files CHR 0x0A (feed files s (Gap, reading env n [] None)) = between (env @ [(n, v)])"
    using assms(3) by (subst read_line [symmetric])
      (simp add: assms(2) [unfolded evaluates_def] gap_char_def push_token_def bind_name_def add_entry_def)
  show ?thesis using n(3) by (simp add: name gap_char_def push_token_def got)
qed

lemma feed_remark:
  assumes "CHR 0x0A \<notin> set s"
  shows "feed files (CHR ''#'' # s @ newline_text) (between env) = between env"
proof -
  have "feed files s (Remark, m) = (Remark, m)" for m using assms by (induction s) auto
  then show ?thesis by (simp add: gap_char_def push_token_def)
qed

lemma feed_blank: "feed files newline_text (between env) = between env"
  by (simp add: gap_char_def push_token_def)

lemma read_moduleI: "feed files s (between []) = between env \<Longrightarrow> read_module files s = Some env"
  by (simp add: read_module_def gap_char_def push_token_def)

text \<open>JSON writes the missing value as a name Starlark does not define.\<close>

lemma null_undefined: "settled files (feed files (json_dumps JNull) (Gap, reading [] n fs None)) = (Gap, None)"
proof -
  have w: "list_all word_char ''null''" "''null'' \<noteq> []" by (simp_all add: word_char_def)
  have "word_value [] ''null'' = None" by (simp add: word_value_def natural_def digit_value_def)
  then show ?thesis by (simp add: settle_word [OF w, simplified] push_token_def)
qed

text \<open>\<open>json.dumps\<close> and the literal agree on what has no truth value and no missing value in it.\<close>

fun plain :: "json \<Rightarrow> bool" where
  "plain JNull = False"
| "plain (JBool b) = False"
| "plain (JInt n) = True"
| "plain (JStr s) = True"
| "plain (JList xs) = list_all plain xs"
| "plain (JObj d) = list_all (\<lambda>kv. plain (snd kv)) d"

lemma plain_dumps: "plain v \<Longrightarrow> json_dumps (canonical v) = bzl_literal v"
proof (induction v rule: bzl_literal.induct)
  case (3 d)
  then show ?case by (force simp: map_sorted_items [symmetric] list_all_iff comp_def intro!: arg_cong [where f = "py_join _"])
next
  case (4 xs)
  then show ?case by (auto simp: list_all_iff comp_def cong: map_cong)
qed simp_all

lemma reads_dumps: "plain v \<Longrightarrow> well_formed v \<Longrightarrow> reads_as files env (json_dumps (canonical v)) (canonical v)"
  by (simp add: plain_dumps reads_literal)

end
