(* ===== verification/Generate.thy ===== *)
theory Generate
  imports Starlark
begin

text \<open>
  \<^verbatim>\<open>tools/generate.py\<close>: the step from a package lock to the Buck data that is checked in.
  \<open>collect\<close> cuts the lock into the lists the macros read and \<open>render\<close> writes them as a module. The
  lock is the record \<open>EmitLock\<close> writes; that a lock file may lack the list of the shared buildroot
  is a flag of its own.
\<close>

datatype gen_error =
    NoKey string
  | Unsortable
  | OldLock nat nat
  | NoPolicy
  | BadPolicy policy_error
  | OtherSchema nat
  | OtherFlavor string
  | BadName lockfile_error

section \<open>Target names\<close>

definition TARGET_SAFE :: string where
  "TARGET_SAFE =
     ''abcdefghijklmnopqrstuvwxyz'' @ ''ABCDEFGHIJKLMNOPQRSTUVWXYZ'' @ ''0123456789'' @ '',.=-/~@!+$_''"

definition target_safe :: "string \<Rightarrow> string" where
  "target_safe s = map (\<lambda>c. if c \<in> set TARGET_SAFE then c else CHR ''_'') s"

definition rpm_target :: "pin \<Rightarrow> string" where
  "rpm_target e = target_safe (''rpm-'' @ pin_name e @ ''-'' @ pin_evr e @ ''-'' @ pin_arch e)"

section \<open>The lists the macros read\<close>

text \<open>
  A pin the solver could not resolve has no \<open>sha256\<close> key. A pin with a null one sorts only alone:
  Python does not compare \<open>None\<close> with a text.
\<close>

definition dedupe :: "pin list \<Rightarrow> gen_error + pin list" where
  "dedupe entries =
     (if list_ex pin_unresolved entries then Inl (NoKey ''sha256'')
      else
        let by_sha = fold (\<lambda>e. dsetdefault (pin_sha256 e) e) entries []
        in if None \<in> set (keys by_sha) \<and> 1 < length by_sha then Inl Unsortable
           else Inr (map snd (sort_key (\<lambda>kv. opt_text (fst kv)) by_sha)))"

fun dedupe_sets :: "(string \<times> pin list) list \<Rightarrow> gen_error + (string, pin list) dict" where
  "dedupe_sets [] = Inr []"
| "dedupe_sets ((name, members) # rest) =
     attempt (dedupe members) (\<lambda>pins. attempt (dedupe_sets rest) (\<lambda>sets. Inr ((name, pins) # sets)))"

definition base_names :: "bool \<Rightarrow> lock \<Rightarrow> pin list \<Rightarrow> gen_error + string list" where
  "base_names recorded l seed =
     (if recorded then Inr (sort (lk_base_seed l))
      else if in_build (lk_solve l) = [] then Inr (sort (map pin_name seed))
      else Inl (OldLock (length (in_build (lk_solve l))) (length seed)))"

definition text_or_null :: "string option \<Rightarrow> json" where
  "text_or_null s = (case s of None \<Rightarrow> JNull | Some t \<Rightarrow> JStr t)"

definition text_list :: "string list \<Rightarrow> json" where
  "text_list ss = JList (map JStr ss)"

definition source_row :: "source_pin \<Rightarrow> jobj" where
  "source_row s =
     [(''name'', JStr (src_name s)), (''evr'', JStr (src_evr s)), (''location'', text_or_null (src_location s)),
      (''sha256'', text_or_null (src_sha256 s)), (''repo'', text_or_null (src_repo s))]"

text \<open>The dependencies routed to a variant, by name; a later entry of a name replaces an earlier one.\<close>

definition routed :: "lock_package \<Rightarrow> (pin \<Rightarrow> string) \<Rightarrow> (string, string) dict" where
  "routed p f =
     fold (\<lambda>d. dset (pin_name d) (f d)) (filter (\<lambda>d. truthy (pin_variant d)) (sort_key pin_name (lp_deps_built p))) []"

definition text_dict :: "(string, string) dict \<Rightarrow> json" where
  "text_dict d = JObj (map (\<lambda>kv. (fst kv, JStr (snd kv))) d)"

definition recipe_row :: "string list \<Rightarrow> string \<Rightarrow> lock_package \<Rightarrow> jobj" where
  "recipe_row base name p =
     (let source = lp_source p in
      [(''name'', JStr name),
       (''source_name'', JStr (if src_source_name source = [] then src_name source else src_source_name source)),
       (''evr'', JStr (src_evr source)),
       (''subpackages'', text_list (lp_subpackages p)),
       (''build_deps'', text_list (sorted_set (map pin_name (lp_deps_built p)))),
       (''seed_deps'', text_list (sorted_set (filter (\<lambda>d. d \<notin> set base) (map pin_name (lp_deps_seed p))))),
       (''variant_of'', text_or_null (lp_variant_of p)),
       (''dep_variants'', text_dict (routed p (\<lambda>d. opt_text (pin_variant d)))),
       (''variant_seed'', text_dict (routed p rpm_target))])"

text \<open>A routed dependency that was not resolved has no \<open>evr\<close> key to name its target by.\<close>

definition nameable :: "lock_package \<Rightarrow> bool" where
  "nameable p \<longleftrightarrow> list_all (\<lambda>d. truthy (pin_variant d) \<longrightarrow> \<not> pin_unresolved d) (lp_deps_built p)"

definition stage_row :: "stage \<Rightarrow> jobj" where
  "stage_row e =
     [(''target'', JStr (stage_target e)), (''source'', JStr (stage_source e)), (''stage'', JInt (stage_number e)),
      (''ships'', JBool (ships e)), (''cycle_deps'', text_list (sort (cycle_deps e))),
      (''cycle_deps_from'', JStr (cycle_deps_from e))]"

record collected =
  col_seed :: "pin list"
  col_base :: "string list"
  col_image_sets :: "(string, pin list) dict"
  col_sources :: "jobj list"
  col_recipes :: "jobj list"
  col_staged :: "jobj list"
  col_variant_seed :: "pin list"

definition collect :: "bool \<Rightarrow> lock \<Rightarrow> gen_error + collected" where
  "collect recorded l =
     attempt (dedupe (lk_buildroot_seed l)) (\<lambda>seed.
     attempt (dedupe (lk_variant_seed l)) (\<lambda>variant_seed.
     attempt (base_names recorded l seed) (\<lambda>base.
     attempt (dedupe_sets (sorted_items (lk_image_sets l))) (\<lambda>image_sets.
       let packages = sorted_items (lk_packages l) in
       if list_ex (\<lambda>(name, p). \<not> nameable p) packages then Inl (NoKey ''evr'')
       else Inr
         \<lparr>col_seed = seed, col_base = base, col_image_sets = image_sets,
          col_sources = map (\<lambda>(name, p). source_row (lp_source p)) packages,
          col_recipes = map (\<lambda>(name, p). recipe_row base name p) packages,
          col_staged = map stage_row (sort_key (\<lambda>e. (stage_number e, stage_source e)) (lk_staged l)),
          col_variant_seed = variant_seed\<rparr>))))"

section \<open>The recorded policy\<close>

definition validate_lock_source_policy :: "lock \<Rightarrow> gen_error + unit" where
  "validate_lock_source_policy l =
     (case lk_source_policy l of
        None \<Rightarrow> if in_source_image_sets (lk_solve l) \<noteq> [] then Inl NoPolicy else Inr ()
      | Some recorded \<Rightarrow>
          (case rpm_source_policy_inputs l of (images, producers) \<Rightarrow>
             map_error BadPolicy (validate_source_policy (policy_json recorded) images producers)))"

section \<open>Writing the module\<close>

definition entry_literal :: "pin \<Rightarrow> string" where
  "entry_literal e =
     json_dumps (canonical (JObj
       [(''name'', JStr (pin_name e)), (''evr'', JStr (pin_evr e)), (''arch'', JStr (pin_arch e)),
        (''location'', text_or_null (pin_location e)), (''sha256'', text_or_null (pin_sha256 e)),
        (''repo'', JStr (py_or (pin_repo e) [])), (''target'', JStr (rpm_target e))]))"

definition text_at :: "jobj \<Rightarrow> string \<Rightarrow> string" where
  "text_at d k = (case dget d k of Some (JStr s) \<Rightarrow> s | _ \<Rightarrow> [])"

text \<open>A row of \<open>col_sources\<close> has every key that is read here.\<close>

definition source_literal :: "jobj \<Rightarrow> string" where
  "source_literal e =
     json_dumps (canonical (JObj
       [(''name'', dget_or e ''name'' JNull), (''evr'', dget_or e ''evr'' JNull),
        (''location'', dget_or e ''location'' JNull), (''sha256'', dget_or e ''sha256'' JNull),
        (''repo'', JStr (text_at e ''repo'')),
        (''target'', JStr (target_safe (''srpm-'' @ text_at e ''name'')))]))"

definition remarks :: "string list \<Rightarrow> string" where
  "remarks ls = concat (map (\<lambda>s. CHR ''#'' # s @ newline_text) ls)"

definition assignment :: "string \<Rightarrow> string \<Rightarrow> string" where
  "assignment n s = n @ '' = '' @ s @ newline_text"

text \<open>An opening sign, an element to a line with a comma after it, and the closing sign.\<close>

definition block :: "nat \<Rightarrow> string \<Rightarrow> string list \<Rightarrow> string \<Rightarrow> string" where
  "block n opening ls closing =
     opening @ newline_text @ concat (map (\<lambda>s. spaces (n + 4) @ s @ '','' @ newline_text) ls) @ spaces n @ closing"

definition render :: "string \<Rightarrow> string \<Rightarrow> lock \<Rightarrow> collected \<Rightarrow> string" where
  "render digest lockfile l c =
     remarks
       ['' @generated by tools/generate.py from '' @ lockfile,
        '' Do not edit.  Re-run:'',
        ''     tools/generate.py '' @ lockfile,
        [],
        '' Pure data, deliberately: defs/rpm_family.bzl turns it into targets.'',
        '' Every sha256 here is a pin carried through from the lockfile, and it is'',
        '' what the http_file targets verify against, so a mirror that serves the'',
        '' wrong bytes fails the build rather than poisoning it.'']
     @ newline_text
     @ assignment ''FLAVOR'' (json_dumps (JStr (lk_flavor l)))
     @ assignment ''RELEASE'' (json_dumps (text_or_null (lk_release l)))
     @ assignment ''DIST_TAG'' (json_dumps (JStr (lk_dist_tag l)))
     @ assignment ''TARGET_CPU'' (json_dumps (JStr (lk_target_cpu l)))
     @ assignment ''LOCK_SHA256'' (json_dumps (JStr digest))
     @ assignment ''SOURCE_POLICY''
         (bzl_literal (case lk_source_policy l of None \<Rightarrow> JNull | Some pol \<Rightarrow> JObj (policy_json pol)))
     @ newline_text
     @ assignment ''REPO_BASE'' (block 0 ''{''
         (map (\<lambda>(name, kind, addr, primary). json_text name @ '': '' @ json_text addr) (sort_key fst (lk_repos l))) ''}'')
     @ newline_text
     @ remarks
       ['' The binary-seed closure: prebuilt distro rpms that cut the'',
        '' dependency graph.  This is the target toolchain -- gcc,'',
        '' glibc, rpm macros and redhat-rpm-config all come from here,'',
        '' not from whatever the host happens to have installed.'']
     @ assignment ''SEED_RPMS'' (block 0 ''['' (map entry_literal (col_seed c)) '']'')
     @ newline_text
     @ remarks
       ['' Runtime closures, one per named image set.  A different'',
        '' question from SEED_RPMS over the same universe: what has to'',
        '' be installed for the machine to boot, rather than for the'',
        '' compiler to run.  These are installed by rpm with a real'',
        '' rpmdb and scriptlets, not unpacked.'']
     @ assignment ''IMAGE_SETS'' (block 0 ''{''
         (map (\<lambda>(name, pins). json_text name @ '': '' @ block 4 ''['' (map entry_literal pins) '']'')
            (sorted_items (col_image_sets c))) ''}'')
     @ newline_text
     @ remarks ['' Source rpms replayed by rpmbuild -bb.'']
     @ assignment ''SOURCE_RPMS'' (block 0 ''['' (map source_literal (col_sources c)) '']'')
     @ newline_text
     @ remarks
       ['' One package() call per entry.'',
        '' The shared buildroot: @buildsys-build closed over its'',
        '' Requires, by binary package name.  Every package builds in'',
        '' this and overlays its own seed_deps on top; handing every'',
        '' package the union of everyone'' @ [CHR 0x27] @ ''s build deps is what let'',
        '' libmnl find an undeclared doxygen and emit files its'',
        '' %files does not list.  See base_seed in tools/solve.py.'']
     @ assignment ''BASE_SEED'' (block 0 ''['' (map json_text (col_base c)) '']'')
     @ newline_text
     @ remarks
       ['' Pins that exist only to serve a version variant.  Kept out'',
        '' of SEED_RPMS because that list is filtered by name to form'',
        '' the shared base, and a variant is a second build of a name'',
        '' the base may already carry -- mixed in, both would be'',
        '' installed into one buildroot.'']
     @ assignment ''VARIANT_SEED_RPMS'' (block 0 ''['' (map entry_literal (col_variant_seed c)) '']'')
     @ newline_text
     @ assignment ''RECIPES'' (block 0 ''['' (map (bzl_literal \<circ> JObj) (col_recipes c)) '']'')
     @ newline_text
     @ remarks
       ['' Cycle staging.  A source package listed here is not built'',
        '' once but N times, each stage against the previous one'' @ [CHR 0x27] @ ''s'',
        '' output, because it and its build dependencies form a cycle'',
        '' that buck2 would reject at parse time.  `cycle_deps_from`'',
        '' names the stage a cycle dependency is taken from -- \"seed\"'',
        '' meaning the pinned upstream binary.  Exactly one stage per'',
        '' source has ships=True; that is the one the plain target'',
        '' name aliases to.'']
     @ assignment ''STAGED'' (block 0 ''['' (map (bzl_literal \<circ> JObj) (col_staged c)) '']'')"

section \<open>What the module says\<close>

definition entry_value :: "pin \<Rightarrow> json" where
  "entry_value e =
     JObj [(''arch'', JStr (pin_arch e)), (''evr'', JStr (pin_evr e)), (''location'', text_or_null (pin_location e)),
       (''name'', JStr (pin_name e)), (''repo'', JStr (py_or (pin_repo e) [])), (''sha256'', text_or_null (pin_sha256 e)),
       (''target'', JStr (rpm_target e))]"

definition source_value :: "jobj \<Rightarrow> json" where
  "source_value e =
     JObj [(''evr'', dget_or e ''evr'' JNull), (''location'', dget_or e ''location'' JNull),
       (''name'', dget_or e ''name'' JNull), (''repo'', JStr (text_at e ''repo'')),
       (''sha256'', dget_or e ''sha256'' JNull), (''target'', JStr (target_safe (''srpm-'' @ text_at e ''name'')))]"

definition module_of :: "string \<Rightarrow> lock \<Rightarrow> collected \<Rightarrow> module" where
  "module_of digest l c =
     [(''FLAVOR'', JStr (lk_flavor l)), (''RELEASE'', text_or_null (lk_release l)),
      (''DIST_TAG'', JStr (lk_dist_tag l)), (''TARGET_CPU'', JStr (lk_target_cpu l)), (''LOCK_SHA256'', JStr digest),
      (''SOURCE_POLICY'', canonical (case lk_source_policy l of None \<Rightarrow> JNull | Some pol \<Rightarrow> JObj (policy_json pol))),
      (''REPO_BASE'', JObj (map (\<lambda>(name, kind, addr, primary). (name, JStr addr)) (sort_key fst (lk_repos l)))),
      (''SEED_RPMS'', JList (map entry_value (col_seed c))),
      (''IMAGE_SETS'', JObj (map (\<lambda>(name, pins). (name, JList (map entry_value pins))) (sorted_items (col_image_sets c)))),
      (''SOURCE_RPMS'', JList (map source_value (col_sources c))),
      (''BASE_SEED'', text_list (col_base c)),
      (''VARIANT_SEED_RPMS'', JList (map entry_value (col_variant_seed c))),
      (''RECIPES'', JList (map (canonical \<circ> JObj) (col_recipes c))),
      (''STAGED'', JList (map (canonical \<circ> JObj) (col_staged c)))]"

lemma canonical_text [simp]: "canonical (text_or_null s) = text_or_null s" "canonical (JStr t) = JStr t"
  by (simp_all add: text_or_null_def split: option.split)

text \<open>A pin that can be fetched: its place and its digest are known.\<close>

definition fetchable :: "pin \<Rightarrow> bool" where
  "fetchable e \<longleftrightarrow> pin_location e \<noteq> None \<and> pin_sha256 e \<noteq> None"

lemma plain_text: "plain (text_or_null s) \<longleftrightarrow> s \<noteq> None" "well_formed (text_or_null s)"
  by (auto simp: text_or_null_def split: option.split)

lemma reads_entry: "fetchable e \<Longrightarrow> reads_as files env (entry_literal e) (entry_value e)"
proof -
  let ?v = "JObj [(''name'', JStr (pin_name e)), (''evr'', JStr (pin_evr e)), (''arch'', JStr (pin_arch e)),
        (''location'', text_or_null (pin_location e)), (''sha256'', text_or_null (pin_sha256 e)),
        (''repo'', JStr (py_or (pin_repo e) [])), (''target'', JStr (rpm_target e))]"
  have c: "canonical ?v = entry_value e" by (simp add: entry_value_def sorted_items_def)
  assume "fetchable e"
  then have "plain ?v" "well_formed ?v" by (simp_all add: fetchable_def plain_text)
  then show ?thesis using reads_dumps [of ?v files env] unfolding entry_literal_def c by blast
qed

definition fetchable_source :: "jobj \<Rightarrow> bool" where
  "fetchable_source e \<longleftrightarrow> list_all (\<lambda>k. \<exists>s. dget e k = Some (JStr s)) [''name'', ''evr'', ''location'', ''sha256'']"

lemma reads_source: "fetchable_source e \<Longrightarrow> reads_as files env (source_literal e) (source_value e)"
proof -
  let ?v = "JObj
       [(''name'', dget_or e ''name'' JNull), (''evr'', dget_or e ''evr'' JNull),
        (''location'', dget_or e ''location'' JNull), (''sha256'', dget_or e ''sha256'' JNull),
        (''repo'', JStr (text_at e ''repo'')),
        (''target'', JStr (target_safe (''srpm-'' @ text_at e ''name'')))]"
  assume f: "fetchable_source e"
  then have c: "canonical ?v = source_value e" by (auto simp: source_value_def sorted_items_def fetchable_source_def dget_or_def)
  have "plain ?v" "well_formed ?v" using f by (auto simp: fetchable_source_def dget_or_def)
  then show ?thesis using reads_dumps [of ?v files env] unfolding source_literal_def c by blast
qed

lemma reads_block_list:
  "list_all2 (reads_as files env) ts ws \<Longrightarrow> reads_as files env (block n ''['' ts '']'') (JList ws)"
  using reads_lines [of "spaces (n + 4)" newline_text newline_text "spaces n"] by (simp add: block_def)

lemma reads_block_dict:
  assumes "\<And>x. x \<in> set xs \<Longrightarrow> reads_as files env (t x) (v x)" "distinct (map k xs)"
  shows "reads_as files env (block n ''{'' (map (\<lambda>x. json_text (k x) @ '': '' @ t x) xs) ''}'')
    (JObj (map (\<lambda>x. (k x, v x)) xs))"
proof -
  let ?es = "map (\<lambda>x. (k x, t x)) xs"
  have "list_all2 (\<lambda>e. reads_as files env (snd e)) ?es (map v xs)"
    using assms(1) by (intro list_all2_maps) simp
  then have "reads_as files env (block n ''{'' (map (\<lambda>e. json_text (fst e) @ '': '' @ snd e) ?es) ''}'')
      (JObj (zip (map fst ?es) (map v xs)))"
    using reads_entry_lines [of "spaces (n + 4)" newline_text newline_text "spaces n" files env ?es "map v xs"] assms(2)
    by (simp add: block_def comp_def)
  then show ?thesis by (simp add: comp_def zip_map_map) (simp add: zip_same_conv_map comp_def)
qed

text \<open>A piece of a module, and the names it adds.\<close>

definition writes :: "string \<Rightarrow> module \<Rightarrow> module \<Rightarrow> bool" where
  "writes s env env' \<longleftrightarrow> (\<forall>files. feed files s (between env) = between env')"

lemma writes_append: "writes s a b \<Longrightarrow> writes t b c \<Longrightarrow> writes (s @ t) a c"
  by (simp add: writes_def)

lemma writes_cong: "writes s a b \<Longrightarrow> b = c \<Longrightarrow> writes s a c"
  by simp

lemma writes_remarks:
  assumes "list_all (\<lambda>s. CHR 0x0A \<notin> set s) ls" shows "writes (remarks ls) a a"
  using assms feed_remark unfolding writes_def remarks_def by (induction ls) auto

lemma writes_blank: "writes newline_text a a"
  using feed_blank unfolding writes_def by blast

lemma writes_assign:
  assumes "\<And>files. reads_as files env s v" "data_name n" "dget env n = None"
  shows "writes (assignment n s) env (env @ [(n, v)])"
  unfolding writes_def assignment_def by (intro allI feed_assignment reads_evaluates assms)

text \<open>What a module can carry: every pin can be fetched, names are not given twice, and the release is known.\<close>

definition collected_fetchable :: "collected \<Rightarrow> bool" where
  "collected_fetchable c \<longleftrightarrow>
     list_all fetchable (col_seed c @ col_variant_seed c @ concat (map snd (col_image_sets c)))
     \<and> list_all fetchable_source (col_sources c)"

definition names_once :: "lock \<Rightarrow> collected \<Rightarrow> bool" where
  "names_once l c \<longleftrightarrow>
     distinct (map fst (lk_repos l)) \<and> distinct (map fst (col_image_sets c))
     \<and> list_all (well_formed \<circ> JObj) (col_recipes c @ col_staged c)
     \<and> (case lk_source_policy l of None \<Rightarrow> True | Some pol \<Rightarrow> well_formed (JObj (policy_json pol)))"

lemma reads_rows:
  assumes "list_all (well_formed \<circ> JObj) rows"
  shows "list_all2 (reads_as files env) (map (bzl_literal \<circ> JObj) rows) (map (canonical \<circ> JObj) rows)"
  using assms reads_literal by (auto intro!: list_all2_maps simp: list_all_iff simp del: bzl_literal.simps canonical.simps)

lemma reads_entries:
  assumes "list_all fetchable pins"
  shows "reads_as files env (block n ''['' (map entry_literal pins) '']'') (JList (map entry_value pins))"
  using assms by (intro reads_block_list list_all2_maps reads_entry) (simp add: list_all_iff)

lemma reads_repos:
  assumes "distinct (map fst repos)"
  shows "reads_as files env
    (block 0 ''{'' (map (\<lambda>(name, kind, addr, primary). json_text name @ '': '' @ json_text addr) repos) ''}'')
    (JObj (map (\<lambda>(name, kind, addr, primary). (name, JStr addr)) repos))"
  using assms unfolding case_prod_beta by (intro reads_block_dict) (simp_all add: reads_text)

lemma reads_images:
  assumes "distinct (map fst sets)" "list_all fetchable (concat (map snd sets))"
  shows "reads_as files env
    (block 0 ''{'' (map (\<lambda>(name, pins). json_text name @ '': '' @ block 4 ''['' (map entry_literal pins) '']'') sets) ''}'')
    (JObj (map (\<lambda>(name, pins). (name, JList (map entry_value pins))) sets))"
  using assms unfolding case_prod_beta by (intro reads_block_dict reads_entries) (auto simp: list_all_iff)

lemma data_names:
  "list_all data_name [''FLAVOR'', ''RELEASE'', ''DIST_TAG'', ''TARGET_CPU'', ''LOCK_SHA256'', ''SOURCE_POLICY'',
     ''REPO_BASE'', ''SEED_RPMS'', ''IMAGE_SETS'', ''SOURCE_RPMS'', ''BASE_SEED'', ''VARIANT_SEED_RPMS'',
     ''RECIPES'', ''STAGED'']"
  by (simp add: data_name_def word_char_def)

lemma reads_json_text: "reads_as files env (json_dumps (JStr s)) (JStr s)"
  by (simp add: reads_text)

lemma sorted_images:
  "list_all P (concat (map snd (sorted_items sets))) \<longleftrightarrow> list_all P (concat (map snd sets))"
  by (simp add: list_all_iff)

lemma module_writes:
  assumes "lk_release l \<noteq> None" "CHR 0x0A \<notin> set lockfile" "collected_fetchable c" "names_once l c"
  shows "writes (render digest lockfile l c) [] (module_of digest l c)"
proof -
  have pins: "list_all fetchable (col_seed c)" "list_all fetchable (col_variant_seed c)"
      "list_all fetchable (concat (map snd (sorted_items (col_image_sets c))))"
    and sources: "list_all fetchable_source (col_sources c)"
    using assms(3) by (simp_all add: collected_fetchable_def sorted_images)
  have rows: "list_all (well_formed \<circ> JObj) (col_recipes c)" "list_all (well_formed \<circ> JObj) (col_staged c)"
    and sets: "distinct (map fst (sorted_items (col_image_sets c)))"
    and repos: "distinct (map fst (sort_key fst (lk_repos l)))"
    using assms(4) sorted_items_facts(3) [of "col_image_sets c"] by (simp_all add: names_once_def distinct_map)
  have policy: "reads_as files env
      (bzl_literal (case lk_source_policy l of None \<Rightarrow> JNull | Some pol \<Rightarrow> JObj (policy_json pol)))
      (canonical (case lk_source_policy l of None \<Rightarrow> JNull | Some pol \<Rightarrow> JObj (policy_json pol)))" for files env
    using assms(4) by (intro reads_literal) (auto simp: names_once_def split: option.splits)
  have release: "reads_as files env (json_dumps (text_or_null (lk_release l))) (text_or_null (lk_release l))" for files env
    using assms(1) by (auto simp: text_or_null_def reads_text)
  have lines: "list_all (\<lambda>s. CHR 0x0A \<notin> set s) ls \<Longrightarrow> writes (remarks ls) env env" for ls env
    by (rule writes_remarks)
  have base: "list_all2 (reads_as files env) (map json_text (col_base c)) (map JStr (col_base c))" for files env
    by (rule list_all2_maps) (rule reads_text)
  have srcs: "list_all2 (reads_as files env) (map source_literal (col_sources c)) (map source_value (col_sources c))" for files env
    using sources by (intro list_all2_maps reads_source) (simp add: list_all_iff)
  show ?thesis
    unfolding render_def
    by (rule writes_cong,
        (rule writes_append writes_blank lines writes_assign reads_json_text release policy
           reads_repos [OF repos] reads_entries [OF pins(1)] reads_entries [OF pins(2)] reads_images [OF sets pins(3)]
           reads_block_list base srcs reads_rows [OF rows(1)] reads_rows [OF rows(2)]
         | simp add: assms(2) data_names [simplified] module_of_def text_list_def)+)
qed

section \<open>One pin for each digest\<close>

lemma fold_dsetdefault:
  "dget (fold (\<lambda>e. dsetdefault (f e) e) xs d) k = (case dget d k of Some v \<Rightarrow> Some v | None \<Rightarrow> find (\<lambda>e. f e = k) xs)"
proof (induction xs arbitrary: d)
  case (Cons x xs)
  have "dget (fold (\<lambda>e. dsetdefault (f e) e) (x # xs) d) k
      = (case dget (dsetdefault (f x) x d) k of Some v \<Rightarrow> Some v | None \<Rightarrow> find (\<lambda>e. f e = k) xs)"
    using Cons.IH by simp
  then show ?case by (auto simp: dget_dsetdefault split: option.split)
qed (simp split: option.split)

lemma distinct_fold_dsetdefault:
  "distinct (map fst d) \<Longrightarrow> distinct (map fst (fold (\<lambda>e. dsetdefault (f e) e) xs d))"
proof (induction xs arbitrary: d)
  case (Cons x xs)
  have "distinct (map fst (dsetdefault (f x) x d))"
    using Cons.prems by (auto simp: dsetdefault_def map_of_eq_None_iff split: option.split)
  from Cons.IH [OF this] show ?case by simp
qed simp

lemma dedupe_facts:
  assumes "dedupe entries = Inr out"
  shows "set out \<subseteq> set entries" and "\<And>e. e \<in> set entries \<Longrightarrow> \<exists>e' \<in> set out. pin_sha256 e' = pin_sha256 e"
    and "distinct (map pin_sha256 out)"
proof -
  let ?d = "fold (\<lambda>e. dsetdefault (pin_sha256 e) e) entries []"
  have out: "out = map snd (sort_key (\<lambda>kv. opt_text (fst kv)) ?d)"
    using assms by (auto simp: dedupe_def Let_def split: if_splits)
  have d: "distinct (map fst ?d)" by (rule distinct_fold_dsetdefault) simp
  have get: "dget ?d k = find (\<lambda>e. pin_sha256 e = k) entries" for k by (simp add: fold_dsetdefault)
  have entry: "e \<in> set entries \<and> pin_sha256 e = k" if "(k, e) \<in> set ?d" for k e
  proof -
    have "dget ?d k = Some e" using that d by simp
    then show ?thesis unfolding get find_Some_iff by auto
  qed
  show "set out \<subseteq> set entries" using entry by (auto simp: out)
  show "\<exists>e' \<in> set out. pin_sha256 e' = pin_sha256 e" if e: "e \<in> set entries" for e
  proof -
    obtain e' where "dget ?d (pin_sha256 e) = Some e'"
      using e get [of "pin_sha256 e"] by (cases "find (\<lambda>x. pin_sha256 x = pin_sha256 e) entries") (auto simp: find_None_iff)
    then have "(pin_sha256 e, e') \<in> set ?d" by (rule dget_in_set)
    then have "e' \<in> set out" "pin_sha256 e' = pin_sha256 e" using entry by (auto simp: out intro: rev_image_eqI)
    then show ?thesis by blast
  qed
  have "map pin_sha256 out = map fst (sort_key (\<lambda>kv. opt_text (fst kv)) ?d)"
    unfolding out map_map using entry by (intro map_cong refl) (simp add: prod.split_sel)
  then show "distinct (map pin_sha256 out)" using d by (simp add: distinct_map)
qed

lemma dedupe_defined:
  assumes "list_all (\<lambda>e. \<not> pin_unresolved e \<and> pin_sha256 e \<noteq> None) entries"
  shows "\<exists>out. dedupe entries = Inr out"
proof -
  let ?d = "fold (\<lambda>e. dsetdefault (pin_sha256 e) e) entries []"
  have "dget ?d None = None" using assms by (simp add: fold_dsetdefault find_None_iff list_all_iff)
  then have "None \<notin> set (keys ?d)" by (simp add: keys_def map_of_eq_None_iff)
  moreover have "\<not> list_ex pin_unresolved entries" using assms by (auto simp: list_ex_iff list_all_iff)
  ultimately show ?thesis by (simp add: dedupe_def)
qed

lemma dedupe_sets_facts:
  assumes "dedupe_sets sets = Inr out"
  shows "map fst out = map fst sets" and "set (concat (map snd out)) \<subseteq> set (concat (map snd sets))"
proof -
  have "map fst out = map fst sets \<and> set (concat (map snd out)) \<subseteq> set (concat (map snd sets))"
    using assms
  proof (induction sets arbitrary: out)
    case (Cons s sets)
    obtain name members where s: "s = (name, members)" by fastforce
    with Cons.prems obtain pins rest where r: "dedupe members = Inr pins" "dedupe_sets sets = Inr rest"
        "out = (name, pins) # rest"
      by (auto simp: attempt_Inr)
    show ?case using Cons.IH [OF r(2)] dedupe_facts(1) [OF r(1)] by (auto simp: s r(3))
  qed simp
  then show "map fst out = map fst sets" "set (concat (map snd out)) \<subseteq> set (concat (map snd sets))" by auto
qed

lemma dedupe_sets_defined:
  assumes "list_all (\<lambda>e. \<not> pin_unresolved e \<and> pin_sha256 e \<noteq> None) (concat (map snd sets))"
  shows "\<exists>out. dedupe_sets sets = Inr out"
  using assms
proof (induction sets)
  case (Cons s sets)
  obtain name members where s: "s = (name, members)" by fastforce
  from Cons.prems obtain pins where "dedupe members = Inr pins" using dedupe_defined [of members] by (auto simp: s)
  moreover from Cons obtain out where "dedupe_sets sets = Inr out" by auto
  ultimately show ?case by (simp add: s)
qed simp

section \<open>Generating from one lock\<close>

definition FLAVORS :: "string list" where
  "FLAVORS = [''centos'', ''centos-hyperscale'', ''fedora'']"

text \<open>
  The name of the module and its text; \<open>rel_lock\<close> is the path of the lock from the working directory,
  and \<open>digest\<close> the digest of the document.
\<close>

definition generate_module ::
  "string \<Rightarrow> string \<Rightarrow> string \<Rightarrow> bool \<Rightarrow> lock \<Rightarrow> gen_error + string \<times> string" where
  "generate_module digest lockfile rel_lock recorded l =
     (if lk_schema l \<noteq> LOCK_SCHEMA then Inl (OtherSchema (lk_schema l))
      else if lk_flavor l \<notin> set FLAVORS then Inl (OtherFlavor (lk_flavor l))
      else
        attempt (validate_lock_source_policy l) (\<lambda>_.
        attempt (collect recorded l) (\<lambda>c.
        attempt (map_error BadName (strip_lockfile_suffix lockfile)) (\<lambda>stem.
          Inr (basename stem @ ''.bzl'', render digest rel_lock l c)))))"

text \<open>A lock whose every pin can be fetched.\<close>

definition pins_of :: "lock \<Rightarrow> pin list" where
  "pins_of l = lk_buildroot_seed l @ lk_variant_seed l @ concat (map snd (lk_image_sets l))"

definition fetchable_lock :: "lock \<Rightarrow> bool" where
  "fetchable_lock l \<longleftrightarrow>
     lk_release l \<noteq> None
     \<and> list_all (\<lambda>e. \<not> pin_unresolved e \<and> fetchable e) (pins_of l)
     \<and> list_all (\<lambda>(name, p). nameable p \<and> src_location (lp_source p) \<noteq> None \<and> src_sha256 (lp_source p) \<noteq> None)
         (lk_packages l)"

lemma collect_defined:
  assumes "fetchable_lock l"
  shows "\<exists>c. collect True l = Inr c \<and> collected_fetchable c"
proof -
  have pins: "list_all (\<lambda>e. \<not> pin_unresolved e \<and> pin_sha256 e \<noteq> None) (pins_of l)"
    and fetch: "list_all fetchable (pins_of l)"
    using assms by (auto simp: fetchable_lock_def list_all_iff fetchable_def)
  obtain seed where seed: "dedupe (lk_buildroot_seed l) = Inr seed"
    using pins dedupe_defined by (auto simp: pins_of_def)
  obtain variant where variant: "dedupe (lk_variant_seed l) = Inr variant"
    using pins dedupe_defined by (auto simp: pins_of_def)
  have "list_all (\<lambda>e. \<not> pin_unresolved e \<and> pin_sha256 e \<noteq> None) (concat (map snd (sorted_items (lk_image_sets l))))"
    using pins by (simp add: pins_of_def sorted_images)
  then obtain sets where sets: "dedupe_sets (sorted_items (lk_image_sets l)) = Inr sets"
    using dedupe_sets_defined by blast
  have "\<not> list_ex (\<lambda>(name, p). \<not> nameable p) (sorted_items (lk_packages l))"
    using assms by (auto simp: fetchable_lock_def list_all_iff list_ex_iff)
  then obtain c where c: "collect True l = Inr c" "col_seed c = seed" "col_variant_seed c = variant"
      "col_image_sets c = sets" "col_sources c = map (\<lambda>(name, p). source_row (lp_source p)) (sorted_items (lk_packages l))"
    by (auto simp: collect_def seed variant sets base_names_def Let_def)
  have "set (seed @ variant @ concat (map snd sets)) \<subseteq> set (pins_of l)"
    using dedupe_facts(1) [OF seed] dedupe_facts(1) [OF variant] dedupe_sets_facts(2) [OF sets]
    by (auto simp: pins_of_def)
  then have "list_all fetchable (seed @ variant @ concat (map snd sets))"
    using fetch unfolding list_all_iff by blast
  moreover have "list_all fetchable_source (col_sources c)"
    using assms by (auto simp: c(5) fetchable_lock_def list_all_iff fetchable_source_def source_row_def text_or_null_def)
  ultimately have "collected_fetchable c" by (simp add: collected_fetchable_def c)
  then show ?thesis using c(1) by blast
qed

end
