(* ===== verification/GenerateSound.thy ===== *)
theory GenerateSound
  imports Generate
begin

text \<open>
  What the solver writes and \<^verbatim>\<open>tools/generate.py\<close> reads, together: a solved lock is
  accepted and its module loads with the data it was generated from, and a recipe of the module
  names every dependency the solve found.
\<close>

section \<open>A solved lock\<close>

lemma emitted_header:
  assumes "emit_lockfile u image_u build_set sol vs older plan dep image_sets seeds reps base args = Inr l"
  shows "lk_schema l = LOCK_SCHEMA" "lk_flavor l = arg_flavor args" "lk_repos l = map public_repo (arg_repos args)"
    "in_source_image_sets (lk_solve l) = sorted_set (arg_source_image args)" "lk_staged l = plan_staged plan"
  by (rule emit_lockfile_cases [OF assms];
      simp add: with_counts_def with_policy_def draft_lock_def solve_inputs_of_def)+

lemma emitted_policy_accepted:
  assumes "emit_lockfile u image_u build_set sol vs older plan dep image_sets seeds reps base args = Inr l"
  shows "validate_lock_source_policy l = Inr ()"
proof (cases "arg_source_image args = []")
  case True
  have "lk_source_policy l = None"
    by (rule emit_lockfile_cases [OF assms]) (simp_all add: True with_counts_def draft_lock_def)
  then show ?thesis by (simp add: validate_lock_source_policy_def emitted_header(4) [OF assms] True)
next
  case False
  then show ?thesis using emitted_policy_validates [OF assms]
    by (auto simp: validate_lock_source_policy_def map_error_def split: prod.split)
qed

lemma emitted_policy_well_formed:
  assumes "emit_lockfile u image_u build_set sol vs older plan dep image_sets seeds reps base args = Inr l"
    and "lk_source_policy l = Some pol"
  shows "well_formed (JObj (policy_json pol))"
proof -
  obtain images producers exceptions selected where
    "build_source_policy images producers exceptions selected = Inr pol"
    by (rule emit_lockfile_cases [OF assms(1)];
        use assms(2) in \<open>auto simp: with_counts_def with_policy_def draft_lock_def\<close>)
  then obtain es where "pol = policy_for images producers es selected" by (rule build_sound)
  then show ?thesis by (intro policy_json_well_formed) (simp add: policy_for_def comp_def)
qed

lemma routed_distinct: "distinct (map fst (routed p f))"
proof -
  have "distinct (map fst d) \<Longrightarrow> distinct (map fst (fold (\<lambda>e. dset (pin_name e) (f e)) es d))" for es d
    by (induction es arbitrary: d) simp_all
  then show ?thesis by (simp add: routed_def)
qed

lemma recipe_well_formed: "well_formed (JObj (recipe_row base name p))"
  using routed_distinct
  by (auto simp: recipe_row_def Let_def text_list_def text_dict_def plain_text comp_def)

lemma stage_well_formed: "well_formed (JObj (stage_row e))"
  by (auto simp: stage_row_def text_list_def)

lemma collect_cases:
  assumes "collect recorded l = Inr c"
  obtains seed where "dedupe (lk_buildroot_seed l) = Inr seed" "col_seed c = seed"
    "base_names recorded l seed = Inr (col_base c)"
    "dedupe_sets (sorted_items (lk_image_sets l)) = Inr (col_image_sets c)"
    "col_recipes c = map (\<lambda>(name, p). recipe_row (col_base c) name p) (sorted_items (lk_packages l))"
    "col_staged c = map stage_row (sort_key (\<lambda>e. (stage_number e, stage_source e)) (lk_staged l))"
  using assms by (auto simp: collect_def Let_def attempt_Inr split: if_splits)

lemma collected_names_once:
  assumes "collect recorded l = Inr c" "distinct (map fst (lk_image_sets l))" "distinct (map fst (lk_repos l))"
    and "\<And>pol. lk_source_policy l = Some pol \<Longrightarrow> well_formed (JObj (policy_json pol))"
  shows "names_once l c"
  by (rule collect_cases [OF assms(1)];
      use assms(2-4) sorted_items_facts(3) [OF assms(2)] in \<open>auto simp: names_once_def dedupe_sets_facts(1)
        list_all_iff recipe_well_formed stage_well_formed simp del: well_formed.simps split: option.split\<close>)

text \<open>
  C31: A lock the solver wrote, for a flavor the generator knows, goes through it: the schema and the
  recorded policy are accepted, and the module it writes loads, with exactly the data collected
  from the lock. The lock has a release, and each of its pins a place and a digest.
\<close>
theorem solved_lock_generates:
  assumes "emit_lockfile u image_u build_set sol vs older plan dep image_sets seeds reps base args = Inr l"
    and "arg_flavor args \<in> set FLAVORS" "fetchable_lock l"
    and "distinct (map repo_name (arg_repos args))" "distinct (map fst image_sets)"
    and "strip_lockfile_suffix lockfile = Inr stem" "CHR 0x0A \<notin> set rel_lock"
  shows "\<exists>c s. collect True l = Inr c
    \<and> generate_module digest lockfile rel_lock True l = Inr (basename stem @ ''.bzl'', s)
    \<and> read_module files s = Some (module_of digest l c)"
proof -
  obtain c where c: "collect True l = Inr c" "collected_fetchable c" using collect_defined [OF assms(3)] by blast
  have "distinct (map fst (lk_image_sets l))"
    using sorted_items_facts(3) [OF assms(5)] by (simp add: emitted_packages(4) [OF assms(1)] comp_def case_prod_beta)
  moreover have "distinct (map fst (lk_repos l))"
    using assms(4) by (simp add: emitted_header(3) [OF assms(1)] comp_def public_repo_def)
  ultimately have "names_once l c"
    by (rule collected_names_once [OF c(1)]) (rule emitted_policy_well_formed [OF assms(1)])
  moreover have "lk_release l \<noteq> None" using assms(3) by (simp add: fetchable_lock_def)
  ultimately have "read_module files (render digest rel_lock l c) = Some (module_of digest l c)"
    using module_writes [OF _ assms(7) c(2)] by (intro read_moduleI) (simp add: writes_def)
  then show ?thesis
    using assms(2) emitted_header(1,2) [OF assms(1)] emitted_policy_accepted [OF assms(1)] assms(6) c(1)
    by (simp add: generate_module_def map_error_def)
qed

section \<open>Without a release\<close>

lemma feed_refused: "\<exists>lx. feed files s (lx', None) = (lx, None)"
proof (induction s arbitrary: lx')
  case (Cons c s)
  have "\<exists>lx. read_char files c (lx', None) = (lx, None)"
    by (cases lx') (auto simp: gap_char_def push_token_def split: option.split)
  then show ?case using Cons.IH by auto
qed simp

text \<open>
  The release is optional on the solver's command line, and a lock without one is written as the name
  \<open>null\<close>, which no data file defines: the module does not load.
\<close>
lemma null_release_refused:
  assumes "lk_release l = None" "CHR 0x0A \<notin> set rel_lock"
  shows "read_module files (render digest rel_lock l c) = None"
proof -
  obtain lines rest where lines: "list_all (\<lambda>s. CHR 0x0A \<notin> set s) lines" and
    r: "render digest rel_lock l c = remarks lines @ newline_text @ assignment ''FLAVOR'' (json_dumps (JStr (lk_flavor l)))
      @ assignment ''RELEASE'' (json_dumps (text_or_null (lk_release l))) @ rest"
    by (rule that, rule_tac [2] render_def) (simp add: assms(2))
  have head: "writes (remarks lines @ newline_text @ assignment ''FLAVOR'' (json_dumps (JStr (lk_flavor l)))) []
      ([] @ [(''FLAVOR'', JStr (lk_flavor l))])"
    by ((rule writes_append writes_remarks writes_blank writes_assign reads_json_text
      | simp add: lines data_names [simplified])+)
  have null: "feed files (assignment ''RELEASE'' (json_dumps (text_or_null (lk_release l))))
      (between [(''FLAVOR'', JStr (lk_flavor l))]) = (Gap, None)"
    by (simp add: assignment_def text_or_null_def assms(1) gap_char_def push_token_def word_char_def word_value_def
        natural_def digit_value_def)
  obtain lx where "feed files rest (Gap, None) = (lx, None)" using feed_refused by blast
  moreover have "feed files (render digest rel_lock l c) (between []) = feed files rest (Gap, None)"
    unfolding r using head null by (simp add: writes_def)
  moreover obtain lx' where "read_char files CHR 0x0A (lx, None) = (lx', None)"
    using feed_refused [of files "[CHR 0x0A]" lx] by auto
  ultimately show ?thesis by (simp add: read_module_def split: lexing.split)
qed

section \<open>Every dependency of a recipe\<close>

definition row_texts :: "jobj \<Rightarrow> string \<Rightarrow> string set" where
  "row_texts row k = (case dget row k of Some (JList xs) \<Rightarrow> {s. JStr s \<in> set xs} | _ \<Rightarrow> {})"

lemma recipe_row_texts [simp]:
  "dget (recipe_row base name p) ''name'' = Some (JStr name)"
  "row_texts (recipe_row base name p) ''build_deps'' = set (map pin_name (lp_deps_built p))"
  "row_texts (recipe_row base name p) ''seed_deps'' = set (map pin_name (lp_deps_seed p)) - set base"
  by (auto simp: recipe_row_def Let_def row_texts_def text_list_def)

text \<open>Whether a table of pins has the pin of a name: an entry of that name with the same digest.\<close>

definition serves :: "pin list \<Rightarrow> pin \<Rightarrow> bool" where
  "serves table e \<longleftrightarrow> (\<exists>e' \<in> set table. pin_name e' = pin_name e \<and> pin_sha256 e' = pin_sha256 e)"

text \<open>
  C32: No dependency of a build is lost between the solve and the module. The recipe of a source names
  among its built dependencies those whose source is on the build list, and each of the others is in
  the shared buildroot or among the seeds the recipe lays over it. The seed table has an entry for
  every name the solve pinned, unless two different names were pinned to one file.
\<close>
theorem recipe_deps_served:
  assumes "emit_lockfile u image_u build_set sol vs older plan dep image_sets seeds reps base args = Inr l"
    and "collect True l = Inr c" "src \<in> set build_set" "dget (sol_deps sol) src = Some deps" "finite base"
    and "\<forall>e \<in> set (lk_buildroot_seed l). \<forall>e' \<in> set (lk_buildroot_seed l).
      pin_sha256 e = pin_sha256 e' \<longrightarrow> pin_name e = pin_name e'"
  shows "\<exists>row \<in> set (col_recipes c). dget row ''name'' = Some (JStr src)
    \<and> row_texts row ''build_deps'' = {d \<in> set deps. built_here u build_set d}
    \<and> row_texts row ''build_deps'' \<union> row_texts row ''seed_deps'' \<union> base \<supseteq> set deps
    \<and> row_texts row ''seed_deps'' \<inter> base = {}
    \<and> (\<forall>d \<in> set deps \<union> base. serves (col_seed c) (pin_binary u d))"
proof -
  note e = emitted_packages [OF assms(1)]
  let ?p = "lock_package_of u build_set sol vs (arg_source_variant args) older src"
  obtain seed where c: "dedupe (lk_buildroot_seed l) = Inr seed" "col_seed c = seed"
    "base_names True l seed = Inr (col_base c)"
    "col_recipes c = map (\<lambda>(name, p). recipe_row (col_base c) name p) (sorted_items (lk_packages l))"
    by (rule collect_cases [OF assms(2)])
  have "col_base c = sort (sorted_list_of_set base)" using c(3) by (simp add: base_names_def e(3))
  then have base: "set (col_base c) = base" using assms(5) by simp
  have "recipe_row (col_base c) src ?p \<in> set (col_recipes c)"
    using assms(3) by (force simp: c(4) e(1))
  moreover have "set (map pin_name (lp_deps_built ?p)) = {d \<in> set deps. built_here u build_set d}"
    "set (map pin_name (lp_deps_seed ?p)) = {d \<in> set deps. \<not> built_here u build_set d}"
    using assms(4) by (auto simp: lock_package_of_def Let_def dget_or_def comp_def)
  moreover have "serves (col_seed c) (pin_binary u d)" if d: "d \<in> set deps \<union> base" for d
  proof -
    have "d \<in> set (seed_closure sol seeds base)"
      using d assms(5) dget_in_set [OF assms(4)] by (force simp: seed_closure_def)
    then have i: "pin_binary u d \<in> set (lk_buildroot_seed l)" by (simp add: e(2))
    obtain e' where "e' \<in> set seed" "pin_sha256 e' = pin_sha256 (pin_binary u d)"
      using dedupe_facts(2) [OF c(1) i] by blast
    moreover from this(1) have "e' \<in> set (lk_buildroot_seed l)" using dedupe_facts(1) [OF c(1)] by blast
    ultimately show ?thesis using assms(6) i unfolding serves_def c(2) by blast
  qed
  ultimately show ?thesis by (intro bexI [of _ "recipe_row (col_base c) src ?p"]) (auto simp: base)
qed

section \<open>Instances\<close>

text \<open>A build with a place and a digest, and the lock of one source that builds with two of them.\<close>

definition with_place :: "package \<Rightarrow> package" where
  "with_place p = p\<lparr>pkg_location := Some (pkg_name p @ ''.rpm''), pkg_checksum := Some (''0'' @ pkg_name p),
     pkg_checksum_type := Some ''sha256''\<rparr>"

definition placed_universe :: universe where
  "placed_universe = build_universe (map with_place small_repo) (map with_place small_sources) ''x86_64'' [] []"

definition placed_emit :: "policy_error + lock" where
  "placed_emit = emit_lockfile placed_universe placed_universe [''zlib''] small_solution
     (add_source_variants [] placed_universe [] [] [''zlib'']) [] small_plan small_depth
     [(''live'', [''glibc''])] [] [] {} small_args"

definition placed_lock :: lock where
  "placed_lock = projr placed_emit"

lemma placed_emit_ok: "placed_emit = Inr placed_lock"
proof -
  have "\<not> isl placed_emit" by code_simp
  then show ?thesis by (simp add: placed_lock_def sum.collapse(2))
qed

lemma placed_lock_fetchable: "fetchable_lock placed_lock"
  by code_simp

theorem solved_lock_generates_witness:
  "\<exists>c s. collect True placed_lock = Inr c
     \<and> generate_module ''00'' ''fedora-43-x86_64.lock.json'' ''lock/fedora-43-x86_64.lock.json'' True placed_lock
       = Inr (''fedora-43-x86_64.bzl'', s)
     \<and> read_module [] s = Some (module_of ''00'' placed_lock c)
     \<and> map pin_name (col_seed c) = [''glibc'', ''make'']"
proof -
  have a: "arg_flavor small_args \<in> set FLAVORS" "distinct (map repo_name (arg_repos small_args))"
    by (simp_all add: small_args_def FLAVORS_def)
  have n: "strip_lockfile_suffix ''fedora-43-x86_64.lock.json'' = Inr ''fedora-43-x86_64''"
    "basename ''fedora-43-x86_64'' @ ''.bzl'' = ''fedora-43-x86_64.bzl''"
    by code_simp+
  have s: "map_option (map pin_name \<circ> col_seed) (case collect True placed_lock of Inr c \<Rightarrow> Some c | Inl _ \<Rightarrow> None)
      = Some [''glibc'', ''make'']"
    by code_simp
  have i: "distinct (map fst [(''live'', [''glibc''])])" by simp
  have newline: "CHR 0x0A \<notin> set ''lock/fedora-43-x86_64.lock.json''" by simp
  show ?thesis
    using solved_lock_generates [OF placed_emit_ok [unfolded placed_emit_def] a(1) placed_lock_fetchable a(2) i n(1) newline, of "''00''" "[]"] s n(2)
    by auto
qed

theorem recipe_deps_served_witness:
  "\<exists>c. collect True placed_lock = Inr c \<and> (\<exists>row \<in> set (col_recipes c).
     row_texts row ''build_deps'' = {} \<and> {''glibc'', ''make''} \<subseteq> row_texts row ''seed_deps''
     \<and> serves (col_seed c) (pin_binary placed_universe ''make''))"
proof -
  obtain c where c: "collect True placed_lock = Inr c"
    using collect_defined [of placed_lock] placed_lock_fetchable by blast
  have d: "dget (sol_deps small_solution) ''zlib'' = Some [''glibc'', ''make'']" by (simp add: small_solution_def)
  have once: "list_all (\<lambda>e. list_all (\<lambda>e'. pin_sha256 e = pin_sha256 e' \<longrightarrow> pin_name e = pin_name e')
      (lk_buildroot_seed placed_lock)) (lk_buildroot_seed placed_lock)" by code_simp
  have b: "built_here placed_universe [''zlib''] ''glibc'' = False" "built_here placed_universe [''zlib''] ''make'' = False"
    by code_simp+
  have "\<exists>row \<in> set (col_recipes c). dget row ''name'' = Some (JStr ''zlib'')
    \<and> row_texts row ''build_deps'' = {d \<in> set [''glibc'', ''make'']. built_here placed_universe [''zlib''] d}
    \<and> row_texts row ''build_deps'' \<union> row_texts row ''seed_deps'' \<union> {} \<supseteq> set [''glibc'', ''make'']
    \<and> row_texts row ''seed_deps'' \<inter> {} = {}
    \<and> (\<forall>d \<in> set [''glibc'', ''make''] \<union> {}. serves (col_seed c) (pin_binary placed_universe d))"
    by (rule recipe_deps_served [OF placed_emit_ok [unfolded placed_emit_def] c _ d _ once [unfolded list_all_iff]]) simp_all
  moreover have "{d \<in> set [''glibc'', ''make'']. built_here placed_universe [''zlib''] d} = {}" using b by auto
  ultimately show ?thesis using c by (elim bexE conjE) (intro exI conjI bexI, auto)
qed

end
