(* ===== verification/DebGenerate.thy ===== *)
theory DebGenerate
  imports Generate
begin

text \<open>
  \<^verbatim>\<open>tools/deb_generate.py\<close>: the step from a Debian lock to Buck data. The records of the
  sources are spread over files that stay below the size a repository tracks, and the main file
  loads them and puts them together again.
\<close>

datatype deb_gen_error =
    NoField string
  | WrongShape
  | LockSchema json
  | LockDistro json
  | LockCpu json
  | PolicyRefused policy_error
  | ShardTooBig nat nat
  | FileTooBig string nat int

section \<open>Checking the lock\<close>

definition json_truthy :: "json \<Rightarrow> bool" where
  "json_truthy v =
     (case v of
        JNull \<Rightarrow> False | JBool b \<Rightarrow> b | JInt n \<Rightarrow> n \<noteq> 0 | JStr s \<Rightarrow> s \<noteq> [] | JList xs \<Rightarrow> xs \<noteq> [] | JObj d \<Rightarrow> d \<noteq> [])"

text \<open>\<open>{"amd64": \<dots>}.get(architecture)\<close>: a list or an object cannot be looked up.\<close>

definition target_cpu :: "json \<Rightarrow> deb_gen_error + json" where
  "target_cpu architecture =
     (case architecture of
        JStr s \<Rightarrow> Inr (if s = ''amd64'' then JStr ''x86_64'' else if s = ''arm64'' then JStr ''aarch64'' else JNull)
      | JList _ \<Rightarrow> Inl WrongShape
      | JObj _ \<Rightarrow> Inl WrongShape
      | _ \<Rightarrow> Inr JNull)"

definition ARCHITECTURES :: "string list" where
  "ARCHITECTURES = [''x86_64'', ''aarch64'']"

definition field :: "jobj \<Rightarrow> string \<Rightarrow> deb_gen_error + json" where
  "field d k = (case dget d k of None \<Rightarrow> Inl (NoField k) | Some v \<Rightarrow> Inr v)"

definition as_obj :: "json \<Rightarrow> deb_gen_error + jobj" where
  "as_obj v = (case v of JObj d \<Rightarrow> Inr d | _ \<Rightarrow> Inl WrongShape)"

definition as_list :: "json \<Rightarrow> deb_gen_error + json list" where
  "as_list v = (case v of JList xs \<Rightarrow> Inr xs | _ \<Rightarrow> Inl WrongShape)"

fun each :: "('a \<Rightarrow> 'e + 'b) \<Rightarrow> 'a list \<Rightarrow> 'e + 'b list" where
  "each f [] = Inr []"
| "each f (x # xs) = attempt (f x) (\<lambda>y. attempt (each f xs) (\<lambda>ys. Inr (y # ys)))"

definition source_producer :: "json \<Rightarrow> deb_gen_error + string" where
  "source_producer v =
     attempt (as_obj v) (\<lambda>source.
     attempt (field source ''name'') (\<lambda>name.
     attempt (field source ''version_full'') (\<lambda>version.
       Inr (json_str name @ ''@'' @ json_str version))))"

text \<open>
  The image sets as the policy reads them. A value of another shape is an error here; in the source the
  exception is raised where the value is first used.
\<close>

definition image_payloads :: "json \<Rightarrow> deb_gen_error + (string, jobj list) dict" where
  "image_payloads v =
     attempt (as_obj v) (\<lambda>sets.
       each (\<lambda>kv. attempt (as_list (snd kv)) (\<lambda>xs. attempt (each as_obj xs) (\<lambda>ds. Inr (fst kv, ds)))) sets)"

definition validate_lock :: "jobj \<Rightarrow> deb_gen_error + string \<times> string" where
  "validate_lock lock =
     (let schema = dget_or lock ''schema'' JNull; distro = dget_or lock ''distro'' JNull;
          recorded = dget_or lock ''target_cpu'' JNull in
      if schema \<notin> {JInt 2, JInt 3} then Inl (LockSchema schema)
      else if distro \<notin> {JStr ''debian'', JStr ''ubuntu''} then Inl (LockDistro distro)
      else
        attempt (if json_truthy recorded then Inr recorded else target_cpu (dget_or lock ''architecture'' JNull)) (\<lambda>cpu.
        if cpu \<notin> JStr ` set ARCHITECTURES then Inl (LockCpu cpu)
        else
          attempt
            (if schema = JInt 3
             then
               attempt (attempt (field lock ''sources'') as_list) (\<lambda>sources.
               attempt (each source_producer sources) (\<lambda>producers.
               attempt (as_obj (dget_or lock ''source_policy'' (JObj []))) (\<lambda>recorded_policy.
               attempt (image_payloads (dget_or lock ''image_sets'' (JObj []))) (\<lambda>images.
                 map_error PolicyRefused (validate_source_policy recorded_policy images (set producers))))))
             else Inr ()) (\<lambda>_.
          Inr (json_str distro, json_str cpu))))"

section \<open>Shards\<close>

definition source_shard_content :: "json list \<Rightarrow> string" where
  "source_shard_content sources =
     py_join newline_text
       [''# @generated by tools/deb_generate.py. Do not edit by hand.'', [],
        ''SOURCES = '' @ deb_bzl_literal (JList sources) 0, []]"

definition shard_size :: "json list \<Rightarrow> nat" where
  "shard_size sources = length (utf8 (source_shard_content sources))"

definition GENERATED_SHARD_LIMIT :: int where
  "GENERATED_SHARD_LIMIT = 4000000"

fun shard_loop :: "nat \<Rightarrow> json list \<Rightarrow> json list list \<Rightarrow> json list \<Rightarrow> deb_gen_error + json list list" where
  "shard_loop limit [] shards current = Inr (if current \<noteq> [] then shards @ [current] else shards)"
| "shard_loop limit (source # sources) shards current =
     (let candidate = current @ [source];
          flush = current \<noteq> [] \<and> limit \<le> shard_size candidate;
          shards' = (if flush then shards @ [current] else shards);
          current' = (if flush then [source] else candidate)
      in if limit \<le> shard_size current' then Inl (ShardTooBig (shard_size current') limit)
         else shard_loop limit sources shards' current')"

definition source_shards :: "json list \<Rightarrow> int option \<Rightarrow> deb_gen_error + json list list" where
  "source_shards sources limit =
     shard_loop
       (nat (case limit of Some n \<Rightarrow> if n = 0 then GENERATED_SHARD_LIMIT else n | None \<Rightarrow> GENERATED_SHARD_LIMIT))
       sources [] []"

text \<open>\<open>"{:03d}".format(n)\<close>\<close>

definition three_digits :: "nat \<Rightarrow> string" where
  "three_digits n = replicate (3 - length (nat_text n)) CHR ''0'' @ nat_text n"

text \<open>\<open>os.path.splitext\<close>: the extension starts at the last dot, unless only dots come before it.\<close>

definition splitext :: "string \<Rightarrow> string \<times> string" where
  "splitext name =
     (let ext = rev (takeWhile (\<lambda>c. c \<noteq> CHR ''.'') (rev name)); stem = take (length name - length ext - 1) name in
      if CHR ''.'' \<in> set name \<and> list_ex (\<lambda>c. c \<noteq> CHR ''.'') stem then (stem, CHR ''.'' # ext) else (name, []))"

definition source_shard_name :: "string \<Rightarrow> nat \<Rightarrow> string" where
  "source_shard_name output index =
     (case splitext (basename output) of (stem, extension) \<Rightarrow>
        stem @ ''-sources-'' @ three_digits index @ extension)"

definition shard_alias :: "nat \<Rightarrow> string" where
  "shard_alias index = ''_sources_'' @ three_digits index"

text \<open>A directory is a map from the names in it to the texts of the files.\<close>

type_synonym directory = "(string, string) dict"

definition remove_stale_source_shards :: "string \<Rightarrow> directory \<Rightarrow> directory" where
  "remove_stale_source_shards output dir =
     (case splitext (basename output) of (stem, extension) \<Rightarrow>
        filter (\<lambda>(name, text). \<not> (py_startswith name (stem @ ''-sources-'') \<and> py_endswith name extension)) dir)"

section \<open>The main file\<close>

definition load_line :: "string \<Rightarrow> nat \<Rightarrow> string" where
  "load_line output index =
     ''load(\":'' @ source_shard_name output index @ ''\", '' @ shard_alias index @ '' = \"SOURCES\")''"

definition setting :: "string \<Rightarrow> json \<Rightarrow> string" where
  "setting name v = name @ '' = '' @ deb_bzl_literal v 0"

text \<open>\<open>digest\<close> is the digest of the lock and \<open>lockfile\<close> its path as it was given.\<close>

definition main_content :: "string \<Rightarrow> string \<Rightarrow> string \<Rightarrow> jobj \<Rightarrow> string \<Rightarrow> string \<Rightarrow> nat \<Rightarrow> deb_gen_error + string" where
  "main_content digest lockfile output lock distro cpu shards =
     attempt (field lock ''release'') (\<lambda>release.
     attempt (field lock ''codename'') (\<lambda>codename.
     attempt (field lock ''architecture'') (\<lambda>architecture.
       let loads = map (load_line output) [0..<shards]; aliases = map shard_alias [0..<shards] in
       Inr (py_join newline_text
         ([''# @generated by tools/deb_generate.py from '' @ lockfile, ''# Do not edit by hand.'', []]
          @ loads @ (if loads \<noteq> [] then [[]] else [])
          @ [setting ''DISTRO'' (JStr distro),
             setting ''RELEASE'' release,
             setting ''CODENAME'' codename,
             setting ''ARCHITECTURE'' architecture,
             setting ''TARGET_CPU'' (JStr cpu),
             setting ''LOCK_SHA256'' (JStr digest),
             [],
             setting ''BASE_DEBS'' (dget_or lock ''base_debs'' (dget_or lock ''seed_debs'' (JList []))),
             ''SEED_DEBS = BASE_DEBS'',
             [],
             setting ''IMAGE_SETS'' (dget_or lock ''image_sets'' (JObj [])),
             [],
             setting ''SOURCE_POLICY'' (dget_or lock ''source_policy'' (JObj [])),
             [],
             ''SOURCES = '' @ (if aliases \<noteq> [] then py_join '' + '' aliases else ''[]''),
             []])))))"

definition default_output :: "string \<Rightarrow> string \<Rightarrow> json \<Rightarrow> string \<Rightarrow> string" where
  "default_output repo distro release cpu =
     fold (\<lambda>part path. path_join path part)
       [''flavors'', distro, ''generated'', distro @ ''-'' @ json_str release @ ''-'' @ cpu @ ''.bzl''] repo"

text \<open>
  \<open>main\<close>, up to the index: the directory of the output is the state. What was written before an error stays
  written. \<open>output\<close> is the path that was given, or none.
\<close>

definition deb_generate ::
  "string \<Rightarrow> string \<Rightarrow> string \<Rightarrow> string option \<Rightarrow> int \<Rightarrow> jobj \<Rightarrow> directory \<Rightarrow> directory \<times> (deb_gen_error + string list)" where
  "deb_generate digest lockfile repo output max_file_size lock dir =
     (case attempt (validate_lock lock) (\<lambda>(distro, cpu).
             attempt (if output = None then field lock ''release'' else Inr JNull) (\<lambda>release.
               Inr (distro, cpu, case output of Some path \<Rightarrow> path | None \<Rightarrow> default_output repo distro release cpu))) of
        Inl e \<Rightarrow> (dir, Inl e)
      | Inr (distro, cpu, out) \<Rightarrow>
          let dir = remove_stale_source_shards out dir in
          case attempt (attempt (field lock ''sources'') as_list) (\<lambda>sources.
                 source_shards sources (Some (min GENERATED_SHARD_LIMIT max_file_size))) of
            Inl e \<Rightarrow> (dir, Inl e)
          | Inr shards \<Rightarrow>
              let named = map (\<lambda>i. (source_shard_name out i, source_shard_content (shards ! i))) [0..<length shards];
                  dir = fold (\<lambda>(name, content). dset name content) named dir in
              case main_content digest lockfile out lock distro cpu (length shards) of
                Inl e \<Rightarrow> (dir, Inl e)
              | Inr content \<Rightarrow>
                  let dir = dset (basename out) content dir;
                      generated = basename out # map fst named in
                  case find (\<lambda>name. max_file_size \<le> int (length (utf8 (dget_or dir name [])))) generated of
                    Some name \<Rightarrow> (dir, Inl (FileTooBig name (length (utf8 (dget_or dir name []))) max_file_size))
                  | None \<Rightarrow> (dir, Inr generated))"

section \<open>How large a shard is\<close>

lemma utf8_append [simp]: "utf8 (s @ t) = utf8 s @ utf8 t"
  by (simp add: utf8_def)

lemma utf8_concat: "length (utf8 (concat ss)) = sum_list (map (length \<circ> utf8) ss)"
  by (induction ss) (simp_all add: utf8_def)

abbreviation text_bytes :: "string \<Rightarrow> nat" where
  "text_bytes s \<equiv> length (utf8 s)"

definition record_size :: "json \<Rightarrow> nat" where
  "record_size x = text_bytes (spaces 4 @ deb_bzl_literal x 4 @ '','' @ newline_text)"

lemma list_literal_bytes:
  "text_bytes (deb_bzl_literal (JList xs) 0) = text_bytes ''[]'' + (if xs = [] then 0 else text_bytes newline_text + sum_list (map record_size xs))"
proof (cases "xs = []")
  case False
  then have "deb_bzl_literal (JList xs) 0
      = ''['' @ newline_text @ concat (map (\<lambda>x. spaces 4 @ deb_bzl_literal x 4 @ '','' @ newline_text) xs) @ '']''"
    using py_join_block [of "map (\<lambda>x. spaces 4 @ deb_bzl_literal x 4 @ '','') xs" "'']''"] by (simp add: comp_def)
  then have "text_bytes (deb_bzl_literal (JList xs) 0)
      = text_bytes ''['' + (text_bytes newline_text + (sum_list (map record_size xs) + text_bytes '']''))"
    by (simp only: utf8_append length_append utf8_concat map_map comp_def record_size_def [abs_def])
  moreover have "text_bytes ''[]'' = text_bytes ''['' + text_bytes '']''" by (simp add: utf8_def)
  ultimately show ?thesis using False by simp
qed simp

lemma shard_size_split:
  "shard_size xs = shard_size [] + (if xs = [] then 0 else text_bytes newline_text + sum_list (map record_size xs))"
  unfolding shard_size_def source_shard_content_def
  by (simp only: py_join.simps utf8_append length_append list_literal_bytes) (simp add: utf8_def)

lemma shard_size_mono: "shard_size us \<le> shard_size (us @ vs)" "shard_size vs \<le> shard_size (us @ vs)"
  by (simp_all add: shard_size_split [of us] shard_size_split [of vs] shard_size_split [of "us @ vs"])

section \<open>A cut of a list into pieces that fit\<close>

definition cut :: "nat \<Rightarrow> json list \<Rightarrow> json list list \<Rightarrow> bool" where
  "cut limit xs pieces \<longleftrightarrow> concat pieces = xs \<and> list_all (\<lambda>p. shard_size p < limit) pieces"

text \<open>A cut of a list gives a cut of each end of it, into no more pieces.\<close>

lemma cut_drop:
  assumes "cut limit (us @ vs) pieces"
  shows "\<exists>ps. cut limit vs ps \<and> length ps \<le> length pieces"
  using assms
proof (induction pieces arbitrary: us)
  case (Cons p pieces)
  then have p: "p @ concat pieces = us @ vs" "shard_size p < limit" "cut limit (concat pieces) pieces"
    by (auto simp: cut_def)
  then consider ws where "us = p @ ws" "concat pieces = ws @ vs" | ws where "p = us @ ws" "vs = ws @ concat pieces"
    by (auto simp: append_eq_append_conv2)
  then show ?case
  proof cases
    case 1
    then obtain ps where "cut limit vs ps" "length ps \<le> length pieces" using Cons.IH [of ws] p(3) by auto
    then show ?thesis by (intro exI [of _ ps]) simp
  next
    case 2
    then have "shard_size ws < limit" using p(2) shard_size_mono(2) [of ws us] by simp
    then show ?thesis using 2 p(3) by (intro exI [of _ "ws # pieces"]) (auto simp: cut_def)
  qed
qed (simp add: cut_def)

lemma shard_loop_cut:
  assumes "shard_loop limit sources shards current = Inr out" "current \<noteq> [] \<longrightarrow> shard_size current < limit"
  shows "\<exists>rest. out = shards @ rest \<and> cut limit (current @ sources) rest \<and> [] \<notin> set rest
    \<and> (\<forall>pieces. cut limit (current @ sources) pieces \<longrightarrow> length rest \<le> length pieces)"
  using assms
proof (induction sources arbitrary: shards current)
  case Nil
  have "1 \<le> length pieces" if "cut limit current pieces" "current \<noteq> []" for pieces
    using that by (cases pieces) (auto simp: cut_def)
  then show ?case using Nil by (cases "current = []") (auto simp: cut_def intro!: exI [of _ "if current = [] then [] else [current]"])
next
  case (Cons s sources)
  show ?case
  proof (cases "current \<noteq> [] \<and> limit \<le> shard_size (current @ [s])")
    case False
    then have "shard_loop limit sources shards (current @ [s]) = Inr out" "shard_size (current @ [s]) < limit"
      using Cons.prems(1) by (auto simp: Let_def split: if_splits)
    then show ?thesis using Cons.IH [of shards "current @ [s]"] by simp
  next
    case True
    then have "shard_loop limit sources (shards @ [current]) [s] = Inr out" "shard_size [s] < limit"
      using Cons.prems(1) by (auto simp: Let_def split: if_splits)
    then obtain rest where rest: "out = (shards @ [current]) @ rest" "cut limit (s # sources) rest" "[] \<notin> set rest"
        "\<forall>pieces. cut limit (s # sources) pieces \<longrightarrow> length rest \<le> length pieces"
      using Cons.IH [of "shards @ [current]" "[s]"] by auto
    have "length (current # rest) \<le> length pieces" if "cut limit (current @ s # sources) pieces" for pieces
      using that
    proof (induction pieces)
      case (Cons p ps)
      show ?case
      proof (cases "p = []")
        case True
        then show ?thesis using Cons by (simp add: cut_def)
      next
        case False
        have p: "p @ concat ps = current @ s # sources" "shard_size p < limit" "cut limit (concat ps) ps"
          using Cons.prems by (auto simp: cut_def)
        obtain ws where ws: "current = p @ ws" "concat ps = ws @ s # sources"
        proof -
          from p(1) consider ws where "current = p @ ws" "concat ps = ws @ s # sources"
            | ws where "p = current @ s # ws" by (auto simp: append_eq_append_conv2 append_eq_Cons_conv)
          then show thesis
          proof cases
            case 2
            then have "shard_size (current @ [s]) < limit" using p(2) shard_size_mono(1) [of "current @ [s]" ws] by simp
            with True show ?thesis by simp
          qed (use that in blast)
        qed
        then obtain qs where "cut limit (s # sources) qs" "length qs \<le> length ps"
          using cut_drop [of limit ws "s # sources" ps] p(3) by auto
        then show ?thesis using rest(4) by fastforce
      qed
    qed (simp add: cut_def)
    then show ?thesis using rest(1-3) True Cons.prems(2) by (intro exI [of _ "current # rest"]) (auto simp: cut_def)
  qed
qed

lemma shard_loop_refuses:
  assumes "current \<noteq> [] \<longrightarrow> shard_size current < limit"
  shows "(\<exists>e. shard_loop limit sources shards current = Inl e) \<longleftrightarrow> (\<exists>s \<in> set sources. limit \<le> shard_size [s])"
  using assms
proof (induction sources arbitrary: shards current)
  case (Cons s sources)
  have alone: "shard_size [s] \<le> shard_size (current @ [s])" by (rule shard_size_mono(2))
  show ?case
  proof (cases "current \<noteq> [] \<and> limit \<le> shard_size (current @ [s])")
    case True
    then show ?thesis using Cons.IH [of "[s]" "shards @ [current]"] by (auto simp: Let_def)
  next
    case False
    then show ?thesis using Cons.IH [of "current @ [s]" shards] alone
      by (cases "current = []") (auto simp: Let_def)
  qed
qed simp

text \<open>
  C33: The sources of a lock are spread over shards in the best way there is. It fails exactly when one
  record alone is too large; otherwise the shards, in order, hold the sources of the lock, none of them is
  empty or reaches the limit, and no way to cut the list in pieces below the limit has fewer pieces.
\<close>
theorem source_shards_optimal:
  "case source_shards sources (Some (int (Suc n))) of
     Inl e \<Rightarrow> list_ex (\<lambda>s. Suc n \<le> shard_size [s]) sources
   | Inr shards \<Rightarrow>
       \<not> list_ex (\<lambda>s. Suc n \<le> shard_size [s]) sources
       \<and> cut (Suc n) sources shards \<and> [] \<notin> set shards
       \<and> length shards = (LEAST k. \<exists>pieces. cut (Suc n) sources pieces \<and> length pieces = k)"
proof (cases "source_shards sources (Some (int (Suc n)))")
  case (Inl e)
  then show ?thesis
    using shard_loop_refuses [of "[]" "Suc n" sources "[]"] by (auto simp: source_shards_def list_ex_iff nat_add_distrib)
next
  case (Inr shards)
  then have run: "shard_loop (Suc n) sources [] [] = Inr shards" by (simp add: source_shards_def nat_add_distrib)
  obtain rest where r: "shards = [] @ rest" "cut (Suc n) ([] @ sources) rest" "[] \<notin> set rest"
      "\<forall>pieces. cut (Suc n) ([] @ sources) pieces \<longrightarrow> length rest \<le> length pieces"
    using shard_loop_cut [OF run] by blast
  have "(LEAST k. \<exists>pieces. cut (Suc n) sources pieces \<and> length pieces = k) = length shards"
    by (rule Least_equality) (use r in auto)
  then show ?thesis using Inr r(1-3) run shard_loop_refuses [of "[]" "Suc n" sources "[]"]
    by (auto simp: list_ex_iff)
qed

section \<open>Names of the shards\<close>

lemma decimal_zeros: "decimal 0 (replicate k CHR ''0'' @ s) = decimal 0 s"
proof -
  have "digit_value CHR ''0'' = Some 0" by (simp add: digit_value_def)
  then show ?thesis by (induction k) simp_all
qed

lemma three_digits_inj: "three_digits i = three_digits j \<longleftrightarrow> i = j"
proof
  assume "three_digits i = three_digits j"
  then have "decimal 0 (three_digits i) = decimal 0 (three_digits j)" by simp
  then show "i = j" by (simp add: three_digits_def decimal_zeros decimal_nat_text)
qed simp

lemma three_digits_chars: "list_all word_char (three_digits i)"
  by (simp add: three_digits_def nat_text_word) (simp add: list_all_iff word_char_def)

lemma splitext_parts: "splitext name = (stem, ext) \<Longrightarrow> stem @ ext = name"
proof -
  assume s: "splitext name = (stem, ext)"
  show ?thesis
  proof (cases "CHR ''.'' \<in> set name")
    case False
    with s show ?thesis by (auto simp: splitext_def Let_def)
  next
    case True
    let ?e = "takeWhile (\<lambda>c. c \<noteq> CHR ''.'') (rev name)"
    obtain d where d: "dropWhile (\<lambda>c. c \<noteq> CHR ''.'') (rev name) = CHR ''.'' # d"
    proof -
      have "CHR ''.'' \<in> set (rev name)" using True by simp
      then have "dropWhile (\<lambda>c. c \<noteq> CHR ''.'') (rev name) \<noteq> []" by (auto simp: dropWhile_eq_Nil_conv)
      then show thesis using that hd_dropWhile [of "\<lambda>c. c \<noteq> CHR ''.''" "rev name"] by (cases "dropWhile (\<lambda>c. c \<noteq> CHR ''.'') (rev name)") auto
    qed
    have "rev name = ?e @ CHR ''.'' # d" using takeWhile_dropWhile_id [of "\<lambda>c. c \<noteq> CHR ''.''" "rev name"] d by simp
    then have n: "name = rev d @ CHR ''.'' # rev ?e" by (metis append.assoc append_Cons append_Nil rev.simps(2) rev_append rev_rev_ident)
    have "take (length name - length ?e - 1) name = rev d" by (subst (2) n, subst n) simp
    with s n True show ?thesis by (auto simp: splitext_def Let_def split: if_splits)
  qed
qed

lemma source_shard_name_inj: "source_shard_name output i = source_shard_name output j \<longleftrightarrow> i = j"
  by (auto simp: source_shard_name_def three_digits_inj split: prod.split)

lemma source_shard_name_new: "source_shard_name output i \<noteq> basename output"
proof -
  obtain stem ext where s: "splitext (basename output) = (stem, ext)" by fastforce
  have "length (basename output) = length stem + length ext" using splitext_parts [OF s] by (metis length_append)
  then have "length (basename output) < length (source_shard_name output i)" by (simp add: source_shard_name_def s)
  then show ?thesis by auto
qed

lemma shard_alias_word:
  "list_all word_char (shard_alias i)" "shard_alias i \<noteq> []" "shard_alias i \<noteq> ''load''" "hd (shard_alias i) = CHR ''_''"
  "shard_alias i = shard_alias j \<longleftrightarrow> i = j"
  using three_digits_chars [of i] by (simp_all add: shard_alias_def three_digits_inj) (simp add: word_char_def)

end
