(* ===== verification/DebModule.thy ===== *)
theory DebModule
  imports DebGenerate
begin

text \<open>
  What \<^verbatim>\<open>tools/deb_generate.py\<close> writes, as Buck reads it: each shard is a module of its own, the
  main file loads all of them, and the list it defines is the list of the sources of the lock.
\<close>

section \<open>Loads and sums\<close>

definition clean :: "string \<Rightarrow> bool" where
  "clean s \<longleftrightarrow> list_all (\<lambda>c. c \<notin> {CHR 0x22, CHR 0x5C, CHR 0x0A}) s"

lemma feed_clean: "clean t \<Longrightarrow> feed files t (Quoted s, m) = (Quoted (s @ t), m)"
  by (induction t arbitrary: s) (simp_all add: clean_def)

lemma word_stops [simp]: "\<not> word_char CHR '' ''" "\<not> word_char CHR 0x0A" "\<not> word_char CHR ''(''"
  by (simp_all add: word_char_def)

lemma feed_load:
  assumes "clean f" "list_all word_char a" "a \<noteq> []" "clean symbol"
    and "dget files ('':'' @ f) = Some m" "dget m symbol = Some v" "dget env a = None"
  shows "feed files (''load(\":'' @ f @ ''\", '' @ a @ '' = \"'' @ symbol @ ''\")'' @ newline_text) (between env)
    = between (env @ [(a, v)])"
proof -
  have start: "feed files ''load('' (between env) = (Gap, Some (env, Load 1 [] []))"
    by (simp add: gap_char_def push_token_def word_char_def)
  have loaded: "feed files (CHR 0x22 # CHR '':'' # f @ [CHR 0x22, CHR '','', CHR '' '']) (Gap, Some (env, Load 1 [] []))
      = (Gap, Some (env, Load 3 ('':'' @ f) []))"
    by (simp add: gap_char_def push_token_def feed_clean [OF assms(1)] word_char_def eval_nat_numeral)
  have aliased: "feed files (a @ [CHR '' '', CHR ''='', CHR '' '']) (Gap, Some (env, Load 3 ('':'' @ f) []))
      = (Gap, Some (env, Load 5 ('':'' @ f) a))"
    by (simp add: feed_word_then [OF assms(2,3)] gap_char_def push_token_def eval_nat_numeral)
  have symbol: "feed files (CHR 0x22 # symbol @ [CHR 0x22, CHR '')'', CHR 0x0A]) (Gap, Some (env, Load 5 ('':'' @ f) a))
      = between (env @ [(a, v)])"
    using assms(5-7) by (simp add: gap_char_def push_token_def feed_clean [OF assms(4)] eval_nat_numeral add_entry_def)
  have "''load(\":'' @ f @ ''\", '' @ a @ '' = \"'' @ symbol @ ''\")'' @ newline_text
      = ''load('' @ (CHR 0x22 # CHR '':'' # f @ [CHR 0x22, CHR '','', CHR '' '']) @ (a @ [CHR '' '', CHR ''='', CHR '' ''])
        @ (CHR 0x22 # symbol @ [CHR 0x22, CHR '')'', CHR 0x0A])" by simp
  then show ?thesis using start loaded aliased symbol by (simp only: fold_append comp_apply)
qed

lemma settled_then: "\<not> word_char c \<Longrightarrow> settled files (feed files s st) = st' \<Longrightarrow>
  read_char files c (feed files s st) = read_char files c st'"
  using read_settled by metis

text \<open>A name that is bound to a list, alone and after the sum of the lists before it.\<close>

definition list_name :: "module \<Rightarrow> string \<Rightarrow> json list \<Rightarrow> bool" where
  "list_name env w xs \<longleftrightarrow> list_all word_char w \<and> w \<noteq> [] \<and> word_value env w = Some (JList xs)"

lemma evaluates_sum_rest:
  assumes "list_all2 (list_name env) ws xss" "ws \<noteq> []"
  shows "settled files (feed files (py_join '' + '' ws) (Gap, reading env n [SumFrame acc] None))
    = (Gap, reading env n [] (Some (JList (acc @ concat xss))))"
  using assms
proof (induction ws arbitrary: xss acc rule: induct_list012)
  case (2 w)
  then show ?case
    by (auto simp: list_all2_Cons1 list_name_def settle_word push_token_def give_def)
next
  case (3 w v ws)
  then obtain xs rest where x: "xss = xs # rest" "list_name env w xs" "list_all2 (list_name env) (v # ws) rest"
    by (auto simp: list_all2_Cons1)
  have one: "read_char files CHR '' '' (feed files w (Gap, reading env n [SumFrame acc] None))
      = (Gap, reading env n [] (Some (JList (acc @ xs))))"
    using x(2) by (subst settled_then [where st' = "(Gap, reading env n [] (Some (JList (acc @ xs))))"])
      (auto simp: list_name_def settle_word push_token_def give_def gap_char_def)
  have "settled files (feed files (py_join '' + '' (v # ws)) (Gap, reading env n [SumFrame (acc @ xs)] None))
      = (Gap, reading env n [] (Some (JList ((acc @ xs) @ concat rest))))"
    using 3(2) x(3) by simp
  then show ?case by (simp add: one x(1) gap_char_def)
qed simp

lemma evaluates_sum:
  assumes "list_all2 (list_name env) ws xss" "ws \<noteq> []"
  shows "evaluates files env n (py_join '' + '' ws) (JList (concat xss))"
proof -
  obtain w us xs rest where w: "ws = w # us" "xss = xs # rest" "list_name env w xs" "list_all2 (list_name env) us rest"
    using assms by (cases ws) (auto simp: list_all2_Cons1)
  have word: "settled files (feed files w (Gap, reading env n [] None)) = (Gap, reading env n [] (Some (JList xs)))"
    using w(3) by (simp add: list_name_def settle_word push_token_def give_def)
  show ?thesis
  proof (cases us)
    case Nil
    then show ?thesis using word w by (simp add: evaluates_def)
  next
    case (Cons v vs)
    have "read_char files CHR '' '' (feed files w (Gap, reading env n [] None)) = (Gap, reading env n [] (Some (JList xs)))"
      by (subst settled_then [OF _ word]) (simp_all add: gap_char_def)
    then show ?thesis using evaluates_sum_rest [OF w(4), of files n xs] by (simp add: evaluates_def w(1,2) Cons gap_char_def)
  qed
qed

lemma evaluates_name:
  assumes "list_all word_char w" "w \<noteq> []" "word_value env w = Some v"
  shows "evaluates files env n w v"
  by (rule reads_evaluates [OF reads_word [OF assms]])

section \<open>Lines of a module\<close>

definition lines_in :: "(string, module) dict \<Rightarrow> string list \<Rightarrow> module \<Rightarrow> module \<Rightarrow> bool" where
  "lines_in files ls env env' \<longleftrightarrow> feed files (concat (map (\<lambda>l. l @ newline_text) ls)) (between env) = between env'"

lemma lines_append: "lines_in files ls a b \<Longrightarrow> lines_in files ms b c \<Longrightarrow> lines_in files (ls @ ms) a c"
  by (simp add: lines_in_def)

lemma lines_Cons: "lines_in files [l] a b \<Longrightarrow> lines_in files ms b c \<Longrightarrow> lines_in files (l # ms) a c"
  using lines_append [of files "[l]" a b ms c] by simp

lemma lines_cong: "lines_in files ls a b \<Longrightarrow> b = c \<Longrightarrow> lines_in files ls a c"
  by simp

lemma lines_Nil: "lines_in files [] a a"
  by (simp add: lines_in_def)

lemma lines_blank: "lines_in files [[]] a a"
  using feed_blank [of files a] by (simp add: lines_in_def)

lemma lines_remark: "CHR 0x0A \<notin> set s \<Longrightarrow> lines_in files [CHR ''#'' # s] a a"
  using feed_remark [of s files a] by (simp add: lines_in_def)

lemma lines_comment: "s \<noteq> [] \<Longrightarrow> hd s = CHR ''#'' \<Longrightarrow> CHR 0x0A \<notin> set s \<Longrightarrow> lines_in files [s] a a"
  using lines_remark [of "tl s" files a] by (cases s) simp_all

lemma lines_value:
  assumes "evaluates files env n s v" "data_name n" "dget env n = None"
  shows "lines_in files [n @ '' = '' @ s] env (env @ [(n, v)])"
  using feed_assignment [OF assms(2,1,3)] by (simp add: lines_in_def)

lemma lines_setting:
  assumes "well_formed v" "data_name n" "dget env n = None"
  shows "lines_in files [setting n v] env (env @ [(n, canonical v)])"
  unfolding setting_def using assms by (intro lines_value reads_evaluates reads_deb_literal)

lemma lines_loads:
  assumes "\<And>i. i < k \<Longrightarrow> clean (source_shard_name output i)
      \<and> (\<exists>m. dget files ('':'' @ source_shard_name output i) = Some m \<and> dget m ''SOURCES'' = Some (v i))"
  shows "lines_in files (map (load_line output) [0..<k]) [] (map (\<lambda>i. (shard_alias i, v i)) [0..<k])"
  using assms
proof (induction k)
  case (Suc k)
  obtain m where m: "dget files ('':'' @ source_shard_name output k) = Some m" "dget m ''SOURCES'' = Some (v k)"
    using Suc.prems [of k] by auto
  have fresh: "dget (map (\<lambda>i. (shard_alias i, v i)) [0..<k]) (shard_alias k) = None"
    by (auto simp: map_of_eq_None_iff shard_alias_word)
  have "clean (source_shard_name output k)" "clean ''SOURCES''" using Suc.prems [of k] by (simp_all add: clean_def)
  from feed_load [OF this(1) shard_alias_word(1,2) this(2) m fresh]
  have "lines_in files [load_line output k] (map (\<lambda>i. (shard_alias i, v i)) [0..<k])
      (map (\<lambda>i. (shard_alias i, v i)) [0..<k] @ [(shard_alias k, v k)])"
    by (simp add: lines_in_def load_line_def)
  then show ?case using lines_append [OF Suc.IH] Suc.prems by simp
qed (simp add: lines_Nil)

lemma alias_value:
  assumes "dget env (shard_alias i) = Some (JList xs)"
  shows "list_name env (shard_alias i) xs"
proof -
  obtain s where s: "shard_alias i = CHR ''_'' # s" by (simp add: shard_alias_def)
  have "digit_value CHR ''_'' = None" by (simp add: digit_value_def)
  then have "word_value env (shard_alias i) = Some (JList xs)" using assms by (simp add: s word_value_def natural_def)
  then show ?thesis by (simp add: list_name_def shard_alias_word)
qed

section \<open>The main file and its shards\<close>

text \<open>The modules of a directory, under the labels a module beside them loads them by.\<close>

definition loadable :: "directory \<Rightarrow> (string, module) dict" where
  "loadable dir =
     map (\<lambda>nt. ('':'' @ fst nt, case read_module [] (snd nt) of Some m \<Rightarrow> m | None \<Rightarrow> [])) dir"

lemma dget_loadable:
  "dget (loadable dir) ('':'' @ n)
   = map_option (\<lambda>s. case read_module [] s of Some m \<Rightarrow> m | None \<Rightarrow> []) (dget dir n)"
  by (induction dir) (auto simp: loadable_def)

lemma shard_module:
  assumes "list_all well_formed sources"
  shows "read_module files (source_shard_content sources) = Some [(''SOURCES'', JList (map canonical sources))]"
proof -
  have name: "data_name ''SOURCES''" by (simp add: data_name_def word_char_def)
  have remark: "CHR 0x0A \<notin> set '' @generated by tools/deb_generate.py. Do not edit by hand.''" by simp
  have "well_formed (JList sources)" using assms by (simp add: list_all_iff)
  from lines_setting [OF this name, of "[]" files]
  have "lines_in files [''# @generated by tools/deb_generate.py. Do not edit by hand.'', [], setting ''SOURCES'' (JList sources)]
      [] [(''SOURCES'', JList (map canonical sources))]"
    by (intro lines_Cons [OF lines_remark [OF remark]] lines_Cons [OF lines_blank]) simp
  then show ?thesis
    by (intro read_moduleI) (simp add: lines_in_def source_shard_content_def setting_def)
qed

definition main_module :: "string \<Rightarrow> jobj \<Rightarrow> string \<Rightarrow> string \<Rightarrow> json list list \<Rightarrow> module" where
  "main_module digest lock distro cpu shards =
     (let base = canonical (dget_or lock ''base_debs'' (dget_or lock ''seed_debs'' (JList []))) in
      map (\<lambda>i. (shard_alias i, JList (map canonical (shards ! i)))) [0..<length shards]
      @ [(''DISTRO'', JStr distro), (''RELEASE'', canonical (dget_or lock ''release'' JNull)),
         (''CODENAME'', canonical (dget_or lock ''codename'' JNull)),
         (''ARCHITECTURE'', canonical (dget_or lock ''architecture'' JNull)),
         (''TARGET_CPU'', JStr cpu), (''LOCK_SHA256'', JStr digest),
         (''BASE_DEBS'', base), (''SEED_DEBS'', base),
         (''IMAGE_SETS'', canonical (dget_or lock ''image_sets'' (JObj []))),
         (''SOURCE_POLICY'', canonical (dget_or lock ''source_policy'' (JObj []))),
         (''SOURCES'', JList (map canonical (concat shards)))])"

lemma dget_or_well_formed:
  "well_formed (JObj d) \<Longrightarrow> well_formed v \<Longrightarrow> well_formed (dget_or d k v)"
  by (auto simp: dget_or_def dest!: dget_in_set split: option.split)

lemma main_names:
  "list_all data_name [''DISTRO'', ''RELEASE'', ''CODENAME'', ''ARCHITECTURE'', ''TARGET_CPU'', ''LOCK_SHA256'',
     ''BASE_DEBS'', ''SEED_DEBS'', ''IMAGE_SETS'', ''SOURCE_POLICY'', ''SOURCES'']"
  by (simp add: data_name_def word_char_def)

lemma field_Inr: "field d k = Inr v \<longleftrightarrow> dget d k = Some v"
  by (simp add: field_def split: option.split)

lemma loads_get:
  "i < k \<Longrightarrow> dget (map (\<lambda>i. (shard_alias i, v i)) [0..<k]) (shard_alias i) = Some (v i)"
  "hd n \<noteq> CHR ''_'' \<Longrightarrow> dget (map (\<lambda>i. (shard_alias i, v i)) [0..<k]) n = None"
proof -
  have "distinct (map fst (map (\<lambda>i. (shard_alias i, v i)) [0..<k]))"
    by (simp add: comp_def distinct_map inj_on_def shard_alias_word)
  then show "i < k \<Longrightarrow> dget (map (\<lambda>i. (shard_alias i, v i)) [0..<k]) (shard_alias i) = Some (v i)" by simp
  show "hd n \<noteq> CHR ''_'' \<Longrightarrow> dget (map (\<lambda>i. (shard_alias i, v i)) [0..<k]) n = None"
    using shard_alias_word(4) by (auto simp: map_of_eq_None_iff)
qed

lemma sources_value:
  assumes "\<And>i. i < length shards \<Longrightarrow> dget env (shard_alias i) = Some (JList (map canonical (shards ! i)))"
  shows "evaluates files env n
    (if map shard_alias [0..<length shards] \<noteq> [] then py_join '' + '' (map shard_alias [0..<length shards]) else ''[]'')
    (JList (map canonical (concat shards)))"
proof (cases "shards = []")
  case True
  then show ?thesis by (simp add: reads_evaluates reads_empty)
next
  case False
  let ?k = "length shards"
  have ne: "map shard_alias [0..<?k] \<noteq> []" using False by simp
  have names: "list_all2 (list_name env) (map shard_alias [0..<?k]) (map (\<lambda>i. map canonical (shards ! i)) [0..<?k])"
    using assms alias_value by (intro list_all2_maps) simp
  have "concat (map (\<lambda>i. map canonical (shards ! i)) [0..<?k]) = map canonical (concat shards)"
  proof -
    have "map (\<lambda>i. map canonical (shards ! i)) [0..<?k] = map (map canonical) (map ((!) shards) [0..<?k])" by simp
    then show ?thesis unfolding map_nth by (simp add: map_concat)
  qed
  then show ?thesis using evaluates_sum [OF names ne, of files n] by (simp only: if_P [OF ne])
qed

lemma main_module_loads:
  assumes content: "main_content digest lockfile output lock distro cpu (length shards) = Inr content"
    and wf: "well_formed (JObj lock)" and line: "CHR 0x0A \<notin> set lockfile"
    and files: "\<And>i. i < length shards \<Longrightarrow> clean (source_shard_name output i)
      \<and> (\<exists>m. dget files ('':'' @ source_shard_name output i) = Some m
          \<and> dget m ''SOURCES'' = Some (JList (map canonical (shards ! i))))"
  shows "read_module files content = Some (main_module digest lock distro cpu shards)"
proof -
  let ?k = "length shards"
  let ?loads = "map (load_line output) [0..<?k]"
  let ?get = "\<lambda>k. dget_or lock k JNull"
  let ?base = "dget_or lock ''base_debs'' (dget_or lock ''seed_debs'' (JList []))"
  let ?head = "[''# @generated by tools/deb_generate.py from '' @ lockfile, ''# Do not edit by hand.'', []]"
  let ?sum = "if map shard_alias [0..<?k] \<noteq> [] then py_join '' + '' (map shard_alias [0..<?k]) else ''[]''"
  let ?body = "[setting ''DISTRO'' (JStr distro), setting ''RELEASE'' (?get ''release''), setting ''CODENAME'' (?get ''codename''),
     setting ''ARCHITECTURE'' (?get ''architecture''), setting ''TARGET_CPU'' (JStr cpu), setting ''LOCK_SHA256'' (JStr digest),
     [], setting ''BASE_DEBS'' ?base, ''SEED_DEBS'' @ '' = '' @ ''BASE_DEBS'', [],
     setting ''IMAGE_SETS'' (dget_or lock ''image_sets'' (JObj [])), [],
     setting ''SOURCE_POLICY'' (dget_or lock ''source_policy'' (JObj [])), [],
     ''SOURCES'' @ '' = '' @ ?sum]"
  have "content = py_join newline_text ((?head @ ?loads @ (if ?loads \<noteq> [] then [[]] else []) @ ?body) @ [[]])"
    using content by (auto simp: main_content_def attempt_Inr field_Inr Let_def dget_or_def [of lock "''release''"]
        dget_or_def [of lock "''codename''"] dget_or_def [of lock "''architecture''"])
  then have t: "content = concat (map (\<lambda>l. l @ newline_text) (?head @ ?loads @ (if ?loads \<noteq> [] then [[]] else []) @ ?body))"
    unfolding py_join_last by simp
  have wfs: "well_formed (?get k)" "well_formed ?base" "well_formed (dget_or lock k (JObj []))" for k
    by (intro dget_or_well_formed [OF wf]; simp)+
  let ?env = "map (\<lambda>i. (shard_alias i, JList (map canonical (shards ! i)))) [0..<?k]"
  have loads: "lines_in files ?loads [] ?env" using lines_loads [OF files] by blast
  have gap: "lines_in files (if ?loads \<noteq> [] then [[]] else []) ?env ?env" by (simp add: lines_blank lines_Nil)
  have head: "lines_in files ?head [] []"
    by (rule lines_Cons [OF lines_comment lines_Cons [OF lines_comment lines_blank]]) (simp_all add: line)
  have get: "dget (?env @ r) n = dget r n" if "hd n \<noteq> CHR ''_''" for r n
    unfolding map_of_append map_add_def loads_get(2) [OF that] by simp
  note names = main_names [simplified]
  let ?e1 = "[(''DISTRO'', JStr distro), (''RELEASE'', canonical (?get ''release'')), (''CODENAME'', canonical (?get ''codename'')),
     (''ARCHITECTURE'', canonical (?get ''architecture'')), (''TARGET_CPU'', JStr cpu), (''LOCK_SHA256'', JStr digest),
     (''BASE_DEBS'', canonical ?base)]"
  let ?b1 = "[setting ''DISTRO'' (JStr distro), setting ''RELEASE'' (?get ''release''), setting ''CODENAME'' (?get ''codename''),
     setting ''ARCHITECTURE'' (?get ''architecture''), setting ''TARGET_CPU'' (JStr cpu), setting ''LOCK_SHA256'' (JStr digest),
     [], setting ''BASE_DEBS'' ?base]"
  have b1: "lines_in files ?b1 ?env (?env @ ?e1)"
    by (rule lines_cong, (rule lines_blank lines_setting lines_Cons | simp add: wfs names get loads_get(2) del: well_formed.simps(2) map_of_append)+)
  let ?e2 = "?e1 @ [(''SEED_DEBS'', canonical ?base)]"
  have "word_value (?env @ ?e1) ''BASE_DEBS'' = Some (canonical ?base)"
    by (simp add: word_value_def natural_def digit_value_def get del: map_of_append)
  then have "evaluates files (?env @ ?e1) ''SEED_DEBS'' ''BASE_DEBS'' (canonical ?base)"
    by (intro evaluates_name) (simp_all add: word_char_def)
  from lines_value [OF this] have seed: "lines_in files [''SEED_DEBS'' @ '' = '' @ ''BASE_DEBS''] (?env @ ?e1) (?env @ ?e2)"
    by (simp add: names get del: map_of_append)
  let ?e3 = "?e2 @ [(''IMAGE_SETS'', canonical (dget_or lock ''image_sets'' (JObj []))),
     (''SOURCE_POLICY'', canonical (dget_or lock ''source_policy'' (JObj [])))]"
  let ?b2 = "[[], setting ''IMAGE_SETS'' (dget_or lock ''image_sets'' (JObj [])), [],
     setting ''SOURCE_POLICY'' (dget_or lock ''source_policy'' (JObj [])), []]"
  have b2: "lines_in files ?b2 (?env @ ?e2) (?env @ ?e3)"
    by (rule lines_cong, (rule lines_blank lines_setting lines_Cons | simp add: wfs names get del: well_formed.simps(2) map_of_append)+)
  have "evaluates files (?env @ ?e3) ''SOURCES'' ?sum (JList (map canonical (concat shards)))"
    by (rule sources_value) (simp add: map_add_def loads_get get split: option.split)
  then have srcs: "lines_in files [''SOURCES'' @ '' = '' @ ?sum] (?env @ ?e3) (main_module digest lock distro cpu shards)"
    by (rule lines_cong [OF lines_value]) (simp_all add: names get main_module_def Let_def del: map_of_append)
  have body: "lines_in files ?body ?env (main_module digest lock distro cpu shards)"
    using lines_append [OF b1 lines_append [OF seed lines_append [OF b2 srcs]]] by simp
  show ?thesis
    by (rule read_moduleI) (use lines_append [OF head lines_append [OF loads lines_append [OF gap body]]] in \<open>simp only: lines_in_def t\<close>)
qed

section \<open>What the step leaves behind\<close>

lemma dget_fold_dset:
  "distinct (map fst kvs) \<Longrightarrow>
   dget (fold (\<lambda>(k, v). dset k v) kvs d) k = (case dget kvs k of Some v \<Rightarrow> Some v | None \<Rightarrow> dget d k)"
proof (induction kvs arbitrary: d)
  case (Cons kv kvs)
  obtain a b where kv: "kv = (a, b)" by fastforce
  have "dget (fold (\<lambda>(k, v). dset k v) kvs (dset a b d)) k
      = (case dget kvs k of Some v \<Rightarrow> Some v | None \<Rightarrow> dget (dset a b d) k)"
    using Cons by (simp add: kv)
  moreover have "dget kvs a = None" using Cons.prems by (simp add: kv map_of_eq_None_iff)
  ultimately show ?case by (simp add: kv split: option.split)
qed simp

lemma deb_generate_cases:
  assumes "deb_generate digest lockfile repo output max_size lock dir = (dir', Inr generated)"
  obtains distro cpu out sources shards content where
    "validate_lock lock = Inr (distro, cpu)" "dget lock ''sources'' = Some (JList sources)"
    "source_shards sources (Some (min GENERATED_SHARD_LIMIT max_size)) = Inr shards"
    "main_content digest lockfile out lock distro cpu (length shards) = Inr content"
    "generated = basename out # map (source_shard_name out) [0..<length shards]"
    "\<And>i. i < length shards \<Longrightarrow> dget dir' (source_shard_name out i) = Some (source_shard_content (shards ! i))"
    "dget dir' (basename out) = Some content"
    "\<And>name. name \<in> set generated \<Longrightarrow> int (text_bytes (dget_or dir' name [])) < max_size"
proof -
  let ?named = "\<lambda>out shards. map (\<lambda>i. (source_shard_name out i, source_shard_content (shards ! i))) [0..<length shards]"
  obtain distro cpu out sources shards content where
    v: "validate_lock lock = Inr (distro, cpu)" "dget lock ''sources'' = Some (JList sources)"
    "source_shards sources (Some (min GENERATED_SHARD_LIMIT max_size)) = Inr shards"
    "main_content digest lockfile out lock distro cpu (length shards) = Inr content"
    and g: "generated = basename out # map fst (?named out shards)"
    and d: "dir' = dset (basename out) content (fold (\<lambda>(name, content). dset name content) (?named out shards)
      (remove_stale_source_shards out dir))"
    and small: "find (\<lambda>name. max_size \<le> int (text_bytes (dget_or dir' name []))) generated = None"
    using assms unfolding deb_generate_def Let_def
    by (auto simp: attempt_Inr as_list_def field_Inr split: sum.splits option.splits json.splits prod.splits if_splits)
  have names: "distinct (map fst (?named out shards))"
    by (simp add: comp_def distinct_map inj_on_def source_shard_name_inj)
  have "dget dir' (source_shard_name out i) = Some (source_shard_content (shards ! i))" if i: "i < length shards" for i
  proof -
    have "(source_shard_name out i, source_shard_content (shards ! i)) \<in> set (?named out shards)" using i by auto
    then have "dget (?named out shards) (source_shard_name out i) = Some (source_shard_content (shards ! i))"
      using names map_of_is_SomeI by fast
    then show ?thesis using source_shard_name_new by (simp add: d dget_fold_dset [OF names])
  qed
  moreover have "int (text_bytes (dget_or dir' name [])) < max_size" if "name \<in> set generated" for name
    using small that by (fastforce simp: find_None_iff)
  moreover have "generated = basename out # map (source_shard_name out) [0..<length shards]" by (simp add: g)
  ultimately show thesis using that v d by simp
qed

text \<open>
  C34: A Debian lock survives the step to Buck data. When the step succeeds, the first file it names, read beside the
  shards it wrote, loads: its list of sources is the list of the lock, put together from the shards, and its
  image sets, its base packages, under both names, and its policy are those of the lock; and every file it names is
  below the size a repository tracks.
\<close>
theorem deb_module_loads:
  assumes "deb_generate digest lockfile repo output max_size lock dir = (dir', Inr generated)"
    and "well_formed (JObj lock)" "CHR 0x0A \<notin> set lockfile" "list_all clean generated"
  shows "\<exists>content env sources base. dget dir' (hd generated) = Some content \<and> dget lock ''sources'' = Some (JList sources)
    \<and> read_module (loadable dir') content = Some env
    \<and> dget env ''SOURCES'' = Some (JList (map canonical sources))
    \<and> dget env ''IMAGE_SETS'' = Some (canonical (dget_or lock ''image_sets'' (JObj [])))
    \<and> dget env ''SOURCE_POLICY'' = Some (canonical (dget_or lock ''source_policy'' (JObj [])))
    \<and> base = dget_or lock ''base_debs'' (dget_or lock ''seed_debs'' (JList []))
    \<and> dget env ''BASE_DEBS'' = Some (canonical base) \<and> dget env ''SEED_DEBS'' = Some (canonical base)
    \<and> list_all (\<lambda>name. int (text_bytes (dget_or dir' name [])) < max_size) generated"
proof -
  obtain distro cpu out sources shards content where
    v: "dget lock ''sources'' = Some (JList sources)"
    "source_shards sources (Some (min GENERATED_SHARD_LIMIT max_size)) = Inr shards"
    "main_content digest lockfile out lock distro cpu (length shards) = Inr content"
    and g: "generated = basename out # map (source_shard_name out) [0..<length shards]"
    and shard: "\<And>i. i < length shards \<Longrightarrow> dget dir' (source_shard_name out i) = Some (source_shard_content (shards ! i))"
    and main: "dget dir' (basename out) = Some content"
    and small: "\<And>name. name \<in> set generated \<Longrightarrow> int (text_bytes (dget_or dir' name [])) < max_size"
    by (rule deb_generate_cases [OF assms(1)]) blast
  obtain k where run: "shard_loop k sources [] [] = Inr shards" using v(2) unfolding source_shards_def by blast
  have joined: "concat shards = sources" using shard_loop_cut [OF run] by (auto simp: cut_def)
  have "well_formed (JList sources)" using assms(2) dget_in_set [OF v(1)] by fastforce
  then have wf: "list_all well_formed (shards ! i)" if "i < length shards" for i
    using joined that by (auto simp: list_all_iff)
  have "dget (loadable dir') ('':'' @ source_shard_name out i) = Some [(''SOURCES'', JList (map canonical (shards ! i)))]"
    if "i < length shards" for i
    using shard_module [OF wf [OF that], of "[]"] shard [OF that] by (simp add: dget_loadable [simplified])
  moreover have "clean (source_shard_name out i)" if "i < length shards" for i
    using assms(4) that by (auto simp: g list_all_iff)
  ultimately have env: "read_module (loadable dir') content = Some (main_module digest lock distro cpu shards)"
    using main_module_loads [OF v(3) assms(2,3)] by simp
  have get: "hd n \<noteq> CHR ''_'' \<Longrightarrow> dget (map (\<lambda>i. (shard_alias i, f i)) [0..<length shards]) n = None" for n f
    by (rule loads_get(2))
  show ?thesis
    using main v(1) env small by (simp add: g list_all_iff main_module_def Let_def map_add_def get joined)
qed

section \<open>Instances\<close>

definition tiny_source :: "string \<Rightarrow> json" where
  "tiny_source name = JObj [(''name'', JStr name), (''version_full'', JStr ''1'')]"

definition tiny_deb_lock :: jobj where
  "tiny_deb_lock =
     [(''schema'', JInt 2), (''distro'', JStr ''debian''), (''architecture'', JStr ''amd64''), (''release'', JStr ''13''),
      (''codename'', JStr ''trixie''), (''sources'', JList [tiny_source ''a'', tiny_source ''b''])]"

definition tiny_run :: "directory \<times> (deb_gen_error + string list)" where
  "tiny_run = deb_generate ''00'' ''d.lock.json'' ''/r'' None 600 tiny_deb_lock [(''debian-13-x86_64-sources-007.bzl'', [])]"

lemma tiny_run_ok:
  "snd tiny_run = Inr [''debian-13-x86_64.bzl'', ''debian-13-x86_64-sources-000.bzl'']"
  by code_simp

theorem deb_module_loads_witness:
  "\<exists>content env. dget (fst tiny_run) ''debian-13-x86_64.bzl'' = Some content
     \<and> read_module (loadable (fst tiny_run)) content = Some env
     \<and> dget env ''SOURCES'' = Some (JList [tiny_source ''a'', tiny_source ''b''])"
proof -
  let ?files = "[''debian-13-x86_64.bzl'', ''debian-13-x86_64-sources-000.bzl'']"
  have run: "deb_generate ''00'' ''d.lock.json'' ''/r'' None 600 tiny_deb_lock [(''debian-13-x86_64-sources-007.bzl'', [])]
      = (fst tiny_run, Inr ?files)"
    using tiny_run_ok unfolding tiny_run_def [symmetric] by (metis prod.collapse)
  have wf: "well_formed (JObj tiny_deb_lock)" by (simp add: tiny_deb_lock_def tiny_source_def)
  have names: "list_all clean ?files" by (simp add: clean_def)
  have sources: "dget tiny_deb_lock ''sources'' = Some (JList [tiny_source ''a'', tiny_source ''b''])"
    by (simp add: tiny_deb_lock_def)
  have "map canonical [tiny_source ''a'', tiny_source ''b''] = [tiny_source ''a'', tiny_source ''b'']"
    by (simp add: tiny_source_def sorted_items_def)
  then show ?thesis using deb_module_loads [OF run wf _ names] sources by auto
qed

end
