(* ===== verification/Repodata.thy ===== *)
theory Repodata
  imports PublicBase Lockfile
begin

text \<open>
  The refresh of a release, the part of \<^verbatim>\<open>tools/relock.py\<close> before the solve: which
  repositories a release is solved from, the repodata each of them serves, and the copy of it that
  stays on disk. A second solve of the same release reads that copy and not the network, and the
  question is whether it sees what the first one saw.
\<close>

section \<open>The repositories of a release\<close>

definition UPSTREAM :: string where
  "UPSTREAM = ''https://dl.fedoraproject.org/pub/fedora/linux''"

definition REPOMD_NS :: string where
  "REPOMD_NS = ''http://linux.duke.edu/metadata/repo''"

text \<open>A name, a kind, and the path below the root of a mirror, as a function of the release and the machine.\<close>

type_synonym repo_table = "(string \<times> string \<times> (string \<Rightarrow> string \<Rightarrow> string)) list"

definition FEDORA_REPOS :: repo_table where
  "FEDORA_REPOS =
     [(''binary-releases'', ''binary'', \<lambda>release arch. ''releases/'' @ release @ ''/Everything/'' @ arch @ ''/os''),
      (''binary-updates'', ''binary'', \<lambda>release arch. ''updates/'' @ release @ ''/Everything/'' @ arch),
      (''source-releases'', ''source'', \<lambda>release arch. ''releases/'' @ release @ ''/Everything/source/tree''),
      (''source-updates'', ''source'', \<lambda>release arch. ''updates/'' @ release @ ''/Everything/source/tree'')]"

definition FEDORA_BRANCHED_REPOS :: repo_table where
  "FEDORA_BRANCHED_REPOS =
     [(''binary-releases'', ''binary'', \<lambda>release arch. ''development/'' @ release @ ''/Everything/'' @ arch @ ''/os''),
      (''source-releases'', ''source'', \<lambda>release arch. ''development/'' @ release @ ''/Everything/source/tree'')]"

definition OPTIONAL :: "string list" where
  "OPTIONAL = [''binary-updates'', ''source-updates'']"

record refresh_options =
  ro_arch :: string
  ro_branched :: "string list"
  ro_lock_dir :: string
  ro_mirror :: "string option"
  ro_offline :: bool
  ro_dry_run :: bool

text \<open>
  What is outside: the bytes at an address, or none where the request raises; the digest of the
  standard library; and its XML reader, which can refuse. What the mirrors serve does not change
  during a run.
\<close>

record outside =
  fetched :: "string \<Rightarrow> string option"
  sha256_hex :: "string \<Rightarrow> string"
  read_xml :: "string \<Rightarrow> xml option"

datatype refresh_error =
    NotXml
  | NoPrimary
  | OtherChecksum "string option"
  | BadLocation
  | CannotReadRepomd string string
  | CannotFetch string
  | DigestMismatch string "string option" string
  | NothingLocal string string
  | NameCollides string

section \<open>The primary file of a repository\<close>

text \<open>The address and the digest, each of which may be missing from its element.\<close>

definition primary_from_repomd :: "outside \<Rightarrow> string \<Rightarrow> refresh_error + string option \<times> string option" where
  "primary_from_repomd w repomd =
     (case read_xml w repomd of
        None \<Rightarrow> Inl NotXml
      | Some root \<Rightarrow>
          (case find (\<lambda>d. attr d ''type'' = Some ''primary'') (xml_findall (in_ns REPOMD_NS ''data'') root) of
             None \<Rightarrow> Inl NoPrimary
           | Some d \<Rightarrow>
               (case (xml_find (in_ns REPOMD_NS ''location'') d, xml_find (in_ns REPOMD_NS ''checksum'') d) of
                  (Some location, Some checksum) \<Rightarrow>
                    if attr checksum ''type'' \<noteq> Some ''sha256'' then Inl (OtherChecksum (attr checksum ''type''))
                    else Inr (attr location ''href'', elem_text checksum)
                | _ \<Rightarrow> Inl NoPrimary)))"

text \<open>The directories of repodata, each a map from the names in it to the bytes of the files.\<close>

type_synonym repodata = "(string, (string, string) dict) dict"

definition is_primary :: "string \<Rightarrow> bool" where
  "is_primary name \<longleftrightarrow> name = ''primary.xml'' \<or> py_contains ''-primary.xml.'' name"

definition primary_names :: "repodata \<Rightarrow> string \<Rightarrow> string list" where
  "primary_names t dest = sort (filter is_primary (keys (dget_or t dest [])))"

definition local_primary :: "repodata \<Rightarrow> string \<Rightarrow> string option" where
  "local_primary t dest =
     (case primary_names t dest of [] \<Rightarrow> None | name # _ \<Rightarrow> Some (path_join dest name))"

text \<open>
  \<open>sync_repo\<close>, with the state of the disk when it returns or raises. A location without a name of a
  file in it stands for the exception that taking or opening that file raises.
\<close>

definition sync_repo ::
  "outside \<Rightarrow> string \<Rightarrow> string \<Rightarrow> string \<Rightarrow> repodata \<Rightarrow> repodata \<times> (refresh_error + string option)" where
  "sync_repo w fetch_base dest name t =
     (case fetched w (fetch_base @ ''/repodata/repomd.xml'') of
        None \<Rightarrow> (t, if name \<in> set OPTIONAL then Inr None else Inl (CannotReadRepomd name fetch_base))
      | Some repomd \<Rightarrow>
          (case primary_from_repomd w repomd of
             Inl e \<Rightarrow> (t, Inl e)
           | Inr (href, want) \<Rightarrow>
               let t = dsetdefault dest [] t; here = dget_or t dest []; n = basename (opt_text href) in
               if href = None \<or> n \<in> {[], ''.'', ''..''} then (t, Inl BadLocation)
               else
                 let path = path_join dest n in
                 if dget here n \<noteq> None \<and> want = Some (sha256_hex w (the (dget here n))) then (t, Inr (Some path))
                 else
                   (case fetched w (fetch_base @ ''/'' @ the href) of
                      None \<Rightarrow> (t, Inl (CannotFetch (fetch_base @ ''/'' @ the href)))
                    | Some blob \<Rightarrow>
                        if want \<noteq> Some (sha256_hex w blob) then (t, Inl (DigestMismatch name want (sha256_hex w blob)))
                        else
                          (dset dest (filter (\<lambda>(s, _). \<not> (is_primary s \<and> s \<noteq> n)) (dset n blob here)) t,
                           Inr (Some path)))))"

section \<open>The list of the repositories\<close>

record fetched_repo =
  fr_name :: string
  fr_kind :: string
  fr_base :: string
  fr_path :: string

type_synonym repo_spec = "string \<times> string \<times> string \<times> string"

definition compose_specs :: "string \<Rightarrow> refresh_options \<Rightarrow> repo_spec list" where
  "compose_specs release opts =
     map (\<lambda>(name, kind, template).
         let tail = template release (ro_arch opts);
             base = UPSTREAM @ ''/'' @ tail
         in (name, kind, base,
             if truthy (ro_mirror opts) then strip_slashes (the (ro_mirror opts)) @ ''/'' @ tail else base))
       (if release \<in> set (ro_branched opts) then FEDORA_BRANCHED_REPOS else FEDORA_REPOS)"

fun add_recorded :: "(string \<times> string \<times> string \<times> string) list \<Rightarrow> repo_spec list \<Rightarrow> refresh_error + repo_spec list" where
  "add_recorded [] specs = Inr specs"
| "add_recorded ((name, kind, base, primary) # recorded) specs =
     (if kind \<noteq> ''buildroot'' then add_recorded recorded specs
      else if name \<in> set (map fst specs) then Inl (NameCollides name)
      else add_recorded recorded (specs @ [(name, ''buildroot'', base, base)]))"

definition repo_dest :: "refresh_options \<Rightarrow> string \<Rightarrow> string \<Rightarrow> string" where
  "repo_dest opts release name = path_join (path_join (path_join (ro_lock_dir opts) ''repodata'') release) name"

definition place_repo ::
  "outside \<Rightarrow> refresh_options \<Rightarrow> bool \<Rightarrow> string \<Rightarrow> string \<Rightarrow> string \<Rightarrow> repodata \<Rightarrow> repodata \<times> (refresh_error + string option)" where
  "place_repo w opts offline dest name fetch_base t =
     (if offline \<or> ro_offline opts
      then (t, case local_primary t dest of
                 None \<Rightarrow> if name \<in> set OPTIONAL then Inr None else Inl (NothingLocal name dest)
               | Some path \<Rightarrow> Inr (Some path))
      else sync_repo w fetch_base dest name t)"

fun place_all ::
  "outside \<Rightarrow> refresh_options \<Rightarrow> bool \<Rightarrow> string \<Rightarrow> repo_spec list \<Rightarrow> repodata
   \<Rightarrow> repodata \<times> (refresh_error + fetched_repo list)" where
  "place_all w opts offline release [] t = (t, Inr [])"
| "place_all w opts offline release ((name, kind, base, fetch_base) # specs) t =
     (if ro_dry_run opts then place_all w opts offline release specs t
      else
        (case place_repo w opts offline (repo_dest opts release name) name fetch_base t of
           (t, Inl e) \<Rightarrow> (t, Inl e)
         | (t, Inr path) \<Rightarrow>
             (case place_all w opts offline release specs t of
                (t, Inl e) \<Rightarrow> (t, Inl e)
              | (t, Inr repos) \<Rightarrow>
                  (t, Inr (if truthy path
                           then \<lparr>fr_name = name, fr_kind = kind, fr_base = base, fr_path = the path\<rparr> # repos
                           else repos)))))"

definition repo_list ::
  "outside \<Rightarrow> refresh_options \<Rightarrow> bool \<Rightarrow> string \<Rightarrow> (string \<times> string \<times> string \<times> string) list \<Rightarrow> repodata
   \<Rightarrow> repodata \<times> (refresh_error + fetched_repo list)" where
  "repo_list w opts offline release recorded t =
     (case add_recorded recorded (compose_specs release opts) of
        Inl e \<Rightarrow> (t, Inl e)
      | Inr specs \<Rightarrow> place_all w opts offline release specs t)"

section \<open>What a sync leaves\<close>

lemma dget_or_dsetdefault [simp]: "dget_or (dsetdefault dest [] t) d [] = dget_or t d []"
  by (simp add: dget_or_def dict_simps split: option.split)

lemma dget_or_dset [simp]: "dget_or (dset d x t) d' y = (if d' = d then x else dget_or t d' y)"
  by (simp add: dget_or_def)

lemma dget_filter: "dget (filter (\<lambda>(s, _). P s) d) k = (if P k then dget d k else None)"
  by (induction d) auto

text \<open>
  A sync that succeeds either skipped a repository that need not exist, or found the file it was to
  fetch, or fetched it and removed the other primary files.
\<close>

lemma sync_repo_cases:
  assumes "sync_repo w fetch_base dest name t = (t', r)"
  obtains (failed) e where "r = Inl e" "\<forall>d. dget_or t' d [] = dget_or t d []"
  | (absent) "r = Inr None" "t' = t" "name \<in> set OPTIONAL" "fetched w (fetch_base @ ''/repodata/repomd.xml'') = None"
  | (placed) repomd href want blob where
      "fetched w (fetch_base @ ''/repodata/repomd.xml'') = Some repomd"
      "primary_from_repomd w repomd = Inr (Some href, Some want)"
      "r = Inr (Some (path_join dest (basename href)))" "sha256_hex w blob = want"
      "dget (dget_or t' dest []) (basename href) = Some blob" "\<forall>d. d \<noteq> dest \<longrightarrow> dget_or t' d [] = dget_or t d []"
      "dget_or t' dest [] = dget_or t dest [] \<or>
       dget_or t' dest [] = filter (\<lambda>(s, _). \<not> (is_primary s \<and> s \<noteq> basename href))
         (dset (basename href) blob (dget_or t dest []))"
      "basename href \<noteq> []"
proof (cases "fetched w (fetch_base @ ''/repodata/repomd.xml'')")
  case None
  then show ?thesis using assms failed absent by (auto simp: sync_repo_def split: if_splits)
next
  case (Some repomd)
  note repomd = Some
  show ?thesis
  proof (cases "primary_from_repomd w repomd")
    case (Inl e)
    then show ?thesis using assms repomd failed by (auto simp: sync_repo_def)
  next
    case (Inr hw)
    obtain href want where hw: "hw = (href, want)" by fastforce
    note run = assms [unfolded sync_repo_def repomd Inr hw option.case sum.case prod.case Let_def]
    let ?here = "dget_or t dest []"
    let ?n = "basename (opt_text href)"
    show ?thesis
    proof (cases "href = None \<or> ?n \<in> {[], ''.'', ''..''}")
      case True
      with run show ?thesis by (intro failed) auto
    next
      case False
      then obtain h where h: "href = Some h" by auto
      show ?thesis
      proof (cases "dget ?here ?n \<noteq> None \<and> want = Some (sha256_hex w (the (dget ?here ?n)))")
        case True
        with run False show ?thesis
          by (intro placed [of repomd h "the want" "the (dget ?here ?n)"]) (auto simp: repomd Inr hw h opt_text_def)
      next
        case unknown: False
        show ?thesis
        proof (cases "fetched w (fetch_base @ ''/'' @ h)")
          case None
          then show ?thesis using run False unknown by (intro failed) (auto simp: h)
        next
          case (Some blob)
          show ?thesis
          proof (cases "want = Some (sha256_hex w blob)")
            case True
            then show ?thesis using run False unknown Some
              by (intro placed [of repomd h "the want" blob]) (auto simp: repomd Inr hw h opt_text_def dget_filter)
          next
            case False
            then show ?thesis using run \<open>\<not> (href = None \<or> _)\<close> unknown Some by (intro failed) (auto simp: h)
          qed
        qed
      qed
    qed
  qed
qed


section \<open>The second solve reads what the first one read\<close>

definition simple_name :: "string \<Rightarrow> bool" where
  "simple_name name \<longleftrightarrow> name \<noteq> [] \<and> CHR ''/'' \<notin> set name"

text \<open>
  A directory holds one primary file at most, the file a repository names is one by its name, and a
  repository that is not published has no file on disk.
\<close>

definition names_primary :: "outside \<Rightarrow> string \<Rightarrow> bool" where
  "names_primary w repomd \<longleftrightarrow>
     (case primary_from_repomd w repomd of
        Inr (Some href, _) \<Rightarrow> is_primary (basename href)
      | _ \<Rightarrow> True)"

definition settled_repo :: "outside \<Rightarrow> refresh_options \<Rightarrow> string \<Rightarrow> repodata \<Rightarrow> repo_spec \<Rightarrow> bool" where
  "settled_repo w opts release t spec =
     (case spec of (name, kind, base, fetch_base) \<Rightarrow>
        (case fetched w (fetch_base @ ''/repodata/repomd.xml'') of
           None \<Rightarrow> primary_names t (repo_dest opts release name) = []
         | Some repomd \<Rightarrow>
             length (primary_names t (repo_dest opts release name)) \<le> 1 \<and> names_primary w repomd))"

definition settled_repos ::
  "outside \<Rightarrow> refresh_options \<Rightarrow> string \<Rightarrow> (string \<times> string \<times> string \<times> string) list \<Rightarrow> repodata \<Rightarrow> bool" where
  "settled_repos w opts release recorded t =
     (case add_recorded recorded (compose_specs release opts) of
        Inl e \<Rightarrow> True | Inr specs \<Rightarrow> list_all (settled_repo w opts release t) specs)"

lemma path_join_simple: "simple_name a \<Longrightarrow> path_join d a = (if d = [] \<or> py_endswith d ''/'' then d @ a else d @ ''/'' @ a)"
  by (cases a) (auto simp: simple_name_def path_join_def py_startswith_def)

lemma path_join_inj: "simple_name a \<Longrightarrow> simple_name b \<Longrightarrow> path_join d a = path_join d b \<longleftrightarrow> a = b"
  by (simp add: path_join_simple)

lemma primaries_cong: "dget_or t d [] = dget_or u d [] \<Longrightarrow> primary_names t d = primary_names u d"
  by (simp add: primary_names_def)

lemma local_primary_cong: "dget_or t d [] = dget_or u d [] \<Longrightarrow> local_primary t d = local_primary u d"
  using primaries_cong [of t d u] by (simp add: local_primary_def)

lemma settled_cong:
  assumes "dget_or t (repo_dest opts release (fst spec)) [] = dget_or u (repo_dest opts release (fst spec)) []"
  shows "settled_repo w opts release t spec = settled_repo w opts release u spec"
  using primaries_cong [OF assms] by (cases spec) (simp add: settled_repo_def split: option.split)

lemma keys_filter: "keys (filter (\<lambda>(s, _). P s) d) = filter P (keys d)"
  by (induction d) (auto simp: keys_def)

lemma primary_alone:
  assumes "dget d n = Some b" "is_primary n" "length (filter is_primary (keys d)) \<le> 1"
  shows "filter is_primary (keys d) = [n]"
proof -
  have "n \<in> set (filter is_primary (keys d))" using dget_in_set [OF assms(1)] assms(2) by (force simp: keys_def)
  then show ?thesis using assms(3) by (cases "filter is_primary (keys d)") auto
qed

lemma only_primary_left:
  assumes "is_primary n" "length (filter is_primary (keys d)) \<le> 1"
  shows "filter is_primary (keys (filter (\<lambda>(s, _). \<not> (is_primary s \<and> s \<noteq> n)) (dset n b d))) = [n]"
proof -
  let ?d = "filter (\<lambda>(s, _). \<not> (is_primary s \<and> s \<noteq> n)) (dset n b d)"
  have "filter is_primary (keys (dset n b d)) = filter is_primary (keys d) @ (if n \<in> set (keys d) then [] else [n])"
    using assms(1) by (induction d) (auto simp: keys_def)
  moreover have "filter is_primary (keys ?d) = filter (\<lambda>s. s = n) (filter is_primary (keys (dset n b d)))"
    unfolding keys_filter filter_filter by (rule filter_cong) auto
  ultimately have "filter is_primary (keys ?d)
      = filter (\<lambda>s. s = n) (filter is_primary (keys d)) @ (if n \<in> set (keys d) then [] else [n])"
    by simp
  moreover have "filter (\<lambda>s. s = n) ys = (if n \<in> set ys then [n] else [])" if "length ys \<le> 1" for ys
    using that by (cases ys) auto
  note this [OF assms(2)]
  moreover have "n \<in> set (filter is_primary (keys d)) \<longleftrightarrow> n \<in> set (keys d)" using assms(1) by simp
  ultimately show ?thesis by simp
qed

lemma sync_then_local:
  assumes "sync_repo w fetch_base (repo_dest opts release name) name t = (t', Inr p)"
    and "settled_repo w opts release t (name, kind, base, fetch_base)"
  shows "local_primary t' (repo_dest opts release name) = p \<and> (p = None \<longrightarrow> name \<in> set OPTIONAL)"
  using assms(1)
proof (cases rule: sync_repo_cases)
  case failed
  then show ?thesis by simp
next
  case absent
  then show ?thesis using assms(2) by (simp add: settled_repo_def local_primary_def)
next
  case (placed repomd href want blob)
  let ?d = "repo_dest opts release name"
  have s: "length (filter is_primary (keys (dget_or t ?d []))) \<le> 1" "is_primary (basename href)"
    using assms(2) placed(1,2) by (simp_all add: settled_repo_def primary_names_def names_primary_def)
  have "filter is_primary (keys (dget_or t' ?d [])) = [basename href]"
    using placed(7)
  proof
    assume "dget_or t' ?d [] = dget_or t ?d []"
    then show ?thesis using primary_alone [OF _ s(2), of "dget_or t ?d []" blob] s(1) placed(5) by simp
  next
    assume "dget_or t' ?d [] = filter (\<lambda>(s, _). \<not> (is_primary s \<and> s \<noteq> basename href))
         (dset (basename href) blob (dget_or t ?d []))"
    then show ?thesis using only_primary_left [OF s(2,1)] by simp
  qed
  then show ?thesis using placed(3) by (simp add: local_primary_def primary_names_def)
qed

lemma sync_frame:
  assumes "sync_repo w fetch_base dest name t = (t', r)" and "d \<noteq> dest"
  shows "dget_or t' d [] = dget_or t d []"
  using assms(1) by (rule sync_repo_cases) (use assms(2) in auto)

lemma place_all_frame:
  assumes "place_all w opts False release specs t = (t', r)" and "\<not> ro_offline opts"
    and "d \<notin> (\<lambda>spec. repo_dest opts release (fst spec)) ` set specs"
  shows "dget_or t' d [] = dget_or t d []"
  using assms(1,3)
proof (induction specs arbitrary: t t' r)
  case (Cons spec specs)
  obtain name kind base fetch_base where spec: "spec = (name, kind, base, fetch_base)" by (metis prod_cases4)
  let ?d = "repo_dest opts release name"
  obtain t1 p where one: "place_repo w opts False ?d name fetch_base t = (t1, p)" by fastforce
  have d: "d \<noteq> ?d" "d \<notin> (\<lambda>spec. repo_dest opts release (fst spec)) ` set specs"
    using Cons.prems(2) by (auto simp: spec)
  have "dget_or t1 d [] = dget_or t d []"
    using one assms(2) sync_frame [of w fetch_base ?d name t t1 p d] d(1) by (simp add: place_repo_def)
  moreover obtain t2 q where two: "place_all w opts False release specs t1 = (t2, q)" by fastforce
  moreover have "dget_or t2 d [] = dget_or t1 d []" by (rule Cons.IH [OF two d(2)])
  moreover obtain t3 q3 where "place_all w opts False release specs t = (t3, q3)" by fastforce
  moreover have "dget_or t3 d [] = dget_or t d []" by (rule Cons.IH [OF calculation(4) d(2)])
  ultimately show ?case using Cons.prems(1) one
    by (auto simp: spec split: if_splits sum.splits)
qed simp

lemma place_all_again:
  assumes "place_all w opts False release specs t = (t', Inr repos)" and "\<not> ro_offline opts" and "\<not> ro_dry_run opts"
    and "distinct (map fst specs)" and "list_all (simple_name \<circ> fst) specs" and "list_all (settled_repo w opts release t) specs"
  shows "place_all w opts True release specs t' = (t', Inr repos)"
  using assms(1,4-6)
proof (induction specs arbitrary: t repos)
  case (Cons spec specs)
  obtain name kind base fetch_base where spec: "spec = (name, kind, base, fetch_base)" by (metis prod_cases4)
  let ?d = "repo_dest opts release name"
  obtain t1 p rest where one: "sync_repo w fetch_base ?d name t = (t1, Inr p)"
    and rest: "place_all w opts False release specs t1 = (t', Inr rest)"
    and repos: "repos = (if truthy p then \<lparr>fr_name = name, fr_kind = kind, fr_base = base, fr_path = the p\<rparr> # rest else rest)"
    using Cons.prems(1) assms(2,3) by (auto simp: spec place_repo_def split: prod.splits sum.splits)
  have other: "repo_dest opts release (fst s) \<noteq> ?d" if "s \<in> set specs" for s
    using that Cons.prems(2,3) by (force simp: spec repo_dest_def path_join_inj list_all_iff)
  have "dget_or t1 (repo_dest opts release (fst s)) [] = dget_or t (repo_dest opts release (fst s)) []" if "s \<in> set specs" for s
    by (rule sync_frame [OF one other [OF that]])
  then have "list_all (settled_repo w opts release t1) specs"
    using Cons.prems(4) settled_cong [of t1 opts release _ t w] by (simp add: list_all_iff)
  then have "place_all w opts True release specs t' = (t', Inr rest)"
    using Cons.IH [OF rest] Cons.prems(2,3) by (simp add: spec)
  moreover have "local_primary t' ?d = p" "p = None \<longrightarrow> name \<in> set OPTIONAL"
  proof -
    have "dget_or t' ?d [] = dget_or t1 ?d []"
      by (rule place_all_frame [OF rest assms(2)]) (use other in force)
    then show "local_primary t' ?d = p" "p = None \<longrightarrow> name \<in> set OPTIONAL"
      using sync_then_local [OF one, of kind base] Cons.prems(4) local_primary_cong [of t' ?d t1] by (simp_all add: spec)
  qed
  ultimately show ?case using assms(3) by (cases p) (simp_all add: spec place_repo_def repos)
qed simp

lemma path_join_Nil: "b \<noteq> [] \<Longrightarrow> path_join a b \<noteq> []"
  by (simp add: path_join_def)

lemma placed_path:
  assumes "place_repo w opts offline dest name fetch_base t = (t', Inr p)"
  shows "p = None \<and> name \<in> set OPTIONAL \<or> truthy p"
proof (cases "offline \<or> ro_offline opts")
  case False
  then have "sync_repo w fetch_base dest name t = (t', Inr p)" using assms by (simp add: place_repo_def)
  then show ?thesis by (rule sync_repo_cases) (auto simp: truthy_def path_join_Nil)
next
  case True
  have "n \<noteq> []" if "primary_names t dest = n # ns" for n ns
  proof
    assume "n = []"
    then have "[] \<in> set (primary_names t dest)" using that by simp
    moreover have "\<not> is_primary []" by code_simp
    ultimately show False by (simp add: primary_names_def)
  qed
  then show ?thesis using assms True
    by (auto simp: place_repo_def local_primary_def truthy_def path_join_Nil split: if_splits list.splits)
qed

text \<open>Each repository of the result is one of the list, and all but the optional ones are there.\<close>

lemma place_all_facts:
  assumes "place_all w opts offline release specs t = (t', Inr repos)" and "\<not> ro_dry_run opts" and "distinct (map fst specs)"
  shows "distinct (map fr_name repos)
    \<and> (\<forall>r \<in> set repos. \<exists>fetch_base. (fr_name r, fr_kind r, fr_base r, fetch_base) \<in> set specs)
    \<and> (\<forall>spec \<in> set specs. fst spec \<in> set OPTIONAL \<or> (\<exists>r \<in> set repos. fr_name r = fst spec \<and> fr_kind r = fst (snd spec)))"
  using assms(1,3)
proof (induction specs arbitrary: t t' repos)
  case (Cons spec specs)
  obtain name kind base fetch_base where spec: "spec = (name, kind, base, fetch_base)" by (metis prod_cases4)
  obtain t1 p rest where one: "place_repo w opts offline (repo_dest opts release name) name fetch_base t = (t1, Inr p)"
    and rest: "place_all w opts offline release specs t1 = (t', Inr rest)"
    and repos: "repos = (if truthy p then \<lparr>fr_name = name, fr_kind = kind, fr_base = base, fr_path = the p\<rparr> # rest else rest)"
    using Cons.prems(1) assms(2) by (auto simp: spec split: prod.splits sum.splits)
  have IH: "distinct (map fr_name rest)"
    "\<forall>r \<in> set rest. \<exists>fetch_base. (fr_name r, fr_kind r, fr_base r, fetch_base) \<in> set specs"
    "\<forall>spec \<in> set specs. fst spec \<in> set OPTIONAL \<or> (\<exists>r \<in> set rest. fr_name r = fst spec \<and> fr_kind r = fst (snd spec))"
    using Cons.IH [OF rest] Cons.prems(2) by simp_all
  have "name \<notin> set (map fr_name rest)" using IH(2) Cons.prems(2) by (force simp: spec)
  then have "distinct (map fr_name repos)" using IH(1) by (simp add: repos)
  moreover have "\<forall>r \<in> set repos. \<exists>fetch_base. (fr_name r, fr_kind r, fr_base r, fetch_base) \<in> set (spec # specs)"
    using IH(2) by (auto simp: repos spec)
  moreover have "\<forall>spec' \<in> set (spec # specs). fst spec' \<in> set OPTIONAL \<or> (\<exists>r \<in> set repos. fr_name r = fst spec' \<and> fr_kind r = fst (snd spec'))"
    using IH(3) placed_path [OF one] by (auto simp: repos spec)
  ultimately show ?case by blast
qed simp

lemma add_recorded_names:
  "add_recorded recorded specs = Inr out \<Longrightarrow> distinct (map fst specs)
   \<Longrightarrow> distinct (map fst out) \<and> set (map fst out) \<subseteq> set (map fst specs) \<union> set (map fst recorded)"
  by (induction recorded specs rule: add_recorded.induct) (auto split: if_splits)

lemma add_recorded_keeps:
  "add_recorded recorded specs = Inr out \<Longrightarrow> set specs \<subseteq> set out
     \<and> (\<forall>spec \<in> set out. spec \<in> set specs
          \<or> (\<exists>name base primary. spec = (name, ''buildroot'', base, base) \<and> (name, ''buildroot'', base, primary) \<in> set recorded))"
proof (induction recorded specs rule: add_recorded.induct)
  case (2 name kind base primary recorded specs)
  show ?case
  proof (cases "kind = ''buildroot''")
    case True
    let ?specs = "specs @ [(name, ''buildroot'', base, base)]"
    have new: "name \<notin> set (map fst specs)" "add_recorded recorded ?specs = Inr out"
      using "2.prems" True by (simp_all split: if_splits)
    have "set ?specs \<subseteq> set out"
      "\<forall>spec \<in> set out. spec \<in> set ?specs \<or> (\<exists>name base primary. spec = (name, ''buildroot'', base, base)
          \<and> (name, ''buildroot'', base, primary) \<in> set recorded)"
      using "2.IH"(2) True new by simp_all
    then show ?thesis by (simp add: True) blast
  next
    case False
    then show ?thesis using "2.IH"(1) "2.prems" by simp
  qed
qed simp

lemma compose_names:
  "distinct (map fst (compose_specs release opts))" "list_all simple_name (map fst (compose_specs release opts))"
  by (simp_all add: compose_specs_def FEDORA_REPOS_def FEDORA_BRANCHED_REPOS_def simple_name_def Let_def)

text \<open>
  C36: The second solve of a probe run reads the same repositories as the first. Once the repodata of a
  release is synced, asking for it again without the network gives the same list, in the same order and
  with the same files, and changes nothing, provided that each repository held one primary file at most
  before, that it names its primary file as one, and that nothing is kept of one that is not published.
\<close>
theorem offline_repeats_sync:
  assumes "repo_list w opts False release recorded t = (t', Inr repos)"
    and "\<not> ro_offline opts" and "\<not> ro_dry_run opts"
    and "list_all simple_name (map fst recorded)" and "settled_repos w opts release recorded t"
  shows "repo_list w opts True release recorded t' = (t', Inr repos)"
proof -
  obtain specs where specs: "add_recorded recorded (compose_specs release opts) = Inr specs"
    and run: "place_all w opts False release specs t = (t', Inr repos)"
    using assms(1) by (auto simp: repo_list_def split: sum.splits)
  note names = add_recorded_names [OF specs compose_names(1)]
  have "\<forall>n \<in> set (map fst (compose_specs release opts)) \<union> set (map fst recorded). simple_name n"
    using compose_names(2) [of release opts] assms(4) unfolding list_all_iff by blast
  then have "list_all simple_name (map fst specs)" using names unfolding list_all_iff by blast
  then have "list_all (simple_name \<circ> fst) specs" unfolding list.pred_map .
  then show ?thesis
    using place_all_again [OF run assms(2,3)] names assms(5) by (simp add: repo_list_def specs settled_repos_def)
qed

section \<open>Instances\<close>

definition repomd_of :: "string \<Rightarrow> string \<Rightarrow> xml" where
  "repomd_of href digest =
     Elem (in_ns REPOMD_NS ''repomd'') [] None
       [Elem (in_ns REPOMD_NS ''data'') [(''type'', ''filelists'')] None [],
        Elem (in_ns REPOMD_NS ''data'') [(''type'', ''primary'')] None
          [Elem (in_ns REPOMD_NS ''checksum'') [(''type'', ''sha256'')] (Some digest) [],
           Elem (in_ns REPOMD_NS ''location'') [(''href'', href)] None []]]"

text \<open>A mirror with one primary file for each tree, without the updates of the binaries.\<close>

definition demo_net :: outside where
  "demo_net =
     \<lparr>fetched = (\<lambda>address.
        if py_endswith address ''/repodata/repomd.xml''
        then (if py_endswith address ''/x86_64/repodata/repomd.xml'' then None else Some ''list'')
        else if py_endswith address ''/repodata/7-primary.xml.zst'' then Some ''packages'' else None),
      sha256_hex = (\<lambda>s. ''sha of '' @ s),
      read_xml = (\<lambda>s. if s = ''list'' then Some (repomd_of ''repodata/7-primary.xml.zst'' ''sha of packages'') else None)\<rparr>"

definition demo_options :: refresh_options where
  "demo_options = \<lparr>ro_arch = ''x86_64'', ro_branched = [''45''], ro_lock_dir = ''/l'', ro_mirror = None,
     ro_offline = False, ro_dry_run = False\<rparr>"

definition demo_sync :: "repodata \<times> (refresh_error + fetched_repo list)" where
  "demo_sync = repo_list demo_net demo_options False ''43'' [(''local'', ''buildroot'', ''https://k.example/r'', ''p'')]
     [(''/l/repodata/43/source-releases'', [(''6-primary.xml.zst'', ''older'')])]"

theorem offline_repeats_sync_witness:
  "\<exists>repos. map fr_path repos = [''/l/repodata/43/binary-releases/7-primary.xml.zst'',
       ''/l/repodata/43/source-releases/7-primary.xml.zst'', ''/l/repodata/43/source-updates/7-primary.xml.zst'',
       ''/l/repodata/43/local/7-primary.xml.zst'']
     \<and> repo_list demo_net demo_options True ''43'' [(''local'', ''buildroot'', ''https://k.example/r'', ''p'')] (fst demo_sync)
       = (fst demo_sync, Inr repos)"
proof -
  have paths: "map fr_path (projr (snd demo_sync)) = [''/l/repodata/43/binary-releases/7-primary.xml.zst'',
       ''/l/repodata/43/source-releases/7-primary.xml.zst'', ''/l/repodata/43/source-updates/7-primary.xml.zst'',
       ''/l/repodata/43/local/7-primary.xml.zst'']" "\<not> isl (snd demo_sync)"
    by code_simp+
  then have run: "repo_list demo_net demo_options False ''43'' [(''local'', ''buildroot'', ''https://k.example/r'', ''p'')]
     [(''/l/repodata/43/source-releases'', [(''6-primary.xml.zst'', ''older'')])] = (fst demo_sync, Inr (projr (snd demo_sync)))"
    by (cases demo_sync) (auto simp: demo_sync_def)
  have settled: "settled_repos demo_net demo_options ''43'' [(''local'', ''buildroot'', ''https://k.example/r'', ''p'')]
     [(''/l/repodata/43/source-releases'', [(''6-primary.xml.zst'', ''older'')])]"
    by code_simp
  show ?thesis
    using paths(1) offline_repeats_sync [OF run _ _ _ settled]
    by (intro exI [of _ "projr (snd demo_sync)"]) (simp add: demo_options_def simple_name_def)
qed

text \<open>
  A file called \<^verbatim>\<open>primary.xml.gz\<close>, without a digest in front of the name, is synced and solved from,
  but a solve without the network does not see it.
\<close>

definition plain_names :: outside where
  "plain_names = demo_net\<lparr>fetched := (\<lambda>address. if py_endswith address ''repomd.xml'' then Some ''list'' else Some ''packages''),
     read_xml := (\<lambda>s. Some (repomd_of ''repodata/primary.xml.gz'' ''sha of packages''))\<rparr>"

lemma plain_name_not_found_again:
  "snd (sync_repo plain_names ''https://m.example/r'' ''/l/d'' ''r'' []) = Inr (Some ''/l/d/primary.xml.gz'')"
  "local_primary (fst (sync_repo plain_names ''https://m.example/r'' ''/l/d'' ''r'' [])) ''/l/d'' = None"
  by code_simp+

text \<open>
  When the declared file is there already, other primary files stay, and the solve without the network
  takes the first name.
\<close>

definition two_primaries :: repodata where
  "two_primaries = [(''/l/d'', [(''6-primary.xml.zst'', ''older''), (''7-primary.xml.zst'', ''packages'')])]"

lemma stale_primary_read:
  "sync_repo demo_net ''https://m.example/r'' ''/l/d'' ''r'' two_primaries
     = (two_primaries, Inr (Some ''/l/d/7-primary.xml.zst''))"
  "local_primary two_primaries ''/l/d'' = Some ''/l/d/6-primary.xml.zst''"
  by code_simp+

end
