(* ===== verification/Decimals.thy ===== *)
theory Decimals
  imports Starlark
begin

text \<open>Python's \<open>int\<close> reads a decimal text back as the number it was written from.\<close>

lemma py_digits_append: "CHR ''_'' \<notin> set s \<Longrightarrow> py_digits n (s @ t) = Option.bind (py_digits n s) (\<lambda>m. py_digits m t)"
  by (induction s arbitrary: n) (auto split: option.split)

lemma digit_char_plain: "n < 10 \<Longrightarrow> digit_char n \<noteq> CHR ''_'' \<and> digit_value (digit_char n) \<noteq> None \<and> \<not> ascii_space (digit_char n)
    \<and> digit_char n \<noteq> CHR ''-'' \<and> digit_char n \<noteq> CHR ''+''"
proof -
  have "list_all (\<lambda>n. digit_char n \<noteq> CHR ''_'' \<and> digit_value (digit_char n) \<noteq> None \<and> \<not> ascii_space (digit_char n)
    \<and> digit_char n \<noteq> CHR ''-'' \<and> digit_char n \<noteq> CHR ''+'') [0..<10]" by code_simp
  then show "n < 10 \<Longrightarrow> ?thesis" by (simp add: list_all_iff)
qed

lemma nat_text_plain:
  "list_all (\<lambda>c. c \<noteq> CHR ''_'' \<and> digit_value c \<noteq> None \<and> \<not> ascii_space c \<and> c \<noteq> CHR ''-'' \<and> c \<noteq> CHR ''+'') (nat_text n)"
proof (induction n rule: nat_text.induct)
  case (1 n)
  then show ?case by (subst nat_text.simps) (simp add: digit_char_plain digit_char_value)
qed

lemma py_digits_nat_text: "py_digits 0 (nat_text n) = Some (int n)"
proof (induction n rule: nat_text.induct)
  case (1 n)
  have "CHR ''_'' \<notin> set (nat_text (n div 10))" using nat_text_plain [of "n div 10"] by (auto simp: list_all_iff)
  then show ?case using 1
    by (subst nat_text.simps) (simp add: py_digits_append digit_char_value digit_char_plain zdiv_int zmod_int)
qed

lemma nat_literal_text: "py_nat_literal (nat_text n) = Some (int n)"
proof -
  obtain d s where d: "nat_text n = d # s" "digit_value d \<noteq> None" using nat_text_head [of n] by blast
  have "d \<noteq> CHR ''_''" using nat_text_plain [of n] d(1) by simp
  then show ?thesis using py_digits_nat_text [of n] d by (auto simp: py_nat_literal_def)
qed

lemma no_space_kept:
  "list_all (\<lambda>c. \<not> ascii_space c) s \<Longrightarrow> rdrop_while ascii_space (dropWhile ascii_space s) = s"
proof -
  have keep: "list_all (\<lambda>c. \<not> ascii_space c) t \<Longrightarrow> dropWhile ascii_space t = t" for t by (cases t) simp_all
  assume "list_all (\<lambda>c. \<not> ascii_space c) s"
  then show ?thesis using keep [of s] keep [of "rev s"] by (simp add: rdrop_while_def)
qed

lemma py_int_text: "py_int (int_text n) = Some n"
proof -
  have plain: "list_all (\<lambda>c. \<not> ascii_space c) (nat_text m)" for m
    using nat_text_plain [of m] by (simp add: list_all_iff)
  obtain d s where d: "nat_text (nat n) = d # s" using nat_text_nonempty [of "nat n"] by (cases "nat_text (nat n)") auto
  have sign: "d \<noteq> CHR ''+'' \<and> d \<noteq> CHR ''-''" using nat_text_plain [of "nat n"] by (simp add: d)
  show ?thesis
  proof (cases "n < 0")
    case True
    have "\<not> ascii_space CHR ''-''" by code_simp
    then have "list_all (\<lambda>c. \<not> ascii_space c) (CHR ''-'' # nat_text (nat (- n)))" using plain by simp
    then show ?thesis using True no_space_kept [of "CHR ''-'' # nat_text (nat (- n))"]
      by (simp add: py_int_def int_text_def nat_literal_text)
  next
    case False
    then show ?thesis using plain [of "nat n"] sign nat_literal_text [of "nat n"] no_space_kept [of "nat_text (nat n)"]
      by (simp add: py_int_def int_text_def d)
  qed
qed

lemma py_int_nat_text: "py_int (nat_text n) = Some (int n)"
  using py_int_text [of "int n"] by (simp add: int_text_def)

end
