(* ===== verification/Relock.thy ===== *)
theory Relock
  imports Command Repodata Decimals
begin

text \<open>
  \<^verbatim>\<open>tools/relock.py\<close>: a lock is refreshed by giving the solver the inputs the lock itself
  records. \<open>solve_argv\<close> writes them as a command line, which the solver's argument parser reads
  again; the claim of the tool is that only package versions change.
\<close>

section \<open>The command line of the solver\<close>

text \<open>
  \<open>argparse\<close> takes an argument for a value unless it starts with a dash; a dash alone and a negative
  number are values all the same. Abbreviated flags, \<open>--flag=value\<close> and values with both a dash in
  front and a blank in them are refused here.
\<close>

definition negative_number :: "string \<Rightarrow> bool" where
  "negative_number s =
     (let body = drop 1 s; digits = takeWhile ascii_digit body; rest = dropWhile ascii_digit body in
      take 1 s = ''-''
      \<and> (if rest = [] then digits \<noteq> [] else hd rest = CHR ''.'' \<and> tl rest \<noteq> [] \<and> list_all ascii_digit (tl rest)))"

definition flag_value :: "string \<Rightarrow> bool" where
  "flag_value s \<longleftrightarrow> take 1 s \<noteq> ''-'' \<or> s = ''-'' \<or> negative_number s"

datatype usage =
    NoValue string
  | NotAFlag string
  | BadValue string string
  | NoOutput

definition set_repos :: "(repo_flags \<Rightarrow> repo_flags) \<Rightarrow> command \<Rightarrow> command" where
  "set_repos f c = c\<lparr>cmd_repos := f (cmd_repos c)\<rparr>"

definition set_flag :: "string \<Rightarrow> string \<Rightarrow> command \<Rightarrow> usage + command" where
  "set_flag f v c =
     (if f = ''--binary-primary'' then Inr (set_repos (\<lambda>r. r\<lparr>binary_primary := binary_primary r @ [v]\<rparr>) c)
      else if f = ''--source-primary'' then Inr (set_repos (\<lambda>r. r\<lparr>source_primary := source_primary r @ [v]\<rparr>) c)
      else if f = ''--buildroot-primary'' then Inr (set_repos (\<lambda>r. r\<lparr>buildroot_primary := buildroot_primary r @ [v]\<rparr>) c)
      else if f = ''--binary-base'' then Inr (set_repos (\<lambda>r. r\<lparr>binary_base := binary_base r @ [v]\<rparr>) c)
      else if f = ''--source-base'' then Inr (set_repos (\<lambda>r. r\<lparr>source_base := source_base r @ [v]\<rparr>) c)
      else if f = ''--buildroot-base'' then Inr (set_repos (\<lambda>r. r\<lparr>buildroot_base := buildroot_base r @ [v]\<rparr>) c)
      else if f = ''--binary-repo'' then Inr (set_repos (\<lambda>r. r\<lparr>binary_repo := binary_repo r @ [v]\<rparr>) c)
      else if f = ''--source-repo'' then Inr (set_repos (\<lambda>r. r\<lparr>source_repo := source_repo r @ [v]\<rparr>) c)
      else if f = ''--buildroot-repo'' then Inr (set_repos (\<lambda>r. r\<lparr>buildroot_repo := buildroot_repo r @ [v]\<rparr>) c)
      else if f = ''--build'' then Inr (c\<lparr>cmd_build := cmd_build c @ [v]\<rparr>)
      else if f = ''--build-list'' then Inr (c\<lparr>cmd_build_list := Some v\<rparr>)
      else if f = ''--source-image'' then Inr (c\<lparr>cmd_source_image := cmd_source_image c @ [v]\<rparr>)
      else if f = ''--prebuilt-source'' then Inr (c\<lparr>cmd_prebuilt_source := cmd_prebuilt_source c @ [v]\<rparr>)
      else if f = ''--source-exception'' then Inr (c\<lparr>cmd_source_exception := cmd_source_exception c @ [v]\<rparr>)
      else if f = ''--flavor'' then
        (if v \<in> set (keys IMPLICIT_GROUPS) then Inr (c\<lparr>cmd_flavor := v\<rparr>) else Inl (BadValue f v))
      else if f = ''--seed-package'' then Inr (c\<lparr>cmd_seed_package := cmd_seed_package c @ [v]\<rparr>)
      else if f = ''--override'' then Inr (c\<lparr>cmd_override := cmd_override c @ [v]\<rparr>)
      else if f = ''--source-variant'' then Inr (c\<lparr>cmd_source_variant := cmd_source_variant c @ [v]\<rparr>)
      else if f = ''--image'' then Inr (c\<lparr>cmd_image := cmd_image c @ [v]\<rparr>)
      else if f = ''--image-override'' then Inr (c\<lparr>cmd_image_override := cmd_image_override c @ [v]\<rparr>)
      else if f = ''--release'' then Inr (c\<lparr>cmd_release := Some v\<rparr>)
      else if f = ''--dist-tag'' then Inr (c\<lparr>cmd_dist_tag := v\<rparr>)
      else if f = ''--target-cpu'' then Inr (c\<lparr>cmd_target_cpu := v\<rparr>)
      else if f = ''--stages'' then
        (case py_int v of Some n \<Rightarrow> Inr (c\<lparr>cmd_stages := n\<rparr>) | None \<Rightarrow> Inl (BadValue f v))
      else if f = ''--probe'' then Inr (c\<lparr>cmd_probe := Some v\<rparr>)
      else Inl (NotAFlag f))"

fun parse_flags :: "string list \<Rightarrow> command \<Rightarrow> string option \<Rightarrow> usage + command \<times> string" where
  "parse_flags [] c out = (case out of None \<Rightarrow> Inl NoOutput | Some path \<Rightarrow> Inr (c, path))"
| "parse_flags (f # rest) c out =
     (if f = ''--seed-only'' then parse_flags rest (c\<lparr>cmd_seed_only := True\<rparr>) out
      else if f = ''--strict'' then parse_flags rest (c\<lparr>cmd_strict := True\<rparr>) out
      else
        (case rest of
           [] \<Rightarrow> Inl (NoValue f)
         | v # rest' \<Rightarrow>
             if \<not> flag_value v then Inl (NoValue f)
             else if f = ''--out'' then parse_flags rest' c (Some v)
             else attempt (set_flag f v c) (\<lambda>c'. parse_flags rest' c' out)))"

definition default_command :: command where
  "default_command =
     \<lparr>cmd_repos = \<lparr>binary_primary = [], binary_base = [], binary_repo = [], buildroot_primary = [], buildroot_base = [],
        buildroot_repo = [], source_primary = [], source_base = [], source_repo = []\<rparr>,
      cmd_build = [], cmd_build_list = None, cmd_source_image = [], cmd_prebuilt_source = [], cmd_source_exception = [],
      cmd_flavor = ''fedora'', cmd_seed_only = False, cmd_seed_package = [], cmd_override = [], cmd_source_variant = [],
      cmd_image = [], cmd_image_override = [], cmd_release = None, cmd_dist_tag = [], cmd_target_cpu = ''x86_64'',
      cmd_stages = 3, cmd_strict = False, cmd_probe = None\<rparr>"

section \<open>The inputs a lock records\<close>

text \<open>\<open>json.dumps(separators=(",", ":"))\<close>\<close>

function json_compact :: "json \<Rightarrow> string" where
  "json_compact JNull = ''null''"
| "json_compact (JBool b) = (if b then ''true'' else ''false'')"
| "json_compact (JInt n) = int_text n"
| "json_compact (JStr s) = json_text s"
| "json_compact (JList xs) = ''['' @ py_join '','' (map json_compact xs) @ '']''"
| "json_compact (JObj d) =
     ''{'' @ py_join '','' (map (\<lambda>kv. json_text (fst kv) @ '':'' @ json_compact (snd kv)) d) @ ''}''"
  by pat_completeness auto
termination
  by (relation "measure size") (auto intro: le_imp_less_Suc size_list_estimation' dest: size_dict_entry)

definition exception_text :: "policy_exception \<Rightarrow> string" where
  "exception_text e = json_compact (canonical (JObj (exception_json e)))"

definition flag_items :: "string \<Rightarrow> string list \<Rightarrow> (string \<times> string option) list" where
  "flag_items f items = map (\<lambda>item. (f, Some item)) items"

definition repo_options :: "fetched_repo \<Rightarrow> (string \<times> string option) list" where
  "repo_options r =
     [(''--'' @ fr_kind r @ ''-repo'', Some (fr_name r)), (''--'' @ fr_kind r @ ''-base'', Some (fr_base r)),
      (''--'' @ fr_kind r @ ''-primary'', Some (fr_path r))]"

text \<open>
  The flags with their values. \<open>explicit\<close> says whether the lock has the key \<open>explicit_build\<close>, which
  older ones lack; \<open>str(None)\<close> is a text.
\<close>

definition solve_flags ::
  "bool \<Rightarrow> lock \<Rightarrow> fetched_repo list \<Rightarrow> string \<Rightarrow> string option \<Rightarrow> (string \<times> string option) list" where
  "solve_flags explicit l repos out probe =
     (let recorded = lk_solve l;
          builds = (if explicit then in_explicit_build recorded
                    else if in_source_image_sets recorded \<noteq> [] then [] else in_build recorded)
      in [(''--release'', Some (case lk_release l of None \<Rightarrow> ''None'' | Some r \<Rightarrow> r)),
          (''--dist-tag'', Some (lk_dist_tag l)), (''--target-cpu'', Some (lk_target_cpu l)),
          (''--stages'', Some (int_text (in_stages recorded))), (''--out'', Some out)]
         @ (if truthy probe then [(''--probe'', probe)] else [])
         @ concat (map repo_options repos)
         @ (if in_seed_only recorded then [(''--seed-only'', None)] else [])
         @ flag_items ''--build'' builds
         @ flag_items ''--source-exception''
             (case in_source_exceptions recorded of None \<Rightarrow> [] | Some es \<Rightarrow> map exception_text es)
         @ flag_items ''--override'' (in_overrides recorded)
         @ flag_items ''--image'' (in_images recorded)
         @ flag_items ''--image-override'' (in_image_overrides recorded)
         @ flag_items ''--seed-package'' (in_seed_packages recorded)
         @ flag_items ''--source-variant'' (in_source_variants recorded)
         @ flag_items ''--source-image'' (in_source_image_sets recorded)
         @ flag_items ''--prebuilt-source'' (in_prebuilt_sources recorded))"

definition solve_argv :: "bool \<Rightarrow> lock \<Rightarrow> fetched_repo list \<Rightarrow> string \<Rightarrow> string option \<Rightarrow> string list" where
  "solve_argv explicit l repos out probe =
     concat (map (\<lambda>(f, v). f # (case v of None \<Rightarrow> [] | Some x \<Rightarrow> [x])) (solve_flags explicit l repos out probe))"

section \<open>The refresh of a release\<close>

datatype relock_error =
    NoLockFor string
  | LockNames lockfile_error
  | RepoProblem refresh_error
  | ProbeGone "string option" string
  | BadFlags usage
  | SolveFailed main_error

definition recorded_probe :: "(string \<Rightarrow> bool) \<Rightarrow> string \<Rightarrow> lock \<Rightarrow> relock_error + string option" where
  "recorded_probe is_file lock_dir l =
     (if \<not> truthy (in_probe (lk_solve l)) then Inr None
      else
        let path = path_join lock_dir (basename (the (in_probe (lk_solve l)))) in
        if is_file path then Inr (Some path) else Inl (ProbeGone (lk_release l) (the (in_probe (lk_solve l)))))"

text \<open>
  The locks on disk by path, each with the mark whether it has the key \<open>explicit_build\<close>, and the
  repodata. \<open>run_inputs\<close> is what a solve reads from a disk with this repodata, and \<open>is_file\<close> tells which
  probe files are there.
\<close>

record lock_state =
  ls_locks :: "(string, lock \<times> bool) dict"
  ls_repodata :: repodata

definition read_lock :: "refresh_options \<Rightarrow> string \<Rightarrow> lock_state \<Rightarrow> relock_error + string \<times> lock \<times> bool" where
  "read_lock opts release s =
     attempt (map_error LockNames
       (find_lockfile (\<lambda>p. dget (ls_locks s) p \<noteq> None) (ro_lock_dir opts) ''fedora'' release (ro_arch opts))) (\<lambda>found.
     case found of
       None \<Rightarrow> Inl (NoLockFor release)
     | Some path \<Rightarrow> Inr (path, the (dget (ls_locks s) path)))"

definition solve_main :: "inputs \<Rightarrow> string list \<Rightarrow> (string, lock \<times> bool) dict \<Rightarrow> relock_error + (string, lock \<times> bool) dict" where
  "solve_main w argv locks =
     attempt (map_error BadFlags (parse_flags argv default_command None)) (\<lambda>(c, out).
     attempt (map_error SolveFailed (main w c)) (\<lambda>l. Inr (dset out (l, True) locks)))"

definition relock ::
  "outside \<Rightarrow> refresh_options \<Rightarrow> bool \<Rightarrow> (string \<Rightarrow> bool) \<Rightarrow> (repodata \<Rightarrow> inputs) \<Rightarrow> string \<Rightarrow> lock_state
   \<Rightarrow> lock_state \<times> (relock_error + unit)" where
  "relock net opts fetch_only is_file run_inputs release s =
     (case read_lock opts release s of
        Inl e \<Rightarrow> (s, Inl e)
      | Inr (path, l, explicit) \<Rightarrow>
          (case repo_list net opts False release (lk_repos l) (ls_repodata s) of
             (t, Inl e) \<Rightarrow> (s\<lparr>ls_repodata := t\<rparr>, Inl (RepoProblem e))
           | (t, Inr repos) \<Rightarrow>
               let s = s\<lparr>ls_repodata := t\<rparr> in
               if ro_dry_run opts \<or> fetch_only then (s, Inr ())
               else
                 (case attempt (recorded_probe is_file (ro_lock_dir opts) l) (\<lambda>probe.
                         solve_main (run_inputs t) (solve_argv explicit l repos path probe) (ls_locks s)) of
                    Inl e \<Rightarrow> (s, Inl e)
                  | Inr locks \<Rightarrow> (s\<lparr>ls_locks := locks\<rparr>, Inr ()))))"

text \<open>The loop over the releases; the first error ends the run.\<close>

fun relock_all ::
  "outside \<Rightarrow> refresh_options \<Rightarrow> bool \<Rightarrow> (string \<Rightarrow> bool) \<Rightarrow> (repodata \<Rightarrow> inputs) \<Rightarrow> string list \<Rightarrow> lock_state
   \<Rightarrow> lock_state \<times> (relock_error + unit)" where
  "relock_all net opts fetch_only is_file run_inputs [] s = (s, Inr ())"
| "relock_all net opts fetch_only is_file run_inputs (release # releases) s =
     (case relock net opts fetch_only is_file run_inputs release s of
        (s, Inl e) \<Rightarrow> (s, Inl e)
      | (s, Inr _) \<Rightarrow> relock_all net opts fetch_only is_file run_inputs releases s)"

section \<open>Reading the flags back\<close>

definition flags_argv :: "(string \<times> string option) list \<Rightarrow> string list" where
  "flags_argv fs = concat (map (\<lambda>(f, v). f # (case v of None \<Rightarrow> [] | Some x \<Rightarrow> [x])) fs)"

abbreviation values_fit :: "(string \<times> string option) list \<Rightarrow> bool" where
  "values_fit \<equiv> list_all (\<lambda>(f, v). case v of None \<Rightarrow> True | Some x \<Rightarrow> flag_value x)"

lemma flags_argv_simps [simp]:
  "flags_argv [] = []" "flags_argv ((f, Some x) # fs) = f # x # flags_argv fs" "flags_argv ((f, None) # fs) = f # flags_argv fs"
  "flags_argv (fs @ gs) = flags_argv fs @ flags_argv gs"
  by (simp_all add: flags_argv_def)

lemma parse_value:
  "set_flag f v c = Inr c' \<Longrightarrow> flag_value v \<Longrightarrow> f \<notin> {''--seed-only'', ''--strict'', ''--out''}
   \<Longrightarrow> parse_flags (f # v # rest) c out = parse_flags rest c' out"
  by simp

lemma parse_items:
  assumes "\<And>v c. set_flag f v c = Inr (upd v c)" and "f \<notin> {''--seed-only'', ''--strict'', ''--out''}"
    and "values_fit (flag_items f items)"
  shows "parse_flags (flags_argv (flag_items f items) @ rest) c out = parse_flags rest (fold upd items c) out"
  using assms(3)
proof (induction items arbitrary: c)
  case (Cons item items)
  then have "parse_flags (flags_argv (flag_items f (item # items)) @ rest) c out
      = parse_flags (flags_argv (flag_items f items) @ rest) (upd item c) out"
    using parse_value [OF assms(1) _ assms(2)] by (simp add: flag_items_def)
  then show ?case using Cons by (simp add: flag_items_def)
qed (simp add: flag_items_def)

lemma fold_flag_items:
  "fold (\<lambda>v c. c\<lparr>cmd_build := cmd_build c @ [v]\<rparr>) items c = c\<lparr>cmd_build := cmd_build c @ items\<rparr>"
  "fold (\<lambda>v c. c\<lparr>cmd_source_image := cmd_source_image c @ [v]\<rparr>) items c = c\<lparr>cmd_source_image := cmd_source_image c @ items\<rparr>"
  "fold (\<lambda>v c. c\<lparr>cmd_prebuilt_source := cmd_prebuilt_source c @ [v]\<rparr>) items c
     = c\<lparr>cmd_prebuilt_source := cmd_prebuilt_source c @ items\<rparr>"
  "fold (\<lambda>v c. c\<lparr>cmd_source_exception := cmd_source_exception c @ [v]\<rparr>) items c
     = c\<lparr>cmd_source_exception := cmd_source_exception c @ items\<rparr>"
  "fold (\<lambda>v c. c\<lparr>cmd_seed_package := cmd_seed_package c @ [v]\<rparr>) items c = c\<lparr>cmd_seed_package := cmd_seed_package c @ items\<rparr>"
  "fold (\<lambda>v c. c\<lparr>cmd_override := cmd_override c @ [v]\<rparr>) items c = c\<lparr>cmd_override := cmd_override c @ items\<rparr>"
  "fold (\<lambda>v c. c\<lparr>cmd_source_variant := cmd_source_variant c @ [v]\<rparr>) items c
     = c\<lparr>cmd_source_variant := cmd_source_variant c @ items\<rparr>"
  "fold (\<lambda>v c. c\<lparr>cmd_image := cmd_image c @ [v]\<rparr>) items c = c\<lparr>cmd_image := cmd_image c @ items\<rparr>"
  "fold (\<lambda>v c. c\<lparr>cmd_image_override := cmd_image_override c @ [v]\<rparr>) items c
     = c\<lparr>cmd_image_override := cmd_image_override c @ items\<rparr>"
  by (induction items arbitrary: c; simp)+

lemma set_flag_items:
  "set_flag ''--build'' v c = Inr (c\<lparr>cmd_build := cmd_build c @ [v]\<rparr>)"
  "set_flag ''--source-image'' v c = Inr (c\<lparr>cmd_source_image := cmd_source_image c @ [v]\<rparr>)"
  "set_flag ''--prebuilt-source'' v c = Inr (c\<lparr>cmd_prebuilt_source := cmd_prebuilt_source c @ [v]\<rparr>)"
  "set_flag ''--source-exception'' v c = Inr (c\<lparr>cmd_source_exception := cmd_source_exception c @ [v]\<rparr>)"
  "set_flag ''--seed-package'' v c = Inr (c\<lparr>cmd_seed_package := cmd_seed_package c @ [v]\<rparr>)"
  "set_flag ''--override'' v c = Inr (c\<lparr>cmd_override := cmd_override c @ [v]\<rparr>)"
  "set_flag ''--source-variant'' v c = Inr (c\<lparr>cmd_source_variant := cmd_source_variant c @ [v]\<rparr>)"
  "set_flag ''--image'' v c = Inr (c\<lparr>cmd_image := cmd_image c @ [v]\<rparr>)"
  "set_flag ''--image-override'' v c = Inr (c\<lparr>cmd_image_override := cmd_image_override c @ [v]\<rparr>)"
  by (simp_all add: set_flag_def)

lemmas parse_item_lists = set_flag_items [THEN parse_items, simplified fold_flag_items, simplified]

definition of_kind :: "string \<Rightarrow> fetched_repo list \<Rightarrow> fetched_repo list" where
  "of_kind kind repos = filter (\<lambda>r. fr_kind r = kind) repos"

definition flags_with :: "fetched_repo list \<Rightarrow> repo_flags \<Rightarrow> repo_flags" where
  "flags_with repos f =
     \<lparr>binary_primary = binary_primary f @ map fr_path (of_kind ''binary'' repos),
      binary_base = binary_base f @ map fr_base (of_kind ''binary'' repos),
      binary_repo = binary_repo f @ map fr_name (of_kind ''binary'' repos),
      buildroot_primary = buildroot_primary f @ map fr_path (of_kind ''buildroot'' repos),
      buildroot_base = buildroot_base f @ map fr_base (of_kind ''buildroot'' repos),
      buildroot_repo = buildroot_repo f @ map fr_name (of_kind ''buildroot'' repos),
      source_primary = source_primary f @ map fr_path (of_kind ''source'' repos),
      source_base = source_base f @ map fr_base (of_kind ''source'' repos),
      source_repo = source_repo f @ map fr_name (of_kind ''source'' repos)\<rparr>"

lemma parse_one_repo:
  assumes "fr_kind r \<in> {''binary'', ''source'', ''buildroot''}" and "values_fit (repo_options r)"
  shows "parse_flags (flags_argv (repo_options r) @ rest) c out = parse_flags rest (set_repos (flags_with [r]) c) out"
proof -
  obtain b1 b2 b3 r1 r2 r3 s1 s2 s3 where c: "cmd_repos c = \<lparr>binary_primary = b1, binary_base = b2, binary_repo = b3,
      buildroot_primary = r1, buildroot_base = r2, buildroot_repo = r3, source_primary = s1, source_base = s2, source_repo = s3\<rparr>"
    by (cases "cmd_repos c")
  consider "fr_kind r = ''binary''" | "fr_kind r = ''source''" | "fr_kind r = ''buildroot''" using assms(1) by auto
  then show ?thesis
    by cases (use assms(2) in \<open>simp_all add: c repo_options_def set_flag_def set_repos_def flags_with_def of_kind_def\<close>)
qed

lemma flags_with_Cons: "flags_with repos (flags_with [r] f) = flags_with (r # repos) f"
  by (simp add: flags_with_def of_kind_def)

lemma parse_repos:
  "list_all (\<lambda>r. fr_kind r \<in> {''binary'', ''source'', ''buildroot''}) repos \<Longrightarrow> values_fit (concat (map repo_options repos))
   \<Longrightarrow> parse_flags (flags_argv (concat (map repo_options repos)) @ rest) c out = parse_flags rest (set_repos (flags_with repos) c) out"
proof (induction repos arbitrary: c)
  case (Nil c)
  then show ?case by (cases c; cases "cmd_repos c") (simp add: set_repos_def flags_with_def of_kind_def)
next
  case (Cons r repos)
  then have "parse_flags (flags_argv (concat (map repo_options (r # repos))) @ rest) c out
      = parse_flags (flags_argv (concat (map repo_options repos)) @ rest) (set_repos (flags_with [r]) c) out"
    using parse_one_repo [of r "flags_argv (concat (map repo_options repos)) @ rest"] by simp
  then show ?case using Cons by (simp add: set_repos_def flags_with_Cons)
qed

lemma ascii_digit_value: "ascii_digit c \<longleftrightarrow> digit_value c \<noteq> None"
  by (simp add: ascii_digit_def digit_value_def Let_def)

lemma flag_value_int_text: "flag_value (int_text n)"
proof -
  have digits: "\<forall>c \<in> set (nat_text m). ascii_digit c" for m
    using nat_text_plain [of m] by (simp add: list_all_iff ascii_digit_value)
  have t: "takeWhile ascii_digit (nat_text m) = nat_text m" "dropWhile ascii_digit (nat_text m) = []" for m
    using digits [of m] by (simp_all add: takeWhile_eq_all_conv dropWhile_eq_Nil_conv)
  obtain d s where d: "nat_text (nat n) = d # s" using nat_text_nonempty [of "nat n"] by (cases "nat_text (nat n)") auto
  have "d \<noteq> CHR ''-''" using nat_text_plain [of "nat n"] by (simp add: d)
  then show ?thesis using digits by (simp add: flag_value_def negative_number_def int_text_def d t)
qed

section \<open>The command a lock asks for\<close>

definition replayed :: "lock \<Rightarrow> string \<Rightarrow> fetched_repo list \<Rightarrow> string option \<Rightarrow> command" where
  "replayed l release repos probe =
     \<lparr>cmd_repos = flags_with repos (cmd_repos default_command),
      cmd_build = in_explicit_build (lk_solve l), cmd_build_list = None,
      cmd_source_image = in_source_image_sets (lk_solve l), cmd_prebuilt_source = in_prebuilt_sources (lk_solve l),
      cmd_source_exception = (case in_source_exceptions (lk_solve l) of None \<Rightarrow> [] | Some es \<Rightarrow> map exception_text es),
      cmd_flavor = ''fedora'', cmd_seed_only = in_seed_only (lk_solve l),
      cmd_seed_package = in_seed_packages (lk_solve l), cmd_override = in_overrides (lk_solve l),
      cmd_source_variant = in_source_variants (lk_solve l), cmd_image = in_images (lk_solve l),
      cmd_image_override = in_image_overrides (lk_solve l), cmd_release = Some release,
      cmd_dist_tag = lk_dist_tag l, cmd_target_cpu = lk_target_cpu l, cmd_stages = in_stages (lk_solve l),
      cmd_strict = False, cmd_probe = (if truthy probe then probe else None)\<rparr>"

lemma parse_solve_argv:
  assumes "values_fit (solve_flags True l repos out probe)" and "lk_release l = Some release"
    and "list_all (\<lambda>r. fr_kind r \<in> {''binary'', ''source'', ''buildroot''}) repos"
  shows "parse_flags (solve_argv True l repos out probe) default_command None = Inr (replayed l release repos probe, out)"
proof -
  have argv: "solve_argv True l repos out probe = flags_argv (solve_flags True l repos out probe)"
    by (simp add: solve_argv_def flags_argv_def)
  have rest: "parse_flags (flags_argv fs) c o' = parse_flags (flags_argv fs @ []) c o'" for fs c o' by simp
  note fits = assms(1) [unfolded solve_flags_def Let_def if_True list_all_append assms(2) option.case]
  have start: "parse_flags (flags_argv [(''--release'', Some release), (''--dist-tag'', Some (lk_dist_tag l)),
        (''--target-cpu'', Some (lk_target_cpu l)), (''--stages'', Some (int_text (in_stages (lk_solve l)))), (''--out'', Some out)] @ rs)
        default_command None
      = parse_flags rs (default_command\<lparr>cmd_release := Some release, cmd_dist_tag := lk_dist_tag l,
          cmd_target_cpu := lk_target_cpu l, cmd_stages := in_stages (lk_solve l)\<rparr>) (Some out)" for rs
    using fits by (simp add: set_flag_def py_int_text)
  have probe: "parse_flags (flags_argv (if truthy probe then [(''--probe'', probe)] else []) @ rs) c o'
      = parse_flags rs (if truthy probe then c\<lparr>cmd_probe := probe\<rparr> else c) o'" for rs c o'
    using fits by (cases "truthy probe"; cases probe) (simp_all add: set_flag_def truthy_def)
  have seed: "parse_flags (flags_argv (if in_seed_only (lk_solve l) then [(''--seed-only'', None)] else []) @ rs) c o'
      = parse_flags rs (if in_seed_only (lk_solve l) then c\<lparr>cmd_seed_only := True\<rparr> else c) o'" for rs c o'
    by simp
  show ?thesis
    unfolding argv solve_flags_def Let_def if_True assms(2) option.case flags_argv_simps(4)
    using fits assms(3)
    by (simp only: append.assoc start probe seed parse_repos parse_item_lists rest [of "flag_items ''--prebuilt-source'' _"])
      (cases "truthy probe"; simp add: replayed_def default_command_def set_repos_def)
qed

section \<open>Addresses that were accepted once\<close>

definition accepted_base :: "string \<Rightarrow> bool" where
  "accepted_base base \<longleftrightarrow> (\<exists>flag raw. check_public_base flag raw = Inr base)"

lemma collect_kind_accepted:
  assumes "collect_kind kind primaries bases names taken = Inr rs"
  shows "\<forall>r \<in> set rs. repo_kind r = kind \<and> accepted_base (repo_base r)"
  using assms
proof (induction kind primaries bases names taken arbitrary: rs rule: collect_kind.induct)
  case (2 kind primary primaries bases names taken)
  then show ?case by (fastforce simp: attempt_Inr accepted_base_def split: if_splits)
qed simp

lemma collect_kinds_accepted:
  "collect_kinds kinds repos = Inr out \<Longrightarrow> \<forall>r \<in> set repos. accepted_base (repo_base r)
   \<Longrightarrow> \<forall>r \<in> set out. accepted_base (repo_base r)"
proof (induction kinds repos rule: collect_kinds.induct)
  case (2 kind primaries bases names kinds repos)
  obtain rs where rs: "collect_kind kind primaries bases names (map repo_name repos) = Inr rs"
    and rest: "collect_kinds kinds (repos @ rs) = Inr out"
    and lengths: "\<not> (bases \<noteq> [] \<and> length bases \<noteq> length primaries)" "\<not> (names \<noteq> [] \<and> length names \<noteq> length primaries)"
    using "2.prems"(1) by (auto simp: attempt_Inr split: if_splits)
  have "\<forall>r \<in> set (repos @ rs). accepted_base (repo_base r)" using "2.prems"(2) collect_kind_accepted [OF rs] by auto
  then show ?case by (rule "2.IH" [OF lengths rs rest])
qed simp

text \<open>Removing the slashes at the end of an address keeps what is checked of it, so it is accepted again.\<close>

lemma url_clean_append:
  "\<not> list_all (\<lambda>c. (of_char c :: nat) \<le> 32) s \<Longrightarrow> list_all (\<lambda>c. c = CHR ''/'') t \<Longrightarrow> url_clean (s @ t) = url_clean s @ t"
proof -
  assume s: "\<not> list_all (\<lambda>c. (of_char c :: nat) \<le> 32) s" and t: "list_all (\<lambda>c. c = CHR ''/'') t"
  have "filter (\<lambda>c. (of_char c :: nat) \<notin> {9, 10, 13}) t = t"
  proof (rule filter_True)
    have "(of_char CHR ''/'' :: nat) \<notin> {9, 10, 13}" by code_simp
    moreover have "c = CHR ''/''" if "c \<in> set t" for c using t that by (simp add: list_all_iff)
    ultimately show "\<forall>c \<in> set t. (of_char c :: nat) \<notin> {9, 10, 13}" by blast
  qed
  moreover obtain x where "x \<in> set s" "\<not> (of_char x :: nat) \<le> 32" using s by (auto simp: list_all_iff)
  then have "dropWhile (\<lambda>c. (of_char c :: nat) \<le> 32) (s @ t) = dropWhile (\<lambda>c. (of_char c :: nat) \<le> 32) s @ t"
    by (rule dropWhile_append1)
  ultimately show ?thesis unfolding url_clean_def by (simp only: filter_append)
qed

lemma strip_slashes_split: "\<exists>t. s = strip_slashes s @ t \<and> list_all (\<lambda>c. c = CHR ''/'') t"
  using takeWhile_rev_split [of s "\<lambda>c. c = CHR ''/''"] unfolding strip_slashes_def rdrop_while_def
  by (intro exI [of _ "rev (takeWhile (\<lambda>c. c = CHR ''/'') (rev s))"]) (auto simp: list_all_iff dest: set_takeWhileD)

lemma strip_slashes_idem: "strip_slashes (strip_slashes s) = strip_slashes s"
  using hd_dropWhile [of "\<lambda>c. c = CHR ''/''" "rev s"]
  by (cases "dropWhile (\<lambda>c. c = CHR ''/'') (rev s)") (simp_all add: strip_slashes_def rdrop_while_def)

lemma split_scheme_append:
  assumes "list_all (\<lambda>c. c = CHR ''/'') t" and "split_scheme (u @ t) = (scheme, rest)" and "scheme \<noteq> []"
  shows "\<exists>rest'. split_scheme u = (scheme, rest') \<and> rest = rest' @ t"
proof -
  have t: "CHR '':'' \<notin> set t" using assms(1) by (auto simp: list_all_iff)
  then have u: "CHR '':'' \<in> set u" using assms(2,3) by (auto simp: split_scheme_def py_partition_def split: if_splits)
  then have "takeWhile (\<lambda>d. d \<noteq> CHR '':'') (u @ t) = takeWhile (\<lambda>d. d \<noteq> CHR '':'') u"
    "dropWhile (\<lambda>d. d \<noteq> CHR '':'') (u @ t) = dropWhile (\<lambda>d. d \<noteq> CHR '':'') u @ t"
    "dropWhile (\<lambda>d. d \<noteq> CHR '':'') u \<noteq> []"
    by (auto simp: dropWhile_eq_Nil_conv)
  then show ?thesis using assms(2,3) u
    by (auto simp: split_scheme_def py_partition_def split: if_splits)
qed

lemma authority_append:
  assumes t: "list_all (\<lambda>c. c = CHR ''/'') t"
    and a: "py_startswith (rest @ t) ''//''" and ne: "takeWhile (\<lambda>c. \<not> ends_netloc c) (drop 2 (rest @ t)) \<noteq> []"
  shows "py_startswith rest ''//'' \<and> takeWhile (\<lambda>c. \<not> ends_netloc c) (drop 2 rest) = takeWhile (\<lambda>c. \<not> ends_netloc c) (drop 2 (rest @ t))"
proof -
  have stop: "takeWhile (\<lambda>c. \<not> ends_netloc c) (drop k t) = []" for k
    using t set_drop_subset [of k t] by (cases "drop k t") (auto simp: list_all_iff ends_netloc_def)
  have long: "2 < length rest"
  proof (rule ccontr)
    assume "\<not> 2 < length rest"
    then show False using ne stop by simp
  qed
  then have "py_startswith rest ''//''" using a by (simp add: py_startswith_def)
  moreover have "takeWhile (\<lambda>c. \<not> ends_netloc c) (xs @ t) = takeWhile (\<lambda>c. \<not> ends_netloc c) xs" for xs
    using stop [of 0] by (induction xs) simp_all
  ultimately show ?thesis using long by simp
qed

lemma accepted_again:
  assumes "accepted_base base"
  shows "check_public_base flag base = Inr base"
proof -
  obtain f raw where c: "check_public_base f raw = Inr base" using assms by (auto simp: accepted_base_def)
  show ?thesis
  proof (cases "raw = []")
    case True
    then show ?thesis using c by (simp add: check_public_base_def)
  next
    case False
    have base: "base = strip_slashes raw" using checked_base_is_public_lemma [OF c False] by blast
    obtain t where t: "raw = base @ t" "list_all (\<lambda>c. c = CHR ''/'') t" using strip_slashes_split [of raw] base by auto
    have net: "url_scheme (urlsplit raw) \<noteq> []" "url_netloc (urlsplit raw) \<noteq> []"
      using c False by (auto simp: check_public_base_def Let_def split: if_splits)
    have same: "url_scheme (urlsplit base) = url_scheme (urlsplit raw)" "url_netloc (urlsplit base) = url_netloc (urlsplit raw)"
    proof -
      obtain scheme rest where ss: "split_scheme (url_clean raw) = (scheme, rest)" by fastforce
      have "scheme \<noteq> []" using net(1) by (simp add: urlsplit_def ss Let_def)
      have "\<not> list_all (\<lambda>c. (of_char c :: nat) \<le> 32) base"
      proof
        assume "list_all (\<lambda>c. (of_char c :: nat) \<le> 32) base"
        then have "url_clean raw = filter (\<lambda>c. (of_char c :: nat) \<notin> {9, 10, 13}) (dropWhile (\<lambda>c. (of_char c :: nat) \<le> 32) t)"
          by (simp add: t(1) url_clean_def list_all_iff dropWhile_append2)
        then have "CHR '':'' \<notin> set (url_clean raw)" using t(2) by (auto simp: list_all_iff dest: set_dropWhileD)
        then show False using ss \<open>scheme \<noteq> []\<close> by (auto simp: split_scheme_def py_partition_def)
      qed
      then have "url_clean raw = url_clean base @ t" using url_clean_append t by simp
      then obtain rest' where r: "split_scheme (url_clean base) = (scheme, rest')" "rest = rest' @ t"
        using split_scheme_append [OF t(2)] ss \<open>scheme \<noteq> []\<close> by metis
      show "url_scheme (urlsplit base) = url_scheme (urlsplit raw)" by (simp add: urlsplit_def ss r Let_def)
      show "url_netloc (urlsplit base) = url_netloc (urlsplit raw)"
        using net(2) authority_append [OF t(2), of rest'] by (simp add: urlsplit_def ss r(1) Let_def r(2) split: if_splits)
    qed
    have "base \<noteq> []" using net same by (auto simp: urlsplit_def url_clean_def split_scheme_def py_partition_def)
    moreover have "url_port (urlsplit base) = url_port (urlsplit raw)" "url_hostname (urlsplit base) = url_hostname (urlsplit raw)"
      by (simp_all add: url_port_def url_hostname_def same)
    moreover have "strip_slashes base = base" by (simp add: base strip_slashes_idem)
    ultimately show ?thesis using c False
      by (auto simp: check_public_base_def Let_def same split: if_splits sum.splits option.splits)
  qed
qed

section \<open>A command line for the same question\<close>

text \<open>What \<open>parse_command\<close> asks of a command, and what it makes of one it accepts.\<close>

definition sensible :: "inputs \<Rightarrow> command \<Rightarrow> jobj list \<Rightarrow> bool" where
  "sensible w c exceptions \<longleftrightarrow>
     (build_list w c \<noteq> [] \<or> cmd_source_image c \<noteq> [] \<or> cmd_seed_only c \<or> cmd_seed_package c \<noteq> [])
     \<and> (build_list w c = [] \<and> cmd_source_image c = [] \<or> source_primary (cmd_repos c) \<noteq> [])
     \<and> set (cmd_prebuilt_source c) \<inter> set (build_list w c) = {}
     \<and> (exceptions = [] \<or> cmd_source_image c \<noteq> [])"

definition accepted ::
  "inputs \<Rightarrow> command \<Rightarrow> jobj list \<Rightarrow> repo list \<Rightarrow> override_map \<Rightarrow> (string, variant) dict \<Rightarrow> (string, string list) dict
   \<Rightarrow> (string, override_map) dict \<Rightarrow> parsed" where
  "accepted w c exceptions repos overrides variants images image_overrides =
     \<lparr>pr_args =
        \<lparr>arg_flavor = cmd_flavor c, arg_release = cmd_release c, arg_dist_tag = cmd_dist_tag c,
         arg_target_cpu = cmd_target_cpu c, arg_repos = repos,
         arg_explicit_build = sorted_set (build_list w c), arg_source_image = cmd_source_image c,
         arg_prebuilt_source = cmd_prebuilt_source c, arg_override = cmd_override c,
         arg_implicit_group = dget_or IMPLICIT_GROUPS (cmd_flavor c) [], arg_seed_only = cmd_seed_only c,
         arg_seed_package = cmd_seed_package c, arg_source_variant = variants,
         arg_stages = cmd_stages c, arg_image = cmd_image c,
         arg_image_override = cmd_image_override c, arg_probe = cmd_probe c,
         arg_source_exception = exceptions\<rparr>,
      pr_build = remdups (build_list w c), pr_overrides = overrides, pr_images = images,
      pr_image_overrides = image_overrides\<rparr>"

lemma overlap_empty:
  "sorted_set (filter (\<lambda>s. s \<in> set prebuilt) build) = [] \<longleftrightarrow> set prebuilt \<inter> set build = {}"
  by (auto simp: filter_empty_conv)

lemma parse_command_Inr:
  "parse_command w c = Inr p \<longleftrightarrow> dget IMPLICIT_GROUPS (cmd_flavor c) \<noteq> None
     \<and> (\<exists>exceptions repos overrides variants images image_overrides.
        parse_exceptions w (cmd_source_exception c) = Inr exceptions
        \<and> collect_repos (cmd_repos c) = Inr repos
        \<and> sensible w c exceptions
        \<and> parse_overrides (cmd_override c) [] = Inr overrides
        \<and> parse_source_variants (cmd_source_variant c) = Inr variants
        \<and> parse_images (cmd_image c) [] = Inr images
        \<and> parse_image_overrides images (cmd_image_override c) [] = Inr image_overrides
        \<and> p = accepted w c exceptions repos overrides variants images image_overrides)"
proof (cases "dget IMPLICIT_GROUPS (cmd_flavor c)")
  case None
  then show ?thesis by (simp add: parse_command_def)
next
  case (Some implicit)
  have a: "attempt r f = Inr p \<longleftrightarrow> (\<exists>x. r = Inr x \<and> f x = Inr p)" for r :: "'e + 'a" and f by (rule attempt_Inr)
  have nested: "(if a then Inl e1 else if b then Inl e2 else if d then Inl e3 else if e then Inl e4 else x) = Inr p
      \<longleftrightarrow> (\<not> a \<and> \<not> b \<and> \<not> d \<and> \<not> e) \<and> x = Inr p" for a b d e e1 e2 e3 e4 and x :: "main_error + parsed"
    by simp
  have sensible: "(\<not> (build_list w c = [] \<and> cmd_source_image c = [] \<and> \<not> cmd_seed_only c \<and> cmd_seed_package c = [])
      \<and> \<not> ((build_list w c \<noteq> [] \<or> cmd_source_image c \<noteq> []) \<and> source_primary (cmd_repos c) = [])
      \<and> \<not> sorted_set (filter (\<lambda>s. s \<in> set (cmd_prebuilt_source c)) (build_list w c)) \<noteq> []
      \<and> \<not> (exceptions \<noteq> [] \<and> cmd_source_image c = [])) = sensible w c exceptions" for exceptions
    unfolding sensible_def not_not overlap_empty by blast
  show ?thesis
    unfolding parse_command_def Let_def Some option.case attempt_Inr nested sensible map_error_Inr accepted_def dget_or_def
    by (simp add: eq_commute [of p])
qed

section \<open>The replay is accepted\<close>

lemma parse_exceptions_texts:
  "list_all (\<lambda>e. json_loads w (exception_text e) = Some (JObj (exception_json e))) es
   \<Longrightarrow> parse_exceptions w (map exception_text es) = Inr (map exception_json es)"
  by (induction es) (simp_all add: parse_source_exception_def)

lemma parse_overrides_accepts:
  "(\<exists>d'. parse_overrides items d = Inr d') \<longleftrightarrow> (\<forall>item \<in> set items. \<exists>x. parse_override item ''--override'' = Inr x)"
proof (induction items arbitrary: d)
  case (Cons item items)
  then show ?case by (cases "parse_override item ''--override''") (auto simp: case_prod_beta)
qed simp

definition image_override_fits :: "(string, string list) dict \<Rightarrow> string \<Rightarrow> bool" where
  "image_override_fits roots item =
     (case py_partition CHR '':'' item of (name, found, rest) \<Rightarrow>
        found \<and> (\<exists>x. parse_override rest ''--image-override'' = Inr x) \<and> dget roots (py_strip name) \<noteq> None)"

lemma parse_image_overrides_accepts:
  "(\<exists>d'. parse_image_overrides roots items d = Inr d') \<longleftrightarrow> (\<forall>item \<in> set items. image_override_fits roots item)"
proof (induction items arbitrary: d)
  case (Cons item items)
  obtain name found rest where p: "py_partition CHR '':'' item = (name, found, rest)" by (metis prod_cases3)
  show ?case
    using Cons by (cases "parse_override rest ''--image-override''")
      (auto simp: p image_override_fits_def case_prod_beta Let_def)
qed simp

lemma parse_images_keys:
  "parse_images items roots = Inr roots' \<Longrightarrow> dget roots' n \<noteq> None \<longleftrightarrow> dget roots n \<noteq> None \<or> asked_for items n \<noteq> {}"
proof (induction items arbitrary: roots)
  case (Cons item items)
  then obtain k ms where i: "image_item item = Some (k, ms)"
    "parse_images items (dset k (dget_or roots k [] @ ms) roots) = Inr roots'"
    unfolding parse_images_step by blast
  have "ms \<noteq> []" using i(1) by (auto simp: image_item_def split: prod.splits if_splits)
  then have "asked_for (item # items) n \<noteq> {} \<longleftrightarrow> k = n \<or> asked_for items n \<noteq> {}"
    using i(1) by (auto simp: asked_for_def neq_Nil_conv)
  then show ?case using Cons.IH [OF i(2)] by auto
qed (simp add: asked_for_def)

definition placed_repo :: "string \<Rightarrow> fetched_repo \<Rightarrow> repo" where
  "placed_repo kind r = \<lparr>repo_name = fr_name r, repo_kind = kind, repo_base = fr_base r,
     repo_primary = basename (fr_path r), repo_path = fr_path r\<rparr>"

lemma collect_kind_given:
  "list_all (\<lambda>r. accepted_base (fr_base r)) rs \<Longrightarrow> distinct (map fr_name rs) \<Longrightarrow> set (map fr_name rs) \<inter> set taken = {}
   \<Longrightarrow> collect_kind kind (map fr_path rs) (map fr_base rs) (map fr_name rs) taken = Inr (map (placed_repo kind) rs)"
  by (induction rs arbitrary: taken) (auto simp: accepted_again placed_repo_def)

lemma collect_kinds_given:
  "collect_kinds ((kind, map fr_path rs, map fr_base rs, map fr_name rs) # kinds) repos =
     attempt (collect_kind kind (map fr_path rs) (map fr_base rs) (map fr_name rs) (map repo_name repos)) (\<lambda>rs.
       collect_kinds kinds (repos @ rs))"
  by simp

lemma placed_name [simp]: "map repo_name (map (placed_repo kind) rs) = map fr_name rs"
  by (simp add: placed_repo_def)

lemma collect_given:
  assumes "list_all (\<lambda>r. accepted_base (fr_base r)) repos" and "distinct (map fr_name repos)"
  shows "collect_repos (flags_with repos (cmd_repos default_command)) =
    Inr (map (placed_repo ''binary'') (of_kind ''binary'' repos) @ map (placed_repo ''buildroot'') (of_kind ''buildroot'' repos)
      @ map (placed_repo ''source'') (of_kind ''source'' repos))"
proof -
  have d: "distinct (map fr_name (of_kind k repos))" "list_all (\<lambda>r. accepted_base (fr_base r)) (of_kind k repos)" for k
    using assms by (auto simp: of_kind_def distinct_map_filter list_all_iff)
  have apart: "set (map fr_name (of_kind k repos)) \<inter> set (map fr_name (of_kind k' repos)) = {}" if "k \<noteq> k'" for k k'
    using assms(2) that by (auto simp: of_kind_def distinct_map inj_on_def)
  note one = collect_kind_given [OF d(2,1)]
  show ?thesis
    unfolding collect_repos_def flags_with_def default_command_def
    using apart [of "''buildroot''" "''binary''"] apart [of "''source''" "''binary''"] apart [of "''source''" "''buildroot''"]
    by (simp add: collect_kinds_given one Int_Un_distrib placed_repo_def comp_def del: collect_kinds.simps(2))
qed

lemma upstream_accepted:
  assumes "x \<noteq> []" and "last x \<noteq> CHR ''/''"
  shows "accepted_base (UPSTREAM @ CHR ''/'' # x)"
proof -
  let ?base = "UPSTREAM @ CHR ''/'' # x"
  have clean: "url_clean ?base = UPSTREAM @ CHR ''/'' # filter (\<lambda>c. (of_char c :: nat) \<notin> {9, 10, 13}) x"
    by (simp add: url_clean_def UPSTREAM_def)
  have "list_all scheme_char ''https''" "ascii_alpha CHR ''h''" by code_simp+
  then have scheme: "split_scheme (url_clean ?base) = (''https'', ''//dl.fedoraproject.org/pub/fedora/linux/''
      @ filter (\<lambda>c. (of_char c :: nat) \<notin> {9, 10, 13}) x)"
    unfolding clean by (simp add: split_scheme_def py_partition_def UPSTREAM_def py_lower_def py_lower_char_def)
  have ends: "list_all (\<lambda>c. \<not> ends_netloc c) ''dl.fedoraproject.org''" "ends_netloc CHR ''/''" by code_simp+
  have parts: "url_scheme (urlsplit ?base) = ''https''" "url_netloc (urlsplit ?base) = ''dl.fedoraproject.org''"
    using ends by (simp_all add: urlsplit_def scheme py_startswith_def Let_def)
  have "url_port (urlsplit ?base) = Inr None" "url_hostname (urlsplit ?base) = Some ''dl.fedoraproject.org''"
    by (simp_all add: url_port_def url_hostname_def parts host_info_def py_partition_def py_lower_def py_lower_char_def)
  moreover have "strip_slashes ?base = ?base"
  proof -
    obtain y c where "x = y @ [c]" "c \<noteq> CHR ''/''" using assms by (cases x rule: rev_cases) auto
    then show ?thesis by (simp add: strip_slashes_def rdrop_while_def)
  qed
  ultimately have "check_public_base [] ?base = Inr ?base"
    by (simp add: check_public_base_def Let_def parts PUBLIC_BASE_HOSTS_def)
  then show ?thesis by (auto simp: accepted_base_def)
qed

lemma compose_facts:
  assumes "ro_arch opts \<in> {''x86_64'', ''aarch64''}"
  shows "\<forall>(name, kind, base, fetch_base) \<in> set (compose_specs release opts). kind \<in> {''binary'', ''source''} \<and> accepted_base base"
    and "\<exists>base fetch_base. (''source-releases'', ''source'', base, fetch_base) \<in> set (compose_specs release opts)"
  using assms upstream_accepted
  by (auto simp: compose_specs_def FEDORA_REPOS_def FEDORA_BRANCHED_REPOS_def Let_def)

text \<open>What a lock says of the command it was written for.\<close>

lemma main_lock_question:
  assumes "main w c = Inr l"
  obtains p build where "parse_command w c = Inr p"
    and "lk_solve l = (solve_inputs_of (pr_args p) build)\<lparr>in_source_exceptions := map_option pol_exceptions (lk_source_policy l)\<rparr>"
    and "arg_source_image (pr_args p) = [] \<longleftrightarrow> lk_source_policy l = None"
    and "\<forall>pol. lk_source_policy l = Some pol \<longrightarrow>
      (\<exists>es. map entry_of (arg_source_exception (pr_args p)) = map Some es \<and> pol_exceptions pol = sort_key exc_package es)"
    and "lk_flavor l = arg_flavor (pr_args p)" "lk_release l = arg_release (pr_args p)"
      "lk_dist_tag l = arg_dist_tag (pr_args p)" "lk_target_cpu l = arg_target_cpu (pr_args p)"
    and "lk_repos l = map public_repo (arg_repos (pr_args p))"
proof -
  obtain p us where p: "parse_command w c = Inr p" "run w p (cmd_strict c) us = Inr l"
    using assms by (auto simp: main_def attempt_Inr)
  show ?thesis
    using p(2)
  proof (rule run_Inr)
    fix sets ips build probe sol base plan seeds sps
    let ?d = "with_counts (draft_lock (vs_universe (variants_of p us build)) (un_compose us) (vs_build_set (variants_of p us build))
       (sol\<lparr>sol_problems := sol_problems sol @ vs_problems (variants_of p us build) @ ips @ sps\<rparr>)
       (variants_of p us build) (un_superseded us) plan
       (bootstrap_depth (sol_deps sol) (u_source_of (vs_universe (variants_of p us build)))
          (vs_build_set (variants_of p us build)) (vs_routes (variants_of p us build)))
       sets seeds (un_replacements us) base (pr_args p))"
    assume "emit_lockfile (vs_universe (variants_of p us build)) (un_compose us) (vs_build_set (variants_of p us build))
       (sol\<lparr>sol_problems := sol_problems sol @ vs_problems (variants_of p us build) @ ips @ sps\<rparr>)
       (variants_of p us build) (un_superseded us) plan
       (bootstrap_depth (sol_deps sol) (u_source_of (vs_universe (variants_of p us build)))
          (vs_build_set (variants_of p us build)) (vs_routes (variants_of p us build)))
       sets seeds (un_replacements us) base (pr_args p) = Inr l"
    then show thesis
    proof (rule emit_lockfile_cases)
      assume "arg_source_image (pr_args p) = []" "l = ?d"
      then show thesis
        by (intro that [OF p(1), of "vs_build_set (variants_of p us build)"])
          (simp_all add: with_counts_def draft_lock_def solve_inputs_of_def)
    next
      fix pol
      assume s: "arg_source_image (pr_args p) \<noteq> []" "l = with_policy pol ?d"
        and "build_source_policy (fst (rpm_source_policy_inputs ?d)) (snd (rpm_source_policy_inputs ?d))
          (arg_source_exception (pr_args p)) (arg_source_image (pr_args p)) = Inr pol"
      then obtain es where "map entry_of (arg_source_exception (pr_args p)) = map Some es" "pol_exceptions pol = sort_key exc_package es"
        by (auto elim!: build_sound simp: policy_for_def)
      then show thesis using s
        by (intro that [OF p(1), of "vs_build_set (variants_of p us build)"])
          (auto simp: with_counts_def with_policy_def draft_lock_def)
    qed
  qed
qed

text \<open>
  What a lock must allow: the library reads its exceptions back, each of its variants names a
  consumer, and its probe file has a name.
\<close>

definition replayable :: "inputs \<Rightarrow> lock \<Rightarrow> bool" where
  "replayable w l \<longleftrightarrow>
     list_all (\<lambda>e. json_loads w (exception_text e) = Some (JObj (exception_json e)))
       (case in_source_exceptions (lk_solve l) of None \<Rightarrow> [] | Some es \<Rightarrow> es)
     \<and> list_all (\<lambda>v. \<not> py_endswith v '':'') (in_source_variants (lk_solve l))
     \<and> in_probe (lk_solve l) \<noteq> Some []"

lemma sort_set_sorted [simp]: "sorted_set (sorted_set xs) = sorted_set xs"
  by (rule sorted_set_cong) simp

lemma variants_replay:
  assumes "parse_source_variants specs = Inr variants"
    and "list_all (\<lambda>v. \<not> py_endswith v '':'') (map variant_text (sorted_items variants))"
  shows "parse_source_variants (map variant_text (sorted_items variants)) = Inr (sorted_items variants)"
proof (rule variants_round_trip [OF assms(1)], clarify)
  fix name v assume v: "(name, v) \<in> set variants" "var_consumers v = []"
  then have "py_endswith (variant_text (name, v)) '':''"
    using endswith_append [of "name @ ''='' @ var_source v @ ''@'' @ var_evr v" "'':''"] by (simp add: variant_text_def)
  moreover have "(name, v) \<in> set (sorted_items variants)" using v(1) by (simp add: sorted_items_facts(1))
  ultimately show False using assms(2) by (force simp: list_all_iff)
qed

lemma images_replay:
  assumes "parse_images items [] = Inr roots" and "parse_image_overrides roots overrides [] = Inr d"
    and "set items' = set items" and "set overrides' = set overrides"
  shows "\<exists>roots' d'. parse_images items' [] = Inr roots' \<and> parse_image_overrides roots' overrides' [] = Inr d'"
proof -
  obtain roots' where r: "parse_images items' [] = Inr roots'"
    using assms(1,3) parse_images_accepts [of items' "[]"] parse_images_accepts [of items "[]"] by auto
  have "asked_for items' = asked_for items" by (simp add: asked_for_def assms(3) fun_eq_iff)
  then have "dget roots' n \<noteq> None \<longleftrightarrow> dget roots n \<noteq> None" for n
    using parse_images_keys [OF r] parse_images_keys [OF assms(1)] by simp
  then have "image_override_fits roots' = image_override_fits roots"
    by (intro ext) (simp add: image_override_fits_def split: prod.split)
  then show ?thesis
    using r assms(2,4) parse_image_overrides_accepts [of roots' overrides' "[]"] parse_image_overrides_accepts [of roots overrides "[]"]
    by auto
qed

lemma replay_accepted:
  assumes p: "parse_command w0 c0 = Inr p"
    and inputs: "lk_solve l = (solve_inputs_of (pr_args p) build)\<lparr>in_source_exceptions := map_option pol_exceptions (lk_source_policy l)\<rparr>"
    and policy: "arg_source_image (pr_args p) = [] \<longleftrightarrow> lk_source_policy l = None"
    and fields: "arg_flavor (pr_args p) = ''fedora''" "lk_dist_tag l = arg_dist_tag (pr_args p)"
      "lk_target_cpu l = arg_target_cpu (pr_args p)"
    and repos: "list_all (\<lambda>r. accepted_base (fr_base r)) repos" "distinct (map fr_name repos)" "of_kind ''source'' repos \<noteq> []"
    and probe: "(if truthy probe then map_option basename probe else None) = in_probe (lk_solve l)"
    and ok: "replayable w l"
  shows "\<exists>p'. parse_command w (replayed l release repos probe) = Inr p'
    \<and> arg_flavor (pr_args p') = arg_flavor (pr_args p) \<and> arg_release (pr_args p') = Some release
    \<and> arg_dist_tag (pr_args p') = arg_dist_tag (pr_args p) \<and> arg_target_cpu (pr_args p') = arg_target_cpu (pr_args p)
    \<and> arg_source_exception (pr_args p')
        = (case lk_source_policy l of None \<Rightarrow> [] | Some pol \<Rightarrow> map exception_json (pol_exceptions pol))
    \<and> (\<forall>build'. solve_inputs_of (pr_args p') build' = (solve_inputs_of (pr_args p) build)\<lparr>in_build := sorted_set build'\<rparr>)"
proof -
  let ?c = "replayed l release repos probe"
  obtain exceptions repos0 overrides variants images image_overrides where
    c0: "sensible w0 c0 exceptions" "parse_overrides (cmd_override c0) [] = Inr overrides"
      "parse_source_variants (cmd_source_variant c0) = Inr variants"
      "parse_images (cmd_image c0) [] = Inr images" "parse_image_overrides images (cmd_image_override c0) [] = Inr image_overrides"
    and pr: "p = accepted w0 c0 exceptions repos0 overrides variants images image_overrides"
    using p unfolding parse_command_Inr by blast
  let ?es = "case lk_source_policy l of None \<Rightarrow> [] | Some pol \<Rightarrow> pol_exceptions pol"
  have es: "parse_exceptions w (cmd_source_exception ?c) = Inr (map exception_json ?es)"
    using ok parse_exceptions_texts [of w ?es]
    by (cases "lk_source_policy l") (simp_all add: replayable_def inputs replayed_def)
  have build: "build_list w ?c = sorted_set (build_list w0 c0)" "set (build_list w ?c) = set (build_list w0 c0)"
    by (simp_all add: build_list_def replayed_def inputs solve_inputs_of_def pr accepted_def truthy_def)
  have fields_c: "cmd_source_image ?c = sorted_set (cmd_source_image c0)" "cmd_prebuilt_source ?c = sorted_set (cmd_prebuilt_source c0)"
    "cmd_seed_only ?c = cmd_seed_only c0" "cmd_seed_package ?c = sort (cmd_seed_package c0)" "cmd_override ?c = sort (cmd_override c0)"
    "cmd_image ?c = sort (cmd_image c0)" "cmd_image_override ?c = sort (cmd_image_override c0)"
    "cmd_source_variant ?c = map variant_text (sorted_items variants)" "cmd_stages ?c = cmd_stages c0"
    "cmd_flavor ?c = cmd_flavor c0" "cmd_dist_tag ?c = cmd_dist_tag c0" "cmd_target_cpu ?c = cmd_target_cpu c0"
    using fields by (simp_all add: replayed_def inputs solve_inputs_of_def pr accepted_def)
  have sources: "cmd_source_image c0 = [] \<longleftrightarrow> lk_source_policy l = None" using policy by (simp add: pr accepted_def)
  have collected: "\<exists>rs. collect_repos (cmd_repos ?c) = Inr rs" using collect_given [OF repos(1,2)] by (simp add: replayed_def)
  have "source_primary (cmd_repos ?c) \<noteq> []" using repos(3) by (simp add: replayed_def flags_with_def default_command_def)
  then have sens: "sensible w ?c (map exception_json ?es)"
    using c0(1) sources unfolding sensible_def build fields_c by auto
  obtain overrides' where o': "parse_overrides (cmd_override ?c) [] = Inr overrides'"
    using c0(2) parse_overrides_accepts [of "cmd_override c0" "[]"] parse_overrides_accepts [of "cmd_override ?c" "[]"]
    by (auto simp: fields_c)
  have v: "parse_source_variants (cmd_source_variant ?c) = Inr (sorted_items variants)"
    unfolding fields_c by (rule variants_replay [OF c0(3)])
      (use ok in \<open>simp add: replayable_def inputs solve_inputs_of_def pr accepted_def\<close>)
  obtain roots' io' where i: "parse_images (cmd_image ?c) [] = Inr roots'"
    "parse_image_overrides roots' (cmd_image_override ?c) [] = Inr io'"
    using images_replay [OF c0(4,5), of "cmd_image ?c" "cmd_image_override ?c"] by (auto simp: fields_c)
  obtain rs where rs: "collect_repos (cmd_repos ?c) = Inr rs" using collected by blast
  have group: "dget IMPLICIT_GROUPS (cmd_flavor ?c) \<noteq> None" using p unfolding parse_command_Inr fields_c by blast
  let ?p = "accepted w ?c (map exception_json ?es) rs overrides' (sorted_items variants) roots' io'"
  have "parse_command w ?c = Inr ?p"
    unfolding parse_command_Inr using group es rs sens o' v i by blast
  moreover have "sorted_items (sorted_items variants) = sorted_items variants"
    by (rule sorted_items_id) (simp add: sorted_items_facts)
  moreover have "(if truthy (cmd_probe ?c) then map_option basename (cmd_probe ?c) else None)
      = (if truthy (cmd_probe c0) then map_option basename (cmd_probe c0) else None)"
  proof -
    have "(if truthy (cmd_probe ?c) then map_option basename (cmd_probe ?c) else None) = in_probe (lk_solve l)"
      using probe by (cases "truthy probe") (simp_all add: replayed_def truthy_def [of None])
    then show ?thesis by (simp add: inputs solve_inputs_of_def pr accepted_def)
  qed
  moreover have "cmd_release ?c = Some release" by (simp add: replayed_def)
  moreover have "map exception_json ?es = (case lk_source_policy l of None \<Rightarrow> [] | Some pol \<Rightarrow> map exception_json (pol_exceptions pol))"
    by (simp split: option.split)
  ultimately show ?thesis
    by (intro exI [of _ ?p]) (simp add: accepted_def pr fields_c build(1) solve_inputs_of_def sorted_sort_id split: if_splits)
qed

lemma basename_self: "CHR ''/'' \<notin> set b \<Longrightarrow> basename b = b"
proof -
  assume "CHR ''/'' \<notin> set b"
  then have "takeWhile (\<lambda>c. c \<noteq> CHR ''/'') (rev b) = rev b" by (auto simp: takeWhile_eq_all_conv)
  then show "basename b = b" by (simp only: basename_def rev_rev_ident)
qed

lemma basename_join: "CHR ''/'' \<notin> set b \<Longrightarrow> b \<noteq> [] \<Longrightarrow> basename (path_join d b) = b"
proof -
  assume b: "CHR ''/'' \<notin> set b" "b \<noteq> []"
  have keep: "takeWhile (\<lambda>c. c \<noteq> CHR ''/'') (rev b @ xs) = rev b @ takeWhile (\<lambda>c. c \<noteq> CHR ''/'') xs" for xs
    by (rule takeWhile_append2) (use b(1) in auto)
  have stop: "basename (x @ CHR ''/'' # b) = b" for x using keep [of "CHR ''/'' # rev x"] by (simp add: basename_def)
  have alone: "basename b = b" by (rule basename_self [OF b(1)])
  have "\<not> py_startswith b ''/''" using b by (cases b) (auto simp: py_startswith_def)
  moreover have "\<exists>x. d = x @ ''/''" if "py_endswith d ''/''" using endswith_split [OF that] by blast
  ultimately show ?thesis using stop alone by (auto simp: path_join_def)
qed

lemma basename_plain: "CHR ''/'' \<notin> set (basename s)"
  unfolding basename_def by (auto dest: set_takeWhileD)

lemma recorded_probe_kept:
  assumes "recorded_probe is_file d l = Inr probe" and "in_probe (lk_solve l) = (if truthy x then map_option basename x else None)"
    and "in_probe (lk_solve l) \<noteq> Some []"
  shows "(if truthy probe then map_option basename probe else None) = in_probe (lk_solve l)"
proof (cases "in_probe (lk_solve l)")
  case None
  then show ?thesis using assms(1) by (simp add: recorded_probe_def truthy_def)
next
  case (Some b)
  then have b: "CHR ''/'' \<notin> set b" "b \<noteq> []" using assms(2,3) basename_plain by (auto split: if_splits)
  then have "probe = Some (path_join d b)" using assms(1) Some basename_self [OF b(1)]
    by (simp add: recorded_probe_def truthy_def Let_def split: if_splits)
  then show ?thesis using Some basename_join [OF b] path_join_Nil [OF b(2)] by (simp add: truthy_def)
qed

lemma listed_repos:
  assumes "repo_list net opts offline release (lk_repos l) t = (t', Inr repos)" and "\<not> ro_dry_run opts"
    and "ro_arch opts \<in> {''x86_64'', ''aarch64''}" and "list_all (\<lambda>(name, kind, base, primary). accepted_base base) (lk_repos l)"
  shows "list_all (\<lambda>r. accepted_base (fr_base r)) repos" "distinct (map fr_name repos)" "of_kind ''source'' repos \<noteq> []"
    "list_all (\<lambda>r. fr_kind r \<in> {''binary'', ''source'', ''buildroot''}) repos"
proof -
  obtain specs where specs: "add_recorded (lk_repos l) (compose_specs release opts) = Inr specs"
    and run: "place_all net opts offline release specs t = (t', Inr repos)"
    using assms(1) by (auto simp: repo_list_def split: sum.splits)
  have names: "distinct (map fst specs)" using add_recorded_names [OF specs compose_names(1)] by (rule conjunct1)
  have given: "set (compose_specs release opts) \<subseteq> set specs" using add_recorded_keeps [OF specs] by (rule conjunct1)
  have origin: "\<forall>spec \<in> set specs. spec \<in> set (compose_specs release opts)
      \<or> (\<exists>name base primary. spec = (name, ''buildroot'', base, base) \<and> (name, ''buildroot'', base, primary) \<in> set (lk_repos l))"
    using add_recorded_keeps [OF specs] by (rule conjunct2)
  note facts = place_all_facts [OF run assms(2) names] and compose = compose_facts [OF assms(3), of release]
  show "distinct (map fr_name repos)" using facts by (rule conjunct1)
  have each: "fr_kind r \<in> {''binary'', ''source'', ''buildroot''} \<and> accepted_base (fr_base r)" if r: "r \<in> set repos" for r
  proof -
    have "\<forall>r \<in> set repos. \<exists>fetch_base. (fr_name r, fr_kind r, fr_base r, fetch_base) \<in> set specs"
      using facts by (rule conjunct1 [OF conjunct2])
    then obtain fetch_base where spec: "(fr_name r, fr_kind r, fr_base r, fetch_base) \<in> set specs" using r by blast
    show ?thesis
      using origin [rule_format, OF spec]
    proof
      assume "(fr_name r, fr_kind r, fr_base r, fetch_base) \<in> set (compose_specs release opts)"
      then show ?thesis using compose(1) by auto
    next
      assume "\<exists>name base primary. (fr_name r, fr_kind r, fr_base r, fetch_base) = (name, ''buildroot'', base, base)
        \<and> (name, ''buildroot'', base, primary) \<in> set (lk_repos l)"
      then show ?thesis using assms(4) by (auto simp: list_all_iff)
    qed
  qed
  then show "list_all (\<lambda>r. accepted_base (fr_base r)) repos" "list_all (\<lambda>r. fr_kind r \<in> {''binary'', ''source'', ''buildroot''}) repos"
    by (simp_all add: list_all_iff)
  obtain base fetch_base where "(''source-releases'', ''source'', base, fetch_base) \<in> set specs" using compose(2) given by blast
  moreover have "''source-releases'' \<notin> set OPTIONAL" by (simp add: OPTIONAL_def)
  moreover have "\<forall>spec \<in> set specs. fst spec \<in> set OPTIONAL \<or> (\<exists>r \<in> set repos. fr_name r = fst spec \<and> fr_kind r = fst (snd spec))"
    using facts by (rule conjunct2 [OF conjunct2])
  ultimately have "\<exists>r \<in> set repos. fr_kind r = ''source''" by force
  then show "of_kind ''source'' repos \<noteq> []" by (auto simp: of_kind_def filter_empty_conv)
qed

lemma sort_key_idem: "sort_key f (sort_key f xs) = sort_key f xs"
  by (rule sort_key_id_if_sorted) simp

definition same_question :: "lock \<Rightarrow> lock \<Rightarrow> bool" where
  "same_question l l' \<longleftrightarrow>
     lk_flavor l' = lk_flavor l \<and> lk_release l' = lk_release l \<and> lk_dist_tag l' = lk_dist_tag l
     \<and> lk_target_cpu l' = lk_target_cpu l \<and> lk_solve l' = (lk_solve l)\<lparr>in_build := in_build (lk_solve l')\<rparr>"

lemma refresh_keeps_inputs:
  assumes "main w0 c0 = Inr l" and "lk_flavor l = ''fedora''" and "lk_release l = Some release"
    and "repo_list net opts offline release (lk_repos l) t = (t', Inr repos)" and "\<not> ro_dry_run opts"
    and "ro_arch opts \<in> {''x86_64'', ''aarch64''}"
    and "recorded_probe is_file lock_dir l = Inr probe" and "values_fit (solve_flags True l repos out probe)"
    and "replayable w l"
  shows "\<exists>c p. parse_flags (solve_argv True l repos out probe) default_command None = Inr (c, out)
    \<and> parse_command w c = Inr p \<and> (\<forall>l'. main w c = Inr l' \<longrightarrow> same_question l l')"
proof -
  obtain p build where p: "parse_command w0 c0 = Inr p"
    and inputs: "lk_solve l = (solve_inputs_of (pr_args p) build)\<lparr>in_source_exceptions := map_option pol_exceptions (lk_source_policy l)\<rparr>"
    and policy: "arg_source_image (pr_args p) = [] \<longleftrightarrow> lk_source_policy l = None"
    and es: "\<forall>pol. lk_source_policy l = Some pol \<longrightarrow>
      (\<exists>es. map entry_of (arg_source_exception (pr_args p)) = map Some es \<and> pol_exceptions pol = sort_key exc_package es)"
    and fields: "lk_flavor l = arg_flavor (pr_args p)" "lk_release l = arg_release (pr_args p)"
      "lk_dist_tag l = arg_dist_tag (pr_args p)" "lk_target_cpu l = arg_target_cpu (pr_args p)"
    and repos: "lk_repos l = map public_repo (arg_repos (pr_args p))"
    by (rule main_lock_question [OF assms(1)])
  have "collect_repos (cmd_repos c0) = Inr (arg_repos (pr_args p))" using p unfolding parse_command_Inr accepted_def by auto
  then have "\<forall>r \<in> set (arg_repos (pr_args p)). accepted_base (repo_base r)"
    unfolding collect_repos_def by (rule collect_kinds_accepted) simp
  then have "list_all (\<lambda>(name, kind, base, primary). accepted_base base) (lk_repos l)"
    by (simp add: repos list_all_iff public_repo_def)
  note listed = listed_repos [OF assms(4-6) this]
  let ?c = "replayed l release repos probe"
  have probe: "(if truthy probe then map_option basename probe else None) = in_probe (lk_solve l)"
    by (rule recorded_probe_kept [OF assms(7), of "arg_probe (pr_args p)"])
      (use assms(9) in \<open>simp_all add: inputs solve_inputs_of_def replayable_def\<close>)
  obtain p' where p': "parse_command w ?c = Inr p'"
    and same: "arg_flavor (pr_args p') = arg_flavor (pr_args p)" "arg_release (pr_args p') = Some release"
      "arg_dist_tag (pr_args p') = arg_dist_tag (pr_args p)" "arg_target_cpu (pr_args p') = arg_target_cpu (pr_args p)"
    and raws: "arg_source_exception (pr_args p')
        = (case lk_source_policy l of None \<Rightarrow> [] | Some pol \<Rightarrow> map exception_json (pol_exceptions pol))"
    and solve: "\<And>build'. solve_inputs_of (pr_args p') build' = (solve_inputs_of (pr_args p) build)\<lparr>in_build := sorted_set build'\<rparr>"
    using replay_accepted [OF p inputs policy _ fields(3,4) listed(1-3) probe assms(9), of release] assms(2) fields(1) by auto
  have "same_question l l'" if l': "main w ?c = Inr l'" for l'
  proof -
    obtain p2 build2 where p2: "parse_command w ?c = Inr p2"
      and inputs2: "lk_solve l' = (solve_inputs_of (pr_args p2) build2)\<lparr>in_source_exceptions := map_option pol_exceptions (lk_source_policy l')\<rparr>"
      and policy2: "arg_source_image (pr_args p2) = [] \<longleftrightarrow> lk_source_policy l' = None"
      and es2: "\<forall>pol. lk_source_policy l' = Some pol \<longrightarrow>
        (\<exists>es. map entry_of (arg_source_exception (pr_args p2)) = map Some es \<and> pol_exceptions pol = sort_key exc_package es)"
      and fields2: "lk_flavor l' = arg_flavor (pr_args p2)" "lk_release l' = arg_release (pr_args p2)"
        "lk_dist_tag l' = arg_dist_tag (pr_args p2)" "lk_target_cpu l' = arg_target_cpu (pr_args p2)"
      by (rule main_lock_question [OF l'])
    have "p2 = p'" using p2 p' by simp
    note solve2 = solve [of build2]
    have "sorted_set (arg_source_image (pr_args p')) = sorted_set (arg_source_image (pr_args p))"
      using arg_cong [OF solve2, of in_source_image_sets] by (simp add: solve_inputs_of_def)
    then have none: "lk_source_policy l' = None \<longleftrightarrow> lk_source_policy l = None"
      using policy policy2 sorted_set_Nil unfolding \<open>p2 = p'\<close> by metis
    have "map_option pol_exceptions (lk_source_policy l') = map_option pol_exceptions (lk_source_policy l)"
    proof (cases "lk_source_policy l")
      case None
      then show ?thesis using none by simp
    next
      case (Some pol)
      then obtain pol' where pol': "lk_source_policy l' = Some pol'" using none by (cases "lk_source_policy l'") auto
      obtain xs where xs: "map entry_of (arg_source_exception (pr_args p)) = map Some xs" "pol_exceptions pol = sort_key exc_package xs"
        using es Some by blast
      have raws': "arg_source_exception (pr_args p') = map exception_json (sort_key exc_package xs)"
        using raws by (simp add: Some xs(2))
      obtain ys where ys: "map entry_of (map exception_json (sort_key exc_package xs)) = map Some ys" "pol_exceptions pol' = sort_key exc_package ys"
        using es2 pol' unfolding \<open>p2 = p'\<close> raws' by blast
      have "entry_of (exception_json e) = Some e" if "e \<in> set xs" for e
      proof -
        have "Some e \<in> set (map entry_of (arg_source_exception (pr_args p)))" unfolding xs(1) using that by simp
        then show ?thesis using entry_of_exception_json by auto
      qed
      then have "map Some ys = map Some (sort_key exc_package xs)" unfolding ys(1) [symmetric] by simp
      then have "ys = sort_key exc_package xs" by simp
      then show ?thesis by (simp add: Some pol' xs(2) ys(2) sort_key_idem)
    qed
    then show ?thesis
      using same fields fields2 assms(3) unfolding same_question_def inputs inputs2 \<open>p2 = p'\<close> solve2 by simp
  qed
  then show ?thesis using parse_solve_argv [OF assms(8,3) listed(4)] p' by blast
qed


section \<open>Instances\<close>

definition asked_command :: command where
  "asked_command = default_command
     \<lparr>cmd_repos := (cmd_repos default_command)\<lparr>binary_primary := [''bin'']\<rparr>, cmd_release := Some ''43'',
      cmd_seed_package := [''b''], cmd_image := [''i=b''], cmd_override := [''sh=b'']\<rparr>"

definition asked_parsed :: parsed where
  "asked_parsed = projr (parse_command demo_inputs asked_command)"

definition asked_universes :: universes where
  "asked_universes = load_universes demo_inputs (pr_args asked_parsed) []"

definition asked_lock :: lock where
  "asked_lock = projr (run demo_inputs asked_parsed False asked_universes)"

lemma main_run:
  "parse_command w c = Inr p \<Longrightarrow> arg_probe (pr_args p) = None
   \<Longrightarrow> main w c = run w p (cmd_strict c) (load_universes w (pr_args p) [])"
  by (simp add: main_def read_probe_def truthy_def)

lemma asked_parsed_ok: "parse_command demo_inputs asked_command = Inr asked_parsed"
proof -
  have "\<not> isl (parse_command demo_inputs asked_command)" by code_simp
  then show ?thesis by (simp add: asked_parsed_def sum.collapse(2))
qed

lemma asked_lock_written: "main demo_inputs asked_command = Inr asked_lock"
proof -
  have "arg_probe (pr_args asked_parsed) = None" by code_simp
  then have "main demo_inputs asked_command = run demo_inputs asked_parsed False asked_universes"
    using main_run [OF asked_parsed_ok] by (simp add: asked_universes_def asked_command_def default_command_def)
  moreover have "\<not> isl (run demo_inputs asked_parsed False asked_universes)" by code_simp
  ultimately show ?thesis by (simp add: asked_lock_def sum.collapse(2))
qed

definition asked_path :: string where
  "asked_path = ''/l/fedora-43-x86_64.lock.json''"

definition asked_state :: lock_state where
  "asked_state = \<lparr>ls_locks = [(asked_path, asked_lock, True)], ls_repodata = []\<rparr>"

definition asked_sync :: "repodata \<times> (refresh_error + fetched_repo list)" where
  "asked_sync = repo_list demo_net demo_options False ''43'' [(''binary'', ''binary'', [], ''bin'')] []"

definition asked_repos :: "fetched_repo list" where
  "asked_repos = projr (snd asked_sync)"

definition again_command :: command where
  "again_command = asked_command\<lparr>cmd_repos := flags_with asked_repos (cmd_repos default_command)\<rparr>"

definition again_parsed :: parsed where
  "again_parsed = projr (parse_command demo_inputs again_command)"

definition again_universes :: universes where
  "again_universes = load_universes demo_inputs (pr_args again_parsed) []"

lemma again_succeeds: "\<exists>l'. main demo_inputs again_command = Inr l'"
proof -
  have "\<not> isl (parse_command demo_inputs again_command)" by code_simp
  then have p: "parse_command demo_inputs again_command = Inr again_parsed" by (simp add: again_parsed_def sum.collapse(2))
  have "arg_probe (pr_args again_parsed) = None" by code_simp
  then have "main demo_inputs again_command = run demo_inputs again_parsed False again_universes"
    using main_run [OF p] by (simp add: again_universes_def again_command_def asked_command_def default_command_def)
  moreover have "\<not> isl (run demo_inputs again_parsed False again_universes)" by code_simp
  ultimately show ?thesis by (cases "run demo_inputs again_parsed False again_universes") simp_all
qed

lemma asked_lock_fields:
  "lk_flavor asked_lock = ''fedora''" "lk_release asked_lock = Some ''43''" "lk_dist_tag asked_lock = []"
  "lk_target_cpu asked_lock = ''x86_64''" "lk_repos asked_lock = [(''binary'', ''binary'', [], ''bin'')]"
  "\<exists>build. lk_solve asked_lock = solve_inputs_of (pr_args asked_parsed) build"
proof -
  have c: "arg_flavor (pr_args asked_parsed) = ''fedora''" "arg_release (pr_args asked_parsed) = Some ''43''"
    "arg_dist_tag (pr_args asked_parsed) = []" "arg_target_cpu (pr_args asked_parsed) = ''x86_64''"
    "map public_repo (arg_repos (pr_args asked_parsed)) = [(''binary'', ''binary'', [], ''bin'')]"
    "arg_source_image (pr_args asked_parsed) = []"
    by code_simp+
  obtain p build where p: "parse_command demo_inputs asked_command = Inr p"
    and q: "lk_solve asked_lock = (solve_inputs_of (pr_args p) build)\<lparr>in_source_exceptions := map_option pol_exceptions (lk_source_policy asked_lock)\<rparr>"
      "arg_source_image (pr_args p) = [] \<longleftrightarrow> lk_source_policy asked_lock = None"
      "lk_flavor asked_lock = arg_flavor (pr_args p)" "lk_release asked_lock = arg_release (pr_args p)"
      "lk_dist_tag asked_lock = arg_dist_tag (pr_args p)" "lk_target_cpu asked_lock = arg_target_cpu (pr_args p)"
      "lk_repos asked_lock = map public_repo (arg_repos (pr_args p))"
    by (rule main_lock_question [OF asked_lock_written])
  have "p = asked_parsed" using p asked_parsed_ok by simp
  note q = q [unfolded this] and c
  then show "lk_flavor asked_lock = ''fedora''" "lk_release asked_lock = Some ''43''" "lk_dist_tag asked_lock = []"
    "lk_target_cpu asked_lock = ''x86_64''" "lk_repos asked_lock = [(''binary'', ''binary'', [], ''bin'')]"
    by simp_all
  show "\<exists>build. lk_solve asked_lock = solve_inputs_of (pr_args asked_parsed) build"
    using q(1,2) c(6) by (intro exI [of _ build]) (simp add: solve_inputs_of_def)
qed

lemma asked_inputs:
  "in_explicit_build (lk_solve asked_lock) = []" "in_source_image_sets (lk_solve asked_lock) = []"
  "in_prebuilt_sources (lk_solve asked_lock) = []" "in_overrides (lk_solve asked_lock) = [''sh=b'']"
  "\<not> in_seed_only (lk_solve asked_lock)" "in_seed_packages (lk_solve asked_lock) = [''b'']"
  "in_source_variants (lk_solve asked_lock) = []" "in_stages (lk_solve asked_lock) = 3"
  "in_images (lk_solve asked_lock) = [''i=b'']" "in_image_overrides (lk_solve asked_lock) = []"
  "in_probe (lk_solve asked_lock) = None" "in_source_exceptions (lk_solve asked_lock) = None"
proof -
  let ?a = "pr_args asked_parsed"
  have "arg_explicit_build ?a = []" "arg_source_image ?a = []" "arg_prebuilt_source ?a = []" "arg_override ?a = [''sh=b'']"
    "arg_seed_only ?a = False" "arg_seed_package ?a = [''b'']" "arg_source_variant ?a = []" "arg_stages ?a = 3"
    "arg_image ?a = [''i=b'']" "arg_image_override ?a = []" "arg_probe ?a = None"
    by code_simp+
  note a = this
  obtain build where "lk_solve asked_lock = solve_inputs_of ?a build" using asked_lock_fields(6) by blast
  then show "in_explicit_build (lk_solve asked_lock) = []" "in_source_image_sets (lk_solve asked_lock) = []"
    "in_prebuilt_sources (lk_solve asked_lock) = []" "in_overrides (lk_solve asked_lock) = [''sh=b'']"
    "\<not> in_seed_only (lk_solve asked_lock)" "in_seed_packages (lk_solve asked_lock) = [''b'']"
    "in_source_variants (lk_solve asked_lock) = []" "in_stages (lk_solve asked_lock) = 3"
    "in_images (lk_solve asked_lock) = [''i=b'']" "in_image_overrides (lk_solve asked_lock) = []"
    "in_probe (lk_solve asked_lock) = None" "in_source_exceptions (lk_solve asked_lock) = None"
    by (simp_all add: solve_inputs_of_def a truthy_def sorted_set_def sorted_items_def)
qed

lemma replayed_asked: "replayed asked_lock ''43'' asked_repos None = again_command"
  by (simp add: replayed_def again_command_def asked_command_def default_command_def asked_lock_fields asked_inputs truthy_def)

lemma asked_fits: "values_fit (solve_flags True asked_lock asked_repos asked_path None)"
proof -
  have "values_fit (concat (map repo_options asked_repos))" by code_simp
  moreover have "flag_value s" if "take 1 s \<noteq> ''-''" for s using that by (simp add: flag_value_def)
  ultimately show ?thesis
    by (simp add: solve_flags_def asked_lock_fields asked_inputs asked_path_def truthy_def flag_items_def flag_value_int_text)
qed


end
