(* ===== verification/LockTool.thy ===== *)
theory LockTool
  imports DebGenerate Decimals
begin

text \<open>
  \<^verbatim>\<open>tools/lockfile.py\<close>, the lock manager: which lock files a checkout holds, which of them a
  selector means, one value of a lock by its pointer, and the checks before a lock is replaced. A
  path is the list of its parts, those of a file counted from the root of the checkout; there are no
  symbolic links, and a directory is there when a file is below it.
\<close>

datatype tool_error =
    NotALockPath "string list"
  | LockName lockfile_error
  | NotOfFlavor string "string list"
  | NoIdentity "string list"
  | NoFlavorsDirectory
  | FoundTwice string string string
  | NotANumber string
  | BadSelector string
  | NothingSelected string
  | ManySelected nat string
  | NoSuchComponent string
  | NotAPointer
  | NotAnObject
  | OtherIdentity "json \<times> string \<times> json" "string \<times> string \<times> string"
  | OtherSchema json
  | PolicyMissing
  | PolicyRejected policy_error
  | BadShape
  | DebRejected deb_gen_error
  | NoGenerator string
  | TooLarge int int

section \<open>Lock files by their paths\<close>

definition RPM_FLAVORS :: "string list" where
  "RPM_FLAVORS = [''fedora'', ''centos'', ''centos-hyperscale'']"

definition DEB_FLAVORS :: "string list" where
  "DEB_FLAVORS = [''debian'', ''ubuntu'']"

record lock_record =
  lr_path :: "string list"
  lr_flavor :: string
  lr_release :: string
  lr_arch :: string

definition relative_path :: "lock_record \<Rightarrow> string" where
  "relative_path r = py_join ''/'' (lr_path r)"

definition selector_of :: "lock_record \<Rightarrow> string" where
  "selector_of r = lr_flavor r @ '':'' @ lr_release r @ '':'' @ lr_arch r"

text \<open>\<open>s.rpartition(c)\<close>\<close>

definition py_rpartition :: "char \<Rightarrow> string \<Rightarrow> string \<times> bool \<times> string" where
  "py_rpartition c s =
     (if c \<in> set s then (rev (tl (dropWhile (\<lambda>d. d \<noteq> c) (rev s))), True, rev (takeWhile (\<lambda>d. d \<noteq> c) (rev s)))
      else ([], False, s))"

definition record_from_path :: "string list \<Rightarrow> tool_error + lock_record" where
  "record_from_path parts =
     (case parts of
        [upper, flavor, middle, name] \<Rightarrow>
          if upper \<noteq> ''flavors'' \<or> middle \<noteq> ''lock'' then Inl (NotALockPath parts)
          else
            attempt (map_error LockName (strip_lockfile_suffix name)) (\<lambda>stem.
            if \<not> py_startswith stem (flavor @ ''-'') then Inl (NotOfFlavor (flavor @ ''-'') parts)
            else
              (case py_rpartition CHR ''-'' (drop (length flavor + 1) stem) of
                 (release, found, architecture) \<Rightarrow>
                   if \<not> found \<or> release = [] \<or> architecture \<notin> set ARCHITECTURES then Inl (NoIdentity parts)
                   else Inr \<lparr>lr_path = parts, lr_flavor = flavor, lr_release = release, lr_arch = architecture\<rparr>))
      | _ \<Rightarrow> Inl (NotALockPath parts))"

text \<open>
  \<open>re.split(r"(\d+)", s)\<close> gives the runs of digits with what is between them. \<open>isdigit\<close> also holds for
  the superscript digits, on which \<open>int\<close> raises.
\<close>

definition digit :: "char \<Rightarrow> bool" where
  "digit c \<longleftrightarrow> digit_value c \<noteq> None"

function split_digits :: "string \<Rightarrow> string list" where
  "split_digits s =
     (case dropWhile (\<lambda>c. \<not> digit c) s of
        [] \<Rightarrow> [s]
      | c # rest \<Rightarrow>
          takeWhile (\<lambda>c. \<not> digit c) s # (c # takeWhile digit rest) # split_digits (dropWhile digit rest))"
  by pat_completeness auto
termination
proof (relation "measure length")
  fix s c rest
  assume "dropWhile (\<lambda>c. \<not> digit c) s = c # rest"
  then have "Suc (length rest) \<le> length s" by (metis length_Cons length_dropWhile_le)
  then show "(dropWhile digit rest, s) \<in> measure length"
    using length_dropWhile_le [of digit rest] by simp
qed simp

declare split_digits.simps [simp del]

type_synonym natural_order = "(nat \<times> int \<times> string) list"

definition superscript :: "char \<Rightarrow> bool" where
  "superscript c \<longleftrightarrow> (of_char c :: nat) \<in> {178, 179, 185}"

definition natural_part :: "string \<Rightarrow> tool_error + nat \<times> int \<times> string" where
  "natural_part part =
     (if part \<noteq> [] \<and> list_all (\<lambda>c. digit c \<or> superscript c) part
      then (case py_digits 0 part of Some n \<Rightarrow> Inr (0, n, []) | None \<Rightarrow> Inl (NotANumber part))
      else Inr (1, 0, part))"

definition natural_key :: "string \<Rightarrow> tool_error + natural_order" where
  "natural_key s = each natural_part (split_digits s)"

fun position :: "'a \<Rightarrow> 'a list \<Rightarrow> nat" where
  "position x [] = 0"
| "position x (y # ys) = (if x = y then 0 else Suc (position x ys))"

definition record_sort_key :: "lock_record \<Rightarrow> tool_error + string \<times> natural_order \<times> nat" where
  "record_sort_key r =
     attempt (natural_key (lr_release r)) (\<lambda>k. Inr (lr_flavor r, k, position (lr_arch r) ARCHITECTURES))"

definition sort_records :: "lock_record list \<Rightarrow> tool_error + lock_record list" where
  "sort_records rs = attempt (each record_sort_key rs) (\<lambda>ks. Inr (map snd (sort_key fst (zip ks rs))))"

section \<open>The lock files of a checkout\<close>

text \<open>A checkout is a map from paths to contents; \<open>paths\<close> is what listing it gives.\<close>

definition lock_path :: "string list \<Rightarrow> bool" where
  "lock_path path =
     (case path of
        [upper, flavor, middle, name] \<Rightarrow> upper = ''flavors'' \<and> middle = ''lock'' \<and> list_ex (py_endswith name) LOCKFILE_SUFFIXES
      | _ \<Rightarrow> False)"

fun check_identities :: "lock_record list \<Rightarrow> (string, lock_record) dict \<Rightarrow> tool_error + unit" where
  "check_identities [] by_identity = Inr ()"
| "check_identities (r # rs) by_identity =
     (case dget by_identity (selector_of r) of
        Some previous \<Rightarrow> Inl (FoundTwice (selector_of r) (relative_path previous) (relative_path r))
      | None \<Rightarrow> check_identities rs (dset (selector_of r) r by_identity))"

definition discover_locks :: "string list list \<Rightarrow> tool_error + lock_record list" where
  "discover_locks paths =
     (if \<not> list_ex (\<lambda>p. take 1 p = [''flavors''] \<and> 1 < length p) paths then Inl NoFlavorsDirectory
      else
        attempt (each record_from_path (sort (filter lock_path paths))) (\<lambda>records.
        attempt (check_identities records []) (\<lambda>_. sort_records records)))"

section \<open>Selectors\<close>

text \<open>
  A selector as a path from the root of the checkout, itself the list \<open>root\<close>; none where it leaves the
  checkout. A path with two slashes in front is of a kind of its own.
\<close>

definition path_in :: "string list \<Rightarrow> string \<Rightarrow> string list option" where
  "path_in root selector =
     (let absolute = py_startswith selector ''/'';
          parts = fold (norm_step True) (py_split CHR ''/'' selector) (if absolute then [] else root)
      in if py_startswith selector ''//'' \<and> \<not> py_startswith selector ''///'' then None
         else if take (length root) parts = root then Some (drop (length root) parts) else None)"

definition path_text :: "string list \<Rightarrow> string" where
  "path_text parts = (if parts = [] then ''.'' else py_join ''/'' parts)"

definition matches_fields :: "string list \<Rightarrow> lock_record \<Rightarrow> bool" where
  "matches_fields words r \<longleftrightarrow>
     lr_flavor r = hd words \<and> (length words < 2 \<or> lr_release r = words ! 1) \<and> (length words < 3 \<or> lr_arch r = words ! 2)"

definition select_matches :: "string list \<Rightarrow> lock_record list \<Rightarrow> string \<Rightarrow> tool_error + lock_record list" where
  "select_matches root records selector =
     (let normalized = (case (records, path_in root selector) of (r # rs, Some parts) \<Rightarrow> path_text parts | _ \<Rightarrow> selector);
          exact = filter (\<lambda>r. relative_path r = normalized) records;
          words = py_split CHR '':'' selector
      in if exact \<noteq> [] then Inr exact
         else if \<not> (1 \<le> length words \<and> length words \<le> 3) \<or> [] \<in> set words then Inl (BadSelector selector)
         else if filter (matches_fields words) records = [] then Inl (NothingSelected selector)
         else Inr (filter (matches_fields words) records))"

definition select :: "string list \<Rightarrow> lock_record list \<Rightarrow> string list \<Rightarrow> tool_error + lock_record list" where
  "select root records selectors =
     (if selectors = [] then Inr records
      else
        attempt (each (select_matches root records) selectors) (\<lambda>matches.
          sort_records (map snd (fold (\<lambda>r. dset (selector_of r) r) (concat matches) []))))"

definition select_one :: "string list \<Rightarrow> lock_record list \<Rightarrow> string \<Rightarrow> tool_error + lock_record" where
  "select_one root records selector =
     attempt (select root records [selector]) (\<lambda>matches.
     case matches of [r] \<Rightarrow> Inr r | _ \<Rightarrow> Inl (ManySelected (length matches) selector))"

section \<open>One value of a lock\<close>

text \<open>\<open>s.replace("~" + c, r)\<close>\<close>

fun replace_tilde :: "char \<Rightarrow> char \<Rightarrow> string \<Rightarrow> string" where
  "replace_tilde c r (a # b # s) = (if a = CHR ''~'' \<and> b = c then r # replace_tilde c r s else a # replace_tilde c r (b # s))"
| "replace_tilde c r s = s"

definition pointer_token :: "string \<Rightarrow> string" where
  "pointer_token raw = replace_tilde CHR ''0'' CHR ''~'' (replace_tilde CHR ''1'' CHR ''/'' raw)"

text \<open>An index counts from the end when it is negative, as \<open>int\<close> reads it.\<close>

definition pointer_step :: "json \<Rightarrow> string \<Rightarrow> json option" where
  "pointer_step current token =
     (case current of
        JList xs \<Rightarrow>
          (case py_int token of
             None \<Rightarrow> None
           | Some i \<Rightarrow>
               let n = int (length xs); j = (if i < 0 then i + n else i)
               in if 0 \<le> j \<and> j < n then Some (xs ! nat j) else None)
      | JObj d \<Rightarrow> dget d token
      | _ \<Rightarrow> None)"

fun pointer_steps :: "json \<Rightarrow> string list \<Rightarrow> tool_error + json" where
  "pointer_steps current [] = Inr current"
| "pointer_steps current (raw # raws) =
     (case pointer_step current (pointer_token raw) of
        None \<Rightarrow> Inl (NoSuchComponent (pointer_token raw))
      | Some v \<Rightarrow> pointer_steps v raws)"

definition json_pointer :: "json \<Rightarrow> string \<Rightarrow> tool_error + json" where
  "json_pointer v pointer =
     (if pointer = [] then Inr v
      else if \<not> py_startswith pointer ''/'' then Inl NotAPointer
      else pointer_steps v (py_split CHR ''/'' (drop 1 pointer)))"

section \<open>Replacing a lock\<close>

definition lock_identity :: "json \<Rightarrow> tool_error + json \<times> string \<times> json" where
  "lock_identity v =
     (case v of
        JObj d \<Rightarrow> Inr (dget_or d ''flavor'' (dget_or d ''distro'' JNull), json_str (dget_or d ''release'' JNull),
                   dget_or d ''target_cpu'' JNull)
      | _ \<Rightarrow> Inl NotAnObject)"

definition check_identity :: "lock_record \<Rightarrow> json \<Rightarrow> tool_error + unit" where
  "check_identity r v =
     attempt (lock_identity v) (\<lambda>actual.
       if actual = (JStr (lr_flavor r), lr_release r, JStr (lr_arch r)) then Inr ()
       else Inl (OtherIdentity actual (lr_flavor r, lr_release r, lr_arch r)))"

definition LOCK_SCHEMA_JSON :: json where
  "LOCK_SCHEMA_JSON = JInt (int LOCK_SCHEMA)"

definition text_value :: "json \<Rightarrow> tool_error + string" where
  "text_value v = (case v of JStr s \<Rightarrow> Inr s | _ \<Rightarrow> Inl BadShape)"

definition object_value :: "json \<Rightarrow> tool_error + jobj" where
  "object_value v = (case v of JObj d \<Rightarrow> Inr d | _ \<Rightarrow> Inl BadShape)"

definition list_value :: "json \<Rightarrow> tool_error + json list" where
  "list_value v = (case v of JList xs \<Rightarrow> Inr xs | _ \<Rightarrow> Inl BadShape)"

definition text_key :: "jobj \<Rightarrow> string \<Rightarrow> tool_error + string" where
  "text_key d k = (case dget d k of None \<Rightarrow> Inl BadShape | Some v \<Rightarrow> text_value v)"

text \<open>
  \<open>rpm_source_policy_inputs\<close> on a lock as it is read. A value of another shape is an error here; in the
  source the exception is raised where the value is first used.
\<close>

definition pin_payload :: "json \<Rightarrow> tool_error + string \<times> jobj" where
  "pin_payload v =
     attempt (object_value v) (\<lambda>d.
     attempt (text_key d ''name'') (\<lambda>name.
       Inr (name, [(''package'', JStr name), (''source'', dget_or d ''source'' JNull)])))"

definition policy_image :: "jobj \<Rightarrow> string \<Rightarrow> tool_error + string \<times> jobj list" where
  "policy_image sets name =
     attempt (list_value (dget_or sets name (JList []))) (\<lambda>xs.
     attempt (each pin_payload xs) (\<lambda>payloads. Inr (name, map snd (sort_key fst payloads))))"

definition package_producer :: "string \<times> json \<Rightarrow> tool_error + string" where
  "package_producer kv =
     attempt (object_value (snd kv)) (\<lambda>package.
     attempt (object_value (dget_or package ''source'' JNull)) (\<lambda>source.
       if json_truthy (dget_or source ''source_name'' JNull) then text_key source ''source_name'' else text_key source ''name''))"

definition policy_inputs :: "jobj \<Rightarrow> tool_error + (string, jobj list) dict \<times> string set" where
  "policy_inputs lock =
     attempt (object_value (dget_or lock ''solve'' (JObj []))) (\<lambda>solve.
     attempt (attempt (list_value (dget_or solve ''source_image_sets'' (JList []))) (each text_value)) (\<lambda>selected.
     attempt (object_value (dget_or lock ''image_sets'' (JObj []))) (\<lambda>sets.
     attempt (each (policy_image sets) (sorted_set selected)) (\<lambda>images.
     attempt (attempt (object_value (dget_or lock ''packages'' (JObj []))) (each package_producer)) (\<lambda>producers.
     attempt (attempt (list_value (dget_or solve ''prebuilt_sources'' (JList []))) (each text_value)) (\<lambda>prebuilt.
       Inr (images, set producers - set prebuilt)))))))"

definition check_rpm_policy :: "jobj \<Rightarrow> tool_error + unit" where
  "check_rpm_policy lock =
     (if dget_or lock ''source_policy'' JNull = JNull
      then attempt (object_value (dget_or lock ''solve'' (JObj []))) (\<lambda>solve.
        if json_truthy (dget_or solve ''source_image_sets'' (JList [])) then Inl PolicyMissing else Inr ())
      else
        attempt (policy_inputs lock) (\<lambda>(images, producers).
        attempt (object_value (dget_or lock ''source_policy'' JNull)) (\<lambda>recorded.
          map_error PolicyRejected (validate_source_policy recorded images producers))))"

definition validate_replacement :: "lock_record \<Rightarrow> json \<Rightarrow> tool_error + unit" where
  "validate_replacement r v =
     attempt (check_identity r v) (\<lambda>_.
     attempt (object_value v) (\<lambda>lock.
       if lr_flavor r \<in> set RPM_FLAVORS then
         (if \<not> json_eq (dget_or lock ''schema'' JNull) LOCK_SCHEMA_JSON then Inl (OtherSchema (dget_or lock ''schema'' JNull))
          else check_rpm_policy lock)
       else if lr_flavor r \<in> set DEB_FLAVORS then attempt (map_error DebRejected (validate_lock lock)) (\<lambda>_. Inr ())
       else Inl (NoGenerator (lr_flavor r))))"

type_synonym checkout = "(string list, content) dict"

text \<open>
  \<open>replace_record\<close> without the generation that may follow; \<open>bytes\<close> is the size of a file with a content,
  and the limit is the one the repository is configured with.
\<close>

definition replace_record :: "(content \<Rightarrow> int) \<Rightarrow> int \<Rightarrow> lock_record \<Rightarrow> json \<Rightarrow> checkout \<Rightarrow> checkout \<times> (tool_error + unit)" where
  "replace_record bytes limit r v files =
     (let candidate = encode (last (lr_path r)) v in
      case attempt (validate_replacement r v) (\<lambda>_.
             if limit \<le> bytes candidate then Inl (TooLarge (bytes candidate) limit) else Inr ()) of
        Inl e \<Rightarrow> (files, Inl e)
      | Inr _ \<Rightarrow> (dset (lr_path r) candidate files, Inr ()))"

section \<open>What is found\<close>

lemma each_Inr: "each f xs = Inr ys \<longleftrightarrow> list_all2 (\<lambda>x y. f x = Inr y) xs ys"
  by (induction xs arbitrary: ys) (auto simp: attempt_Inr list_all2_Cons1)

definition lock_key :: "lock_record \<Rightarrow> string \<times> natural_order \<times> nat" where
  "lock_key r = (case record_sort_key r of Inr k \<Rightarrow> k | Inl _ \<Rightarrow> ([], [], 0))"

definition sortable :: "lock_record \<Rightarrow> bool" where
  "sortable r \<longleftrightarrow> (\<exists>k. record_sort_key r = Inr k)"

lemma sort_key_pairs: "sort_key fst (map (\<lambda>r. (f r, r)) rs) = map (\<lambda>r. (f r, r)) (sort_key f rs)"
proof -
  have "insort_key fst (f r, r) (map (\<lambda>r. (f r, r)) xs) = map (\<lambda>r. (f r, r)) (insort_key f r xs)" for r xs
    by (induction xs) simp_all
  then show ?thesis by (induction rs) simp_all
qed

lemma sort_records_Inr: "sort_records rs = Inr out \<longleftrightarrow> list_all sortable rs \<and> out = sort_key lock_key rs"
proof -
  have "each record_sort_key rs = Inr ks \<longleftrightarrow> list_all sortable rs \<and> ks = map lock_key rs" for ks
    unfolding each_Inr by (induction rs arbitrary: ks) (auto simp: list_all2_Cons1 sortable_def lock_key_def)
  moreover have "map snd (sort_key fst (zip (map lock_key rs) rs)) = sort_key lock_key rs"
    using sort_key_pairs [of lock_key rs] by (simp add: zip_map1 zip_same_conv_map comp_def)
  ultimately show ?thesis by (auto simp: sort_records_def attempt_Inr)
qed

lemma py_rpartition_found: "py_rpartition c s = (a, True, b) \<Longrightarrow> s = a @ c # b \<and> c \<notin> set b"
proof -
  assume p: "py_rpartition c s = (a, True, b)"
  let ?P = "\<lambda>d. d \<noteq> c"
  have c: "c \<in> set s" and ab: "a = rev (tl (dropWhile ?P (rev s)))" "b = rev (takeWhile ?P (rev s))"
    using p by (auto simp: py_rpartition_def split: if_splits)
  have "dropWhile ?P (rev s) \<noteq> []" using c by (simp add: dropWhile_eq_Nil_conv)
  then have "dropWhile ?P (rev s) = c # tl (dropWhile ?P (rev s))" using hd_dropWhile [of ?P "rev s"] by (cases "dropWhile ?P (rev s)") auto
  then have "rev s = takeWhile ?P (rev s) @ c # tl (dropWhile ?P (rev s))" by (metis takeWhile_dropWhile_id)
  then have "s = rev (takeWhile ?P (rev s) @ c # tl (dropWhile ?P (rev s)))" by (metis rev_rev_ident)
  then show ?thesis unfolding ab by (auto dest: set_takeWhileD)
qed

text \<open>The record is what the name of the file says.\<close>

definition well_named :: "lock_record \<Rightarrow> bool" where
  "well_named r \<longleftrightarrow> lr_arch r \<in> set ARCHITECTURES \<and> lr_release r \<noteq> []
     \<and> (\<exists>sfx \<in> set LOCKFILE_SUFFIXES. lr_path r =
          [''flavors'', lr_flavor r, ''lock'', lr_flavor r @ ''-'' @ lr_release r @ ''-'' @ lr_arch r @ sfx])"

lemma strip_suffix_is: "strip_lockfile_suffix name = Inr stem \<Longrightarrow> \<exists>sfx \<in> set LOCKFILE_SUFFIXES. name = stem @ sfx"
  by (auto simp: strip_lockfile_suffix_def find_Some_iff split: option.splits dest: endswith_split)

lemma record_from_path_Inr:
  assumes "record_from_path path = Inr r"
  shows "lr_path r = path \<and> well_named r"
proof -
  obtain flavor name where path: "path = [''flavors'', flavor, ''lock'', name]"
    using assms by (auto simp: record_from_path_def split: list.splits if_splits)
  obtain stem release architecture where stem: "strip_lockfile_suffix name = Inr stem" "py_startswith stem (flavor @ ''-'')"
    and parts: "py_rpartition CHR ''-'' (drop (length flavor + 1) stem) = (release, True, architecture)"
    and r: "release \<noteq> []" "architecture \<in> set ARCHITECTURES"
      "r = \<lparr>lr_path = path, lr_flavor = flavor, lr_release = release, lr_arch = architecture\<rparr>"
    using assms by (auto simp: record_from_path_def path attempt_Inr split: if_splits prod.splits)
  have "drop (length flavor + 1) stem = release @ CHR ''-'' # architecture" using py_rpartition_found [OF parts] by blast
  moreover have "stem = (flavor @ ''-'') @ drop (length flavor + 1) stem"
    using stem(2) unfolding py_startswith_def by (metis append_take_drop_id length_append_singleton Suc_eq_plus1)
  ultimately have "stem = flavor @ ''-'' @ release @ ''-'' @ architecture" by simp
  then show ?thesis using strip_suffix_is [OF stem(1)] r by (auto simp: well_named_def path)
qed

lemma check_identities_distinct:
  "check_identities rs d = Inr () \<Longrightarrow> distinct (map selector_of rs) \<and> (\<forall>r \<in> set rs. dget d (selector_of r) = None)"
proof (induction rs d rule: check_identities.induct)
  case (2 r rs d)
  then have "dget d (selector_of r) = None" "check_identities rs (dset (selector_of r) r d) = Inr ()"
    by (auto split: option.splits)
  then show ?case using 2 by (force split: if_splits)
qed simp

lemma discover_exact:
  assumes "discover_locks paths = Inr rs"
  shows "set (map lr_path rs) = set (filter lock_path paths) \<and> list_all well_named rs
    \<and> distinct (map selector_of rs) \<and> sorted (map lock_key rs)"
proof -
  obtain records where r: "each record_from_path (sort (filter lock_path paths)) = Inr records"
    and c: "check_identities records [] = Inr ()" and s: "sort_records records = Inr rs"
    using assms by (auto simp: discover_locks_def attempt_Inr split: if_splits)
  have pairs: "list_all2 (\<lambda>p x. record_from_path p = Inr x) (sort (filter lock_path paths)) records"
    using r unfolding each_Inr .
  have "map lr_path records = sort (filter lock_path paths) \<and> list_all well_named records"
    using pairs by (induction rule: list_all2_induct) (auto dest: record_from_path_Inr)
  moreover have same: "mset rs = mset records" and "sorted (map lock_key rs)" using s by (simp_all add: sort_records_Inr)
  moreover have "set rs = set records" using same by (rule mset_eq_setD)
  moreover have "distinct (map selector_of rs)"
  proof -
    have "mset (map selector_of rs) = mset (map selector_of records)" using same by (simp only: mset_map)
    then show ?thesis using check_identities_distinct [OF c] mset_eq_imp_distinct_iff by blast
  qed
  moreover have "set (map lr_path rs) = set (filter lock_path paths)"
    using calculation(1) \<open>set rs = set records\<close> by (metis set_map set_sort)
  ultimately show ?thesis by (metis list_all_iff)
qed

section \<open>What a selector means\<close>

definition plain_word :: "string \<Rightarrow> bool" where
  "plain_word w \<longleftrightarrow> w \<noteq> [] \<and> CHR '':'' \<notin> set w \<and> CHR ''/'' \<notin> set w"

lemma join_colons:
  assumes "list_all plain_word words" and "words \<noteq> []"
  shows "py_split CHR '':'' (py_join '':'' words) = words" and "CHR ''/'' \<notin> set (py_join '':'' words)"
proof -
  show "py_split CHR '':'' (py_join '':'' words) = words"
    by (rule py_split_join) (use assms in \<open>auto simp: plain_word_def list_all_iff\<close>)
  show "CHR ''/'' \<notin> set (py_join '':'' words)"
    using assms(1) by (induction "'':''" words rule: py_join.induct) (auto simp: plain_word_def)
qed

lemma py_split_alone: "c \<notin> set s \<Longrightarrow> py_split c s = [s]"
  using py_split_join [of "[s]" c] by simp

lemma no_slash_path:
  assumes "CHR ''/'' \<notin> set w" and "path_in root w = Some parts"
  shows "CHR ''/'' \<notin> set (path_text parts)"
proof -
  have w: "\<not> py_startswith w ''/''" "\<not> py_startswith w ''//''" using assms(1) by (cases w; auto simp: py_startswith_def)+
  have "parts = drop (length root) (norm_step True w root)"
    using assms(2) w by (simp add: path_in_def Let_def py_split_alone [OF assms(1)] split: if_splits)
  then have "parts = [] \<or> parts = [w]" by (auto simp: norm_step_def split: if_splits)
  then show ?thesis using assms(1) by (auto simp: path_text_def)
qed

lemma relative_slash: "well_named r \<Longrightarrow> CHR ''/'' \<in> set (relative_path r)"
  by (auto simp: well_named_def relative_path_def)

lemma fold_selectors:
  "distinct (map selector_of rs) \<Longrightarrow> set (map fst acc) \<inter> set (map selector_of rs) = {}
   \<Longrightarrow> fold (\<lambda>r. dset (selector_of r) r) rs acc = acc @ map (\<lambda>r. (selector_of r, r)) rs"
proof (induction rs arbitrary: acc)
  case (Cons r rs)
  have "dset (selector_of r) r acc = acc @ [(selector_of r, r)]"
    by (rule update_fresh) (use Cons.prems(2) in \<open>auto simp: map_of_eq_None_iff\<close>)
  moreover have "set (map fst (acc @ [(selector_of r, r)])) \<inter> set (map selector_of rs) = {}" using Cons.prems by auto
  ultimately show ?case using Cons by simp
qed simp

lemma select_hits:
  assumes "discover_locks paths = Inr rs" and "select_matches root rs s = Inr (filter P rs)"
  shows "select root rs [s] = Inr (filter P rs)"
proof -
  note found = discover_exact [OF assms(1)]
  have "distinct (map selector_of (filter P rs))" using found by (auto intro: distinct_map_filter)
  then have "map snd (fold (\<lambda>r. dset (selector_of r) r) (filter P rs) []) = filter P rs"
    by (simp add: fold_selectors comp_def)
  moreover have "list_all sortable rs"
    using assms(1) by (auto simp: discover_locks_def attempt_Inr sort_records_Inr list_all_iff split: if_splits)
  then have "sort_records (filter P rs) = Inr (filter P rs)"
    using found by (auto simp: sort_records_Inr list_all_iff sort_key_id_if_sorted sorted_filter)
  ultimately show ?thesis by (simp add: select_def assms(2))
qed

definition agrees :: "string list \<Rightarrow> lock_record \<Rightarrow> bool" where
  "agrees words r \<longleftrightarrow> words = take (length words) [lr_flavor r, lr_release r, lr_arch r]"

lemma matches_agrees: "words \<noteq> [] \<Longrightarrow> length words \<le> 3 \<Longrightarrow> matches_fields words r = agrees words r"
proof -
  assume "words \<noteq> []" and "length words \<le> 3"
  then consider a where "words = [a]" | a b where "words = [a, b]" | a b c where "words = [a, b, c]"
    by (cases words; cases "tl words"; cases "tl (tl words)"; cases "tl (tl (tl words))") auto
  then show ?thesis by cases (auto simp: matches_fields_def agrees_def)
qed

lemma select_words:
  assumes "discover_locks paths = Inr rs" and "list_all plain_word words" and "words \<noteq> []" and "length words \<le> 3"
  shows "select root rs [py_join '':'' words] =
    (if filter (matches_fields words) rs = [] then Inl (NothingSelected (py_join '':'' words))
     else Inr (filter (matches_fields words) rs))"
proof -
  let ?s = "py_join '':'' words"
  note split = join_colons(1) [OF assms(2,3)] and slash = join_colons(2) [OF assms(2,3)]
  have named: "list_all well_named rs" using discover_exact [OF assms(1)] by blast
  have exact: "filter (\<lambda>r. relative_path r = n) rs = []" if "CHR ''/'' \<notin> set n" for n
    using named relative_slash that by (auto simp: filter_empty_conv list_all_iff)
  have "CHR ''/'' \<notin> set (case (rs, path_in root ?s) of (r # rs, Some parts) \<Rightarrow> path_text parts | _ \<Rightarrow> ?s)"
    using slash no_slash_path [OF slash] by (auto split: list.split option.split)
  note none = exact [OF this]
  have "[] \<notin> set words" using assms(2) by (auto simp: list_all_iff plain_word_def)
  then have "select_matches root rs ?s = (if filter (matches_fields words) rs = [] then Inl (NothingSelected ?s)
     else Inr (filter (matches_fields words) rs))"
    using assms(3,4) unfolding select_matches_def Let_def none split by (simp add: Suc_le_eq)
  then show ?thesis using select_hits [OF assms(1)] by (auto simp: select_def)
qed

text \<open>
  C38: What the lock manager lists is what the checkout holds, and a selector means what it says. When the locks are
  listed, there is one record for each lock file under the flavors and no other; each record's flavor, release
  and machine spell the name of its file; no two records are for the same three; and they come in the order
  of their keys, in which releases compare by their numbers. A flavor, a flavor with a release, or these
  with a machine then select exactly the listed locks that agree with it, in that order, and are refused when there is
  none; names with a colon or a slash aside, no selector of this form is mistaken for the path of a file.
\<close>
theorem locks_listed_and_selected:
  assumes "discover_locks paths = Inr rs"
  shows "set (map lr_path rs) = set (filter lock_path paths) \<and> list_all well_named rs
    \<and> distinct (map selector_of rs) \<and> sorted (map lock_key rs)
    \<and> (\<forall>words root. list_all plain_word words \<and> words \<noteq> [] \<and> length words \<le> 3 \<longrightarrow>
        select root rs [py_join '':'' words] =
          (if filter (agrees words) rs = [] then Inl (NothingSelected (py_join '':'' words))
           else Inr (filter (agrees words) rs)))"
proof -
  have "filter (matches_fields words) rs = filter (agrees words) rs" if "words \<noteq> []" "length words \<le> 3" for words
    using matches_agrees [OF that] by (intro filter_cong) auto
  then show ?thesis using discover_exact [OF assms] select_words [OF assms] by metis
qed

section \<open>What a pointer reaches\<close>

text \<open>A place in a document is a key or an index, and its text escapes a key as RFC 6901 says.\<close>

datatype place = Key string | Index nat

fun walk :: "json \<Rightarrow> place list \<Rightarrow> json option" where
  "walk v [] = Some v"
| "walk (JObj d) (Key k # ps) = Option.bind (dget d k) (\<lambda>v. walk v ps)"
| "walk (JList xs) (Index i # ps) = (if i < length xs then walk (xs ! i) ps else None)"
| "walk v (p # ps) = None"

definition escape_char :: "char \<Rightarrow> string" where
  "escape_char c = (if c = CHR ''~'' then ''~0'' else if c = CHR ''/'' then ''~1'' else [c])"

fun place_text :: "place \<Rightarrow> string" where
  "place_text (Key k) = concat (map escape_char k)"
| "place_text (Index i) = nat_text i"

definition pointer_text :: "place list \<Rightarrow> string" where
  "pointer_text ps = concat (map (\<lambda>p. CHR ''/'' # place_text p) ps)"

lemma replace_other: "x \<noteq> CHR ''~'' \<Longrightarrow> replace_tilde c r (x # s) = x # replace_tilde c r s"
  by (cases s) simp_all

lemma replace_slashes:
  "replace_tilde CHR ''1'' CHR ''/'' (concat (map escape_char k)) = concat (map (\<lambda>c. if c = CHR ''~'' then ''~0'' else [c]) k)"
  by (induction k) (simp_all add: escape_char_def replace_other)

lemma replace_zeros:
  "replace_tilde CHR ''0'' CHR ''~'' (concat (map (\<lambda>c. if c = CHR ''~'' then ''~0'' else [c]) k)) = k"
  by (induction k) (simp_all add: replace_other)

lemma replace_none: "CHR ''~'' \<notin> set s \<Longrightarrow> replace_tilde c r s = s"
proof (induction s)
  case (Cons a s)
  then have "a \<noteq> CHR ''~''" by auto
  then show ?case using Cons by (simp add: replace_other)
qed simp

lemma nat_text_chars: "CHR ''~'' \<notin> set (nat_text n) \<and> CHR ''/'' \<notin> set (nat_text n)"
proof -
  have "digit_value CHR ''~'' = None \<and> digit_value CHR ''/'' = None" by code_simp
  moreover have "\<forall>c \<in> set (nat_text n). digit_value c \<noteq> None" using nat_text_plain [of n] by (simp add: list_all_iff)
  ultimately show ?thesis by blast
qed

lemma token_of_place:
  "pointer_token (place_text p) = (case p of Key k \<Rightarrow> k | Index i \<Rightarrow> nat_text i)"
  using nat_text_chars by (cases p) (simp_all add: pointer_token_def replace_slashes replace_zeros replace_none)

lemma place_text_slash: "CHR ''/'' \<notin> set (place_text p)"
  using nat_text_chars by (cases p) (auto simp: escape_char_def)

lemma pointer_parts: "ps \<noteq> [] \<Longrightarrow> py_split CHR ''/'' (drop 1 (pointer_text ps)) = map place_text ps"
proof -
  assume ps: "ps \<noteq> []"
  have "drop 1 (pointer_text (p # qs)) = py_join ''/'' (map place_text (p # qs))" for p qs
    by (induction qs arbitrary: p) (simp_all add: pointer_text_def)
  then have "drop 1 (pointer_text ps) = py_join ''/'' (map place_text ps)" using ps by (cases ps) simp_all
  then show ?thesis using ps place_text_slash by (auto intro!: py_split_join)
qed

lemma index_step: "i < length xs \<Longrightarrow> pointer_step (JList xs) (nat_text i) = Some (xs ! i)"
proof -
  have "py_int (nat_text i) = Some (int i)" using py_int_text [of "int i"] by (simp add: int_text_def)
  then show "i < length xs \<Longrightarrow> ?thesis" by (simp add: pointer_step_def Let_def)
qed

lemma steps_of_walk: "walk v ps = Some w \<Longrightarrow> pointer_steps v (map place_text ps) = Inr w"
proof (induction v ps rule: walk.induct)
  case (2 d k ps)
  then show ?case using token_of_place [of "Key k"] by (auto simp: pointer_step_def bind_eq_Some_conv)
next
  case (3 xs i ps)
  then show ?case using token_of_place [of "Index i"] by (auto simp: index_step split: if_splits)
qed simp_all

text \<open>
  C40: Every value of a lock can be asked for. The keys and the indices that lead to a value, written as a
  pointer with the tildes and the slashes of the keys escaped, reach exactly that value; a key made of digits
  or holding slashes is not taken for anything else.
\<close>
theorem pointer_reaches:
  assumes "walk v ps = Some w"
  shows "json_pointer v (pointer_text ps) = Inr w"
proof (cases "ps = []")
  case True
  then show ?thesis using assms by (simp add: json_pointer_def pointer_text_def)
next
  case False
  then have "pointer_text ps \<noteq> []" "py_startswith (pointer_text ps) ''/''"
    by (cases ps; simp add: pointer_text_def py_startswith_def)+
  then show ?thesis unfolding json_pointer_def pointer_parts [OF False] by (simp add: steps_of_walk [OF assms])
qed

text \<open>The pointers of RFC 6901 do not count from the end and do not take other spellings of a number.\<close>

lemma pointer_counts_back:
  "json_pointer (JList [JInt 5, JInt 7]) ''/-1'' = Inr (JInt 7)"
  "json_pointer (JList [JInt 5, JInt 7]) ''/01'' = Inr (JInt 7)"
  "json_pointer (JList [JInt 5, JInt 7]) ''/ 1'' = Inr (JInt 7)"
  by code_simp+

section \<open>What a replacement changes\<close>

lemma dset_keys: "k \<in> set (map fst d) \<Longrightarrow> map fst (dset k v d) = map fst d"
  by (induction d) auto

text \<open>What an accepted lock is: an object that names itself as its file does, of a flavor with a generator.\<close>

definition names_itself :: "lock_record \<Rightarrow> json \<Rightarrow> bool" where
  "names_itself r v \<longleftrightarrow> (\<exists>d. v = JObj d \<and> dget_or d ''flavor'' (dget_or d ''distro'' JNull) = JStr (lr_flavor r)
     \<and> json_str (dget_or d ''release'' JNull) = lr_release r \<and> dget_or d ''target_cpu'' JNull = JStr (lr_arch r))"

lemma check_identity_Inr: "check_identity r v = Inr () \<longleftrightarrow> names_itself r v"
  by (auto simp: check_identity_def lock_identity_def names_itself_def attempt_Inr split: json.splits if_splits)

lemma validate_replacement_Inr:
  assumes "validate_replacement r v = Inr ()"
  obtains lock where "v = JObj lock" "names_itself r v" "lr_flavor r \<in> set RPM_FLAVORS \<Longrightarrow> check_rpm_policy lock = Inr ()"
    "lr_flavor r \<notin> set RPM_FLAVORS \<Longrightarrow> lr_flavor r \<in> set DEB_FLAVORS \<and> (\<exists>x. validate_lock lock = Inr x)"
  using assms
  by (auto simp: validate_replacement_def attempt_Inr check_identity_Inr object_value_def map_error_Inr split: if_splits json.splits)

text \<open>
  The source policy of an accepted RPM lock: there is none when no set of images is built from source, and
  otherwise each payload of a set it names is built by a source of the lock or else named by an exception
  the record carries.
\<close>

definition payloads_explained :: "jobj \<Rightarrow> bool" where
  "payloads_explained lock \<longleftrightarrow>
     (case dget_or lock ''source_policy'' JNull of
        JNull \<Rightarrow> (\<exists>solve. dget_or lock ''solve'' (JObj []) = JObj solve
          \<and> \<not> json_truthy (dget_or solve ''source_image_sets'' (JList [])))
      | JObj recorded \<Rightarrow>
          (\<exists>images producers selected exceptions. policy_inputs lock = Inr (images, producers)
           \<and> texts_of (dget_or recorded ''image_sets'' (JList [])) = Inr selected
           \<and> objects_of (dget_or recorded ''exceptions'' (JList [])) = Inr exceptions
           \<and> (\<forall>img \<in> set selected. \<forall>p \<in> set (payloads_of images img). produced producers p \<longleftrightarrow>
                \<not> (\<exists>raw \<in> set exceptions. \<exists>e. entry_of raw = Some e \<and> exc_package e = name_of p \<and> matches e p)))
      | _ \<Rightarrow> False)"

lemma policy_explains: "check_rpm_policy lock = Inr () \<Longrightarrow> payloads_explained lock"
proof -
  assume ok: "check_rpm_policy lock = Inr ()"
  show ?thesis
  proof (cases "dget_or lock ''source_policy'' JNull = JNull")
    case True
    then show ?thesis using ok
      by (auto simp: check_rpm_policy_def payloads_explained_def attempt_Inr object_value_def split: if_splits json.splits)
  next
    case False
    then obtain images producers recorded where policy: "dget_or lock ''source_policy'' JNull = JObj recorded"
      and inputs: "policy_inputs lock = Inr (images, producers)" and v: "validate_source_policy recorded images producers = Inr ()"
      using ok by (auto simp: check_rpm_policy_def attempt_Inr object_value_def map_error_Inr split: json.splits)
    obtain selected exceptions where read: "texts_of (dget_or recorded ''image_sets'' (JList [])) = Inr selected"
      "objects_of (dget_or recorded ''exceptions'' (JList [])) = Inr exceptions"
      using v by (auto simp: validate_source_policy_def attempt_Inr split: if_splits)
    have "\<forall>img \<in> set selected. \<forall>p \<in> set (payloads_of images img). produced producers p \<longleftrightarrow>
        \<not> (\<exists>raw \<in> set exceptions. \<exists>e. entry_of raw = Some e \<and> exc_package e = name_of p \<and> matches e p)"
      using validated_policy_covers [OF v read] by blast
    then show ?thesis using inputs read by (auto simp: payloads_explained_def policy)
  qed
qed

lemma replace_record_cases:
  "replace_record bytes limit r v files = (files', res) \<Longrightarrow>
     (\<exists>e. res = Inl e \<and> files' = files)
   \<or> (res = Inr () \<and> validate_replacement r v = Inr () \<and> bytes (encode (last (lr_path r)) v) < limit
      \<and> files' = dset (lr_path r) (encode (last (lr_path r)) v) files)"
  by (auto simp: replace_record_def Let_def attempt_Inr split: sum.splits if_splits)


section \<open>Instances\<close>

definition two_paths :: "string list list" where
  "two_paths =
     [[''flavors'', ''fedora'', ''lock'', ''fedora-44-x86_64.lock.json.gz''], [''flavors'', ''fedora'', ''flavor.bzl''],
      [''flavors'', ''debian'', ''lock'', ''debian-13-aarch64.lock.json'']]"

definition fedora_record :: lock_record where
  "fedora_record = \<lparr>lr_path = [''flavors'', ''fedora'', ''lock'', ''fedora-44-x86_64.lock.json.gz''],
     lr_flavor = ''fedora'', lr_release = ''44'', lr_arch = ''x86_64''\<rparr>"

definition debian_record :: lock_record where
  "debian_record = \<lparr>lr_path = [''flavors'', ''debian'', ''lock'', ''debian-13-aarch64.lock.json''],
     lr_flavor = ''debian'', lr_release = ''13'', lr_arch = ''aarch64''\<rparr>"

lemma two_locks: "discover_locks two_paths = Inr [debian_record, fedora_record]"
  by code_simp

theorem locks_listed_and_selected_witness:
  "select [''r''] [debian_record, fedora_record] [''fedora:44''] = Inr [fedora_record]
   \<and> select [''r''] [debian_record, fedora_record] [''fedora:43''] = Inl (NothingSelected ''fedora:43'')"
proof -
  have all: "\<forall>words root. list_all plain_word words \<and> words \<noteq> [] \<and> length words \<le> 3 \<longrightarrow>
      select root [debian_record, fedora_record] [py_join '':'' words] =
        (if filter (agrees words) [debian_record, fedora_record] = [] then Inl (NothingSelected (py_join '':'' words))
         else Inr (filter (agrees words) [debian_record, fedora_record]))"
    using locks_listed_and_selected [OF two_locks] by blast
  have "plain_word ''fedora'' \<and> plain_word ''44'' \<and> plain_word ''43''" by code_simp
  moreover have "filter (agrees [''fedora'', ''44'']) [debian_record, fedora_record] = [fedora_record]"
    "filter (agrees [''fedora'', ''43'']) [debian_record, fedora_record] = []" by code_simp+
  ultimately show ?thesis using all [rule_format, of "[''fedora'', ''44'']" "[''r'']"] all [rule_format, of "[''fedora'', ''43'']" "[''r'']"]
    by simp
qed

definition two_files :: checkout where
  "two_files = map (\<lambda>p. (p, encode (last p) JNull)) two_paths"

definition new_lock :: json where
  "new_lock = JObj [(''target_cpu'', JStr ''x86_64''), (''release'', JInt 44), (''flavor'', JStr ''fedora''),
     (''schema'', LOCK_SCHEMA_JSON)]"

lemma new_lock_accepted:
  "replace_record (\<lambda>c. 10) 20 fedora_record new_lock two_files
     = (dset (lr_path fedora_record) (encode (last (lr_path fedora_record)) new_lock) two_files, Inr ())"
  by code_simp


theorem pointer_reaches_witness:
  "json_pointer (JObj [(''a/b'', JList [JNull, JObj [(''~1'', JInt 3)]])]) ''/a~1b/1/~01'' = Inr (JInt 3)"
proof -
  have "walk (JObj [(''a/b'', JList [JNull, JObj [(''~1'', JInt 3)]])]) [Key ''a/b'', Index 1, Key ''~1''] = Some (JInt 3)"
    by code_simp
  moreover have "pointer_text [Key ''a/b'', Index 1, Key ''~1''] = ''/a~1b/1/~01''" by code_simp
  ultimately show ?thesis using pointer_reaches [of _ "[Key ''a/b'', Index 1, Key ''~1'']"] by metis
qed

end
