(* ===== verification/Spec2Isabelle.thy ===== *)
theory Spec2Isabelle
  imports ClosureCases Command AtomicDump DebDatabase DebLockSound VerityMeta GenerateSound DebModule Relock LockTool
begin

text \<open>
  A model of the locking of buckos-distro, the Python tools under \<^verbatim>\<open>src/tools\<close> that
  turn repository metadata into a lock (which packages a source package needs around it to be built,
  which packages an image holds, in which order sources are built), keep and refresh the locks, and
  write the data Buck reads from them; with the Debian half of these tools and the integrity metadata
  of images.

  \<^bold>\<open>The parts.\<close> \<open>Prelude\<close> holds the Python values (strings as lists of characters, dictionaries as
  association lists in insertion order, \<^verbatim>\<open>sorted\<close>, \<^verbatim>\<open>split\<close>, \<^verbatim>\<open>int\<close>) and
  \<open>VersionOrder\<close> the contract of a version comparison, with what a newest-wins loop returns under it.

  \<^item> \<open>RpmVerCmp\<close> is \<^verbatim>\<open>tools/rpmvercmp.py\<close>: the comparison loop, equal to a lexicographic
    comparison of token keys, and the epoch, version, release comparison, which provides the contract.
  \<^item> \<open>Capability\<close>, \<open>RichDep\<close>, \<open>RichDepRoundtrip\<close>, \<open>Resolve\<close>, \<open>Require\<close> and \<open>RuntimeClosure\<close> are the
    first half of \<^verbatim>\<open>tools/depgraph.py\<close>: constraints, boolean expressions, the resolution of
    one capability, and the worklist of \<^verbatim>\<open>runtime_closure\<close>, whose three nested functions
    share lists that are a state record here. \<open>ClosureSound\<close> and \<open>ClosureCases\<close> say what a closure
    without problems leaves unanswered: nothing plain, no flat choice, and which expressions it does.
  \<^item> \<open>SourceGraph\<close>, \<open>Tarjan\<close>, \<open>TarjanInv\<close>, \<open>TarjanCorrect\<close> and \<open>BuildPlan\<close> are its second half: the
    graph of source packages, the iterative search for strongly connected components, and the plan.
  \<^item> \<open>Package\<close>, \<open>PackageMerge\<close>, \<open>Universe\<close> and \<open>Solve\<close> are \<^verbatim>\<open>tools/solve.py\<close>: package
    records, the layering of repositories, the maps resolution works on, and the solve itself.
  \<^item> \<open>Variants\<close>, \<open>EmitLock\<close> and \<open>PublicBase\<close> are the rest of it: second builds of a source package
    and the routes to them, the lock file with its pins, counts and policy, and the table of
    repositories with the check that only public addresses are recorded. \<open>Command\<close> is the command
    line, the probe file and \<^verbatim>\<open>main\<close>, which composes all of these; what a strict run
    writes is proved complete there.
  \<^item> \<open>Json\<close> and \<open>SourcePolicy\<close> are \<^verbatim>\<open>tools/source_policy.py\<close>.
  \<^item> \<open>Lockfile\<close> and \<open>AtomicDump\<close> are \<^verbatim>\<open>tools/_lockfile.py\<close>: names, releases, identity and
    conversion, and the replacement of a file as a step relation of any number of jobs, shown to
    look like a sequence of whole writes, to end, and to be able to succeed.
  \<^item> \<open>Repodata\<close> and \<open>Relock\<close> are \<^verbatim>\<open>tools/relock.py\<close>: the repositories of a release and the
    copy of their metadata that stays on disk, with the network and the digest as arguments, and the
    refresh of a lock, whose recorded inputs go through the argument parser of the solver again and
    come out as the same question. \<open>Decimals\<close> has the decimal texts both rest on.
  \<^item> \<open>LockTool\<close> is the core of \<^verbatim>\<open>tools/lockfile.py\<close>: the lock files of a checkout
    and the identities in their names, selectors, pointers into a lock, and the checked replacement of
    a lock by another for the same thing.
  \<^item> \<open>DebControl\<close> is the reader of Debian control data in \<^verbatim>\<open>tools/_deb.py\<close> and
    \<open>DebDatabase\<close> its package database, registered package by package; \<open>DebLock\<close> is
    \<^verbatim>\<open>tools/deb_lock.py\<close>, whose resolver, the archive service and the decoding of text are
    arguments, and \<open>DebLockSound\<close> says which binaries and sources a finished lock accounts for.
  \<^item> \<open>Starlark\<close> is the text of Python's JSON and of the two literal writers, with the reader of data
    modules they are written for; \<open>Generate\<close> and \<open>GenerateSound\<close> are \<^verbatim>\<open>tools/generate.py\<close>, from the
    solver's lock to the module that loads, and \<open>DebGenerate\<close> and \<open>DebModule\<close> are
    \<^verbatim>\<open>tools/deb_generate.py\<close>, with the sources cut over the fewest files and put together again.
  \<^item> \<open>Verity\<close>, \<open>VerityTree\<close> and \<open>VerityMeta\<close> are \<^verbatim>\<open>tools/_verity.py\<close>: the geometry of the
    hash tree with its end proved, the tree as a reader of the device sees it (a change of the data
    that keeps the root shows a collision of the hash, which is an argument), and its metadata.

  \<^bold>\<open>How code became definitions.\<close> A function that fails returns a sum with the exception on the left;
  a message is a constructor that carries its arguments. A loop that changes local variables is a
  fold over a record of them. No loop has a bound: every one is proved to end, by the number of
  packages not yet seen, of nodes not yet indexed, or by the text that is left, so no fuel occurs.
  Where the source asks whether two records are the same object, the model keeps the number of the
  record's group or its place in the list.

  \<^bold>\<open>Not modelled.\<close> Opening compressed metadata and what the tools print; files are
  arguments that hold what reading them gives. Of the refresh, the run of the probes and the
  regeneration that follows it; of the lock manager, its comparison of generated and stored files
  with fresh ones and its commands that print or call an editor; of the generators, the index of their modules; of Debian locks, the
  resolution by \<^verbatim>\<open>apt\<close>. The other tools (building, assembling and signing
  trees and images, the remote workers) drive programs outside this code.
  A \<open>char\<close> is a code point below 256, and JSON numbers are integers.
\<close>

end
